(* ===== verification/Prelude.thy ===== *)
theory Prelude
  imports Main "HOL-Library.Monad_Syntax"
begin

text \<open>
  The vocabulary the component theories share: the machine integers of the C++ code as
  \<open>int\<close> with the wrap-around written out, C++'s truncating division, null-able pointers
  and the collections of simplification rules.

  \<^item> \<open>to_i32\<close>, \<open>to_i64\<close>, \<open>to_u32\<close>, \<open>to_u64\<close> are the value conversions of the code's
    \<open>int\<close>, \<open>long long\<close>, \<open>unsigned int\<close> and \<open>unsigned long long\<close> (two's complement). Unsigned
    arithmetic wraps, so the models apply them after each unsigned operation. Overflow of a
    signed operation is undefined in C++: there the models use the unbounded value, which is
    the value of every execution that has one, and apply a conversion only where the code
    narrows (\<open>long long\<close> passed to an \<open>int\<close> parameter).
  \<^item> \<open>c_div\<close> and \<open>c_mod\<close> are \<open>/\<close> and \<open>%\<close>, rounding towards zero.
  \<^item> A pointer is an address or \<open>None\<close> for the null pointer. An operation on the store returns
    an \<open>option\<close>: \<open>None\<close> stands for undefined behaviour (a null or dangling dereference) or
    for a recursion that does not return within its fuel.
\<close>

named_theorems machine_ints \<open>conversions of in-range values\<close>
named_theorems frame_simps \<open>fields an operation leaves alone\<close>
named_theorems inv_intros \<open>preservation of the components' invariants\<close>

subsection \<open>Machine integers\<close>

definition to_i16 :: "int \<Rightarrow> int" where
  "to_i16 x = (x + 2 ^ 15) mod 2 ^ 16 - 2 ^ 15"

definition to_i32 :: "int \<Rightarrow> int" where
  "to_i32 x = (x + 2 ^ 31) mod 2 ^ 32 - 2 ^ 31"

definition to_i64 :: "int \<Rightarrow> int" where
  "to_i64 x = (x + 2 ^ 63) mod 2 ^ 64 - 2 ^ 63"

definition to_u32 :: "int \<Rightarrow> int" where
  "to_u32 x = x mod 2 ^ 32"

definition to_u64 :: "int \<Rightarrow> int" where
  "to_u64 x = x mod 2 ^ 64"

definition in_i32 :: "int \<Rightarrow> bool" where
  "in_i32 x \<longleftrightarrow> - (2 ^ 31) \<le> x \<and> x < 2 ^ 31"

definition in_i64 :: "int \<Rightarrow> bool" where
  "in_i64 x \<longleftrightarrow> - (2 ^ 63) \<le> x \<and> x < 2 ^ 63"

definition in_u64 :: "int \<Rightarrow> bool" where
  "in_u64 x \<longleftrightarrow> 0 \<le> x \<and> x < 2 ^ 64"

lemma to_i32_id [machine_ints]: "in_i32 x \<Longrightarrow> to_i32 x = x"
  by (simp add: to_i32_def in_i32_def)

lemma to_i64_id [machine_ints]: "in_i64 x \<Longrightarrow> to_i64 x = x"
  by (simp add: to_i64_def in_i64_def)

lemma to_u64_id [machine_ints]: "in_u64 x \<Longrightarrow> to_u64 x = x"
  by (simp add: to_u64_def in_u64_def)

lemma in_i32_to_i32: "in_i32 (to_i32 x)"
proof -
  have "0 \<le> (x + 2 ^ 31) mod 2 ^ 32" and "(x + 2 ^ 31) mod 2 ^ 32 < (2 ^ 32 :: int)"
    by simp_all
  then show ?thesis unfolding to_i32_def in_i32_def by (simp add: algebra_simps)
qed

lemma in_u64_to_u64: "in_u64 (to_u64 x)"
  by (simp add: to_u64_def in_u64_def)

lemma to_u64_bounds: "0 \<le> to_u64 x" "to_u64 x < 2 ^ 64"
  by (simp_all add: to_u64_def)

subsection \<open>Truncating division\<close>

definition c_div :: "int \<Rightarrow> int \<Rightarrow> int" where
  "c_div a b = (if (a < 0) = (b < 0) then \<bar>a\<bar> div \<bar>b\<bar> else - (\<bar>a\<bar> div \<bar>b\<bar>))"

definition c_mod :: "int \<Rightarrow> int \<Rightarrow> int" where
  "c_mod a b = a - b * c_div a b"

lemma c_div_nonneg: "0 \<le> a \<Longrightarrow> 0 < b \<Longrightarrow> c_div a b = a div b"
  by (simp add: c_div_def)

lemma c_mod_nonneg: "0 \<le> a \<Longrightarrow> 0 < b \<Longrightarrow> c_mod a b = a mod b"
  by (simp add: c_mod_def c_div_nonneg minus_mult_div_eq_mod)

subsection \<open>Pointers\<close>

type_synonym addr = nat
type_synonym ptr = "addr option"

lemma bind_Some_iff: "(m \<bind> f = Some y) = (\<exists>x. m = Some x \<and> f x = Some y)"
  by (cases m) simp_all


subsection \<open>Loops that may fail\<close>

text \<open>A \<open>for\<close> loop over a list, with the state as accumulator; \<open>None\<close> stops it.\<close>

fun for_each :: "('a \<Rightarrow> 's \<Rightarrow> 's option) \<Rightarrow> 'a list \<Rightarrow> 's \<Rightarrow> 's option" where
  "for_each f [] s = Some s"
| "for_each f (a # as) s = do { s \<leftarrow> f a s; for_each f as s }"

lemma bind_for_each_Nil [simp]: "m \<bind> for_each f [] = m"
  by (cases m) simp_all

lemma for_each_invariant:
  assumes "for_each f as s = Some s'" and "P s"
    and "\<And>a s s'. a \<in> set as \<Longrightarrow> P s \<Longrightarrow> f a s = Some s' \<Longrightarrow> P s'"
  shows "P s'"
  using assms
proof (induction as arbitrary: s)
  case (Cons a as)
  from Cons.prems(1) obtain s1 where "f a s = Some s1" "for_each f as s1 = Some s'"
    by (auto simp: bind_Some_iff)
  then show ?case using Cons.IH [of s1] Cons.prems(2,3) by auto
qed simp

lemma for_each_total:
  assumes "P s" and "\<And>a s. a \<in> set as \<Longrightarrow> P s \<Longrightarrow> \<exists>s'. f a s = Some s' \<and> P s'"
  shows "\<exists>s'. for_each f as s = Some s' \<and> P s'"
  using assms
proof (induction as arbitrary: s)
  case (Cons a as)
  obtain s1 where "f a s = Some s1" "P s1" using Cons.prems by auto
  then show ?case using Cons.IH [of s1] Cons.prems(2) by auto
qed simp

lemma for_each_append: "for_each f (as @ bs) s = do { s \<leftarrow> for_each f as s; for_each f bs s }"
  by (induction as arbitrary: s) (auto simp: bind_eq_Some_conv split: Option.bind_splits)

end
