(* ===== verification/RBTree.thy ===== *)
theory RBTree
  imports Prelude
begin

text \<open>
  The red-black tree of \<open>base/rbtree.h\<close> and \<open>base/rbtree.inl\<close>: left-leaning, with parent
  pointers and subtree sizes, so that it answers rank queries. This theory holds the pointer
  program over an explicit store; \<open>RBTree_Shape\<close> relates it to trees.
\<close>

subsection \<open>State\<close>

datatype Color = RED | BLACK

record 'v node =
  color :: Color
  leftNode :: ptr
  rightNode :: ptr
  parent :: ptr
  childs_number :: int
  node_value :: 'v

text \<open>
  The tree object with the store its nodes live in. \<open>next_addr\<close> is the address the next
  \<open>new Node\<close> gets; nothing in this class calls \<open>delete\<close> on a single node.
\<close>

record 'v rbtree =
  heap :: "addr \<rightharpoonup> 'v node"
  next_addr :: addr
  root :: ptr

definition empty_tree :: "'v rbtree" where
  "empty_tree = \<lparr>heap = Map.empty, next_addr = 0, root = None\<rparr>"

definition deref :: "'v rbtree \<Rightarrow> ptr \<Rightarrow> 'v node option" where
  "deref t p = (case p of None \<Rightarrow> None | Some a \<Rightarrow> heap t a)"

definition put :: "'v rbtree \<Rightarrow> ptr \<Rightarrow> ('v node \<Rightarrow> 'v node) \<Rightarrow> 'v rbtree option" where
  "put t p f = (case p of None \<Rightarrow> None | Some a \<Rightarrow>
     (case heap t a of None \<Rightarrow> None
      | Some n \<Rightarrow> Some (t\<lparr>heap := (heap t)(a \<mapsto> f n)\<rparr>)))"

subsection \<open>Node operations\<close>

definition count_of :: "'v rbtree \<Rightarrow> ptr \<Rightarrow> int option" where
  "count_of t p = (if p = None then Some 0 else map_option childs_number (deref t p))"

fun refresh_child :: "nat \<Rightarrow> 'v rbtree \<Rightarrow> ptr \<Rightarrow> 'v rbtree option" where
  "refresh_child 0 t p = None"
| "refresh_child (Suc k) t p = do {
     n \<leftarrow> deref t p;
     let bch = childs_number n;
     t \<leftarrow> put t p (childs_number_update (\<lambda>_. 1));
     r \<leftarrow> count_of t (rightNode n);
     t \<leftarrow> put t p (childs_number_update (\<lambda>c. c + r));
     l \<leftarrow> count_of t (leftNode n);
     t \<leftarrow> put t p (childs_number_update (\<lambda>c. c + l));
     n \<leftarrow> deref t p;
     if bch \<noteq> childs_number n \<and> parent n \<noteq> None then refresh_child k t (parent n) else Some t }"

text \<open>
  The climb of \<open>refresh_child\<close> visits distinct nodes until it meets one whose count is right,
  so as many steps as there are addresses, and a few more, are enough (\<open>RBTree_Shape\<close>).
\<close>

definition refresh :: "'v rbtree \<Rightarrow> ptr \<Rightarrow> 'v rbtree option" where
  "refresh t p = refresh_child (next_addr t + 3) t p"

definition set_parent :: "'v rbtree \<Rightarrow> ptr \<Rightarrow> ptr \<Rightarrow> 'v rbtree option" where
  "set_parent t n p = (if n = None then Some t else put t n (parent_update (\<lambda>_. p)))"

definition set_left :: "'v rbtree \<Rightarrow> ptr \<Rightarrow> ptr \<Rightarrow> 'v rbtree option" where
  "set_left t this n = do {
     t \<leftarrow> put t this (leftNode_update (\<lambda>_. n));
     t \<leftarrow> set_parent t n this;
     refresh t this }"

definition set_rigth :: "'v rbtree \<Rightarrow> ptr \<Rightarrow> ptr \<Rightarrow> 'v rbtree option" where
  "set_rigth t this n = do {
     t \<leftarrow> put t this (rightNode_update (\<lambda>_. n));
     t \<leftarrow> set_parent t n this;
     refresh t this }"

fun get_min_loop :: "nat \<Rightarrow> 'v rbtree \<Rightarrow> ptr \<Rightarrow> ptr option" where
  "get_min_loop 0 t r = None"
| "get_min_loop (Suc k) t r = do {
     n \<leftarrow> deref t r;
     if leftNode n \<noteq> None then get_min_loop k t (leftNode n) else Some r }"

definition get_min :: "'v rbtree \<Rightarrow> ptr \<Rightarrow> ptr option" where
  "get_min t r = get_min_loop (next_addr t + 1) t r"

definition is_red :: "'v rbtree \<Rightarrow> ptr \<Rightarrow> bool option" where
  "is_red t p = (if p = None then Some False else map_option (\<lambda>n. color n = RED) (deref t p))"

definition set_color :: "'v rbtree \<Rightarrow> ptr \<Rightarrow> Color \<Rightarrow> 'v rbtree option" where
  "set_color t p c = put t p (color_update (\<lambda>_. c))"

subsection \<open>Insertion\<close>

definition initNode :: "'v rbtree \<Rightarrow> 'v \<Rightarrow> 'v rbtree \<times> ptr" where
  "initNode t v =
     (let a = next_addr t;
          n = \<lparr>color = RED, leftNode = None, rightNode = None, parent = None,
               childs_number = 1, node_value = v\<rparr>
      in (t\<lparr>heap := (heap t)(a \<mapsto> n), next_addr := a + 1\<rparr>, Some a))"

definition left_rotation :: "'v rbtree \<Rightarrow> ptr \<Rightarrow> ('v rbtree \<times> ptr) option" where
  "left_rotation t nd = do {
     n \<leftarrow> deref t nd;
     let x = rightNode n;
     xn \<leftarrow> deref t x;
     t \<leftarrow> set_rigth t nd (leftNode xn);
     t \<leftarrow> set_left t x nd;
     n \<leftarrow> deref t nd;
     t \<leftarrow> set_color t x (color n);
     t \<leftarrow> set_color t nd RED;
     Some (t, x) }"

definition right_rotation :: "'v rbtree \<Rightarrow> ptr \<Rightarrow> ('v rbtree \<times> ptr) option" where
  "right_rotation t nd = do {
     n \<leftarrow> deref t nd;
     let x = leftNode n;
     xn \<leftarrow> deref t x;
     t \<leftarrow> set_left t nd (rightNode xn);
     t \<leftarrow> set_rigth t x nd;
     n \<leftarrow> deref t nd;
     t \<leftarrow> set_color t x (color n);
     t \<leftarrow> set_color t nd RED;
     Some (t, x) }"

fun flip_color :: "Color \<Rightarrow> Color" where
  "flip_color RED = BLACK"
| "flip_color BLACK = RED"

definition flip_colors :: "'v rbtree \<Rightarrow> ptr \<Rightarrow> 'v rbtree option" where
  "flip_colors t nd = do {
     n \<leftarrow> deref t nd;
     t \<leftarrow> put t nd (color_update flip_color);
     t \<leftarrow> put t (leftNode n) (color_update flip_color);
     put t (rightNode n) (color_update flip_color) }"

text \<open>The three repairs at the end of \<open>recursive_insertion\<close>, in the code's order.\<close>

definition fix_right :: "'v rbtree \<Rightarrow> ptr \<Rightarrow> ('v rbtree \<times> ptr) option" where
  "fix_right t nd = do {
     n \<leftarrow> deref t nd;
     rr \<leftarrow> is_red t (rightNode n);
     if rr then left_rotation t nd else Some (t, nd) }"

definition fix_left :: "'v rbtree \<Rightarrow> ptr \<Rightarrow> ('v rbtree \<times> ptr) option" where
  "fix_left t nd = do {
     n \<leftarrow> deref t nd;
     lr \<leftarrow> is_red t (leftNode n);
     if lr then do {
       ln \<leftarrow> deref t (leftNode n);
       llr \<leftarrow> is_red t (leftNode ln);
       if llr then right_rotation t nd else Some (t, nd) }
     else Some (t, nd) }"

definition fix_both :: "'v rbtree \<Rightarrow> ptr \<Rightarrow> 'v rbtree option" where
  "fix_both t nd = do {
     n \<leftarrow> deref t nd;
     lr \<leftarrow> is_red t (leftNode n);
     rr \<leftarrow> is_red t (rightNode n);
     if lr \<and> rr then flip_colors t nd else Some t }"

fun recursive_insertion ::
  "('v \<Rightarrow> 'v \<Rightarrow> bool) \<Rightarrow> nat \<Rightarrow> 'v rbtree \<Rightarrow> ptr \<Rightarrow> 'v \<Rightarrow> ('v rbtree \<times> ptr) option" where
  "recursive_insertion lt 0 t nd v = None"
| "recursive_insertion lt (Suc k) t nd v =
     (if nd = None then Some (initNode t v)
      else do {
        n \<leftarrow> deref t nd;
        t \<leftarrow> (if lt (node_value n) v then do {
                (t, c) \<leftarrow> recursive_insertion lt k t (rightNode n) v;
                set_rigth t nd c }
              else if lt v (node_value n) then do {
                (t, c) \<leftarrow> recursive_insertion lt k t (leftNode n) v;
                set_left t nd c }
              else Some t);
        t \<leftarrow> refresh t nd;
        (t, nd) \<leftarrow> fix_right t nd;
        (t, nd) \<leftarrow> fix_left t nd;
        t \<leftarrow> fix_both t nd;
        Some (t, nd) })"

definition insert_value :: "('v \<Rightarrow> 'v \<Rightarrow> bool) \<Rightarrow> 'v rbtree \<Rightarrow> 'v \<Rightarrow> 'v rbtree option" where
  "insert_value lt t v = do {
     (t, r) \<leftarrow> recursive_insertion lt (next_addr t + 1) t (root t) v;
     set_color (t\<lparr>root := r\<rparr>) r BLACK }"

subsection \<open>Queries\<close>

text \<open>
  \<open>recursive_search\<close> writes the rank into the reference parameter \<open>out\<close>, which the caller
  leaves uninitialised: the model takes its previous content and returns the new one.
\<close>

fun recursive_search ::
  "('v \<Rightarrow> 'v \<Rightarrow> bool) \<Rightarrow> nat \<Rightarrow> 'v rbtree \<Rightarrow> ptr \<Rightarrow> 'v \<Rightarrow> int \<Rightarrow> (ptr \<times> int) option" where
  "recursive_search lt 0 t nd v out = None"
| "recursive_search lt (Suc k) t nd v out =
     (if nd = None then Some (None, out)
      else do {
        n \<leftarrow> deref t nd;
        if lt v (node_value n) then recursive_search lt k t (leftNode n) v out
        else if lt (node_value n) v then do {
          l \<leftarrow> count_of t (leftNode n);
          let temp = 1 + l;
          (r, out) \<leftarrow> recursive_search lt k t (rightNode n) v out;
          Some (r, out + temp) }
        else do {
          l \<leftarrow> count_of t (leftNode n);
          Some (nd, 0 + l) } })"

definition search :: "('v \<Rightarrow> 'v \<Rightarrow> bool) \<Rightarrow> 'v rbtree \<Rightarrow> 'v \<Rightarrow> int \<Rightarrow> (ptr \<times> int) option" where
  "search lt t v out = recursive_search lt (next_addr t + 1) t (root t) v out"

definition tree_size :: "'v rbtree \<Rightarrow> int option" where
  "tree_size t = (if root t = None then Some 0 else map_option childs_number (deref t (root t)))"

text \<open>
  \<open>by_index(index, n)\<close> takes a null \<open>n\<close> for the root. Its consistency check only prints.
\<close>

fun by_index_loop :: "nat \<Rightarrow> 'v rbtree \<Rightarrow> int \<Rightarrow> ptr \<Rightarrow> ptr option" where
  "by_index_loop 0 t index nd = None"
| "by_index_loop (Suc k) t index nd =
     (let nd = (if nd = None then root t else nd)
      in if nd = None then Some None
         else do {
           n \<leftarrow> deref t nd;
           l \<leftarrow> count_of t (leftNode n);
           if leftNode n \<noteq> None \<and> index < l then by_index_loop k t index (leftNode n)
           else do {
             let index = (if leftNode n \<noteq> None then index - l else index);
             if index = 0 then Some nd
             else do {
               let index = index - 1;
               if rightNode n \<noteq> None then by_index_loop k t index (rightNode n)
               else Some None } } })"

definition by_index :: "'v rbtree \<Rightarrow> int \<Rightarrow> ptr option" where
  "by_index t index = by_index_loop (next_addr t + 1) t index None"

subsection \<open>Iteration\<close>

definition begin_iter :: "'v rbtree \<Rightarrow> ptr option" where
  "begin_iter t = get_min t (root t)"

text \<open>
  The climb of \<open>operator++\<close>: to the first ancestor of which the node is the left child, or to
  null past a node without parent.
\<close>

fun climb :: "nat \<Rightarrow> 'v rbtree \<Rightarrow> ptr \<Rightarrow> ptr option" where
  "climb 0 t nd = None"
| "climb (Suc k) t nd = do {
     n \<leftarrow> deref t nd;
     if parent n = None then Some None
     else do {
       p \<leftarrow> deref t (parent n);
       if leftNode p = nd then Some (parent n) else climb k t (parent n) } }"

definition next_iter :: "'v rbtree \<Rightarrow> ptr \<Rightarrow> ptr option" where
  "next_iter t nd = do {
     n \<leftarrow> deref t nd;
     if rightNode n \<noteq> None then get_min t (rightNode n)
     else climb (next_addr t + 1) t nd }"

subsection \<open>Deletion\<close>

fun rightmost_loop :: "nat \<Rightarrow> 'v rbtree \<Rightarrow> ptr \<Rightarrow> ptr option" where
  "rightmost_loop 0 t r = None"
| "rightmost_loop (Suc k) t r = do {
     n \<leftarrow> deref t r;
     if rightNode n \<noteq> None then rightmost_loop k t (rightNode n) else Some r }"

definition TREE_SUCCESSOR :: "'v rbtree \<Rightarrow> ptr \<Rightarrow> ptr option" where
  "TREE_SUCCESSOR t z =
     (if z = None then Some None
      else do {
        n \<leftarrow> deref t z;
        if rightNode n = None then Some None
        else get_min_loop (next_addr t + 1) t (rightNode n) })"

definition TREE_MINOR :: "'v rbtree \<Rightarrow> ptr \<Rightarrow> ptr option" where
  "TREE_MINOR t z =
     (if z = None then Some None
      else do {
        n \<leftarrow> deref t z;
        if leftNode n = None then Some None
        else rightmost_loop (next_addr t + 1) t (leftNode n) })"

text \<open>The node itself is unlinked, never freed. With a null parent the code goes on to use it.\<close>

definition remove_leaf :: "'v rbtree \<Rightarrow> ptr \<Rightarrow> 'v rbtree option" where
  "remove_leaf t z = do {
     n \<leftarrow> deref t z;
     let p = parent n;
     let t = (if p = None then t\<lparr>root := None\<rparr> else t);
     pn \<leftarrow> deref t p;
     t \<leftarrow> (if leftNode pn = z then set_left t p None else Some t);
     pn \<leftarrow> deref t p;
     t \<leftarrow> (if rightNode pn = z then set_rigth t p None else Some t);
     refresh t p }"

fun my_delete_node :: "nat \<Rightarrow> 'v rbtree \<Rightarrow> ptr \<Rightarrow> 'v rbtree option" where
  "my_delete_node 0 t z = None"
| "my_delete_node (Suc k) t z =
     (if z = None then Some t
      else do {
        n \<leftarrow> deref t z;
        if leftNode n = None \<and> rightNode n = None then remove_leaf t z
        else do {
          t \<leftarrow> (if rightNode n \<noteq> None then do {
                  y \<leftarrow> TREE_SUCCESSOR t z;
                  yn \<leftarrow> deref t y;
                  t \<leftarrow> put t z (node_value_update (\<lambda>_. node_value yn));
                  my_delete_node k t y }
                else Some t);
          n \<leftarrow> deref t z;
          if leftNode n \<noteq> None then do {
            y \<leftarrow> TREE_MINOR t z;
            yn \<leftarrow> deref t y;
            t \<leftarrow> put t z (node_value_update (\<lambda>_. node_value yn));
            my_delete_node k t y }
          else Some t } })"

definition my_delete :: "('v \<Rightarrow> 'v \<Rightarrow> bool) \<Rightarrow> 'v rbtree \<Rightarrow> 'v \<Rightarrow> 'v rbtree option" where
  "my_delete lt t v = do {
     (n, index) \<leftarrow> search lt t v 0;
     if n \<noteq> None then my_delete_node (next_addr t + 1) t n else Some t }"

end
