(* ===== verification/RBTree_Shape.thy ===== *)
theory RBTree_Shape
  imports RBTree
begin

text \<open>
  When a store holds a tree. \<open>shape h q t\<close> says that the nodes of the store \<open>h\<close> at the
  addresses of \<open>t\<close> are linked as \<open>t\<close> is, with right parent pointers and sizes below the top
  node, whose own parent pointer is \<open>q\<close>. The rest of the theory shows that the upward
  recomputation \<open>refresh_child\<close> returns, and what it changes: only sizes, and only on the
  path it climbs.
\<close>

datatype 'v atree = ALeaf | ANode addr Color "'v atree" 'v "'v atree"

primrec addrs :: "'v atree \<Rightarrow> addr set" where
  "addrs ALeaf = {}"
| "addrs (ANode a c l v r) = insert a (addrs l \<union> addrs r)"

primrec rootp :: "'v atree \<Rightarrow> ptr" where
  "rootp ALeaf = None"
| "rootp (ANode a c l v r) = Some a"

primrec asize :: "'v atree \<Rightarrow> nat" where
  "asize ALeaf = 0"
| "asize (ANode a c l v r) = 1 + asize l + asize r"

primrec aheight :: "'v atree \<Rightarrow> nat" where
  "aheight ALeaf = 0"
| "aheight (ANode a c l v r) = 1 + max (aheight l) (aheight r)"

primrec disj_addrs :: "'v atree \<Rightarrow> bool" where
  "disj_addrs ALeaf = True"
| "disj_addrs (ANode a c l v r) \<longleftrightarrow>
     a \<notin> addrs l \<and> a \<notin> addrs r \<and> addrs l \<inter> addrs r = {} \<and> disj_addrs l \<and> disj_addrs r"

type_synonym 'v store = "addr \<rightharpoonup> 'v node"

primrec shape :: "'v store \<Rightarrow> ptr \<Rightarrow> 'v atree \<Rightarrow> bool" where
  "shape h q ALeaf = True"
| "shape h q (ANode a c l v r) \<longleftrightarrow>
     h a = Some \<lparr>color = c, leftNode = rootp l, rightNode = rootp r, parent = q,
                 childs_number = 1 + int (asize r) + int (asize l), node_value = v\<rparr>
     \<and> shape h (Some a) l \<and> shape h (Some a) r"

lemma finite_addrs [simp]: "finite (addrs t)"
  by (induction t) auto

lemma rootp_None_iff [simp]: "rootp t = None \<longleftrightarrow> t = ALeaf"
  by (cases t) auto

lemma None_rootp_iff [simp]: "None = rootp t \<longleftrightarrow> t = ALeaf"
  by (cases t) auto

lemma rootp_Some: "rootp t = Some a \<Longrightarrow> a \<in> addrs t"
  by (cases t) auto

lemma card_addrs: "disj_addrs t \<Longrightarrow> card (addrs t) = asize t"
  by (induction t) (auto simp: card_Un_disjoint)

lemma aheight_le_asize: "aheight t \<le> asize t"
  by (induction t) auto

lemma shape_dom: "shape h q t \<Longrightarrow> addrs t \<subseteq> dom h"
proof (induction t arbitrary: q)
  case (ANode a c l v r)
  have "addrs l \<subseteq> dom h" by (rule ANode.IH(1) [of "Some a"]) (use ANode.prems in simp)
  moreover have "addrs r \<subseteq> dom h" by (rule ANode.IH(2) [of "Some a"]) (use ANode.prems in simp)
  moreover have "a \<in> dom h" using ANode.prems by auto
  ultimately show ?case by simp
qed simp

lemma shape_cong: "(\<And>x. x \<in> addrs t \<Longrightarrow> h' x = h x) \<Longrightarrow> shape h' q t = shape h q t"
  by (induction t arbitrary: q) auto

lemma shape_upd [simp]: "x \<notin> addrs t \<Longrightarrow> shape (h(x := y)) q t = shape h q t"
  by (rule shape_cong) auto

subsection \<open>Sizes that are right\<close>

definition kids :: "'v node \<Rightarrow> addr set" where
  "kids n = set_option (leftNode n) \<union> set_option (rightNode n)"

definition kids_of :: "'v store \<Rightarrow> addr \<Rightarrow> addr set" where
  "kids_of h a = (case h a of None \<Rightarrow> {} | Some n \<Rightarrow> kids n)"

definition cntp :: "'v store \<Rightarrow> ptr \<Rightarrow> int" where
  "cntp h p = (case p of None \<Rightarrow> 0
     | Some a \<Rightarrow> (case h a of None \<Rightarrow> 0 | Some n \<Rightarrow> childs_number n))"

definition cnt_ok :: "'v store \<Rightarrow> addr \<Rightarrow> bool" where
  "cnt_ok h a \<longleftrightarrow> (\<exists>n. h a = Some n \<and> kids n \<subseteq> dom h \<and> a \<notin> kids n \<and>
     childs_number n = 1 + cntp h (rightNode n) + cntp h (leftNode n))"

lemma cntp_cong: "(\<And>a. p = Some a \<Longrightarrow> h' a = h a) \<Longrightarrow> cntp h' p = cntp h p"
  by (cases p) (auto simp: cntp_def)

lemma cntp_shape: "shape h q t \<Longrightarrow> cntp h (rootp t) = int (asize t)"
  by (cases t) (auto simp: cntp_def)

lemma cnt_ok_cong:
  assumes "h' a = h a" and "\<And>x. x \<in> kids_of h a \<Longrightarrow> h' x = h x" and "cnt_ok h a"
  shows "cnt_ok h' a"
proof -
  from assms(3) obtain n where n: "h a = Some n" "kids n \<subseteq> dom h"
    "childs_number n = 1 + cntp h (rightNode n) + cntp h (leftNode n)" "a \<notin> kids n"
    by (auto simp: cnt_ok_def)
  have same: "h' x = h x" if "x \<in> kids n" for x
    using assms(2) n(1) that by (auto simp: kids_of_def)
  have "cntp h' (rightNode n) = cntp h (rightNode n)"
    by (rule cntp_cong, rule same) (auto simp: kids_def)
  moreover have "cntp h' (leftNode n) = cntp h (leftNode n)"
    by (rule cntp_cong, rule same) (auto simp: kids_def)
  moreover have "kids n \<subseteq> dom h'" using n(2) same by force
  ultimately show ?thesis using n assms(1) by (auto simp: cnt_ok_def)
qed

lemma shape_cnt_ok: "shape h q t \<Longrightarrow> a \<in> addrs t \<Longrightarrow> cnt_ok h a"
proof (induction t arbitrary: q)
  case ALeaf
  then show ?case by simp
next
  case (ANode b c l v r)
  show ?case
  proof (cases "a = b")
    case True
    with ANode.prems shape_dom [of h "Some b" l] shape_dom [of h "Some b" r] show ?thesis
      by (cases l; cases r)
        (auto simp: cnt_ok_def kids_def cntp_def dest: rootp_Some)
  next
    case False
    with ANode show ?thesis by auto
  qed
qed

lemma shape_kids: "shape h q t \<Longrightarrow> a \<in> addrs t \<Longrightarrow> kids_of h a \<subseteq> addrs t"
  by (induction t arbitrary: q) (auto simp: kids_of_def kids_def dest: rootp_Some)

lemma count_of_cntp: "set_option p \<subseteq> dom (heap t) \<Longrightarrow> count_of t p = Some (cntp (heap t) p)"
  by (cases p) (auto simp: count_of_def cntp_def deref_def)

subsection \<open>Stores that differ in sizes only\<close>

definition no_count :: "'v node option \<Rightarrow> 'v node option" where
  "no_count = map_option (childs_number_update (\<lambda>_. 0))"

definition only_counts :: "addr set \<Rightarrow> 'v store \<Rightarrow> 'v store \<Rightarrow> bool" where
  "only_counts P h h' \<longleftrightarrow> (\<forall>x. (x \<notin> P \<longrightarrow> h' x = h x) \<and> no_count (h' x) = no_count (h x))"

lemma only_counts_refl [simp]: "only_counts P h h"
  by (simp add: only_counts_def)

lemma only_counts_trans: "only_counts P h h' \<Longrightarrow> only_counts P h' h'' \<Longrightarrow> only_counts P h h''"
  by (auto simp: only_counts_def)

lemma only_counts_mono: "only_counts P h h' \<Longrightarrow> P \<subseteq> Q \<Longrightarrow> only_counts Q h h'"
  by (auto simp: only_counts_def)

lemma only_counts_upd:
  "h a = Some n \<Longrightarrow> a \<in> P \<Longrightarrow> only_counts P h (h(a \<mapsto> n\<lparr>childs_number := c\<rparr>))"
  by (auto simp: only_counts_def no_count_def)

lemma only_counts_same: "only_counts P h h' \<Longrightarrow> x \<notin> P \<Longrightarrow> h' x = h x"
  by (simp add: only_counts_def)

lemma no_count_eqD:
  assumes "no_count x' = no_count x" and "x = Some n"
  obtains n' where "x' = Some n'" "color n' = color n" "leftNode n' = leftNode n"
    "rightNode n' = rightNode n" "parent n' = parent n" "node_value n' = node_value n"
proof -
  from assms obtain n' where n': "x' = Some n'"
    "n'\<lparr>childs_number := 0\<rparr> = n\<lparr>childs_number := 0\<rparr>"
    by (cases x') (auto simp: no_count_def)
  have "f (n'\<lparr>childs_number := 0\<rparr>) = f (n\<lparr>childs_number := 0\<rparr>)" for f :: "'a node \<Rightarrow> 'b"
    using n'(2) by simp
  then show thesis using that [OF n'(1)] n'(2)
    by (metis node.select_convs node.surjective node.update_convs(5))
qed

lemma only_counts_dom: "only_counts P h h' \<Longrightarrow> dom h' = dom h"
proof -
  assume *: "only_counts P h h'"
  have "h' x = None \<longleftrightarrow> h x = None" for x
  proof -
    have "no_count (h' x) = no_count (h x)" using * by (simp add: only_counts_def)
    then show ?thesis by (cases "h' x"; cases "h x") (auto simp: no_count_def)
  qed
  then show ?thesis by (auto simp: dom_def)
qed

subsection \<open>The climb of \<open>refresh_child\<close>\<close>

text \<open>
  \<open>chain h q ps o\<close>: following parent pointers from \<open>q\<close> visits \<open>ps\<close> and ends with the
  pointer \<open>o\<close>. At the root \<open>o\<close> is null or, after a rotation of the root, a pointer the code
  leaves behind; \<open>stable\<close> says that this leftover ends the climb.
\<close>

fun chain :: "'v store \<Rightarrow> ptr \<Rightarrow> addr list \<Rightarrow> ptr \<Rightarrow> bool" where
  "chain h q [] e \<longleftrightarrow> q = e"
| "chain h q (p # ps) e \<longleftrightarrow> q = Some p \<and>
     (\<exists>n. h p = Some n \<and> kids n \<subseteq> dom h \<and> kids n \<inter> set (p # ps) = {} \<and> p \<notin> set ps \<and>
          chain h (parent n) ps e)"

definition stable :: "'v store \<Rightarrow> ptr \<Rightarrow> addr set \<Rightarrow> bool" where
  "stable h e P \<longleftrightarrow> (\<forall>s. e = Some s \<longrightarrow> s \<in> P \<or> cnt_ok h s \<and> kids_of h s \<inter> P = {})"

lemma chain_distinct: "chain h q ps e \<Longrightarrow> distinct ps"
  by (induction ps arbitrary: q) auto

lemma chain_dom: "chain h q ps e \<Longrightarrow> set ps \<subseteq> dom h"
  by (induction ps arbitrary: q) auto

lemma chain_cong:
  assumes "chain h q ps e" and "\<And>x. x \<in> set ps \<Longrightarrow> no_count (h' x) = no_count (h x)"
    and "dom h \<subseteq> dom h'"
  shows "chain h' q ps e"
  using assms
proof (induction ps arbitrary: q)
  case Nil
  then show ?case by simp
next
  case (Cons p ps)
  then obtain n where n: "q = Some p" "h p = Some n" "kids n \<subseteq> dom h"
    "kids n \<inter> set (p # ps) = {}" "p \<notin> set ps" "chain h (parent n) ps e"
    by auto
  from Cons.prems(2) [of p] n(2) obtain n' where n': "h' p = Some n'"
    "leftNode n' = leftNode n" "rightNode n' = rightNode n" "parent n' = parent n"
    by (metis list.set_intros(1) no_count_eqD)
  have "chain h' (parent n) ps e"
    using Cons.IH [OF n(6)] Cons.prems(2,3) by simp
  moreover have kn: "kids n' = kids n" using n' by (simp add: kids_def)
  moreover have "kids n' \<subseteq> dom h'" unfolding kn using n(3) Cons.prems(3) by (rule order_trans)
  ultimately show ?case using n(1,4,5) n'(1,4) by simp
qed

declare refresh_child.simps [simp del]

lemma refresh_step:
  assumes "heap t a = Some n" and "kids n \<subseteq> dom (heap t)" and "a \<notin> kids n"
    and "c = 1 + cntp (heap t) (rightNode n) + cntp (heap t) (leftNode n)"
    and "t1 = t\<lparr>heap := (heap t)(a \<mapsto> n\<lparr>childs_number := c\<rparr>)\<rparr>"
  shows "refresh_child (Suc k) t (Some a) =
    (if childs_number n \<noteq> c \<and> parent n \<noteq> None then refresh_child k t1 (parent n) else Some t1)"
proof -
  have upd: "cntp ((heap t)(a \<mapsto> m)) (rightNode n) = cntp (heap t) (rightNode n)"
    "cntp ((heap t)(a \<mapsto> m)) (leftNode n) = cntp (heap t) (leftNode n)" for m
    using assms(3) by (auto simp: cntp_def kids_def split: option.split)
  have "count_of (t\<lparr>heap := (heap t)(a \<mapsto> m)\<rparr>) (rightNode n) = Some (cntp (heap t) (rightNode n))"
    "count_of (t\<lparr>heap := (heap t)(a \<mapsto> m)\<rparr>) (leftNode n) = Some (cntp (heap t) (leftNode n))" for m
    using assms(2) upd [of m] by (subst count_of_cntp; auto simp: kids_def)+
  then show ?thesis using assms(1,4,5) by (simp add: refresh_child.simps deref_def put_def Let_def o_def)
qed

lemma refresh_no_change:
  assumes "cnt_ok (heap t) a"
  shows "refresh_child (Suc k) t (Some a) = Some t"
proof -
  from assms obtain n where n: "heap t a = Some n" "kids n \<subseteq> dom (heap t)"
    "a \<notin> kids n" "childs_number n = 1 + cntp (heap t) (rightNode n) + cntp (heap t) (leftNode n)"
    by (auto simp: cnt_ok_def)
  have "n\<lparr>childs_number := childs_number n\<rparr> = n" by simp
  moreover have "(heap t)(a \<mapsto> n) = heap t" using n(1) by (simp add: fun_upd_idem)
  ultimately show ?thesis
    using refresh_step [OF n(1,2,3,4) refl, of k] by simp
qed

lemma refresh_chain:
  assumes "chain (heap t) (Some a) (a # ps) e" and "stable (heap t) e (set (a # ps))"
    and "length ps + 1 < k" and "heap t a = Some n"
  shows "\<exists>h'. refresh_child k t (Some a) = Some (t\<lparr>heap := h'\<rparr>)
    \<and> only_counts (set (a # ps)) (heap t) h'
    \<and> h' a = Some (n\<lparr>childs_number := 1 + cntp (heap t) (rightNode n) + cntp (heap t) (leftNode n)\<rparr>)"
  using assms
proof (induction ps arbitrary: a n t k)
  case Nil
  let ?h = "heap t"
  let ?c = "1 + cntp ?h (rightNode n) + cntp ?h (leftNode n)"
  let ?h1 = "?h(a \<mapsto> n\<lparr>childs_number := ?c\<rparr>)"
  let ?t1 = "t\<lparr>heap := ?h1\<rparr>"
  obtain k' where k: "k = Suc (Suc k')" using Nil.prems(3) by (cases k; cases "k - 1") auto
  from Nil.prems have kd: "kids n \<subseteq> dom ?h" "a \<notin> kids n" "parent n = e" by auto
  have step: "refresh_child k t (Some a) =
    (if childs_number n \<noteq> ?c \<and> parent n \<noteq> None then refresh_child (Suc k') ?t1 e else Some ?t1)"
    using refresh_step [OF Nil.prems(4) kd(1,2) refl refl] kd(3) k by simp
  have a1: "cnt_ok ?h1 a"
    using kd Nil.prems(4) by (auto simp: cnt_ok_def kids_def cntp_def split: option.splits)
  have "refresh_child k t (Some a) = Some ?t1"
  proof (cases e)
    case None
    with step kd show ?thesis by simp
  next
    case (Some s)
    have "cnt_ok ?h1 s"
    proof (cases "s = a")
      case True
      with a1 show ?thesis by simp
    next
      case False
      with Nil.prems(2) Some have s: "cnt_ok ?h s" "a \<notin> kids_of ?h s"
        by (auto simp: stable_def)
      show ?thesis
      proof (rule cnt_ok_cong [of ?h1 s ?h])
        show "?h1 s = ?h s" using False by simp
        show "?h1 x = ?h x" if "x \<in> kids_of ?h s" for x using s(2) that by auto
      qed (rule s(1))
    qed
    then have "refresh_child (Suc k') ?t1 (Some s) = Some ?t1"
      by (intro refresh_no_change) simp
    with step Some show ?thesis by simp
  qed
  then show ?case using Nil.prems(4) by (auto intro!: only_counts_upd)
next
  case (Cons p ps)
  let ?h = "heap t"
  let ?c = "1 + cntp ?h (rightNode n) + cntp ?h (leftNode n)"
  let ?h1 = "?h(a \<mapsto> n\<lparr>childs_number := ?c\<rparr>)"
  let ?t1 = "t\<lparr>heap := ?h1\<rparr>"
  obtain k' where k: "k = Suc k'" "length ps + 1 < k'" using Cons.prems(3) by (cases k) auto
  from Cons.prems have kd: "kids n \<subseteq> dom ?h" "kids n \<inter> set (a # p # ps) = {}"
    "a \<notin> set (p # ps)" "parent n = Some p" "chain ?h (Some p) (p # ps) e"
    by auto
  have step: "refresh_child k t (Some a) =
    (if childs_number n \<noteq> ?c then refresh_child k' ?t1 (Some p) else Some ?t1)"
    using refresh_step [OF Cons.prems(4) kd(1) _ refl refl] kd(2,4) k by simp
  have oc1: "only_counts {a} ?h ?h1" using Cons.prems(4) by (rule only_counts_upd) simp
  have ch1: "chain ?h1 (Some p) (p # ps) e"
  proof (rule chain_cong [OF kd(5)])
    show "no_count (?h1 x) = no_count (?h x)" for x using oc1 by (simp only: only_counts_def)
  qed auto
  have a1: "cnt_ok ?h1 a"
    using kd Cons.prems(4) by (auto simp: cnt_ok_def kids_def cntp_def split: option.splits)
  have st1: "stable ?h1 e (set (p # ps))"
    unfolding stable_def
  proof (intro allI impI)
    fix s assume s: "e = Some s"
    consider "s \<in> set (p # ps)" | "s = a" | "s \<noteq> a" "cnt_ok ?h s" "kids_of ?h s \<inter> set (a # p # ps) = {}"
      using Cons.prems(2) s by (auto simp: stable_def)
    then show "s \<in> set (p # ps) \<or> cnt_ok ?h1 s \<and> kids_of ?h1 s \<inter> set (p # ps) = {}"
    proof cases
      case 1
      then show ?thesis by simp
    next
      case 2
      have "kids_of ?h1 a = kids n" by (simp add: kids_of_def kids_def)
      with 2 a1 kd(2) show ?thesis by auto
    next
      case 3
      have "cnt_ok ?h1 s" by (rule cnt_ok_cong [of ?h1 s ?h]) (use 3 in auto)
      moreover have "kids_of ?h1 s = kids_of ?h s" using 3 by (simp add: kids_of_def)
      ultimately show ?thesis using 3 by auto
    qed
  qed
  obtain m where m: "?h1 p = Some m" using ch1 by auto
  have hp1: "heap ?t1 = ?h1" by simp
  have IH: "\<exists>h'. refresh_child k' ?t1 (Some p) = Some (?t1\<lparr>heap := h'\<rparr>)
      \<and> only_counts (set (p # ps)) (heap ?t1) h'
      \<and> h' p = Some (m\<lparr>childs_number := 1 + cntp (heap ?t1) (rightNode m) + cntp (heap ?t1) (leftNode m)\<rparr>)"
    by (rule Cons.IH) (simp_all only: hp1 ch1 st1 k(2) m)
  from IH obtain h' where h':
    "refresh_child k' ?t1 (Some p) = Some (?t1\<lparr>heap := h'\<rparr>)"
    "only_counts (set (p # ps)) ?h1 h'"
    unfolding hp1 by blast
  have "h' a = ?h1 a" using h'(2) kd(3) by (auto simp: only_counts_def)
  moreover have "only_counts (set (a # p # ps)) ?h h'"
    using only_counts_trans [of "set (a # p # ps)" ?h ?h1 h'] oc1 h'(2)
    by (meson list.set_intros(1) only_counts_mono set_subset_Cons empty_subsetI insert_subset)
  moreover have "only_counts (set (a # p # ps)) ?h ?h1"
    using oc1 by (rule only_counts_mono) simp
  ultimately show ?case using step h'(1) by auto
qed

end
