(* ===== verification/RBTree_Insert.thy ===== *)
theory RBTree_Insert
  imports RBTree_Shape
begin

text \<open>
  The pointer program's insertion refines insertion into trees: on a store that holds a tree
  it returns, and leaves a store that holds \<open>ins_tree\<close> of it. The rotations relink three
  nodes while ancestors hold outdated sizes and the parent pointer of the top node is left
  behind; \<open>ctx\<close> is what the code relies on about everything outside the subtree it works
  on, and \<open>frame\<close> what it leaves alone there.
\<close>

subsection \<open>The tree operations\<close>

fun is_redt :: "'v atree \<Rightarrow> bool" where
  "is_redt (ANode a RED l v r) = True"
| "is_redt _ = False"

fun rotL :: "'v atree \<Rightarrow> 'v atree" where
  "rotL (ANode a c l v (ANode x cx xl xv xr)) = ANode x c (ANode a RED l v xl) xv xr"
| "rotL t = t"

fun rotR :: "'v atree \<Rightarrow> 'v atree" where
  "rotR (ANode a c (ANode x cx xl xv xr) v r) = ANode x c xl xv (ANode a RED xr v r)"
| "rotR t = t"

fun flip_top :: "'v atree \<Rightarrow> 'v atree" where
  "flip_top ALeaf = ALeaf"
| "flip_top (ANode a c l v r) = ANode a (flip_color c) l v r"

fun tfix_right :: "'v atree \<Rightarrow> 'v atree" where
  "tfix_right ALeaf = ALeaf"
| "tfix_right (ANode a c l v r) = (if is_redt r then rotL (ANode a c l v r) else ANode a c l v r)"

fun left_of :: "'v atree \<Rightarrow> 'v atree" where
  "left_of ALeaf = ALeaf"
| "left_of (ANode a c l v r) = l"

fun tfix_left :: "'v atree \<Rightarrow> 'v atree" where
  "tfix_left ALeaf = ALeaf"
| "tfix_left (ANode a c l v r) =
     (if is_redt l \<and> is_redt (left_of l) then rotR (ANode a c l v r) else ANode a c l v r)"

fun tfix_both :: "'v atree \<Rightarrow> 'v atree" where
  "tfix_both ALeaf = ALeaf"
| "tfix_both (ANode a c l v r) =
     (if is_redt l \<and> is_redt r then ANode a (flip_color c) (flip_top l) v (flip_top r)
      else ANode a c l v r)"

fun ins_tree :: "('v \<Rightarrow> 'v \<Rightarrow> bool) \<Rightarrow> addr \<Rightarrow> 'v \<Rightarrow> 'v atree \<Rightarrow> 'v atree" where
  "ins_tree lt f x ALeaf = ANode f RED ALeaf x ALeaf"
| "ins_tree lt f x (ANode a c l v r) =
     tfix_both (tfix_left (tfix_right
       (if lt v x then ANode a c l v (ins_tree lt f x r)
        else if lt x v then ANode a c (ins_tree lt f x l) v r
        else ANode a c l v r)))"

fun paint_top :: "Color \<Rightarrow> 'v atree \<Rightarrow> 'v atree" where
  "paint_top c ALeaf = ALeaf"
| "paint_top c (ANode a c' l v r) = ANode a c l v r"

lemma addrs_rot [simp]: "addrs (rotL t) = addrs t" "addrs (rotR t) = addrs t"
  by (cases t rule: rotL.cases; auto) (cases t rule: rotR.cases; auto)

lemma addrs_flip_top [simp]: "addrs (flip_top t) = addrs t"
  by (cases t) auto

lemma addrs_fix [simp]: "addrs (tfix_right t) = addrs t" "addrs (tfix_left t) = addrs t"
  "addrs (tfix_both t) = addrs t"
  by (cases t; simp)+

lemma disj_rotL: "disj_addrs t \<Longrightarrow> disj_addrs (rotL t)"
  by (cases t rule: rotL.cases) auto

lemma disj_rotR: "disj_addrs t \<Longrightarrow> disj_addrs (rotR t)"
  by (cases t rule: rotR.cases) auto

lemma disj_flip_top [simp]: "disj_addrs (flip_top t) = disj_addrs t"
  by (cases t) auto

lemma disj_tfix_right: "disj_addrs t \<Longrightarrow> disj_addrs (tfix_right t)"
  by (cases t) (simp_all add: disj_rotL del: rotL.simps)

lemma disj_tfix_left: "disj_addrs t \<Longrightarrow> disj_addrs (tfix_left t)"
  by (cases t) (simp_all add: disj_rotR del: rotR.simps)

lemma disj_tfix_both: "disj_addrs t \<Longrightarrow> disj_addrs (tfix_both t)"
  by (cases t) simp_all

lemmas disj_fix = disj_tfix_right disj_tfix_left disj_tfix_both

lemma rot_not_leaf [simp]: "rotL t = ALeaf \<longleftrightarrow> t = ALeaf" "rotR t = ALeaf \<longleftrightarrow> t = ALeaf"
  by (cases t rule: rotL.cases; simp) (cases t rule: rotR.cases; simp)

lemma fix_not_leaf [simp]: "tfix_right t = ALeaf \<longleftrightarrow> t = ALeaf" "tfix_left t = ALeaf \<longleftrightarrow> t = ALeaf"
  "tfix_both t = ALeaf \<longleftrightarrow> t = ALeaf"
  by (cases t; simp)+

lemma ins_tree_not_leaf [simp]: "ins_tree lt f x t \<noteq> ALeaf"
  by (cases t) (auto split: if_splits)

lemma ins_tree_addrs: "addrs t \<subseteq> addrs (ins_tree lt f x t)"
  "addrs (ins_tree lt f x t) \<subseteq> insert f (addrs t)"
  by (induction t) (auto split: if_splits)

lemma ins_tree_disj: "disj_addrs t \<Longrightarrow> f \<notin> addrs t \<Longrightarrow> disj_addrs (ins_tree lt f x t)"
proof (induction t)
  case ALeaf
  then show ?case by simp
next
  case (ANode a c l v r)
  then show ?case
    using ins_tree_addrs(2) [of lt f x l] ins_tree_addrs(2) [of lt f x r]
    unfolding ins_tree.simps by (intro disj_fix) auto
qed

subsection \<open>What surrounds a subtree\<close>

definition frame :: "addr set \<Rightarrow> addr set \<Rightarrow> 'v store \<Rightarrow> 'v store \<Rightarrow> bool" where
  "frame U P h h' \<longleftrightarrow> dom h \<subseteq> dom h' \<and>
     (\<forall>x. x \<notin> U \<longrightarrow> (x \<notin> P \<longrightarrow> h' x = h x) \<and> no_count (h' x) = no_count (h x))"

definition ctx :: "'v store \<Rightarrow> ptr \<Rightarrow> addr set \<Rightarrow> addr list \<Rightarrow> ptr \<Rightarrow> bool" where
  "ctx h q U ps e \<longleftrightarrow> chain h q ps e \<and> set ps \<inter> U = {} \<and>
     (\<forall>s. e = Some s \<longrightarrow>
        s \<in> set ps \<or> s \<in> U \<or> cnt_ok h s \<and> kids_of h s \<inter> (set ps \<union> U) = {})"

lemma ctx_dom: "ctx h q U ps e \<Longrightarrow> set ps \<subseteq> dom h"
  unfolding ctx_def using chain_dom by blast

lemma ctx_disj: "ctx h q U ps e \<Longrightarrow> set ps \<inter> U = {}"
  by (simp add: ctx_def)

lemma frame_refl [simp]: "frame U P h h"
  by (simp add: frame_def)

lemma frame_trans: "frame U P h h' \<Longrightarrow> frame U P h' h'' \<Longrightarrow> frame U P h h''"
  unfolding frame_def by (metis subset_trans)

lemma frame_mono: "frame U P h h' \<Longrightarrow> U \<subseteq> V \<Longrightarrow> P \<subseteq> Q \<Longrightarrow> frame V Q h h'"
  by (auto simp: frame_def)

lemma frame_shift: "frame U (insert a P) h h' \<Longrightarrow> a \<in> V \<Longrightarrow> U \<subseteq> V \<Longrightarrow> frame V P h h'"
  by (auto simp: frame_def)

lemma frame_same: "frame U P h h' \<Longrightarrow> x \<notin> U \<Longrightarrow> x \<notin> P \<Longrightarrow> h' x = h x"
  by (simp add: frame_def)

lemma frame_shape:
  "frame U P h h' \<Longrightarrow> shape h q t \<Longrightarrow> addrs t \<inter> (U \<union> P) = {} \<Longrightarrow> shape h' q t"
  using shape_cong [of t h' h q] by (auto simp: frame_def)

lemma only_counts_frame: "only_counts P h h' \<Longrightarrow> frame U P h h'"
  by (simp add: frame_def only_counts_dom) (simp add: only_counts_def)

lemma ctx_frame:
  assumes "ctx h q U ps e" and "frame V (set ps) h h'" and "V \<inter> dom h \<subseteq> U" and "U \<subseteq> V"
  shows "ctx h' q V ps e"
proof -
  from assms(1) have c: "chain h q ps e" "set ps \<inter> U = {}"
    and st: "\<And>s. e = Some s \<Longrightarrow>
        s \<in> set ps \<or> s \<in> U \<or> cnt_ok h s \<and> kids_of h s \<inter> (set ps \<union> U) = {}"
    by (auto simp: ctx_def)
  have psV: "set ps \<inter> V = {}" using c chain_dom [OF c(1)] assms(3) by blast
  have "chain h' q ps e"
  proof (rule chain_cong [OF c(1)])
    show "no_count (h' x) = no_count (h x)" if "x \<in> set ps" for x
      using assms(2) psV that by (auto simp: frame_def)
    show "dom h \<subseteq> dom h'" using assms(2) by (simp add: frame_def)
  qed
  moreover have "cnt_ok h' s \<and> kids_of h' s \<inter> (set ps \<union> V) = {}"
    if "e = Some s" "s \<notin> set ps" "s \<notin> V" for s
  proof -
    have s: "cnt_ok h s" "kids_of h s \<inter> (set ps \<union> U) = {}" using st that assms(4) by blast+
    have k: "kids_of h s \<subseteq> dom h" using s(1) by (auto simp: cnt_ok_def kids_of_def)
    have same: "h' s = h s" using frame_same [OF assms(2)] that by simp
    have disj: "kids_of h s \<inter> (set ps \<union> V) = {}" using s(2) k assms(3) by blast
    have "cnt_ok h' s"
      by (rule cnt_ok_cong [where h = h]) (use same s(1) frame_same [OF assms(2)] disj in auto)
    then show ?thesis using disj same by (simp add: kids_of_def)
  qed
  ultimately show ?thesis using psV by (auto simp: ctx_def)
qed

subsection \<open>Recomputing and relinking\<close>

definition bounded :: "'v rbtree \<Rightarrow> bool" where
  "bounded t \<longleftrightarrow> dom (heap t) \<subseteq> {..<next_addr t}"

lemma chain_fuel:
  assumes "bounded t" and "chain (heap t) q ps e"
  shows "length ps \<le> next_addr t"
proof -
  have "set ps \<subseteq> {..<next_addr t}" using assms chain_dom by (fastforce simp: bounded_def)
  then have "card (set ps) \<le> next_addr t" using card_mono [of "{..<next_addr t}"] by simp
  then show ?thesis using chain_distinct [OF assms(2)] by (simp add: distinct_card)
qed

text \<open>
  The common core of \<open>set_left\<close> and \<open>set_rigth\<close>: both children are in place with right
  sizes; the recomputation makes the node's size right and may change ancestors' sizes.
\<close>

lemma refresh_shape:
  assumes b: "bounded t" and n: "heap t a = Some n"
    and L: "shape (heap t) (Some a) L" "rootp L = leftNode n" "a \<notin> addrs L"
    and R: "shape (heap t) (Some a) R" "rootp R = rightNode n" "a \<notin> addrs R"
    and c: "chain (heap t) (parent n) ps e" "set ps \<inter> insert a (addrs L \<union> addrs R) = {}"
    and st: "\<And>s. e = Some s \<Longrightarrow> s \<in> insert a (set ps) \<or> s \<in> addrs L \<union> addrs R \<or>
               cnt_ok (heap t) s \<and> kids_of (heap t) s \<inter> insert a (set ps) = {}"
  shows "\<exists>h'. refresh t (Some a) = Some (t\<lparr>heap := h'\<rparr>)
    \<and> shape h' (parent n) (ANode a (color n) L (node_value n) R)
    \<and> only_counts (insert a (set ps)) (heap t) h'"
proof -
  let ?h = "heap t"
  have kids: "kids n \<subseteq> addrs L \<union> addrs R"
    using L(2) R(2) rootp_Some [of L] rootp_Some [of R] by (auto simp: kids_def)
  have "kids n \<subseteq> dom ?h" using kids shape_dom [OF L(1)] shape_dom [OF R(1)] by blast
  then have ch: "chain ?h (Some a) (a # ps) e"
    using n c kids L(3) R(3) by auto
  have "stable ?h e (set (a # ps))"
    unfolding stable_def
  proof (intro allI impI)
    fix s assume s: "e = Some s"
    have "cnt_ok ?h s \<and> kids_of ?h s \<subseteq> addrs L \<union> addrs R" if "s \<in> addrs L \<union> addrs R"
      using that shape_cnt_ok [OF L(1)] shape_cnt_ok [OF R(1)]
        shape_kids [OF L(1)] shape_kids [OF R(1)] by blast
    then show "s \<in> set (a # ps) \<or> cnt_ok ?h s \<and> kids_of ?h s \<inter> set (a # ps) = {}"
      using st [OF s] c(2) L(3) R(3) by auto
  qed
  moreover have "length ps + 1 < next_addr t + 3"
    using chain_fuel [OF b ch] by simp
  ultimately obtain h' where h': "refresh t (Some a) = Some (t\<lparr>heap := h'\<rparr>)"
    "only_counts (set (a # ps)) ?h h'"
    "h' a = Some (n\<lparr>childs_number := 1 + cntp ?h (rightNode n) + cntp ?h (leftNode n)\<rparr>)"
    using refresh_chain [OF ch] n unfolding refresh_def by blast
  have cn: "cntp ?h (rightNode n) = int (asize R)" "cntp ?h (leftNode n) = int (asize L)"
    using cntp_shape [OF L(1)] cntp_shape [OF R(1)] L(2) R(2) by simp_all
  have "shape h' (Some a) L"
    by (rule frame_shape [OF only_counts_frame [OF h'(2), of "{}"] L(1)]) (use L(3) c(2) in auto)
  moreover have "shape h' (Some a) R"
    by (rule frame_shape [OF only_counts_frame [OF h'(2), of "{}"] R(1)]) (use R(3) c(2) in auto)
  ultimately have "shape h' (parent n) (ANode a (color n) L (node_value n) R)"
    using h'(3) cn L(2) R(2) by simp
  with h' show ?thesis by auto
qed

lemma shape_reparent:
  assumes "shape h q (ANode b c l v r)" and "disj_addrs (ANode b c l v r)"
  shows "shape (h(b \<mapsto> (the (h b))\<lparr>parent := q'\<rparr>)) q' (ANode b c l v r)"
  using assms by simp

text \<open>Linking a subtree below a node: what \<open>set_rigth\<close> and \<open>set_left\<close> establish.\<close>

lemma reparent_root:
  assumes "shape h q R" and "disj_addrs R" and "heap t = h"
  shows "\<exists>h'. set_parent t (rootp R) p = Some (t\<lparr>heap := h'\<rparr>)
    \<and> shape h' p R \<and> dom h' = dom h
    \<and> (\<forall>x. x \<notin> addrs R \<longrightarrow> h' x = h x)
    \<and> (\<forall>x. cnt_ok h x \<longrightarrow> cnt_ok h' x) \<and> (\<forall>x. kids_of h' x = kids_of h x)"
proof (cases R)
  case ALeaf
  have "t\<lparr>heap := h\<rparr> = t" using assms(3) by simp
  with ALeaf show ?thesis by (intro exI [of _ h]) (auto simp: set_parent_def)
next
  case (ANode b c l v r)
  let ?h' = "h(b \<mapsto> (the (h b))\<lparr>parent := p\<rparr>)"
  obtain m where m: "h b = Some m" using assms(1) ANode by auto
  have "set_parent t (rootp R) p = Some (t\<lparr>heap := ?h'\<rparr>)"
    using ANode m assms(3) by (simp add: set_parent_def put_def)
  moreover have "shape ?h' p R"
    unfolding ANode by (rule shape_reparent) (use assms(1,2) ANode in auto)
  moreover have "dom ?h' = dom h" using m by auto
  moreover have "kids_of ?h' x = kids_of h x" for x
    using m by (simp add: kids_of_def kids_def)
  moreover have "cnt_ok ?h' x" if "cnt_ok h x" for x
  proof -
    have "cntp ?h' y = cntp h y" for y using m by (simp add: cntp_def split: option.split)
    moreover have "dom ?h' = dom h" using m by auto
    ultimately show ?thesis using that m by (auto simp: cnt_ok_def kids_def)
  qed
  ultimately show ?thesis using ANode by (intro exI [of _ ?h']) auto
qed

lemma set_rigth_shape:
  assumes b: "bounded t" and n: "heap t a = Some n"
    and L: "shape (heap t) (Some a) L" "rootp L = leftNode n" "a \<notin> addrs L"
    and R: "shape (heap t) q R" "disj_addrs R" "a \<notin> addrs R" "addrs L \<inter> addrs R = {}"
    and c: "chain (heap t) (parent n) ps e" "set ps \<inter> insert a (addrs L \<union> addrs R) = {}"
    and st: "\<And>s. e = Some s \<Longrightarrow> s \<in> insert a (set ps) \<or> s \<in> addrs L \<union> addrs R \<or>
               cnt_ok (heap t) s \<and> kids_of (heap t) s \<inter> insert a (set ps) = {}"
  shows "\<exists>h'. set_rigth t (Some a) (rootp R) = Some (t\<lparr>heap := h'\<rparr>)
    \<and> shape h' (parent n) (ANode a (color n) L (node_value n) R)
    \<and> frame (insert a (addrs R)) (set ps) (heap t) h' \<and> dom h' = dom (heap t)"
proof -
  let ?h = "heap t" let ?n1 = "n\<lparr>rightNode := rootp R\<rparr>"
  let ?h1 = "?h(a \<mapsto> ?n1)" let ?t1 = "t\<lparr>heap := ?h1\<rparr>"
  have put1: "put t (Some a) (rightNode_update (\<lambda>_. rootp R)) = Some ?t1"
    using n by (simp add: put_def)
  have R1: "shape ?h1 q R" using R(1,3) by simp
  obtain h2 where h2: "set_parent ?t1 (rootp R) (Some a) = Some (?t1\<lparr>heap := h2\<rparr>)"
      "shape h2 (Some a) R" "dom h2 = dom ?h1" "\<forall>x. x \<notin> addrs R \<longrightarrow> h2 x = ?h1 x"
      "\<forall>x. cnt_ok ?h1 x \<longrightarrow> cnt_ok h2 x" "\<forall>x. kids_of h2 x = kids_of ?h1 x"
    using reparent_root [OF R1 R(2), of ?t1 "Some a"] by auto
  let ?t2 = "t\<lparr>heap := h2\<rparr>"
  have a2: "h2 a = Some ?n1" using h2(4) R(3) by simp
  have dom2: "dom h2 = dom ?h" using h2(3) n by auto
  have L2: "shape h2 (Some a) L"
    using L(1,3) R(4) h2(4) shape_cong [of L h2 ?h "Some a"] by force
  have ch2: "chain h2 (parent n) ps e"
    by (rule chain_cong [OF c(1)]) (use c(2) h2(4) dom2 in auto)
  have st2: "s \<in> insert a (set ps) \<or> s \<in> addrs L \<union> addrs R \<or>
      cnt_ok h2 s \<and> kids_of h2 s \<inter> insert a (set ps) = {}" if s: "e = Some s" for s
  proof -
    have "cnt_ok h2 s \<and> kids_of h2 s = kids_of ?h s"
      if s': "s \<noteq> a" "cnt_ok ?h s" "a \<notin> kids_of ?h s"
    proof -
      have "cnt_ok ?h1 s" by (rule cnt_ok_cong [where h = ?h]) (use s' in auto)
      then show ?thesis using h2(5,6) s'(1) by (simp add: kids_of_def)
    qed
    then show ?thesis using st [OF s] by blast
  qed
  have "\<exists>h'. refresh ?t2 (Some a) = Some (?t2\<lparr>heap := h'\<rparr>)
    \<and> shape h' (parent ?n1) (ANode a (color ?n1) L (node_value ?n1) R)
    \<and> only_counts (insert a (set ps)) (heap ?t2) h'"
    by (rule refresh_shape [where e = e])
      (use b dom2 a2 L2 L h2(2) R(3) ch2 c(2) st2 in \<open>simp_all add: bounded_def\<close>)
  then obtain h3 where h3: "refresh ?t2 (Some a) = Some (t\<lparr>heap := h3\<rparr>)"
    "shape h3 (parent n) (ANode a (color n) L (node_value n) R)"
    "only_counts (insert a (set ps)) h2 h3" by auto
  have "set_rigth t (Some a) (rootp R) = Some (t\<lparr>heap := h3\<rparr>)"
    using put1 h2(1) h3(1) by (simp add: set_rigth_def)
  moreover have "frame (insert a (addrs R)) (set ps) ?h h3"
  proof (rule frame_trans)
    show "frame (insert a (addrs R)) (set ps) ?h h2" using h2(4) dom2 by (auto simp: frame_def)
    show "frame (insert a (addrs R)) (set ps) h2 h3"
      by (rule frame_shift [OF only_counts_frame [OF h3(3), of "{}"]]) auto
  qed
  moreover have "dom h3 = dom ?h" using only_counts_dom [OF h3(3)] dom2 by simp
  ultimately show ?thesis using h3(2) by blast
qed

lemma set_left_shape:
  assumes b: "bounded t" and n: "heap t a = Some n"
    and L: "shape (heap t) q L" "disj_addrs L" "a \<notin> addrs L" "addrs L \<inter> addrs R = {}"
    and R: "shape (heap t) (Some a) R" "rootp R = rightNode n" "a \<notin> addrs R"
    and c: "chain (heap t) (parent n) ps e" "set ps \<inter> insert a (addrs L \<union> addrs R) = {}"
    and st: "\<And>s. e = Some s \<Longrightarrow> s \<in> insert a (set ps) \<or> s \<in> addrs L \<union> addrs R \<or>
               cnt_ok (heap t) s \<and> kids_of (heap t) s \<inter> insert a (set ps) = {}"
  shows "\<exists>h'. set_left t (Some a) (rootp L) = Some (t\<lparr>heap := h'\<rparr>)
    \<and> shape h' (parent n) (ANode a (color n) L (node_value n) R)
    \<and> frame (insert a (addrs L)) (set ps) (heap t) h' \<and> dom h' = dom (heap t)"
proof -
  let ?h = "heap t" let ?n1 = "n\<lparr>leftNode := rootp L\<rparr>"
  let ?h1 = "?h(a \<mapsto> ?n1)" let ?t1 = "t\<lparr>heap := ?h1\<rparr>"
  have put1: "put t (Some a) (leftNode_update (\<lambda>_. rootp L)) = Some ?t1"
    using n by (simp add: put_def)
  have L1: "shape ?h1 q L" using L(1,3) by simp
  obtain h2 where h2: "set_parent ?t1 (rootp L) (Some a) = Some (?t1\<lparr>heap := h2\<rparr>)"
      "shape h2 (Some a) L" "dom h2 = dom ?h1" "\<forall>x. x \<notin> addrs L \<longrightarrow> h2 x = ?h1 x"
      "\<forall>x. cnt_ok ?h1 x \<longrightarrow> cnt_ok h2 x" "\<forall>x. kids_of h2 x = kids_of ?h1 x"
    using reparent_root [OF L1 L(2), of ?t1 "Some a"] by auto
  let ?t2 = "t\<lparr>heap := h2\<rparr>"
  have a2: "h2 a = Some ?n1" using h2(4) L(3) by simp
  have dom2: "dom h2 = dom ?h" using h2(3) n by auto
  have R2: "shape h2 (Some a) R"
    using R(1,3) L(4) h2(4) shape_cong [of R h2 ?h "Some a"] by force
  have ch2: "chain h2 (parent n) ps e"
    by (rule chain_cong [OF c(1)]) (use c(2) h2(4) dom2 in auto)
  have st2: "s \<in> insert a (set ps) \<or> s \<in> addrs L \<union> addrs R \<or>
      cnt_ok h2 s \<and> kids_of h2 s \<inter> insert a (set ps) = {}" if s: "e = Some s" for s
  proof -
    have "cnt_ok h2 s \<and> kids_of h2 s = kids_of ?h s"
      if s': "s \<noteq> a" "cnt_ok ?h s" "a \<notin> kids_of ?h s"
    proof -
      have "cnt_ok ?h1 s" by (rule cnt_ok_cong [where h = ?h]) (use s' in auto)
      then show ?thesis using h2(5,6) s'(1) by (simp add: kids_of_def)
    qed
    then show ?thesis using st [OF s] by blast
  qed
  have "\<exists>h'. refresh ?t2 (Some a) = Some (?t2\<lparr>heap := h'\<rparr>)
    \<and> shape h' (parent ?n1) (ANode a (color ?n1) L (node_value ?n1) R)
    \<and> only_counts (insert a (set ps)) (heap ?t2) h'"
    by (rule refresh_shape [where e = e])
      (use b dom2 a2 R2 R h2(2) L(3) ch2 c(2) st2 in \<open>simp_all add: bounded_def\<close>)
  then obtain h3 where h3: "refresh ?t2 (Some a) = Some (t\<lparr>heap := h3\<rparr>)"
    "shape h3 (parent n) (ANode a (color n) L (node_value n) R)"
    "only_counts (insert a (set ps)) h2 h3" by auto
  have "set_left t (Some a) (rootp L) = Some (t\<lparr>heap := h3\<rparr>)"
    using put1 h2(1) h3(1) by (simp add: set_left_def)
  moreover have "frame (insert a (addrs L)) (set ps) ?h h3"
  proof (rule frame_trans)
    show "frame (insert a (addrs L)) (set ps) ?h h2" using h2(4) dom2 by (auto simp: frame_def)
    show "frame (insert a (addrs L)) (set ps) h2 h3"
      by (rule frame_shift [OF only_counts_frame [OF h3(3), of "{}"]]) auto
  qed
  moreover have "dom h3 = dom ?h" using only_counts_dom [OF h3(3)] dom2 by simp
  ultimately show ?thesis using h3(2) by blast
qed


subsection \<open>Rotations\<close>

text \<open>
  \<open>moved U ps h q h' q'\<close>: an operation on the subtree with addresses \<open>U\<close> below the ancestors
  \<open>ps\<close> turned the store \<open>h\<close> into \<open>h'\<close>; the top node's parent pointer was \<open>q\<close> and is \<open>q'\<close>,
  the same or a leftover that points into the subtree.
\<close>

definition moved :: "addr set \<Rightarrow> addr list \<Rightarrow> 'v store \<Rightarrow> ptr \<Rightarrow> 'v store \<Rightarrow> ptr \<Rightarrow> bool" where
  "moved U ps h q h' q' \<longleftrightarrow>
     (q' = q \<or> (\<exists>s \<in> U. q' = Some s)) \<and> frame U (set ps) h h' \<and> dom h' = dom h"

lemma moved_refl [simp]: "moved U ps h q h q"
  by (simp add: moved_def)

lemma moved_three:
  assumes "frame U (set ps) h h1" and "frame U (set ps) h1 h2" and "frame U (set ps) h2 h'"
    and "dom h' = dom h" and "s \<in> U"
  shows "moved U ps h q h' (Some s)"
  using frame_trans [OF frame_trans [OF assms(1,2)] assms(3)] assms(4,5)
  by (simp only: moved_def) blast

lemma moved_trans:
  "moved U ps h q h1 q1 \<Longrightarrow> moved U ps' h1 q1 h2 q2 \<Longrightarrow> set ps' \<subseteq> set ps \<Longrightarrow> moved U ps h q h2 q2"
  unfolding moved_def
  by (auto intro: frame_trans dest: frame_mono [OF _ order_refl, of _ _ _ _ "set ps"])

lemma moved_ctx:
  assumes "ctx h q U ps e" and "moved U ps h q h' q'"
  obtains ps' e' where "ctx h' q' U ps' e'" and "set ps' \<subseteq> set ps"
proof (cases "q' = q")
  case True
  have "ctx h' q U ps e"
    by (rule ctx_frame [OF assms(1)]) (use assms(2) in \<open>auto simp: moved_def\<close>)
  with True that show thesis by blast
next
  case False
  with assms(2) obtain s where "s \<in> U" "q' = Some s" by (auto simp: moved_def)
  then have "ctx h' q' U [] (Some s)" by (simp add: ctx_def)
  with that show thesis by fastforce
qed

lemma recolor_two:
  assumes "shape h q (ANode x cx (ANode a c L v M) xv R)"
    and "disj_addrs (ANode x cx (ANode a c L v M) xv R)"
    and "h2 = h(x \<mapsto> (the (h x))\<lparr>color := d\<rparr>)" and "h3 = h2(a \<mapsto> (the (h2 a))\<lparr>color := d'\<rparr>)"
  shows "shape h3 q (ANode x d (ANode a d' L v M) xv R)"
  using assms by auto

lemma recolor_two':
  assumes "shape h q (ANode x cx L xv (ANode a c M v R))"
    and "disj_addrs (ANode x cx L xv (ANode a c M v R))"
    and "h2 = h(x \<mapsto> (the (h x))\<lparr>color := d\<rparr>)" and "h3 = h2(a \<mapsto> (the (h2 a))\<lparr>color := d'\<rparr>)"
  shows "shape h3 q (ANode x d L xv (ANode a d' M v R))"
  using assms by auto

lemma frame_recolor: "h x = Some n \<Longrightarrow> x \<in> U \<Longrightarrow> frame U P h (h(x \<mapsto> n'))"
  by (auto simp: frame_def)

lemma left_rotation_shape:
  assumes T: "T = ANode a c L v (ANode x cx XL xv XR)"
    and sh: "shape (heap t) q T" and dj: "disj_addrs T" and b: "bounded t"
    and cx: "ctx (heap t) q (addrs T) ps e"
  shows "\<exists>h'. left_rotation t (Some a) = Some (t\<lparr>heap := h'\<rparr>, Some x)
    \<and> shape h' (Some a) (rotL T) \<and> moved (addrs T) ps (heap t) q h' (Some a)"
proof -
  let ?h = "heap t"
  obtain n nx where n: "?h a = Some n" "leftNode n = rootp L" "rightNode n = Some x"
      "parent n = q" "color n = c" "node_value n = v"
    and nx: "?h x = Some nx" "leftNode nx = rootp XL" "rightNode nx = rootp XR"
      "parent nx = Some a" "color nx = cx" "node_value nx = xv"
    using sh T by simp
  have shs: "shape ?h (Some a) L" "shape ?h (Some a) (ANode x cx XL xv XR)"
    "shape ?h (Some x) XL" "shape ?h (Some x) XR" using sh T by simp_all
  have djs: "a \<notin> addrs L" "a \<noteq> x" "a \<notin> addrs XL" "a \<notin> addrs XR" "x \<notin> addrs L" "x \<notin> addrs XL"
    "x \<notin> addrs XR" "addrs L \<inter> addrs XL = {}" "addrs L \<inter> addrs XR = {}"
    "addrs XL \<inter> addrs XR = {}" "disj_addrs L" "disj_addrs XL" "disj_addrs XR"
    using dj T by auto
  have ch: "chain ?h q ps e" and ps: "set ps \<inter> addrs T = {}" using cx by (auto simp: ctx_def)
  have "\<exists>h'. set_rigth t (Some a) (rootp XL) = Some (t\<lparr>heap := h'\<rparr>)
    \<and> shape h' (parent n) (ANode a (color n) L (node_value n) XL)
    \<and> frame (insert a (addrs XL)) (set ps) ?h h' \<and> dom h' = dom ?h"
  proof (rule set_rigth_shape [OF b n(1) shs(1) _ djs(1) shs(3) djs(12,3,8)])
    show "rootp L = leftNode n" using n by simp
    show "chain ?h (parent n) ps e" using ch n by simp
    show "set ps \<inter> insert a (addrs L \<union> addrs XL) = {}" using ps T by auto
    show "s \<in> insert a (set ps) \<or> s \<in> addrs L \<union> addrs XL \<or>
        cnt_ok ?h s \<and> kids_of ?h s \<inter> insert a (set ps) = {}" if s: "e = Some s" for s
    proof (cases "s \<in> addrs (ANode x cx XL xv XR)")
      case True
      have "kids_of ?h s \<subseteq> addrs (ANode x cx XL xv XR)" by (rule shape_kids [OF shs(2) True])
      moreover have "addrs (ANode x cx XL xv XR) \<inter> insert a (set ps) = {}"
        using ps djs T by auto
      ultimately show ?thesis using shape_cnt_ok [OF shs(2) True] by blast
    next
      case False
      then show ?thesis using cx s T by (auto simp: ctx_def)
    qed
  qed
  then obtain h1 where h1: "set_rigth t (Some a) (rootp XL) = Some (t\<lparr>heap := h1\<rparr>)"
    "shape h1 q (ANode a c L v XL)" "frame (insert a (addrs XL)) (set ps) ?h h1"
    "dom h1 = dom ?h" using n by auto
  let ?t1 = "t\<lparr>heap := h1\<rparr>"
  have x1: "h1 x = Some nx"
    using frame_same [OF h1(3), of x] djs ps T nx(1) by auto
  have XR1: "shape h1 (Some x) XR"
    by (rule frame_shape [OF h1(3) shs(4)]) (use djs ps T in auto)
  have "\<exists>h'. set_left ?t1 (Some x) (rootp (ANode a c L v XL)) = Some (?t1\<lparr>heap := h'\<rparr>)
    \<and> shape h' (parent nx) (ANode x (color nx) (ANode a c L v XL) (node_value nx) XR)
    \<and> frame (insert x (addrs (ANode a c L v XL))) (set []) (heap ?t1) h'
    \<and> dom h' = dom (heap ?t1)"
    by (rule set_left_shape [where q = q and e = "Some a"])
      (use b h1 x1 XR1 djs nx in \<open>auto simp: bounded_def\<close>)
  then obtain h2 where h2: "set_left ?t1 (Some x) (Some a) = Some (t\<lparr>heap := h2\<rparr>)"
    "shape h2 (Some a) (ANode x cx (ANode a c L v XL) xv XR)"
    "frame (insert x (addrs (ANode a c L v XL))) {} h1 h2" "dom h2 = dom h1"
    using nx by auto
  let ?h3 = "h2(x \<mapsto> (the (h2 x))\<lparr>color := c\<rparr>)"
  let ?h4 = "?h3(a \<mapsto> (the (?h3 a))\<lparr>color := RED\<rparr>)"
  have "left_rotation t (Some a) = Some (t\<lparr>heap := ?h4\<rparr>, Some x)"
    using n nx h1(1) h2(1,2) djs(2)
    by (auto simp: left_rotation_def deref_def set_color_def put_def Let_def)
  moreover have "shape ?h4 (Some a) (rotL T)"
    unfolding T rotL.simps by (rule recolor_two [OF h2(2) _ refl refl]) (use djs in auto)
  moreover have "moved (addrs T) ps ?h q ?h4 (Some a)"
  proof -
    have "frame (addrs T) (set ps) ?h h1" using h1(3) by (rule frame_mono) (auto simp: T)
    moreover have "frame (addrs T) (set ps) h1 h2"
      using h2(3) by (rule frame_mono) (auto simp: T)
    moreover have "frame (addrs T) (set ps) h2 ?h4" using h2(2) by (auto simp: frame_def T)
    moreover have "dom ?h4 = dom ?h" using h2(2,4) h1(4) by auto
    ultimately show ?thesis by (rule moved_three) (simp add: T)
  qed
  ultimately show ?thesis by blast
qed


lemma right_rotation_shape:
  assumes T: "T = ANode a c (ANode x cx XL xv XR) v R"
    and sh: "shape (heap t) q T" and dj: "disj_addrs T" and b: "bounded t"
    and cx: "ctx (heap t) q (addrs T) ps e"
  shows "\<exists>h'. right_rotation t (Some a) = Some (t\<lparr>heap := h'\<rparr>, Some x)
    \<and> shape h' (Some a) (rotR T) \<and> moved (addrs T) ps (heap t) q h' (Some a)"
proof -
  let ?h = "heap t"
  obtain n nx where n: "?h a = Some n" "leftNode n = Some x" "rightNode n = rootp R"
      "parent n = q" "color n = c" "node_value n = v"
    and nx: "?h x = Some nx" "leftNode nx = rootp XL" "rightNode nx = rootp XR"
      "parent nx = Some a" "color nx = cx" "node_value nx = xv"
    using sh T by simp
  have shs: "shape ?h (Some a) R" "shape ?h (Some a) (ANode x cx XL xv XR)"
    "shape ?h (Some x) XL" "shape ?h (Some x) XR" using sh T by simp_all
  have djs: "a \<notin> addrs R" "a \<noteq> x" "a \<notin> addrs XL" "a \<notin> addrs XR" "x \<notin> addrs R" "x \<notin> addrs XL"
    "x \<notin> addrs XR" "addrs XR \<inter> addrs R = {}" "addrs XL \<inter> addrs R = {}"
    "addrs XL \<inter> addrs XR = {}" "disj_addrs R" "disj_addrs XL" "disj_addrs XR"
    using dj T by auto
  have ch: "chain ?h q ps e" and ps: "set ps \<inter> addrs T = {}" using cx by (auto simp: ctx_def)
  have "\<exists>h'. set_left t (Some a) (rootp XR) = Some (t\<lparr>heap := h'\<rparr>)
    \<and> shape h' (parent n) (ANode a (color n) XR (node_value n) R)
    \<and> frame (insert a (addrs XR)) (set ps) ?h h' \<and> dom h' = dom ?h"
  proof (rule set_left_shape [OF b n(1) shs(4) djs(13,4,8) shs(1) _ djs(1)])
    show "rootp R = rightNode n" using n by simp
    show "chain ?h (parent n) ps e" using ch n by simp
    show "set ps \<inter> insert a (addrs XR \<union> addrs R) = {}" using ps T by auto
    show "s \<in> insert a (set ps) \<or> s \<in> addrs XR \<union> addrs R \<or>
        cnt_ok ?h s \<and> kids_of ?h s \<inter> insert a (set ps) = {}" if s: "e = Some s" for s
    proof (cases "s \<in> addrs (ANode x cx XL xv XR)")
      case True
      have "kids_of ?h s \<subseteq> addrs (ANode x cx XL xv XR)" by (rule shape_kids [OF shs(2) True])
      moreover have "addrs (ANode x cx XL xv XR) \<inter> insert a (set ps) = {}"
        using ps djs T by auto
      ultimately show ?thesis using shape_cnt_ok [OF shs(2) True] by blast
    next
      case False
      then show ?thesis using cx s T by (auto simp: ctx_def)
    qed
  qed
  then obtain h1 where h1: "set_left t (Some a) (rootp XR) = Some (t\<lparr>heap := h1\<rparr>)"
    "shape h1 q (ANode a c XR v R)" "frame (insert a (addrs XR)) (set ps) ?h h1"
    "dom h1 = dom ?h" using n by auto
  let ?t1 = "t\<lparr>heap := h1\<rparr>"
  have x1: "h1 x = Some nx"
    using frame_same [OF h1(3), of x] djs ps T nx(1) by auto
  have XL1: "shape h1 (Some x) XL"
    by (rule frame_shape [OF h1(3) shs(3)]) (use djs ps T in auto)
  have "\<exists>h'. set_rigth ?t1 (Some x) (rootp (ANode a c XR v R)) = Some (?t1\<lparr>heap := h'\<rparr>)
    \<and> shape h' (parent nx) (ANode x (color nx) XL (node_value nx) (ANode a c XR v R))
    \<and> frame (insert x (addrs (ANode a c XR v R))) (set []) (heap ?t1) h'
    \<and> dom h' = dom (heap ?t1)"
    by (rule set_rigth_shape [where q = q and e = "Some a"])
      (use b h1 x1 XL1 djs nx in \<open>auto simp: bounded_def\<close>)
  then obtain h2 where h2: "set_rigth ?t1 (Some x) (Some a) = Some (t\<lparr>heap := h2\<rparr>)"
    "shape h2 (Some a) (ANode x cx XL xv (ANode a c XR v R))"
    "frame (insert x (addrs (ANode a c XR v R))) {} h1 h2" "dom h2 = dom h1"
    using nx by auto
  let ?h3 = "h2(x \<mapsto> (the (h2 x))\<lparr>color := c\<rparr>)"
  let ?h4 = "?h3(a \<mapsto> (the (?h3 a))\<lparr>color := RED\<rparr>)"
  have "right_rotation t (Some a) = Some (t\<lparr>heap := ?h4\<rparr>, Some x)"
    using n nx h1(1) h2(1,2) djs(2)
    by (auto simp: right_rotation_def deref_def set_color_def put_def Let_def)
  moreover have "shape ?h4 (Some a) (rotR T)"
    unfolding T rotR.simps by (rule recolor_two' [OF h2(2) _ refl refl]) (use djs in auto)
  moreover have "moved (addrs T) ps ?h q ?h4 (Some a)"
  proof -
    have "frame (addrs T) (set ps) ?h h1" using h1(3) by (rule frame_mono) (auto simp: T)
    moreover have "frame (addrs T) (set ps) h1 h2"
      using h2(3) by (rule frame_mono) (auto simp: T)
    moreover have "frame (addrs T) (set ps) h2 ?h4" using h2(2) by (auto simp: frame_def T)
    moreover have "dom ?h4 = dom ?h" using h2(2,4) h1(4) by auto
    ultimately show ?thesis by (rule moved_three) (simp add: T)
  qed
  ultimately show ?thesis by blast
qed

subsection \<open>The three repairs\<close>

lemma is_red_shape: "shape (heap t) q T \<Longrightarrow> is_red t (rootp T) = Some (is_redt T)"
  by (cases T rule: is_redt.cases) (auto simp: is_red_def deref_def intro: Color.exhaust)

lemma fix_right_shape:
  assumes "shape (heap t) q T" and "T \<noteq> ALeaf" and "disj_addrs T" and "bounded t"
    and "ctx (heap t) q (addrs T) ps e"
  shows "\<exists>h' q'. fix_right t (rootp T) = Some (t\<lparr>heap := h'\<rparr>, rootp (tfix_right T))
    \<and> shape h' q' (tfix_right T) \<and> moved (addrs T) ps (heap t) q h' q'"
proof -
  obtain a c L v R where T: "T = ANode a c L v R" using assms(2) by (cases T) auto
  have red: "fix_right t (Some a) = (if is_redt R then left_rotation t (Some a) else Some (t, Some a))"
    using assms(1) T is_red_shape [of t "Some a" R] by (auto simp: fix_right_def deref_def)
  show ?thesis
  proof (cases "is_redt R")
    case True
    then obtain x XL xv XR where R: "R = ANode x RED XL xv XR" by (cases R rule: is_redt.cases) auto
    with left_rotation_shape [of T a c L v x RED XL xv XR, OF _ assms(1,3,4,5)] T red True
    show ?thesis by auto
  next
    case False
    have "t\<lparr>heap := heap t\<rparr> = t" by simp
    with False red T assms(1) show ?thesis
      by (intro exI [of _ "heap t"] exI [of _ q]) simp
  qed
qed

lemma fix_left_shape:
  assumes "shape (heap t) q T" and "T \<noteq> ALeaf" and "disj_addrs T" and "bounded t"
    and "ctx (heap t) q (addrs T) ps e"
  shows "\<exists>h' q'. fix_left t (rootp T) = Some (t\<lparr>heap := h'\<rparr>, rootp (tfix_left T))
    \<and> shape h' q' (tfix_left T) \<and> moved (addrs T) ps (heap t) q h' q'"
proof -
  obtain a c L v R where T: "T = ANode a c L v R" using assms(2) by (cases T) auto
  have red: "fix_left t (Some a) =
    (if is_redt L \<and> is_redt (left_of L) then right_rotation t (Some a) else Some (t, Some a))"
  proof (cases "is_redt L")
    case True
    then obtain x XL xv XR where L: "L = ANode x RED XL xv XR" by (cases L rule: is_redt.cases) auto
    with assms(1) T is_red_shape [of t "Some a" L] is_red_shape [of t "Some x" XL]
    show ?thesis by (auto simp: fix_left_def deref_def)
  next
    case False
    with assms(1) T is_red_shape [of t "Some a" L] show ?thesis
      by (auto simp: fix_left_def deref_def)
  qed
  show ?thesis
  proof (cases "is_redt L \<and> is_redt (left_of L)")
    case True
    then obtain x XL xv XR where L: "L = ANode x RED XL xv XR" by (cases L rule: is_redt.cases) auto
    with right_rotation_shape [of T a c x RED XL xv XR v R, OF _ assms(1,3,4,5)] T red True
    show ?thesis by auto
  next
    case False
    have "t\<lparr>heap := heap t\<rparr> = t" by simp
    with False red T assms(1) show ?thesis
      by (intro exI [of _ "heap t"] exI [of _ q]) auto
  qed
qed

lemma fix_both_shape:
  assumes "shape (heap t) q T" and "T \<noteq> ALeaf" and "disj_addrs T"
  shows "\<exists>h'. fix_both t (rootp T) = Some (t\<lparr>heap := h'\<rparr>)
    \<and> shape h' q (tfix_both T) \<and> moved (addrs T) ps (heap t) q h' q"
proof -
  let ?h = "heap t"
  obtain a c L v R where T: "T = ANode a c L v R" using assms(2) by (cases T) auto
  have red: "fix_both t (Some a) = (if is_redt L \<and> is_redt R then flip_colors t (Some a) else Some t)"
    using assms(1) T is_red_shape [of t "Some a" L] is_red_shape [of t "Some a" R]
    by (auto simp: fix_both_def deref_def)
  show ?thesis
  proof (cases "is_redt L \<and> is_redt R")
    case True
    then obtain x XL xv XR where L: "L = ANode x RED XL xv XR" by (cases L rule: is_redt.cases) auto
    from True obtain y YL yv YR where R: "R = ANode y RED YL yv YR" by (cases R rule: is_redt.cases) auto
    let ?h1 = "?h(a \<mapsto> color_update flip_color (the (?h a)))"
    let ?h2 = "?h1(x \<mapsto> color_update flip_color (the (?h1 x)))"
    let ?h3 = "?h2(y \<mapsto> color_update flip_color (the (?h2 y)))"
    have ne: "a \<noteq> x" "a \<noteq> y" "x \<noteq> y" using assms(3) T L R by auto
    have "flip_colors t (Some a) = Some (t\<lparr>heap := ?h3\<rparr>)"
      using assms(1) T L R ne by (auto simp: flip_colors_def deref_def put_def)
    then have "fix_both t (rootp T) = Some (t\<lparr>heap := ?h3\<rparr>)"
      unfolding T rootp.simps red using True by (simp only: simp_thms if_True)
    moreover have "shape ?h3 q (tfix_both T)"
      using assms(1,3) T L R by auto
    moreover have "moved (addrs T) ps ?h q ?h3 q"
      using assms(1) T L R by (auto simp: moved_def frame_def)
    ultimately show ?thesis by blast
  next
    case False
    have "t\<lparr>heap := heap t\<rparr> = t" by simp
    with False red T assms(1) show ?thesis
      by (intro exI [of _ "heap t"]) auto
  qed
qed

text \<open>All three in sequence, as \<open>recursive_insertion\<close> runs them.\<close>

abbreviation tfix :: "'v atree \<Rightarrow> 'v atree" where
  "tfix T \<equiv> tfix_both (tfix_left (tfix_right T))"

lemma fixes_shape:
  assumes "shape (heap t) q T" and "T \<noteq> ALeaf" and "disj_addrs T" and "bounded t"
    and "ctx (heap t) q (addrs T) ps e"
  shows "\<exists>h' q'. do { (t, nd) \<leftarrow> fix_right t (rootp T);
                      (t, nd) \<leftarrow> fix_left t nd;
                      t \<leftarrow> fix_both t nd;
                      Some (t, nd) } = Some (t\<lparr>heap := h'\<rparr>, rootp (tfix T))
    \<and> shape h' q' (tfix T) \<and> moved (addrs T) ps (heap t) q h' q'"
proof -
  obtain h1 q1 where h1: "fix_right t (rootp T) = Some (t\<lparr>heap := h1\<rparr>, rootp (tfix_right T))"
      "shape h1 q1 (tfix_right T)" "moved (addrs T) ps (heap t) q h1 q1"
    using fix_right_shape [OF assms] by blast
  let ?t1 = "t\<lparr>heap := h1\<rparr>"
  obtain ps1 e1 where c1: "ctx h1 q1 (addrs T) ps1 e1" "set ps1 \<subseteq> set ps"
    using moved_ctx [OF assms(5) h1(3)] by blast
  have b1: "bounded ?t1" using h1(3) assms(4) by (simp add: bounded_def moved_def)
  obtain h2 q2 where h2: "fix_left ?t1 (rootp (tfix_right T)) =
      Some (t\<lparr>heap := h2\<rparr>, rootp (tfix_left (tfix_right T)))"
      "shape h2 q2 (tfix_left (tfix_right T))" "moved (addrs T) ps1 h1 q1 h2 q2"
    using fix_left_shape [of ?t1 q1 "tfix_right T" ps1 e1] h1(2) assms(2,3) b1 c1
    by (auto simp: disj_fix)
  let ?t2 = "t\<lparr>heap := h2\<rparr>"
  obtain h3 where h3: "fix_both ?t2 (rootp (tfix_left (tfix_right T))) = Some (t\<lparr>heap := h3\<rparr>)"
      "shape h3 q2 (tfix T)" "moved (addrs T) ps h2 q2 h3 q2"
    using fix_both_shape [of ?t2 q2 "tfix_left (tfix_right T)" ps] h2(2) assms(2,3)
    by (auto simp: disj_fix)
  have rp: "rootp (tfix T) = rootp (tfix_left (tfix_right T))"
    by (cases "tfix_left (tfix_right T)") auto
  have "moved (addrs T) ps (heap t) q h3 q2"
    using moved_trans [OF moved_trans [OF h1(3) h2(3) c1(2)] h3(3)] by simp
  with h1(1) h2(1) h3 rp show ?thesis by auto
qed

subsection \<open>Recursive insertion\<close>

lemma refresh_shape_id:
  assumes "shape (heap t) q T" and "T \<noteq> ALeaf"
  shows "refresh t (rootp T) = Some t"
proof -
  obtain a c L v R where T: "T = ANode a c L v R" using assms(2) by (cases T) auto
  have "cnt_ok (heap t) a" by (rule shape_cnt_ok [OF assms(1)]) (simp add: T)
  then have "refresh_child (Suc (next_addr t + 2)) t (Some a) = Some t" by (rule refresh_no_change)
  moreover have "next_addr t + 3 = Suc (next_addr t + 2)" by simp
  ultimately show ?thesis by (simp only: refresh_def T rootp.simps)
qed

text \<open>
  \<open>grown\<close>: the insertion's effect, like \<open>moved\<close> but for the subtree's new address set \<open>V\<close>
  and the address counter.
\<close>

definition grown :: "addr set \<Rightarrow> addr list \<Rightarrow> 'v rbtree \<Rightarrow> ptr \<Rightarrow> 'v rbtree \<Rightarrow> ptr \<Rightarrow> bool" where
  "grown V ps t q t' q' \<longleftrightarrow>
     (q' = None \<or> q' = q \<or> (\<exists>s \<in> V. q' = Some s)) \<and> frame V (set ps) (heap t) (heap t')
     \<and> bounded t' \<and> next_addr t \<le> next_addr t' \<and> root t' = root t"

lemma ctx_child:
  assumes "shape h q (ANode a c L v R)" and "disj_addrs (ANode a c L v R)"
    and "ctx h q (addrs (ANode a c L v R)) ps e"
    and "(S = L \<and> S' = R) \<or> (S = R \<and> S' = L)"
  shows "ctx h (Some a) (addrs S) (a # ps) e"
proof -
  obtain n where n: "h a = Some n" "parent n = q" "kids n \<subseteq> addrs L \<union> addrs R"
    using assms(1) rootp_Some [of L] rootp_Some [of R] by (auto simp: kids_def)
  have d: "a \<notin> addrs L" "a \<notin> addrs R" "addrs L \<inter> addrs R = {}" using assms(2) by auto
  have c: "chain h q ps e" "set ps \<inter> addrs (ANode a c L v R) = {}"
    using assms(3) by (auto simp: ctx_def)
  have S': "shape h (Some a) S'" using assms(1,4) by auto
  have SS': "addrs S \<union> addrs S' = addrs L \<union> addrs R" "addrs S \<inter> addrs S' = {}"
    using assms(4) d(3) by auto
  have ch: "chain h (Some a) (a # ps) e"
    using n d c shape_dom [of h "Some a" L] shape_dom [of h "Some a" R] assms(1) by auto
  have "s \<in> set (a # ps) \<or> s \<in> addrs S \<or> cnt_ok h s \<and> kids_of h s \<inter> (set (a # ps) \<union> addrs S) = {}"
    if s: "e = Some s" for s
  proof (cases "s \<in> addrs S'")
    case True
    have "kids_of h s \<subseteq> addrs S'" by (rule shape_kids [OF S' True])
    moreover have "addrs S' \<inter> (set (a # ps) \<union> addrs S) = {}" using c d SS' by auto
    ultimately show ?thesis using shape_cnt_ok [OF S' True] by blast
  next
    case False
    then show ?thesis using assms(3) s SS' by (auto simp: ctx_def)
  qed
  moreover have "set (a # ps) \<inter> addrs S = {}" using c d SS' by auto
  ultimately show ?thesis using ch by (auto simp: ctx_def)
qed

text \<open>A child has been replaced by a grown one; link it and recompute.\<close>

lemma relink_right:
  assumes T: "shape (heap t) q (ANode a c L v R)" "disj_addrs (ANode a c L v R)"
    and cx: "ctx (heap t) q (addrs (ANode a c L v R)) ps e" and b: "bounded t"
    and R': "shape (heap t1) q1 R'" "disj_addrs R'" "addrs R \<subseteq> addrs R'"
      "addrs R' \<subseteq> insert (next_addr t) (addrs R)"
    and g: "grown (addrs R') (a # ps) t (Some a) t1 q1"
  shows "\<exists>t2. set_rigth t1 (Some a) (rootp R') = Some t2
    \<and> shape (heap t2) q (ANode a c L v R') \<and> grown (addrs (ANode a c L v R')) ps t q t2 q"
proof -
  let ?h = "heap t" let ?V = "addrs (ANode a c L v R')"
  have fresh: "next_addr t \<notin> dom ?h" using b by (auto simp: bounded_def)
  have U: "addrs (ANode a c L v R) \<subseteq> dom ?h" by (rule shape_dom [OF T(1)])
  have ps: "set ps \<inter> addrs (ANode a c L v R) = {}" "set ps \<subseteq> dom ?h"
    using ctx_dom [OF cx] ctx_disj [OF cx] by simp_all
  have psV: "set ps \<inter> ?V = {}" using ps fresh R'(4) by auto
  have dR': "a \<notin> addrs R'" "addrs L \<inter> addrs R' = {}"
    using T(2) U fresh R'(4) by auto
  have f: "frame (addrs R') (set (a # ps)) ?h (heap t1)" and b1: "bounded t1"
    using g by (auto simp: grown_def)
  have f1: "frame ?V (set ps) ?h (heap t1)"
    by (rule frame_shift [where a = a]) (use f in auto)
  obtain n where n: "heap t1 a = Some n" "leftNode n = rootp L" "parent n = q" "color n = c"
    "node_value n = v"
  proof -
    obtain m where m: "?h a = Some m" "leftNode m = rootp L" "parent m = q" "color m = c"
      "node_value m = v" using T(1) by auto
    have "no_count (heap t1 a) = no_count (?h a)" using f dR'(1) by (simp add: frame_def)
    from this m(1) show thesis by (rule no_count_eqD) (use m that in auto)
  qed
  have L1: "shape (heap t1) (Some a) L"
    by (rule frame_shape [OF f]) (use T ps dR' in auto)
  have cx1: "ctx (heap t1) q ?V ps e"
    by (rule ctx_frame [OF cx f1]) (use R'(3,4) fresh in auto)
  have "\<exists>h'. set_rigth t1 (Some a) (rootp R') = Some (t1\<lparr>heap := h'\<rparr>)
    \<and> shape h' (parent n) (ANode a (color n) L (node_value n) R')
    \<and> frame (insert a (addrs R')) (set ps) (heap t1) h' \<and> dom h' = dom (heap t1)"
    by (rule set_rigth_shape [OF b1 n(1) L1 _ _ R'(1,2) dR', of ps e])
      (use n T(2) cx1 psV in \<open>auto simp: ctx_def\<close>)
  then obtain h2 where h2: "set_rigth t1 (Some a) (rootp R') = Some (t1\<lparr>heap := h2\<rparr>)"
    "shape h2 q (ANode a c L v R')" "frame (insert a (addrs R')) (set ps) (heap t1) h2"
    "dom h2 = dom (heap t1)" using n by auto
  have "frame ?V (set ps) ?h h2"
    by (rule frame_trans [OF f1 frame_mono [OF h2(3)]]) auto
  then have "grown ?V ps t q (t1\<lparr>heap := h2\<rparr>) q"
    using g h2(4) by (auto simp: grown_def bounded_def)
  with h2 show ?thesis by auto
qed

lemma relink_left:
  assumes T: "shape (heap t) q (ANode a c L v R)" "disj_addrs (ANode a c L v R)"
    and cx: "ctx (heap t) q (addrs (ANode a c L v R)) ps e" and b: "bounded t"
    and L': "shape (heap t1) q1 L'" "disj_addrs L'" "addrs L \<subseteq> addrs L'"
      "addrs L' \<subseteq> insert (next_addr t) (addrs L)"
    and g: "grown (addrs L') (a # ps) t (Some a) t1 q1"
  shows "\<exists>t2. set_left t1 (Some a) (rootp L') = Some t2
    \<and> shape (heap t2) q (ANode a c L' v R) \<and> grown (addrs (ANode a c L' v R)) ps t q t2 q"
proof -
  let ?h = "heap t" let ?V = "addrs (ANode a c L' v R)"
  have fresh: "next_addr t \<notin> dom ?h" using b by (auto simp: bounded_def)
  have U: "addrs (ANode a c L v R) \<subseteq> dom ?h" by (rule shape_dom [OF T(1)])
  have ps: "set ps \<inter> addrs (ANode a c L v R) = {}" "set ps \<subseteq> dom ?h"
    using ctx_dom [OF cx] ctx_disj [OF cx] by simp_all
  have psV: "set ps \<inter> ?V = {}" using ps fresh L'(4) by auto
  have dL': "a \<notin> addrs L'" "addrs L' \<inter> addrs R = {}"
    using T(2) U fresh L'(4) by auto
  have f: "frame (addrs L') (set (a # ps)) ?h (heap t1)" and b1: "bounded t1"
    using g by (auto simp: grown_def)
  have f1: "frame ?V (set ps) ?h (heap t1)"
    by (rule frame_shift [where a = a]) (use f in auto)
  obtain n where n: "heap t1 a = Some n" "rightNode n = rootp R" "parent n = q" "color n = c"
    "node_value n = v"
  proof -
    obtain m where m: "?h a = Some m" "rightNode m = rootp R" "parent m = q" "color m = c"
      "node_value m = v" using T(1) by auto
    have "no_count (heap t1 a) = no_count (?h a)" using f dL'(1) by (simp add: frame_def)
    from this m(1) show thesis by (rule no_count_eqD) (use m that in auto)
  qed
  have R1: "shape (heap t1) (Some a) R"
    by (rule frame_shape [OF f]) (use T ps dL' in auto)
  have cx1: "ctx (heap t1) q ?V ps e"
    by (rule ctx_frame [OF cx f1]) (use L'(3,4) fresh in auto)
  have "\<exists>h'. set_left t1 (Some a) (rootp L') = Some (t1\<lparr>heap := h'\<rparr>)
    \<and> shape h' (parent n) (ANode a (color n) L' (node_value n) R)
    \<and> frame (insert a (addrs L')) (set ps) (heap t1) h' \<and> dom h' = dom (heap t1)"
    by (rule set_left_shape [OF b1 n(1) L'(1,2) dL' R1, of ps e])
      (use n T(2) cx1 psV in \<open>auto simp: ctx_def\<close>)
  then obtain h2 where h2: "set_left t1 (Some a) (rootp L') = Some (t1\<lparr>heap := h2\<rparr>)"
    "shape h2 q (ANode a c L' v R)" "frame (insert a (addrs L')) (set ps) (heap t1) h2"
    "dom h2 = dom (heap t1)" using n by auto
  have "frame ?V (set ps) ?h h2"
    by (rule frame_trans [OF f1 frame_mono [OF h2(3)]]) auto
  then have "grown ?V ps t q (t1\<lparr>heap := h2\<rparr>) q"
    using g h2(4) by (auto simp: grown_def bounded_def)
  with h2 show ?thesis by auto
qed

lemma grown_moved:
  assumes "grown V ps t q t' q" and "moved V ps (heap t') q h' q'"
  shows "grown V ps t q (t'\<lparr>heap := h'\<rparr>) q'"
  using assms frame_trans [of V "set ps" "heap t" "heap t'" h']
  by (auto simp: grown_def moved_def bounded_def)

lemma fresh_addr: "shape (heap t) q T \<Longrightarrow> bounded t \<Longrightarrow> next_addr t \<notin> addrs T"
  unfolding bounded_def by (meson shape_dom lessThan_iff less_irrefl subsetD)

lemma recursive_insertion_step:
  assumes "heap t a = Some n"
    and "(if lt (node_value n) v then do {
                (t, c) \<leftarrow> recursive_insertion lt k t (rightNode n) v;
                set_rigth t (Some a) c }
          else if lt v (node_value n) then do {
                (t, c) \<leftarrow> recursive_insertion lt k t (leftNode n) v;
                set_left t (Some a) c }
          else Some t) = Some t1"
    and "refresh t1 (Some a) = Some t1"
  shows "recursive_insertion lt (Suc k) t (Some a) v =
    do { (t, nd) \<leftarrow> fix_right t1 (Some a);
         (t, nd) \<leftarrow> fix_left t nd;
         t \<leftarrow> fix_both t nd;
         Some (t, nd) }"
  using assms by (simp add: deref_def)

lemma recursive_insertion_shape:
  assumes "shape (heap t) q T" and "disj_addrs T" and "bounded t"
    and "ctx (heap t) q (addrs T) ps e" and "aheight T < k"
  shows "\<exists>t' q'. recursive_insertion lt k t (rootp T) v =
      Some (t', rootp (ins_tree lt (next_addr t) v T))
    \<and> shape (heap t') q' (ins_tree lt (next_addr t) v T)
    \<and> grown (addrs (ins_tree lt (next_addr t) v T)) ps t q t' q'"
  using assms
proof (induction T arbitrary: q ps k t)
  case ALeaf
  obtain k' where "k = Suc k'" using ALeaf.prems(5) by (cases k) auto
  then show ?case using ALeaf.prems(3)
    by (intro exI [of _ "fst (initNode t v)"] exI [of _ None])
      (auto simp: initNode_def grown_def frame_def bounded_def Let_def)
next
  case (ANode a c L w R)
  let ?f = "next_addr t" let ?T = "ANode a c L w R"
  obtain k' where k: "k = Suc k'" "aheight L < k'" "aheight R < k'"
    using ANode.prems(5) by (cases k) auto
  obtain n where n: "heap t a = Some n" "leftNode n = rootp L" "rightNode n = rootp R"
    "node_value n = w" using ANode.prems(1) by auto
  have fresh: "?f \<notin> addrs ?T" by (rule fresh_addr [OF ANode.prems(1,3)])
  have sh: "shape (heap t) (Some a) L" "shape (heap t) (Some a) R" and dj: "disj_addrs L" "disj_addrs R"
    using ANode.prems(1,2) by auto
  let ?M = "if lt w v then ANode a c L w (ins_tree lt ?f v R)
            else if lt v w then ANode a c (ins_tree lt ?f v L) w R else ?T"
  have main: "\<exists>t1. (if lt (node_value n) v then do {
                (t, c) \<leftarrow> recursive_insertion lt k' t (rightNode n) v;
                set_rigth t (Some a) c }
          else if lt v (node_value n) then do {
                (t, c) \<leftarrow> recursive_insertion lt k' t (leftNode n) v;
                set_left t (Some a) c }
          else Some t) = Some t1
      \<and> shape (heap t1) q ?M \<and> grown (addrs ?M) ps t q t1 q"
  proof -
    consider "lt w v" | "\<not> lt w v" "lt v w" | "\<not> lt w v" "\<not> lt v w" by blast
    then show ?thesis
    proof cases
      case 1
      have "ctx (heap t) (Some a) (addrs R) (a # ps) e"
        by (rule ctx_child [OF ANode.prems(1,2,4), where S' = L]) simp
      from ANode.IH(2) [OF sh(2) dj(2) ANode.prems(3) this k(3)]
      obtain t1 q1 where t1: "recursive_insertion lt k' t (rootp R) v = Some (t1, rootp (ins_tree lt ?f v R))"
        "shape (heap t1) q1 (ins_tree lt ?f v R)"
        "grown (addrs (ins_tree lt ?f v R)) (a # ps) t (Some a) t1 q1" by blast
      have "disj_addrs (ins_tree lt ?f v R)" using ins_tree_disj dj(2) fresh by auto
      from relink_right [OF ANode.prems(1,2,4,3) t1(2) this ins_tree_addrs t1(3)] t1(1) 1 n
      show ?thesis by auto
    next
      case 2
      have "ctx (heap t) (Some a) (addrs L) (a # ps) e"
        by (rule ctx_child [OF ANode.prems(1,2,4), where S' = R]) simp
      from ANode.IH(1) [OF sh(1) dj(1) ANode.prems(3) this k(2)]
      obtain t1 q1 where t1: "recursive_insertion lt k' t (rootp L) v = Some (t1, rootp (ins_tree lt ?f v L))"
        "shape (heap t1) q1 (ins_tree lt ?f v L)"
        "grown (addrs (ins_tree lt ?f v L)) (a # ps) t (Some a) t1 q1" by blast
      have "disj_addrs (ins_tree lt ?f v L)" using ins_tree_disj dj(1) fresh by auto
      from relink_left [OF ANode.prems(1,2,4,3) t1(2) this ins_tree_addrs t1(3)] t1(1) 2 n
      show ?thesis by auto
    next
      case 3
      then show ?thesis using n(4) ANode.prems(1,3) by (auto simp: grown_def)
    qed
  qed
  then obtain t1 where t1: "(if lt (node_value n) v then do {
                (t, c) \<leftarrow> recursive_insertion lt k' t (rightNode n) v;
                set_rigth t (Some a) c }
          else if lt v (node_value n) then do {
                (t, c) \<leftarrow> recursive_insertion lt k' t (leftNode n) v;
                set_left t (Some a) c }
          else Some t) = Some t1"
      "shape (heap t1) q ?M" "grown (addrs ?M) ps t q t1 q" by blast
  have rM: "rootp ?M = Some a" "?M \<noteq> ALeaf" by auto
  have ref: "refresh t1 (Some a) = Some t1"
    using refresh_shape_id [OF t1(2) rM(2)] unfolding rM(1) .
  have dM: "disj_addrs ?M"
    using ANode.prems(2) fresh ins_tree_addrs(2) [of lt ?f v L] ins_tree_addrs(2) [of lt ?f v R]
      ins_tree_disj [of L ?f lt v] ins_tree_disj [of R ?f lt v] by auto
  have b1: "bounded t1" and f1: "frame (addrs ?M) (set ps) (heap t) (heap t1)"
    using t1(3) unfolding grown_def by blast+
  have sub: "addrs ?T \<subseteq> addrs ?M" "addrs ?M \<subseteq> insert ?f (addrs ?T)"
    using ins_tree_addrs(1) [of R lt ?f v] ins_tree_addrs(1) [of L lt ?f v]
      ins_tree_addrs(2) [of lt ?f v R] ins_tree_addrs(2) [of lt ?f v L] by auto
  have "?f \<notin> dom (heap t)" using ANode.prems(3) by (auto simp: bounded_def)
  then have "addrs ?M \<inter> dom (heap t) \<subseteq> addrs ?T" using sub(2) by blast
  from ctx_frame [OF ANode.prems(4) f1 this sub(1)]
  have cM: "ctx (heap t1) q (addrs ?M) ps e" .
  obtain h' q' where fin: "do { (t, nd) \<leftarrow> fix_right t1 (Some a);
         (t, nd) \<leftarrow> fix_left t nd;
         t \<leftarrow> fix_both t nd;
         Some (t, nd) } = Some (t1\<lparr>heap := h'\<rparr>, rootp (tfix ?M))"
      "shape h' q' (tfix ?M)" "moved (addrs ?M) ps (heap t1) q h' q'"
    using fixes_shape [OF t1(2) rM(2) dM b1 cM] unfolding rM(1) by blast
  have "recursive_insertion lt k t (Some a) v = Some (t1\<lparr>heap := h'\<rparr>, rootp (tfix ?M))"
    unfolding k(1) recursive_insertion_step [OF n(1) t1(1) ref] by (rule fin(1))
  moreover have "grown (addrs ?M) ps t q (t1\<lparr>heap := h'\<rparr>) q'"
    by (rule grown_moved [OF t1(3) fin(3)])
  moreover have "heap (t1\<lparr>heap := h'\<rparr>) = h'" by simp
  ultimately show ?case using fin(2)
    by (intro exI [of _ "t1\<lparr>heap := h'\<rparr>"] exI [of _ q'])
      (simp only: ins_tree.simps addrs_fix rootp.simps simp_thms)
qed

subsection \<open>Insertion at the root\<close>

text \<open>
  \<open>rep t T\<close>: the tree object \<open>t\<close> holds the tree \<open>T\<close>. The root's own parent pointer is null
  or a leftover of a rotation that points at a node of the tree.
\<close>

definition rep :: "'v rbtree \<Rightarrow> 'v atree \<Rightarrow> bool" where
  "rep t T \<longleftrightarrow> root t = rootp T \<and> disj_addrs T \<and> bounded t \<and>
     (\<exists>q. shape (heap t) q T \<and> (q = None \<or> (\<exists>s \<in> addrs T. q = Some s)))"

definition insert_tree :: "('v \<Rightarrow> 'v \<Rightarrow> bool) \<Rightarrow> addr \<Rightarrow> 'v \<Rightarrow> 'v atree \<Rightarrow> 'v atree" where
  "insert_tree lt f v T = paint_top BLACK (ins_tree lt f v T)"

lemma rep_empty: "rep empty_tree ALeaf"
  by (simp add: rep_def empty_tree_def bounded_def)

lemma asize_le_next:
  assumes "shape (heap t) q T" and "disj_addrs T" and "bounded t"
  shows "asize T \<le> next_addr t"
proof -
  have "addrs T \<subseteq> {..<next_addr t}" using shape_dom [OF assms(1)] assms(3) by (auto simp: bounded_def)
  then have "card (addrs T) \<le> next_addr t" using card_mono [of "{..<next_addr t}"] by simp
  then show ?thesis using card_addrs [OF assms(2)] by simp
qed

lemma insert_value_rep:
  assumes "rep t T"
  shows "\<exists>t'. insert_value lt t v = Some t' \<and> rep t' (insert_tree lt (next_addr t) v T)"
proof -
  let ?I = "ins_tree lt (next_addr t) v T"
  from assms obtain q where r: "root t = rootp T" "disj_addrs T" "bounded t"
    "shape (heap t) q T" "q = None \<or> (\<exists>s \<in> addrs T. q = Some s)" by (auto simp: rep_def)
  have "aheight T < next_addr t + 1"
    using aheight_le_asize [of T] asize_le_next [OF r(4,2,3)] by simp
  moreover have "ctx (heap t) q (addrs T) [] q" using r(5) by (auto simp: ctx_def)
  ultimately obtain t1 q1 where t1:
    "recursive_insertion lt (next_addr t + 1) t (rootp T) v = Some (t1, rootp ?I)"
    "shape (heap t1) q1 ?I" "grown (addrs ?I) [] t q t1 q1"
    using recursive_insertion_shape [OF r(4,2,3)] by blast
  obtain a c L w R where I: "?I = ANode a c L w R" using ins_tree_not_leaf by (cases ?I) auto
  have "next_addr t \<notin> addrs T" by (rule fresh_addr [OF r(4,3)])
  then have dj: "disj_addrs ?I" using r(2) by (rule ins_tree_disj [rotated])
  let ?t2 = "t1\<lparr>root := rootp ?I\<rparr>"
  let ?t3 = "?t2\<lparr>heap := (heap t1)(a \<mapsto> (the (heap t1 a))\<lparr>color := BLACK\<rparr>)\<rparr>"
  have "insert_value lt t v = Some ?t3"
    using t1(1,2) r(1) I by (auto simp: insert_value_def set_color_def put_def)
  moreover have "shape (heap ?t3) q1 (paint_top BLACK ?I)"
    using t1(2) dj I by auto
  moreover have "q1 = None \<or> (\<exists>s \<in> addrs (paint_top BLACK ?I). q1 = Some s)"
    using t1(3) r(5) ins_tree_addrs(1) [of T lt "next_addr t" v] I by (auto simp: grown_def)
  moreover have "bounded ?t3" using t1 I by (auto simp: grown_def bounded_def)
  ultimately show ?thesis using dj I by (auto simp: rep_def insert_tree_def)
qed

end
