(* ===== verification/RBTree_Order.thy ===== *)
theory RBTree_Order
  imports RBTree_Insert
begin

text \<open>
  What the tree of \<open>base/rbtree.inl\<close> means: the sorted list of its values. The template's
  \<open>Value\<close> comes with a \<open>operator<\<close>, the parameter \<open>lt\<close>; the locale \<open>strict_order\<close> states
  what the tree needs of it. Insertion inserts into the sorted list, keeps the left-leaning
  red-black balance, and the queries read the list by position and by rank.
\<close>

primrec inorder :: "'v atree \<Rightarrow> 'v list" where
  "inorder ALeaf = []"
| "inorder (ANode a c l v r) = inorder l @ v # inorder r"

primrec inorder_addrs :: "'v atree \<Rightarrow> addr list" where
  "inorder_addrs ALeaf = []"
| "inorder_addrs (ANode a c l v r) = inorder_addrs l @ a # inorder_addrs r"

fun ins_list :: "('v \<Rightarrow> 'v \<Rightarrow> bool) \<Rightarrow> 'v \<Rightarrow> 'v list \<Rightarrow> 'v list" where
  "ins_list lt x [] = [x]"
| "ins_list lt x (y # ys) =
     (if lt y x then y # ins_list lt x ys else if lt x y then x # y # ys else y # ys)"

lemma length_inorder [simp]: "length (inorder T) = asize T"
  by (induction T) auto

lemma length_inorder_addrs [simp]: "length (inorder_addrs T) = asize T"
  by (induction T) auto

lemma set_inorder_addrs [simp]: "set (inorder_addrs T) = addrs T"
  by (induction T) auto

subsection \<open>The order of the values\<close>

locale strict_order =
  fixes lt :: "'v \<Rightarrow> 'v \<Rightarrow> bool"
  assumes irrefl: "\<not> lt x x"
    and trans: "lt x y \<Longrightarrow> lt y z \<Longrightarrow> lt x z"
    and total: "\<not> lt x y \<Longrightarrow> \<not> lt y x \<Longrightarrow> x = y"
begin

lemma asym: "lt x y \<Longrightarrow> \<not> lt y x"
  using irrefl trans by blast

lemma ins_list_app_right:
  "sorted_wrt lt (xs @ y # ys) \<Longrightarrow> lt y x \<Longrightarrow> ins_list lt x (xs @ y # ys) = xs @ y # ins_list lt x ys"
  by (induction xs) (auto dest: trans)

lemma ins_list_app_left:
  "sorted_wrt lt (xs @ y # ys) \<Longrightarrow> lt x y \<Longrightarrow> ins_list lt x (xs @ y # ys) = ins_list lt x xs @ y # ys"
  by (induction xs) (auto dest: asym)

lemma ins_list_mem: "sorted_wrt lt xs \<Longrightarrow> x \<in> set xs \<Longrightarrow> ins_list lt x xs = xs"
  by (induction xs) (auto simp: irrefl)

lemma set_ins_list: "sorted_wrt lt xs \<Longrightarrow> set (ins_list lt x xs) = insert x (set xs)"
  by (induction xs) (auto dest: total)

lemma sorted_ins_list: "sorted_wrt lt xs \<Longrightarrow> sorted_wrt lt (ins_list lt x xs)"
  by (induction xs) (auto simp: set_ins_list dest: trans)

lemma sorted_set_unique:
  "sorted_wrt lt xs \<Longrightarrow> sorted_wrt lt ys \<Longrightarrow> set xs = set ys \<Longrightarrow> xs = ys"
proof (induction xs arbitrary: ys)
  case (Cons x xs)
  then obtain y ys' where ys: "ys = y # ys'" by (cases ys) auto
  have "x = y"
  proof (rule ccontr)
    assume "x \<noteq> y"
    then have "y \<in> set xs" "x \<in> set ys'" using Cons.prems(3) ys by auto
    then have "lt x y" "lt y x" using Cons.prems(1,2) ys by auto
    then show False using trans irrefl by blast
  qed
  moreover have "x \<notin> set xs" "y \<notin> set ys'" using Cons.prems(1,2) ys irrefl by auto
  ultimately have "set xs = set ys'" using Cons.prems(3) ys by auto
  then show ?case using Cons ys \<open>x = y\<close> by auto
qed auto

lemma length_ins_list:
  "sorted_wrt lt xs \<Longrightarrow>
   length (ins_list lt x xs) = (if x \<in> set xs then length xs else length xs + 1)"
  by (induction xs) (auto simp: irrefl dest: total asym)

lemma sorted_distinct: "sorted_wrt lt xs \<Longrightarrow> distinct xs"
  by (induction xs) (auto simp: irrefl)

end

lemma inorder_rot [simp]: "inorder (rotL t) = inorder t" "inorder (rotR t) = inorder t"
  by (cases t rule: rotL.cases; auto) (cases t rule: rotR.cases; auto)

lemma inorder_flip_top [simp]: "inorder (flip_top t) = inorder t"
  by (cases t) auto

lemma inorder_paint_top [simp]: "inorder (paint_top c t) = inorder t"
  by (cases t) auto

lemma inorder_tfix [simp]: "inorder (tfix_right t) = inorder t" "inorder (tfix_left t) = inorder t"
  "inorder (tfix_both t) = inorder t"
  by (cases t; simp del: rotL.simps rotR.simps)+

context strict_order
begin

lemma inorder_ins_tree:
  "sorted_wrt lt (inorder T) \<Longrightarrow> inorder (ins_tree lt f x T) = ins_list lt x (inorder T)"
proof (induction T)
  case ALeaf
  then show ?case by simp
next
  case (ANode a c l v r)
  have s: "sorted_wrt lt (inorder l)" "sorted_wrt lt (inorder r)"
    "sorted_wrt lt (inorder l @ v # inorder r)"
    using ANode.prems by (auto simp: sorted_wrt_append)
  consider "lt v x" | "\<not> lt v x" "lt x v" | "x = v" using total by blast
  then show ?case
  proof cases
    case 1
    then show ?thesis using ANode.IH(2) s by (simp add: ins_list_app_right)
  next
    case 2
    then show ?thesis using ANode.IH(1) s by (simp add: ins_list_app_left)
  next
    case 3
    then show ?thesis using s ins_list_mem [of "inorder l @ v # inorder r" v]
      by (simp add: irrefl)
  qed
qed

lemma inorder_insert_tree:
  "sorted_wrt lt (inorder T) \<Longrightarrow> inorder (insert_tree lt f x T) = ins_list lt x (inorder T)"
  by (simp add: insert_tree_def inorder_ins_tree)

end

subsection \<open>Balance\<close>

primrec bheight :: "'v atree \<Rightarrow> nat" where
  "bheight ALeaf = 0"
| "bheight (ANode a c l v r) = (if c = BLACK then bheight l + 1 else bheight l)"

primrec invh :: "'v atree \<Rightarrow> bool" where
  "invh ALeaf = True"
| "invh (ANode a c l v r) \<longleftrightarrow> bheight l = bheight r \<and> invh l \<and> invh r"

primrec invc :: "'v atree \<Rightarrow> bool" where
  "invc ALeaf = True"
| "invc (ANode a c l v r) \<longleftrightarrow>
     \<not> is_redt r \<and> (c = RED \<longrightarrow> \<not> is_redt l) \<and> invc l \<and> invc r"

text \<open>The same with one red-red link allowed at the top, what an insertion below a red node leaves.\<close>

primrec invc_below :: "'v atree \<Rightarrow> bool" where
  "invc_below ALeaf = True"
| "invc_below (ANode a c l v r) \<longleftrightarrow> \<not> is_redt r \<and> invc l \<and> invc r"

definition llrb :: "'v atree \<Rightarrow> bool" where
  "llrb T \<longleftrightarrow> invc T \<and> invh T \<and> \<not> is_redt T"

lemma not_RED_iff [simp]: "c \<noteq> RED \<longleftrightarrow> c = BLACK" "c \<noteq> BLACK \<longleftrightarrow> c = RED"
  by (cases c; simp)+

lemma is_redt_iff: "is_redt T \<longleftrightarrow> (\<exists>a l v r. T = ANode a RED l v r)"
  by (cases T rule: is_redt.cases) auto

lemma not_is_redt_iff: "\<not> is_redt T \<longleftrightarrow> T = ALeaf \<or> (\<exists>a l v r. T = ANode a BLACK l v r)"
  by (cases T rule: is_redt.cases) auto

text \<open>
  The repairs at a node whose left or right subtree has just been inserted into: the black
  height stays, a black node comes out well coloured, a red one with the defect allowed above.
\<close>

lemma repair_right:
  assumes "invc l" "invc r" "invh l" "invh r" "bheight l = bheight r" "c = RED \<longrightarrow> \<not> is_redt l"
  shows "invh (tfix (ANode a c l v r)) \<and> bheight (tfix (ANode a c l v r)) = bheight (ANode a c l v r)
    \<and> invc_below (tfix (ANode a c l v r)) \<and> (c = BLACK \<longrightarrow> invc (tfix (ANode a c l v r)))"
proof (cases "is_redt r")
  case True
  then obtain x xl xv xr where r: "r = ANode x RED xl xv xr" by (auto simp: is_redt_iff)
  show ?thesis
  proof (cases "is_redt l")
    case True
    then obtain y yl yv yr where "l = ANode y RED yl yv yr" by (auto simp: is_redt_iff)
    with r assms show ?thesis by auto
  next
    case False
    with r assms show ?thesis by auto
  qed
next
  case False
  show ?thesis
  proof (cases "is_redt l")
    case True
    then obtain y yl yv yr where "l = ANode y RED yl yv yr" by (auto simp: is_redt_iff)
    with False assms show ?thesis by auto
  next
    case F: False
    with False assms show ?thesis by auto
  qed
qed

lemma repair_left:
  assumes "invc_below l" "c = RED \<longrightarrow> invc l" "invc r" "invh l" "invh r" "bheight l = bheight r"
    "\<not> is_redt r"
  shows "invh (tfix (ANode a c l v r)) \<and> bheight (tfix (ANode a c l v r)) = bheight (ANode a c l v r)
    \<and> invc_below (tfix (ANode a c l v r)) \<and> (c = BLACK \<longrightarrow> invc (tfix (ANode a c l v r)))"
proof (cases "is_redt l")
  case True
  then obtain y yl yv yr where l: "l = ANode y RED yl yv yr" by (auto simp: is_redt_iff)
  show ?thesis
  proof (cases "is_redt yl")
    case True
    then obtain z zl zv zr where "yl = ANode z RED zl zv zr" by (auto simp: is_redt_iff)
    with l assms show ?thesis by auto
  next
    case False
    with l assms show ?thesis by auto
  qed
next
  case False
  then show ?thesis using assms by (cases l) auto
qed

lemma invc_imp_below: "invc T \<Longrightarrow> invc_below T"
  by (cases T) auto

lemma ins_tree_balance:
  "invc T \<Longrightarrow> invh T \<Longrightarrow>
   invh (ins_tree lt f x T) \<and> bheight (ins_tree lt f x T) = bheight T
   \<and> invc_below (ins_tree lt f x T) \<and> (\<not> is_redt T \<longrightarrow> invc (ins_tree lt f x T))"
proof (induction T)
  case ALeaf
  then show ?case by simp
next
  case (ANode a c l v r)
  have p: "invc l" "invc r" "invh l" "invh r" "bheight l = bheight r" "\<not> is_redt r"
    "c = RED \<longrightarrow> \<not> is_redt l" using ANode.prems by auto
  have red: "\<not> is_redt (ANode a c l v r) \<longleftrightarrow> c = BLACK" by (cases c) auto
  consider "lt v x" | "\<not> lt v x" "lt x v" | "\<not> lt v x" "\<not> lt x v" by blast
  then show ?case
  proof cases
    case 1
    have "invc (ins_tree lt f x r)" "invh (ins_tree lt f x r)"
      "bheight (ins_tree lt f x r) = bheight r" using ANode.IH(2) p by auto
    then show ?thesis
      using repair_right [of l "ins_tree lt f x r" c a v] p 1 unfolding red by simp
  next
    case 2
    have "invc_below (ins_tree lt f x l)" "invh (ins_tree lt f x l)"
      "bheight (ins_tree lt f x l) = bheight l" "c = RED \<longrightarrow> invc (ins_tree lt f x l)"
      using ANode.IH(1) p by auto
    then show ?thesis
      using repair_left [of "ins_tree lt f x l" c r a v] p 2 unfolding red by simp
  next
    case 3
    then show ?thesis using repair_right [of l r c a v] p unfolding red by simp
  qed
qed

lemma llrb_insert_tree: "llrb T \<Longrightarrow> llrb (insert_tree lt f x T)"
  using ins_tree_balance [of T lt f x]
  by (cases "ins_tree lt f x T") (auto simp: llrb_def insert_tree_def)

lemma height_bheight: "invc T \<Longrightarrow> invh T \<Longrightarrow> aheight T \<le> 2 * bheight T + (if is_redt T then 1 else 0)"
proof (induction T)
  case (ANode a c l v r)
  then show ?case by (cases c) (auto split: if_splits)
qed simp

lemma bheight_size: "invh T \<Longrightarrow> 2 ^ bheight T \<le> asize T + 1"
  by (induction T) (auto split: if_splits)

lemma llrb_height:
  assumes "llrb T"
  shows "2 ^ aheight T \<le> (asize T + 1) ^ 2"
proof -
  have "aheight T \<le> 2 * bheight T" using height_bheight [of T] assms by (simp add: llrb_def)
  then have "(2::nat) ^ aheight T \<le> 2 ^ (2 * bheight T)" by (simp add: power_increasing)
  also have "\<dots> = (2 ^ bheight T) ^ 2" by (simp add: power_mult mult.commute flip: power_mult)
  also have "\<dots> \<le> (asize T + 1) ^ 2"
    using bheight_size [of T] assms by (simp add: llrb_def power_mono)
  finally show ?thesis .
qed

end
