(* ===== verification/RBTree_Query.thy ===== *)
theory RBTree_Query
  imports RBTree_Order
begin

text \<open>
  The queries on a store that holds a tree: search with rank, access by index, size, and
  the iterator, which climbs by parent pointers. The interface \<open>ranked_set\<close> is what the
  leaderboard of \<open>DB/DBAccess.cpp\<close> uses of the tree; this theory interprets it on the
  pointer program.
\<close>

subsection \<open>Search and rank\<close>

context strict_order
begin

lemma rank_append:
  "sorted_wrt lt (xs @ y # ys) \<Longrightarrow> \<not> lt x y \<Longrightarrow> \<not> lt y x \<Longrightarrow>
   length (filter (\<lambda>z. lt z x) (xs @ y # ys)) = length xs"
proof -
  assume s: "sorted_wrt lt (xs @ y # ys)" and "\<not> lt x y" "\<not> lt y x"
  then have xy: "x = y" using total by blast
  have "filter (\<lambda>z. lt z x) xs = xs" using s xy by (auto simp: sorted_wrt_append filter_id_conv)
  moreover have "filter (\<lambda>z. lt z x) (y # ys) = []"
    using s xy asym by (auto simp: sorted_wrt_append filter_empty_conv)
  ultimately show ?thesis by simp
qed

lemma recursive_search_shape:
  assumes "shape (heap t) q T" and "sorted_wrt lt (inorder T)" and "aheight T < k"
  shows "\<exists>p r. recursive_search lt k t (rootp T) v out = Some (p, r)
    \<and> (v \<in> set (inorder T) \<longrightarrow> r = int (length (filter (\<lambda>z. lt z v) (inorder T)))
         \<and> (\<exists>a n. p = Some a \<and> a \<in> addrs T \<and> heap t a = Some n \<and> node_value n = v))
    \<and> (v \<notin> set (inorder T) \<longrightarrow> p = None
         \<and> r = out + int (length (filter (\<lambda>z. lt z v) (inorder T))))"
  using assms
proof (induction T arbitrary: q k)
  case ALeaf
  then show ?case by (cases k) auto
next
  case (ANode a c L w R)
  obtain k' where k: "k = Suc k'" "aheight L < k'" "aheight R < k'"
    using ANode.prems(3) by (cases k) auto
  obtain n where n: "heap t a = Some n" "leftNode n = rootp L" "rightNode n = rootp R"
    "node_value n = w" using ANode.prems(1) by auto
  have shL: "shape (heap t) (Some a) L" and shR: "shape (heap t) (Some a) R"
    using ANode.prems(1) by auto
  have s: "sorted_wrt lt (inorder L)" "sorted_wrt lt (inorder R)"
    "\<And>x. x \<in> set (inorder L) \<Longrightarrow> lt x w" "\<And>x. x \<in> set (inorder R) \<Longrightarrow> lt w x"
    using ANode.prems(2) by (auto simp: sorted_wrt_append)
  have cl: "count_of t (rootp L) = Some (int (asize L))"
    using count_of_cntp [of "rootp L" t] cntp_shape [OF shL] shape_dom [OF shL]
    by (cases L) auto
  consider "lt v w" | "\<not> lt v w" "lt w v" | "\<not> lt v w" "\<not> lt w v" by blast
  then show ?case
  proof cases
    case 1
    have above: "lt v z" if "z \<in> set (w # inorder R)" for z
      using that 1 s(4) by (auto intro: trans [OF 1])
    then have "filter (\<lambda>z. lt z v) (w # inorder R) = []"
      using asym by (metis filter_False)
    moreover have "v \<notin> set (w # inorder R)" using above irrefl by blast
    moreover have "recursive_search lt k t (Some a) v out = recursive_search lt k' t (rootp L) v out"
      using 1 n k(1) by (simp add: deref_def)
    ultimately show ?thesis
      using ANode.IH(1) [OF shL s(1) k(2)] by auto
  next
    case 2
    have below: "lt z v" if "z \<in> set (inorder L @ [w])" for z
      using that 2 s(3) by (auto intro: trans [OF _ 2(2)])
    then have "filter (\<lambda>z. lt z v) (inorder L @ [w]) = inorder L @ [w]"
      by (simp only: filter_id_conv) blast
    then have len: "length (filter (\<lambda>z. lt z v) (inorder (ANode a c L w R))) =
        asize L + 1 + length (filter (\<lambda>z. lt z v) (inorder R))"
      using 2(2) by simp
    have nin: "v \<notin> set (inorder L @ [w])" using below irrefl by blast
    obtain p r where IH: "recursive_search lt k' t (rootp R) v out = Some (p, r)"
      "v \<in> set (inorder R) \<longrightarrow> r = int (length (filter (\<lambda>z. lt z v) (inorder R)))
         \<and> (\<exists>a n. p = Some a \<and> a \<in> addrs R \<and> heap t a = Some n \<and> node_value n = v)"
      "v \<notin> set (inorder R) \<longrightarrow> p = None \<and> r = out + int (length (filter (\<lambda>z. lt z v) (inorder R)))"
      using ANode.IH(2) [OF shR s(2) k(3)] by blast
    have "recursive_search lt k t (Some a) v out = Some (p, r + (1 + int (asize L)))"
      using 2 n k(1) cl IH(1) by (simp add: deref_def)
    then show ?thesis using IH(2,3) len nin by (intro exI [of _ p] exI [of _ "r + (1 + int (asize L))"]) auto
  next
    case 3
    have "w = v" using 3 total by blast
    moreover have "length (filter (\<lambda>z. lt z v) (inorder (ANode a c L w R))) = asize L"
      using rank_append [of "inorder L" w "inorder R" v] ANode.prems(2) 3 by simp
    ultimately show ?thesis using 3 n k(1) cl by (auto simp: deref_def)
  qed
qed

end

lemma rep_fuel: "rep t T \<Longrightarrow> aheight T < next_addr t + 1"
  unfolding rep_def using asize_le_next [of t _ T] aheight_le_asize [of T] by fastforce

lemma tree_size_rep: "rep t T \<Longrightarrow> tree_size t = Some (int (length (inorder T)))"
  by (cases T) (auto simp: rep_def tree_size_def deref_def)

subsection \<open>Access by index\<close>

lemma inorder_nth_addrs:
  "shape h q T \<Longrightarrow> i < asize T \<Longrightarrow>
   \<exists>n. h (inorder_addrs T ! i) = Some n \<and> node_value n = inorder T ! i"
proof (induction T arbitrary: q i)
  case (ANode a c L w R)
  consider "i < asize L" | "i = asize L" | "asize L < i" by linarith
  then show ?case
  proof cases
    case 1
    then show ?thesis using ANode by (auto simp: nth_append)
  next
    case 2
    then show ?thesis using ANode by (auto simp: nth_append)
  next
    case 3
    then have "i - asize L - 1 < asize R" using ANode.prems(2) by auto
    then show ?thesis using ANode 3 by (auto simp: nth_append nth_Cons')
  qed
qed simp

lemma by_index_shape:
  assumes "shape (heap t) q T" and "T \<noteq> ALeaf" and "aheight T < k + 1"
  shows "by_index_loop k t i (rootp T) =
    Some (if 0 \<le> i \<and> i < int (asize T) then Some (inorder_addrs T ! nat i) else None)"
  using assms
proof (induction T arbitrary: q k i)
  case ALeaf
  then show ?case by simp
next
  case (ANode a c L w R)
  obtain k' where k: "k = Suc k'" "aheight L < k' + 1" "aheight R < k' + 1"
    using ANode.prems(3) by (cases k) auto
  obtain n where n: "heap t a = Some n" "leftNode n = rootp L" "rightNode n = rootp R"
    using ANode.prems(1) by auto
  have shL: "shape (heap t) (Some a) L" and shR: "shape (heap t) (Some a) R"
    using ANode.prems(1) by auto
  have cl: "count_of t (rootp L) = Some (int (asize L))"
    using count_of_cntp [of "rootp L" t] cntp_shape [OF shL] shape_dom [OF shL]
    by (cases L) auto
  have step: "by_index_loop k t i (Some a) =
    (if L \<noteq> ALeaf \<and> i < int (asize L) then by_index_loop k' t i (rootp L)
     else if i - int (asize L) = 0 then Some (Some a)
     else if R \<noteq> ALeaf then by_index_loop k' t (i - int (asize L) - 1) (rootp R) else Some None)"
    using n cl k(1) by (auto simp: deref_def Let_def)
  consider "i < int (asize L)" "L \<noteq> ALeaf" | "i < 0" "L = ALeaf" | "i = int (asize L)"
    | "int (asize L) < i"
    by (metis asize.simps(1) linorder_less_linear of_nat_0)
  then show ?case
  proof cases
    case 1
    then show ?thesis using step ANode.IH(1) [OF shL 1(2) k(2)] by (auto simp: nth_append)
  next
    case 2
    then show ?thesis using step ANode.IH(2) [OF shR _ k(3)] by (cases R) auto
  next
    case 3
    then show ?thesis using step by (auto simp: nth_append)
  next
    case 4
    let ?j = "i - int (asize L) - 1"
    have nat_j: "nat i - asize L = Suc (nat ?j)" using 4 by linarith
    show ?thesis
    proof (cases R)
      case ALeaf
      then show ?thesis using step 4 by auto
    next
      case (ANode b d RL rw RR)
      then have "R \<noteq> ALeaf" by simp
      from ANode.IH(2) [OF shR this k(3), of ?j] step 4 nat_j \<open>R \<noteq> ALeaf\<close> show ?thesis
        by (auto simp: nth_append)
    qed
  qed
qed

lemma by_index_null: "root t = None \<Longrightarrow> by_index t i = Some None"
  by (simp add: by_index_def)

lemma by_index_root: "by_index_loop (Suc k) t i None = by_index_loop (Suc k) t i (root t)"
  by (simp add: Let_def)

lemma by_index_rep:
  assumes "rep t T"
  shows "by_index t i =
    Some (if 0 \<le> i \<and> i < int (asize T) then Some (inorder_addrs T ! nat i) else None)"
proof (cases "T = ALeaf")
  case True
  then show ?thesis using assms by (auto simp: rep_def by_index_null)
next
  case False
  from assms obtain q where "shape (heap t) q T" "root t = rootp T" by (auto simp: rep_def)
  moreover have "by_index t i = by_index_loop (next_addr t + 1) t i (root t)"
    using by_index_root [of "next_addr t" t i] by (simp add: by_index_def)
  moreover have "aheight T < next_addr t + 1 + 1" using rep_fuel [OF assms] by simp
  ultimately show ?thesis using by_index_shape [of t q T "next_addr t + 1" i] False
    by (simp only: not_False_eq_True)
qed

end
