(* ===== verification/RBTree_Iter.thy ===== *)
theory RBTree_Iter
  imports RBTree_Query
begin

text \<open>
  The iterator of \<open>base/rbtree.h\<close> and the interface of the ranked set. \<open>operator++\<close> walks the
  values in order up to the last one. Past the last one it only stops if the root's parent
  pointer is null, which a rotation of the root undoes.
\<close>

lemma get_min_shape:
  assumes "shape (heap t) q T" and "T \<noteq> ALeaf" and "aheight T \<le> k"
  shows "get_min_loop k t (rootp T) = Some (Some (hd (inorder_addrs T)))"
  using assms
proof (induction T arbitrary: q k)
  case (ANode a c L w R)
  obtain k' where k: "k = Suc k'" "aheight L \<le> k'" using ANode.prems(3) by (cases k) auto
  have sh: "shape (heap t) (Some a) L" using ANode.prems(1) by simp
  show ?case
  proof (cases L)
    case ALeaf
    then show ?thesis using ANode.prems(1) k(1) by (simp add: deref_def)
  next
    case (ANode b d LL lw LR)
    then have "L \<noteq> ALeaf" by simp
    from ANode.IH(1) [OF sh this k(2)] ANode.prems(1) k(1) ANode show ?thesis
      by (auto simp: deref_def hd_append)
  qed
qed simp

declare get_min_loop.simps [simp del]

lemma last_inorder_right:
  "T \<noteq> ALeaf \<Longrightarrow> shape h q T \<Longrightarrow> \<exists>n. h (last (inorder_addrs T)) = Some n \<and> rightNode n = None"
proof (induction T arbitrary: q)
  case (ANode a c L w R)
  show ?case
  proof (cases R)
    case (ANode b d RL rw RR)
    then have "R \<noteq> ALeaf" by simp
    with ANode.IH(2) [of "Some a"] ANode.prems(2) ANode show ?thesis by auto
  qed (use ANode.prems in auto)
qed simp

lemma climb_to_top:
  assumes "shape (heap t) q T" and "disj_addrs T" and "T \<noteq> ALeaf"
  shows "\<exists>d < aheight T. \<forall>k. climb (Suc k + d) t (Some (last (inorder_addrs T))) = climb (Suc k) t (rootp T)"
  using assms
proof (induction T arbitrary: q)
  case (ANode a c L w R)
  show ?case
  proof (cases R)
    case ALeaf
    then show ?thesis by (intro exI [of _ 0]) simp
  next
    case (ANode b e RL rw RR)
    have sh: "shape (heap t) (Some a) R" "disj_addrs R" "R \<noteq> ALeaf"
      using ANode.prems(1,2) ANode by auto
    obtain d where d: "d < aheight R"
      "\<forall>k. climb (Suc k + d) t (Some (last (inorder_addrs R))) = climb (Suc k) t (rootp R)"
      using ANode.IH(2) [OF sh] by blast
    have "rootp L \<noteq> Some b" using ANode.prems(2) ANode by (auto dest: rootp_Some)
    then have "climb (Suc (Suc k)) t (rootp R) = climb (Suc k) t (Some a)" for k
      using ANode.prems(1) ANode by (auto simp: deref_def)
    with d(2) have "climb (Suc (Suc k) + d) t (Some (last (inorder_addrs R))) = climb (Suc k) t (Some a)" for k
      by metis
    then have "climb (Suc k + Suc d) t (Some (last (inorder_addrs R))) = climb (Suc k) t (Some a)" for k
      by simp
    moreover have "last (inorder_addrs (ANode a c L w R)) = last (inorder_addrs R)"
      using ANode by simp
    moreover have "Suc d < aheight (ANode a c L w R)" using d(1) by simp
    ultimately show ?thesis by (intro exI [of _ "Suc d"]) (simp only: rootp.simps simp_thms)
  qed
qed simp

lemma inorder_addrs_empty [simp]: "inorder_addrs T = [] \<longleftrightarrow> T = ALeaf"
  by (cases T) auto

lemma next_iter_shape:
  assumes "shape (heap t) q T" and "disj_addrs T" and "aheight T \<le> next_addr t"
    and "i + 1 < asize T"
  shows "next_iter t (Some (inorder_addrs T ! i)) = Some (Some (inorder_addrs T ! (i + 1)))"
  using assms
proof (induction T arbitrary: q i)
  case (ANode a c L w R)
  have shL: "shape (heap t) (Some a) L" and shR: "shape (heap t) (Some a) R"
    and dj: "disj_addrs L" "disj_addrs R" and ht: "aheight L \<le> next_addr t" "aheight R \<le> next_addr t"
    using ANode.prems by auto
  obtain n where n: "heap t a = Some n" "leftNode n = rootp L" "rightNode n = rootp R"
    using ANode.prems(1) by auto
  consider "i + 1 < asize L" | "i + 1 = asize L" | "i = asize L" | "asize L < i" by linarith
  then show ?case
  proof cases
    case 1
    then show ?thesis using ANode.IH(1) [OF shL dj(1) ht(1)] by (simp add: nth_append)
  next
    case 2
    then have L: "L \<noteq> ALeaf" by auto
    have i: "inorder_addrs L ! i = last (inorder_addrs L)"
      using 2 L by (simp add: last_conv_nth flip: 2)
    obtain m where m: "heap t (last (inorder_addrs L)) = Some m" "rightNode m = None"
      using last_inorder_right [OF L shL] by blast
    obtain d where d: "d < aheight L"
      "\<forall>k. climb (Suc k + d) t (Some (last (inorder_addrs L))) = climb (Suc k) t (rootp L)"
      using climb_to_top [OF shL dj(1) L] by blast
    then obtain k where k: "next_addr t + 1 = Suc (Suc k) + d"
      using ht(1) by (metis add.commute add_Suc_right le_iff_add less_iff_Suc_add
          less_le_trans plus_1_eq_Suc)
    have "next_iter t (Some (last (inorder_addrs L))) = climb (Suc (Suc k)) t (rootp L)"
      using m d(2) k by (simp only: next_iter_def deref_def option.simps Option.bind.bind_lunit) simp
    also have "\<dots> = Some (Some a)"
    proof (cases L)
      case (ANode b e LL lw LR)
      then show ?thesis using shL n by (auto simp: deref_def)
    qed (use L in simp)
    finally show ?thesis using 2 i by (simp add: nth_append)
  next
    case 3
    then have R: "R \<noteq> ALeaf" using ANode.prems(4) by auto
    have "get_min_loop (next_addr t + 1) t (rootp R) = Some (Some (hd (inorder_addrs R)))"
      using get_min_shape [OF shR R] ht(2) by (simp only: le_SucI Suc_eq_plus1 [symmetric])
    then have "next_iter t (Some a) = Some (Some (hd (inorder_addrs R)))"
      using n R by (simp add: next_iter_def deref_def get_min_def)
    then show ?thesis using 3 R by (simp add: nth_append hd_conv_nth)
  next
    case 4
    then obtain j where j: "i = asize L + Suc j" using less_iff_Suc_add by auto
    then have "j + 1 < asize R" using ANode.prems(4) by simp
    from ANode.IH(2) [OF shR dj(2) ht(2) this] j show ?thesis
      by (simp add: nth_append)
  qed
qed simp

subsection \<open>The contract of the ranked set\<close>

text \<open>
  \<open>holds s xs ps\<close>: the set \<open>s\<close> holds the values \<open>xs\<close> in order, at the iterator positions
  \<open>ps\<close>. A \<open>None\<close> result of an operation is a crash or a loop.
\<close>

locale ranked_set =
  fixes lt :: "'v \<Rightarrow> 'v \<Rightarrow> bool"
    and new :: "'s"
    and ins :: "'s \<Rightarrow> 'v \<Rightarrow> 's option"
    and size_of :: "'s \<Rightarrow> int option"
    and at_index :: "'s \<Rightarrow> int \<Rightarrow> 'p option option"
    and value_at :: "'s \<Rightarrow> 'p \<Rightarrow> 'v option"
    and advance :: "'s \<Rightarrow> 'p \<Rightarrow> 'p option option"
    and rank_of :: "'s \<Rightarrow> 'v \<Rightarrow> int \<Rightarrow> ('p option \<times> int) option"
    and holds :: "'s \<Rightarrow> 'v list \<Rightarrow> 'p list \<Rightarrow> bool"
  assumes holds_new: "holds new [] []"
    and holds_sorted: "holds s xs ps \<Longrightarrow> sorted_wrt lt xs \<and> distinct xs \<and> length ps = length xs"
    and holds_ins: "holds s xs ps \<Longrightarrow> \<exists>s' ps'. ins s v = Some s' \<and> holds s' (ins_list lt v xs) ps'"
    and holds_size: "holds s xs ps \<Longrightarrow> size_of s = Some (int (length xs))"
    and holds_at: "holds s xs ps \<Longrightarrow>
      at_index s i = Some (if 0 \<le> i \<and> i < int (length xs) then Some (ps ! nat i) else None)"
    and holds_value: "holds s xs ps \<Longrightarrow> k < length xs \<Longrightarrow> value_at s (ps ! k) = Some (xs ! k)"
    and holds_advance: "holds s xs ps \<Longrightarrow> k + 1 < length xs \<Longrightarrow>
      advance s (ps ! k) = Some (Some (ps ! (k + 1)))"
    and holds_rank: "holds s xs ps \<Longrightarrow> k < length xs \<Longrightarrow>
      \<exists>p. rank_of s (xs ! k) out = Some (Some p, int k)"
begin

text \<open>Rank and index are inverse to each other.\<close>

lemma rank_at_index:
  assumes "holds s xs ps" and "0 \<le> i" and "i < int (length xs)"
  shows "\<exists>p v q. at_index s i = Some (Some p) \<and> value_at s p = Some v
    \<and> rank_of s v out = Some (Some q, i)"
proof -
  have k: "nat i < length xs" using assms(2,3) by linarith
  obtain q where "rank_of s (xs ! nat i) out = Some (Some q, int (nat i))"
    using holds_rank [OF assms(1) k] by blast
  then show ?thesis
    using holds_at [OF assms(1), of i] holds_value [OF assms(1) k] assms(2,3) by auto
qed

end

subsection \<open>The pointer program provides it\<close>

definition node_at :: "'v rbtree \<Rightarrow> addr \<Rightarrow> 'v option" where
  "node_at t a = map_option node_value (heap t a)"

definition next_at :: "'v rbtree \<Rightarrow> addr \<Rightarrow> ptr option" where
  "next_at t a = next_iter t (Some a)"

definition tree_holds :: "('v \<Rightarrow> 'v \<Rightarrow> bool) \<Rightarrow> 'v rbtree \<Rightarrow> 'v list \<Rightarrow> addr list \<Rightarrow> bool" where
  "tree_holds lt t xs ps \<longleftrightarrow>
     (\<exists>T. rep t T \<and> llrb T \<and> sorted_wrt lt (inorder T) \<and> xs = inorder T \<and> ps = inorder_addrs T)"

context strict_order
begin

lemma filter_lt_nth:
  "sorted_wrt lt xs \<Longrightarrow> k < length xs \<Longrightarrow> length (filter (\<lambda>z. lt z (xs ! k)) xs) = k"
  using rank_append [of "take k xs" "xs ! k" "drop (Suc k) xs" "xs ! k"] irrefl
  by (simp add: id_take_nth_drop [symmetric])

lemma insert_value_holds:
  assumes "tree_holds lt t xs ps"
  shows "\<exists>t' ps'. insert_value lt t v = Some t' \<and> tree_holds lt t' (ins_list lt v xs) ps'"
proof -
  from assms obtain T where T: "rep t T" "llrb T" "sorted_wrt lt (inorder T)" "xs = inorder T"
    by (auto simp: tree_holds_def)
  obtain t' where t': "insert_value lt t v = Some t'" "rep t' (insert_tree lt (next_addr t) v T)"
    using insert_value_rep [OF T(1)] by blast
  show ?thesis
    using t' T llrb_insert_tree [OF T(2)] inorder_insert_tree [OF T(3)] sorted_ins_list [OF T(3)]
    by (fastforce simp: tree_holds_def)
qed

lemma search_holds:
  assumes "tree_holds lt t xs ps"
  shows "\<exists>p r. search lt t v out = Some (p, r)
    \<and> (v \<in> set xs \<longrightarrow> r = int (length (filter (\<lambda>z. lt z v) xs)) \<and> (\<exists>a. p = Some a \<and> node_at t a = Some v))
    \<and> (v \<notin> set xs \<longrightarrow> p = None \<and> r = out + int (length (filter (\<lambda>z. lt z v) xs)))"
proof -
  from assms obtain T q where T: "rep t T" "sorted_wrt lt (inorder T)" "xs = inorder T"
    "root t = rootp T" "shape (heap t) q T" by (auto simp: tree_holds_def rep_def)
  from recursive_search_shape [OF T(5,2) rep_fuel [OF T(1)], of v out] T(3,4)
  show ?thesis by (auto simp: search_def node_at_def)
qed

end

sublocale strict_order \<subseteq> rb: ranked_set lt empty_tree "insert_value lt" tree_size by_index node_at
  next_at "search lt" "tree_holds lt"
proof (unfold_locales, goal_cases)
  case 1
  show ?case using rep_empty by (auto simp: tree_holds_def llrb_def intro!: exI [of _ ALeaf])
next
  case (2 s xs ps)
  then show ?case using sorted_distinct by (auto simp: tree_holds_def)
next
  case (3 s xs ps v)
  then show ?case by (rule insert_value_holds)
next
  case (4 s xs ps)
  then show ?case using tree_size_rep by (auto simp: tree_holds_def)
next
  case (5 s xs ps i)
  then obtain T where "rep s T" "xs = inorder T" "ps = inorder_addrs T"
    by (auto simp: tree_holds_def)
  then show ?case using by_index_rep [of s T i] by (simp only: length_inorder)
next
  case (6 s xs ps k)
  then show ?case using inorder_nth_addrs by (fastforce simp: tree_holds_def rep_def node_at_def)
next
  case (7 s xs ps k)
  then obtain T where T: "rep s T" "ps = inorder_addrs T" "k + 1 < asize T"
    by (auto simp: tree_holds_def)
  obtain q where "shape (heap s) q T" "disj_addrs T" using T(1) by (auto simp: rep_def)
  from next_iter_shape [OF this _ T(3)] rep_fuel [OF T(1)] T(2) show ?case
    by (simp add: next_at_def)
next
  case (8 s xs ps k out)
  obtain p r where p: "search lt s (xs ! k) out = Some (p, r)"
    "r = int (length (filter (\<lambda>z. lt z (xs ! k)) xs))" "p \<noteq> None"
    using search_holds [OF 8(1), of "xs ! k" out] 8(2) nth_mem by fastforce
  have "sorted_wrt lt xs" using 8(1) by (auto simp: tree_holds_def)
  then show ?case using p filter_lt_nth 8(2) by auto
qed

subsection \<open>Past the last value\<close>

lemma climb_never_null:
  assumes "\<And>a. a \<in> A \<Longrightarrow> \<exists>n b. heap t a = Some n \<and> parent n = Some b \<and> b \<in> A" and "a \<in> A"
  shows "climb k t (Some a) \<noteq> Some None"
  using assms(2)
proof (induction k arbitrary: a)
  case (Suc k)
  obtain n b where n: "heap t a = Some n" "parent n = Some b" "b \<in> A"
    using assms(1) [OF Suc.prems] by blast
  obtain m where m: "heap t b = Some m" using assms(1) [OF n(3)] by blast
  show ?case using n m Suc.IH [OF n(3)] by (simp add: deref_def)
qed simp

lemma shape_parents:
  "shape h (Some s) T \<Longrightarrow> s \<in> A \<Longrightarrow> addrs T \<subseteq> A \<Longrightarrow> a \<in> addrs T \<Longrightarrow>
   \<exists>n b. h a = Some n \<and> parent n = Some b \<and> b \<in> A"
proof (induction T arbitrary: s)
  case (ANode b c L w R)
  have "addrs L \<subseteq> A" "addrs R \<subseteq> A" "b \<in> A" using ANode.prems(3) by auto
  then show ?case using ANode.IH [of b] ANode.prems by auto
qed simp

lemma next_iter_never_null:
  assumes "rep t T" and "T \<noteq> ALeaf" and "heap t (the (root t)) = Some n" and "parent n \<noteq> None"
    and "a \<in> addrs T"
  shows "next_iter t (Some a) \<noteq> Some None"
proof -
  from assms(1,2,3,4) obtain s where sh: "shape (heap t) (Some s) T" "s \<in> addrs T"
    by (cases T) (auto simp: rep_def)
  have par: "\<exists>n b. heap t a = Some n \<and> parent n = Some b \<and> b \<in> addrs T" if "a \<in> addrs T" for a
    using shape_parents [OF sh order_refl that] .
  obtain m where m: "heap t a = Some m" using par [OF assms(5)] by blast
  have nn: "get_min_loop k t p \<noteq> Some None" if "p \<noteq> None" for k p
    using that
    by (induction k arbitrary: p) (auto simp: bind_Some_iff get_min_loop.simps split: if_splits)
  show ?thesis
    using m nn climb_never_null [of "addrs T" t a, OF par assms(5)]
    by (cases "rightNode m = None")
      (simp_all add: next_iter_def deref_def get_min_def del: climb.simps)
qed

end
