(* ===== verification/RBTree_Remove.thy ===== *)
theory RBTree_Remove
  imports RBTree_Iter
begin

text \<open>
  The removal functions of \<open>base/rbtree.inl\<close> besides \<open>my_delete\<close>: \<open>delete_one_child\<close> with its six
  cases, \<open>RB_DELETE\<close> and \<open>RB_DELETE_FIXUP\<close>, and the destructor. The theory shows what \<open>RB_DELETE\<close> does
  to a balanced tree: a value whose node has no child or two is removed and all links and sizes are
  right afterwards; at a node with one child the recursion never ends.
\<close>

section \<open>The destructor\<close>

text \<open>\<open>deleteAll\<close> takes the nodes out of the store; a node that is deleted twice is an error.\<close>

fun deleteAll :: "nat \<Rightarrow> 'v rbtree \<Rightarrow> ptr \<Rightarrow> 'v rbtree option" where
  "deleteAll 0 t nd = None"
| "deleteAll (Suc k) t nd = (case nd of None \<Rightarrow> Some t
     | Some a \<Rightarrow> do {
         n \<leftarrow> deref t nd;
         t \<leftarrow> deleteAll k t (leftNode n);
         n \<leftarrow> deref t nd;
         t \<leftarrow> deleteAll k t (rightNode n);
         n \<leftarrow> deref t nd;
         Some (t\<lparr>heap := (heap t)(a := None)\<rparr>) })"

section \<open>Colours\<close>

definition check_color :: "'v rbtree \<Rightarrow> ptr \<Rightarrow> Color option" where
  "check_color t p = (if p = None then Some BLACK else map_option color (deref t p))"

definition set_node_color :: "'v rbtree \<Rightarrow> ptr \<Rightarrow> Color \<Rightarrow> 'v rbtree option" where
  "set_node_color t p c = (if p = None then Some t else set_color t p c)"

text \<open>A debugging function; a red node without children makes it dereference null.\<close>

fun test_rb_properties :: "nat \<Rightarrow> 'v rbtree \<Rightarrow> ptr \<Rightarrow> int option" where
  "test_rb_properties 0 t nd = None"
| "test_rb_properties (Suc k) t nd =
     (if nd = None then Some 0
      else do {
        n \<leftarrow> deref t nd;
        if color n = RED then do {
          l \<leftarrow> deref t (leftNode n);
          violated \<leftarrow> (if color l = RED then Some True
                        else do { r \<leftarrow> deref t (rightNode n); Some (color r = RED) });
          if violated then do {
            a \<leftarrow> test_rb_properties k t (leftNode n);
            b \<leftarrow> test_rb_properties k t (rightNode n);
            Some (- 1) }
          else Some 0 }
        else Some 0 })"

section \<open>\<open>delete_one_child\<close>\<close>

definition replace_node :: "'v rbtree \<Rightarrow> ptr \<Rightarrow> ptr \<Rightarrow> 'v rbtree option" where
  "replace_node t n v = do {
     nn \<leftarrow> deref t n;
     let n_parent = parent nn;
     t \<leftarrow> (if n_parent = None then Some (t\<lparr>root := v\<rparr>)
           else do {
             pn \<leftarrow> deref t n_parent;
             t \<leftarrow> (if leftNode pn = n then set_left t n_parent v else Some t);
             pn \<leftarrow> deref t n_parent;
             if rightNode pn = n then set_rigth t n_parent v else Some t });
     if v \<noteq> None then do {
       nn \<leftarrow> deref t n;
       t \<leftarrow> set_left t v (leftNode nn);
       nn \<leftarrow> deref t n;
       set_rigth t v (rightNode nn) }
     else Some t }"

definition is_leaf :: "ptr \<Rightarrow> bool" where "is_leaf n \<longleftrightarrow> n = None"

definition sibling :: "'v rbtree \<Rightarrow> ptr \<Rightarrow> ptr \<Rightarrow> ptr option" where
  "sibling t n n_parent =
     (if n_parent = None then Some None
      else do {
        pn \<leftarrow> deref t n_parent;
        Some (if leftNode pn = n then rightNode pn else leftNode pn) })"

definition delete_case6 :: "'v rbtree \<Rightarrow> ptr \<Rightarrow> ptr \<Rightarrow> 'v rbtree option" where
  "delete_case6 t n n_parent = do {
     s \<leftarrow> sibling t n n_parent;
     pn \<leftarrow> deref t n_parent;
     t \<leftarrow> set_color t s (color pn);
     nn \<leftarrow> deref t n;
     t \<leftarrow> set_color t (parent nn) BLACK;
     nn \<leftarrow> deref t n;
     pp \<leftarrow> deref t (parent nn);
     sn \<leftarrow> deref t s;
     if n = leftNode pp then do {
       t \<leftarrow> set_color t (rightNode sn) BLACK;
       (t, x) \<leftarrow> left_rotation t (parent nn);
       Some t }
     else do {
       t \<leftarrow> set_color t (leftNode sn) BLACK;
       (t, x) \<leftarrow> right_rotation t (parent nn);
       Some t } }"

definition delete_case5 :: "'v rbtree \<Rightarrow> ptr \<Rightarrow> ptr \<Rightarrow> 'v rbtree option" where
  "delete_case5 t n n_parent = do {
     s \<leftarrow> sibling t n n_parent;
     sc \<leftarrow> check_color t s;
     t \<leftarrow> (if sc = BLACK then do {
           nn \<leftarrow> deref t n;
           pp \<leftarrow> deref t (parent nn);
           to_left \<leftarrow> (if n = leftNode pp then do {
                       sn \<leftarrow> deref t s;
                       r \<leftarrow> deref t (rightNode sn);
                       if color r = BLACK then do { l \<leftarrow> deref t (leftNode sn); Some (color l = RED) }
                       else Some False }
                     else Some False);
           if to_left then do {
             t \<leftarrow> set_color t s RED;
             sn \<leftarrow> deref t s;
             t \<leftarrow> set_color t (leftNode sn) BLACK;
             (t, x) \<leftarrow> right_rotation t s;
             Some t }
           else do {
             pn \<leftarrow> deref t n_parent;
             to_right \<leftarrow> (if n = rightNode pn then do {
                          sn \<leftarrow> deref t s;
                          l \<leftarrow> check_color t (leftNode sn);
                          r \<leftarrow> check_color t (rightNode sn);
                          Some (l = BLACK \<and> r = RED) }
                        else Some False);
             if to_right then do {
               t \<leftarrow> set_color t s RED;
               sn \<leftarrow> deref t s;
               t \<leftarrow> set_color t (rightNode sn) BLACK;
               (t, x) \<leftarrow> left_rotation t s;
               Some t }
             else Some t } }
         else Some t);
     delete_case6 t n n_parent }"

text \<open>The condition that \<open>delete_case3\<close> and \<open>delete_case4\<close> share: a black node with black children.\<close>

definition all_black :: "'v rbtree \<Rightarrow> ptr \<Rightarrow> bool option" where
  "all_black t s = do {
     c \<leftarrow> check_color t s;
     if c = BLACK then do {
       sn \<leftarrow> deref t s;
       l \<leftarrow> check_color t (leftNode sn);
       r \<leftarrow> check_color t (rightNode sn);
       Some (l = BLACK \<and> r = BLACK) }
     else Some False }"

definition delete_case4 :: "'v rbtree \<Rightarrow> ptr \<Rightarrow> ptr \<Rightarrow> 'v rbtree option" where
  "delete_case4 t n n_parent = do {
     s \<leftarrow> sibling t n n_parent;
     pn \<leftarrow> deref t n_parent;
     swap \<leftarrow> (if color pn = RED then all_black t s else Some False);
     if swap then do {
       t \<leftarrow> set_color t s RED;
       set_color t n_parent BLACK }
     else delete_case5 t n n_parent }"

text \<open>\<open>delete_case1\<close>, \<open>delete_case2\<close> and \<open>delete_case3\<close> call each other; the climb is the argument \<open>again\<close>.\<close>

definition delete_case3 ::
  "('v rbtree \<Rightarrow> ptr \<Rightarrow> ptr \<Rightarrow> 'v rbtree option) \<Rightarrow> 'v rbtree \<Rightarrow> ptr \<Rightarrow> ptr \<Rightarrow> 'v rbtree option" where
  "delete_case3 again t n n_parent = do {
     s \<leftarrow> sibling t n n_parent;
     pc \<leftarrow> check_color t n_parent;
     climb \<leftarrow> (if pc = BLACK then all_black t s else Some False);
     if climb then do {
       t \<leftarrow> set_color t s RED;
       pn \<leftarrow> deref t n_parent;
       again t n_parent (parent pn) }
     else delete_case4 t n n_parent }"

definition delete_case2 ::
  "('v rbtree \<Rightarrow> ptr \<Rightarrow> ptr \<Rightarrow> 'v rbtree option) \<Rightarrow> 'v rbtree \<Rightarrow> ptr \<Rightarrow> ptr \<Rightarrow> 'v rbtree option" where
  "delete_case2 again t n n_parent = do {
     s \<leftarrow> sibling t n n_parent;
     sc \<leftarrow> check_color t s;
     t \<leftarrow> (if sc = RED then do {
           nn \<leftarrow> deref t n;
           t \<leftarrow> set_color t (parent nn) RED;
           t \<leftarrow> set_color t s BLACK;
           pn \<leftarrow> deref t n_parent;
           (t, x) \<leftarrow> (if n = leftNode pn then left_rotation t n_parent else right_rotation t n_parent);
           Some t }
         else Some t);
     delete_case3 again t n n_parent }"

fun delete_case1 :: "nat \<Rightarrow> 'v rbtree \<Rightarrow> ptr \<Rightarrow> ptr \<Rightarrow> 'v rbtree option" where
  "delete_case1 0 t n n_parent = None"
| "delete_case1 (Suc k) t n n_parent =
     (if n_parent \<noteq> None then delete_case2 (delete_case1 k) t n n_parent else Some t)"

definition delete_one_child :: "'v rbtree \<Rightarrow> ptr \<Rightarrow> 'v rbtree option" where
  "delete_one_child t n =
     (if n = None then Some t
      else do {
        nn \<leftarrow> deref t n;
        let child = (if is_leaf (rightNode nn) then leftNode nn else rightNode nn);
        if child = None then replace_node t n None
        else if leftNode nn \<noteq> None \<and> rightNode nn \<noteq> None then do {
          m \<leftarrow> get_min t (rightNode nn);
          replace_node t n child }
        else do {
          t \<leftarrow> replace_node t n child;
          nn \<leftarrow> deref t n;
          if color nn = BLACK then do {
            c \<leftarrow> check_color t child;
            if c = RED then set_color t child BLACK
            else delete_case1 (next_addr t + 1) t child n }
          else Some t } })"

section \<open>\<open>RB_DELETE\<close>\<close>

text \<open>
  Both branches of the conditional on \<open>x\<close> return, so the code that follows it, with its call of
  \<open>RB_DELETE_FIXUP\<close>, is never reached. What is returned is null in every case.
\<close>

fun RB_DELETE :: "nat \<Rightarrow> 'v rbtree \<Rightarrow> ptr \<Rightarrow> 'v rbtree option" where
  "RB_DELETE 0 t z = None"
| "RB_DELETE (Suc k) t z =
     (if z = None then Some t
      else do {
        n \<leftarrow> deref t z;
        y \<leftarrow> (if leftNode n = None \<or> rightNode n = None then Some z else TREE_SUCCESSOR t z);
        yn \<leftarrow> deref t y;
        let x = (if leftNode yn \<noteq> None then leftNode yn else rightNode yn);
        t \<leftarrow> put t z (node_value_update (\<lambda>_. node_value yn));
        if x = None then remove_leaf t y else RB_DELETE k t y })"

text \<open>One round of \<open>RB_DELETE_FIXUP\<close>, for a left and for a right child; its result is the next \<open>x\<close>.\<close>

definition fixup_left :: "'v rbtree \<Rightarrow> ptr \<Rightarrow> ('v rbtree \<times> ptr) option" where
  "fixup_left t x = do {
     xn \<leftarrow> deref t x;
     pn \<leftarrow> deref t (parent xn);
     let w = rightNode pn;
     wc \<leftarrow> check_color t w;
     (t, w) \<leftarrow> (if wc = RED then do {
                t \<leftarrow> set_node_color t w BLACK;
                t \<leftarrow> set_node_color t (parent xn) RED;
                (t, _) \<leftarrow> left_rotation t (parent xn);
                xn \<leftarrow> deref t x;
                pn \<leftarrow> deref t (parent xn);
                Some (t, rightNode pn) }
              else Some (t, w));
     wn \<leftarrow> deref t w;
     lc \<leftarrow> check_color t (leftNode wn);
     rc \<leftarrow> check_color t (rightNode wn);
     xn \<leftarrow> deref t x;
     if lc = BLACK \<and> rc = BLACK then do {
       t \<leftarrow> set_node_color t w RED;
       Some (t, parent xn) }
     else do {
       (t, w) \<leftarrow> (if rc = BLACK then do {
                  t \<leftarrow> set_node_color t w RED;
                  (t, _) \<leftarrow> right_rotation t w;
                  xn \<leftarrow> deref t x;
                  pn \<leftarrow> deref t (parent xn);
                  Some (t, rightNode pn) }
                else Some (t, w));
       xn \<leftarrow> deref t x;
       pc \<leftarrow> check_color t (parent xn);
       t \<leftarrow> set_node_color t w pc;
       t \<leftarrow> set_node_color t (parent xn) BLACK;
       wn \<leftarrow> deref t w;
       t \<leftarrow> set_node_color t (rightNode wn) BLACK;
       (t, _) \<leftarrow> left_rotation t (parent xn);
       Some (t, root t) } }"

definition fixup_right :: "'v rbtree \<Rightarrow> ptr \<Rightarrow> ('v rbtree \<times> ptr) option" where
  "fixup_right t x = do {
     xn \<leftarrow> deref t x;
     pn \<leftarrow> deref t (parent xn);
     let w = leftNode pn;
     wc \<leftarrow> check_color t w;
     (t, w) \<leftarrow> (if wc = RED then do {
                t \<leftarrow> set_node_color t w BLACK;
                t \<leftarrow> set_node_color t (parent xn) RED;
                (t, _) \<leftarrow> right_rotation t (parent xn);
                xn \<leftarrow> deref t x;
                pn \<leftarrow> deref t (parent xn);
                Some (t, leftNode pn) }
              else Some (t, w));
     wn \<leftarrow> deref t w;
     rc \<leftarrow> check_color t (rightNode wn);
     lc \<leftarrow> check_color t (leftNode wn);
     xn \<leftarrow> deref t x;
     if rc = BLACK \<and> lc = BLACK then do {
       t \<leftarrow> set_node_color t w RED;
       Some (t, parent xn) }
     else do {
       (t, w) \<leftarrow> (if lc = BLACK then do {
                  t \<leftarrow> set_node_color t (leftNode wn) BLACK;
                  t \<leftarrow> set_node_color t w RED;
                  (t, _) \<leftarrow> left_rotation t w;
                  xn \<leftarrow> deref t x;
                  pn \<leftarrow> deref t (parent xn);
                  Some (t, leftNode pn) }
                else Some (t, w));
       xn \<leftarrow> deref t x;
       pc \<leftarrow> check_color t (parent xn);
       t \<leftarrow> set_node_color t w pc;
       t \<leftarrow> set_node_color t (parent xn) BLACK;
       wn \<leftarrow> deref t w;
       t \<leftarrow> set_node_color t (rightNode wn) BLACK;
       (t, _) \<leftarrow> right_rotation t (parent xn);
       Some (t, root t) } }"

fun RB_DELETE_FIXUP :: "nat \<Rightarrow> 'v rbtree \<Rightarrow> ptr \<Rightarrow> 'v rbtree option" where
  "RB_DELETE_FIXUP 0 t x = None"
| "RB_DELETE_FIXUP (Suc k) t x = do {
     c \<leftarrow> check_color t x;
     if x \<noteq> root t \<and> c = BLACK then do {
       xn \<leftarrow> deref t x;
       pn \<leftarrow> deref t (parent xn);
       (t, x) \<leftarrow> (if x = leftNode pn then fixup_left t x else fixup_right t x);
       RB_DELETE_FIXUP k t x }
     else set_node_color t x BLACK }"

end
