(* ===== verification/RBTree_Removed.thy ===== *)
theory RBTree_Removed
  imports RBTree_Remove
begin

text \<open>
  What \<open>RB_DELETE\<close> of \<open>base/rbtree.inl\<close> does to a balanced tree. A node without children is cut out:
  the tree without it is still linked, and the climb of \<open>refresh_child\<close> makes all sizes right again.
\<close>

section \<open>The climb repairs one wrong size\<close>

definition linked :: "'v store \<Rightarrow> addr set \<Rightarrow> bool" where
  "linked h D \<longleftrightarrow> (\<forall>x \<in> D. \<exists>n. h x = Some n \<and> kids n \<subseteq> D \<and> set_option (parent n) \<subseteq> D \<and> x \<notin> kids n
     \<and> (\<forall>k \<in> kids n. \<exists>m. h k = Some m \<and> parent m = Some x))"

primrec path :: "'v store \<Rightarrow> addr \<Rightarrow> addr list \<Rightarrow> addr \<Rightarrow> bool" where
  "path h x [] r \<longleftrightarrow> x = r"
| "path h x (p # ps) r \<longleftrightarrow> (\<exists>n. h x = Some n \<and> parent n = Some p) \<and> path h p ps r"

lemma linked_dom: "linked h D \<Longrightarrow> D \<subseteq> dom h"
  by (auto simp: linked_def)

lemma linked_upd: "linked h D \<Longrightarrow> h a = Some n \<Longrightarrow> linked (h(a \<mapsto> n\<lparr>childs_number := c\<rparr>)) D"
  by (fastforce simp: linked_def kids_def)

lemma path_upd: "path h x ps r \<Longrightarrow> h a = Some n \<Longrightarrow> path (h(a \<mapsto> n\<lparr>childs_number := c\<rparr>)) x ps r"
  by (induction ps arbitrary: x) auto

lemma path_snoc: "path h x ps r \<Longrightarrow> h r = Some n \<Longrightarrow> parent n = Some a \<Longrightarrow> path h x (ps @ [a]) a"
  by (induction ps arbitrary: x) auto

lemma kids_of_upd [simp]: "h a = Some n \<Longrightarrow> kids_of (h(a \<mapsto> n\<lparr>childs_number := c\<rparr>)) x = kids_of h x"
  by (simp add: kids_of_def kids_def)

lemma linked_child: "linked h D \<Longrightarrow> x \<in> D \<Longrightarrow> a \<in> kids_of h x \<Longrightarrow> h a = Some n \<Longrightarrow> parent n = Some x"
  by (force simp: linked_def kids_of_def)

lemma recount_ok:
  assumes "linked h D" and "a \<in> D" and "h a = Some n" and "h1 = h(a \<mapsto> n\<lparr>childs_number := 1 + cntp h (rightNode n) + cntp h (leftNode n)\<rparr>)"
  shows "cnt_ok h1 a" and "x \<in> D \<Longrightarrow> x \<noteq> a \<Longrightarrow> cnt_ok h x \<Longrightarrow> a \<notin> kids_of h x \<Longrightarrow> cnt_ok h1 x"
proof -
  have n: "kids n \<subseteq> D" "a \<notin> kids n" using bspec [OF assms(1) [unfolded linked_def] assms(2)] assms(3) by auto
  have "cntp h1 p = cntp h p" if "set_option p \<subseteq> kids n" for p
    using n(2) that by (intro cntp_cong) (auto simp: assms(4))
  then have "cntp h1 (rightNode n) = cntp h (rightNode n)" "cntp h1 (leftNode n) = cntp h (leftNode n)"
    by (auto simp: kids_def)
  moreover have "kids n \<subseteq> dom h1" using n(1) linked_dom [OF assms(1)] assms(4) by auto
  ultimately show "cnt_ok h1 a" using n(2) by (auto simp: cnt_ok_def assms(4) kids_def)
  show "cnt_ok h1 x" if "x \<in> D" "x \<noteq> a" "cnt_ok h x" "a \<notin> kids_of h x"
    by (rule cnt_ok_cong [of h1 x h]) (use that assms(4) in auto)
qed

lemma refresh_restores:
  assumes "path (heap t) a ps r" and "linked (heap t) D" and "a \<in> D" and "\<forall>x \<in> D. x \<noteq> a \<longrightarrow> cnt_ok (heap t) x"
    and "\<forall>x \<in> D. r \<notin> kids_of (heap t) x" and "length ps + 2 \<le> k"
  shows "\<exists>h'. refresh_child k t (Some a) = Some (t\<lparr>heap := h'\<rparr>) \<and> (\<forall>x \<in> D. cnt_ok h' x) \<and> (\<forall>x. no_count (h' x) = no_count (heap t x))"
  using assms
proof (induction ps arbitrary: t a k)
  case Nil
  obtain n where n: "heap t a = Some n" "kids n \<subseteq> D" "a \<notin> kids n" "set_option (parent n) \<subseteq> D"
    using Nil.prems(2,3) by (auto simp: linked_def)
  let ?c = "1 + cntp (heap t) (rightNode n) + cntp (heap t) (leftNode n)"
  let ?t1 = "t\<lparr>heap := (heap t)(a \<mapsto> n\<lparr>childs_number := ?c\<rparr>)\<rparr>"
  obtain j where k: "k = Suc (Suc j)" using Nil.prems(6) by (cases k; cases "k - 1") auto
  have "kids n \<subseteq> dom (heap t)" using n(2) linked_dom [OF Nil.prems(2)] by blast
  note step = refresh_step [OF n(1) this n(3) refl refl, of "Suc j", folded k]
  have ok: "\<forall>x \<in> D. cnt_ok (heap ?t1) x"
    using recount_ok [OF Nil.prems(2,3) n(1) refl] Nil.prems(1,4,5) by (metis path.simps(1) rbtree.select_convs(1) rbtree.surjective rbtree.update_convs(1))
  then have "refresh_child (Suc j) ?t1 (parent n) = Some ?t1" if "parent n = Some s" for s
    using that n(4) refresh_no_change [of ?t1 s] by auto
  then have "refresh_child k t (Some a) = Some ?t1" using step by (cases "parent n") auto
  then have "refresh_child k t (Some a) = Some (t\<lparr>heap := heap ?t1\<rparr>)" by (simp del: fun_upd_apply)
  moreover have "no_count (heap ?t1 x) = no_count (heap t x)" for x using n(1) by (simp add: no_count_def)
  ultimately show ?case using ok by blast
next
  case (Cons p ps)
  obtain n where n: "heap t a = Some n" "kids n \<subseteq> D" "a \<notin> kids n" "set_option (parent n) \<subseteq> D"
    using Cons.prems(2,3) by (auto simp: linked_def)
  have p: "parent n = Some p" "p \<in> D" "path (heap t) p ps r" using Cons.prems(1) n(1,4) by auto
  let ?c = "1 + cntp (heap t) (rightNode n) + cntp (heap t) (leftNode n)"
  let ?h1 = "(heap t)(a \<mapsto> n\<lparr>childs_number := ?c\<rparr>)"
  let ?t1 = "t\<lparr>heap := ?h1\<rparr>"
  obtain j where k: "k = Suc j" "length ps + 2 \<le> j" using Cons.prems(6) by (cases k) auto
  have "kids n \<subseteq> dom (heap t)" using n(2) linked_dom [OF Cons.prems(2)] by blast
  note step = refresh_step [OF n(1) this n(3) refl refl, of j, folded k(1)]
  note ok = recount_ok [OF Cons.prems(2,3) n(1) refl]
  have rest: "cnt_ok ?h1 x" if "x \<in> D" "x \<noteq> p" for x
  proof (cases "x = a")
    case False
    have "a \<notin> kids_of (heap t) x" using linked_child [OF Cons.prems(2) that(1) _ n(1)] p(1) that(2) by auto
    then show ?thesis using ok(2) that(1) False Cons.prems(4) by blast
  qed (use ok(1) in simp)
  show ?case
  proof (cases "childs_number n = ?c")
    case True
    then have "n\<lparr>childs_number := ?c\<rparr> = n" by simp
    then have same: "?h1 = heap t" using n(1) by (simp only: fun_upd_idem)
    then have "cnt_ok (heap t) a" using ok(1) by simp
    then have "\<forall>x \<in> D. cnt_ok (heap t) x" using Cons.prems(4) by metis
    moreover have "refresh_child k t (Some a) = Some (t\<lparr>heap := heap t\<rparr>)" using step True same by simp
    ultimately show ?thesis by blast
  next
    case False
    have h1: "heap ?t1 = ?h1" by simp
    have "\<forall>x \<in> D. r \<notin> kids_of ?h1 x" using Cons.prems(5) n(1) by (simp del: fun_upd_apply)
    moreover have "\<forall>x \<in> D. x \<noteq> p \<longrightarrow> cnt_ok ?h1 x" using rest by blast
    ultimately have "\<exists>h'. refresh_child j ?t1 (Some p) = Some (?t1\<lparr>heap := h'\<rparr>) \<and> (\<forall>x \<in> D. cnt_ok h' x)
        \<and> (\<forall>x. no_count (h' x) = no_count (?h1 x))"
      using Cons.IH [of ?t1 p j, unfolded h1, OF path_upd [OF p(3) n(1)] linked_upd [OF Cons.prems(2) n(1)] p(2)] k(2) by blast
    moreover have "no_count (?h1 x) = no_count (heap t x)" for x using n(1) by (simp add: no_count_def)
    moreover have "refresh_child k t (Some a) = refresh_child j ?t1 (Some p)" using step False p(1) by (simp del: fun_upd_apply)
    ultimately show ?thesis by auto
  qed
qed

section \<open>Links without sizes\<close>

primrec links :: "'v store \<Rightarrow> ptr \<Rightarrow> 'v atree \<Rightarrow> bool" where
  "links h q ALeaf \<longleftrightarrow> True"
| "links h q (ANode a c l v r) \<longleftrightarrow>
     (\<exists>n. h a = Some n \<and> color n = c \<and> leftNode n = rootp l \<and> rightNode n = rootp r \<and> parent n = q \<and> node_value n = v)
     \<and> links h (Some a) l \<and> links h (Some a) r"

lemma shape_links: "shape h q T \<Longrightarrow> links h q T"
  by (induction T arbitrary: q) auto

lemma links_cong: "(\<And>x. x \<in> addrs T \<Longrightarrow> no_count (h' x) = no_count (h x)) \<Longrightarrow> links h q T \<Longrightarrow> links h' q T"
proof (induction T arbitrary: q)
  case (ANode a c l v r)
  obtain n where n: "h a = Some n" "color n = c" "leftNode n = rootp l" "rightNode n = rootp r" "parent n = q" "node_value n = v"
    using ANode.prems(2) by auto
  obtain n' where "h' a = Some n'" "color n' = color n" "leftNode n' = leftNode n" "rightNode n' = rightNode n"
    "parent n' = parent n" "node_value n' = node_value n"
    using no_count_eqD [OF _ n(1), of "h' a"] ANode.prems(1) by auto
  then show ?case using n ANode by auto
qed simp

lemma links_upd: "x \<notin> addrs T \<Longrightarrow> links (h(x := y)) q T = links h q T"
  by (induction T arbitrary: q) auto

lemma links_shape: "links h q T \<Longrightarrow> \<forall>x \<in> addrs T. cnt_ok h x \<Longrightarrow> shape h q T"
proof (induction T arbitrary: q)
  case (ANode a c l v r)
  have sub: "shape h (Some a) l" "shape h (Some a) r" using ANode by auto
  obtain n where n: "h a = Some n" "color n = c" "leftNode n = rootp l" "rightNode n = rootp r" "parent n = q" "node_value n = v"
    using ANode.prems(1) by auto
  have "cnt_ok h a" using ANode.prems(2) by simp
  then have "childs_number n = 1 + int (asize r) + int (asize l)"
    using n cntp_shape [OF sub(1)] cntp_shape [OF sub(2)] by (auto simp: cnt_ok_def)
  then show ?case using n sub by (cases n) simp
qed simp

lemma links_node:
  assumes "links h q T" and "disj_addrs T" and "x \<in> addrs T"
  shows "\<exists>n. h x = Some n \<and> kids n \<subseteq> addrs T \<and> (rootp T = Some x \<and> parent n = q \<or> (\<exists>p \<in> addrs T. parent n = Some p)) \<and> x \<notin> kids n
    \<and> (\<forall>k \<in> kids n. (\<exists>m. h k = Some m \<and> parent m = Some x) \<and> rootp T \<noteq> Some k) \<and> (leftNode n = rightNode n \<longrightarrow> kids n = {})"
  using assms
proof (induction T arbitrary: q)
  case (ANode a c l v r)
  have top: "links h (Some a) U \<Longrightarrow> rootp U = Some k \<Longrightarrow> k \<in> addrs U \<and> (\<exists>m. h k = Some m \<and> parent m = Some a)" for U k
    by (cases U) auto
  consider "x = a" | "x \<in> addrs l" | "x \<in> addrs r" using ANode.prems(3) by auto
  then show ?case
  proof cases
    case 1
    obtain n where n: "h a = Some n" "leftNode n = rootp l" "rightNode n = rootp r" "parent n = q" using ANode.prems(1) by auto
    have "k \<in> addrs l \<union> addrs r \<and> (\<exists>m. h k = Some m \<and> parent m = Some a)" if "k \<in> kids n" for k
      using that n(2,3) top [of l k] top [of r k] ANode.prems(1) by (auto simp: kids_def)
    moreover have "rootp l = rootp r \<Longrightarrow> l = ALeaf \<and> r = ALeaf"
      using ANode.prems(2) by (cases l; cases r) auto
    then have "leftNode n = rightNode n \<longrightarrow> kids n = {}" using n(2,3) by (auto simp: kids_def)
    ultimately show ?thesis using n 1 ANode.prems(2) by auto
  next
    case 2
    then show ?thesis using ANode.IH(1) [of "Some a"] ANode.prems(1,2) by fastforce
  next
    case 3
    then show ?thesis using ANode.IH(2) [of "Some a"] ANode.prems(1,2) by fastforce
  qed
qed simp

lemma links_path: "links h q T \<Longrightarrow> x \<in> addrs T \<Longrightarrow> \<exists>ps r. path h x ps r \<and> rootp T = Some r \<and> length ps < aheight T"
proof (induction T arbitrary: q)
  case (ANode a c l v r)
  have up: "\<exists>ps. path h x ps a \<and> length ps < aheight (ANode a c l v r)"
    if "links h (Some a) U" "U = l \<or> U = r" "path h x ps b" "rootp U = Some b" "length ps < aheight U" for U ps b
  proof -
    note U = that
    obtain n where "h b = Some n" "parent n = Some a" using U(1,4) by (cases U) auto
    then show ?thesis using path_snoc [OF U(3)] U(2,5) by (intro exI [of _ "ps @ [a]"]) auto
  qed
  consider "x = a" | "x \<in> addrs l" | "x \<in> addrs r" using ANode.prems(2) by auto
  then show ?case
  proof cases
    case 1
    then show ?thesis by (intro exI [of _ "[]"]) simp
  next
    case 2
    then show ?thesis using ANode.IH(1) [of "Some a"] ANode.prems(1) up [of l] by fastforce
  next
    case 3
    then show ?thesis using ANode.IH(2) [of "Some a"] ANode.prems(1) up [of r] by fastforce
  qed
qed simp

section \<open>Cutting out a leaf\<close>

primrec cut :: "addr \<Rightarrow> 'v atree \<Rightarrow> 'v atree" where
  "cut z ALeaf = ALeaf"
| "cut z (ANode a c l v r) = (if a = z then ALeaf else ANode a c (cut z l) v (cut z r))"

primrec entries :: "'v atree \<Rightarrow> (addr \<times> 'v) list" where
  "entries ALeaf = []"
| "entries (ANode a c l v r) = entries l @ (a, v) # entries r"

lemma entries_lists [simp]: "map fst (entries T) = inorder_addrs T" "map snd (entries T) = inorder T"
  by (induction T) auto

lemma set_entries: "fst ` set (entries T) = addrs T"
  by (metis entries_lists(1) list.set_map set_inorder_addrs)

lemma distinct_entries: "disj_addrs T \<Longrightarrow> distinct (inorder_addrs T)"
  by (induction T) auto

lemma cut_id: "z \<notin> addrs T \<Longrightarrow> cut z T = T"
  by (induction T) auto

lemma addrs_cut: "addrs (cut z T) \<subseteq> addrs T"
  by (induction T) auto

lemma disj_cut: "disj_addrs T \<Longrightarrow> disj_addrs (cut z T)"
  using addrs_cut by (induction T) (simp; blast)+

lemma rootp_cut: "rootp T \<noteq> Some z \<Longrightarrow> rootp (cut z T) = rootp T"
  by (cases T) auto

lemma childless_top: "links h q (ANode z c l v r) \<Longrightarrow> h z = Some m \<Longrightarrow> kids m = {} \<Longrightarrow> l = ALeaf \<and> r = ALeaf"
  by (auto simp: kids_def)

lemma entries_cut:
  assumes "links h q T" and "disj_addrs T" and "h z = Some m" and "kids m = {}"
  shows "entries (cut z T) = filter (\<lambda>e. fst e \<noteq> z) (entries T)"
  using assms(1,2)
proof (induction T arbitrary: q)
  case (ANode a c l v r)
  show ?case
  proof (cases "a = z")
    case True
    then show ?thesis using childless_top [of h q z c l v r m] ANode.prems(1) assms(3,4) by simp
  qed (use ANode in auto)
qed simp

lemma cut_addrs:
  assumes "links h q T" and "disj_addrs T" and "h z = Some m" and "kids m = {}"
  shows "addrs (cut z T) = addrs T - {z}"
proof -
  have "addrs (cut z T) = fst ` set (filter (\<lambda>e. fst e \<noteq> z) (entries T))"
    using entries_cut [OF assms] set_entries [of "cut z T"] by simp
  also have "\<dots> = addrs T - {z}" using set_entries [of T] by auto
  finally show ?thesis .
qed

lemma parent_in:
  assumes "links h q T" and "disj_addrs T" and "z \<in> addrs T" and "rootp T \<noteq> Some z" and "h z = Some m"
  shows "\<exists>p \<in> addrs T. parent m = Some p \<and> z \<in> kids_of h p"
  using assms(1-4)
proof (induction T arbitrary: q)
  case (ANode a c l v r)
  have child: "\<exists>p \<in> addrs (ANode a c l v r). parent m = Some p \<and> z \<in> kids_of h p"
    if "rootp U = Some z" "U = l \<or> U = r" "links h (Some a) U" for U
    using that ANode.prems(1) assms(5) by (cases U) (auto simp: kids_of_def kids_def)
  have sub: "links h (Some a) l" "links h (Some a) r" using ANode.prems(1) by auto
  consider "z \<in> addrs l" | "z \<in> addrs r" using ANode.prems(3,4) by auto
  then show ?case
  proof cases
    case 1
    then show ?thesis using ANode.IH(1) [OF sub(1)] ANode.prems(2) child [of l] sub(1)
      by (cases "rootp l = Some z") auto
  next
    case 2
    then show ?thesis using ANode.IH(2) [OF sub(2)] ANode.prems(2) child [of r] sub(2)
      by (cases "rootp r = Some z") auto
  qed
qed simp

definition unlink :: "addr \<Rightarrow> 'v node \<Rightarrow> 'v node" where
  "unlink z n = (if leftNode n = Some z then n\<lparr>leftNode := None\<rparr> else n\<lparr>rightNode := None\<rparr>)"

lemma links_unlink:
  assumes "links h q T" and "disj_addrs T" and "z \<in> addrs T" and "rootp T \<noteq> Some z"
    and "h z = Some m" and "kids m = {}" and "parent m = Some p" and "h p = Some n"
  shows "links (h(p \<mapsto> unlink z n)) q (cut z T)"
  using assms(1-4)
proof (induction T arbitrary: q)
  case (ANode a c l v r)
  have sub: "links h (Some a) l" "links h (Some a) r" using ANode.prems(1) by auto
  have dj: "a \<notin> addrs l" "a \<notin> addrs r" "addrs l \<inter> addrs r = {}" "disj_addrs l" "disj_addrs r" using ANode.prems(2) by auto
  obtain na where na: "h a = Some na" "color na = c" "leftNode na = rootp l" "rightNode na = rootp r" "parent na = q" "node_value na = v"
    using ANode.prems(1) by auto
  have az: "a \<noteq> z" using ANode.prems(4) by simp
  have top: "p = a \<and> cut z U = ALeaf" if "rootp U = Some z" "links h (Some a) U" for U
    using that assms(5,7) by (cases U) auto
  consider (L) "z \<in> addrs l" | (R) "z \<in> addrs r" using ANode.prems(3) az by auto
  then show ?case
  proof cases
    case L
    then have r: "cut z r = r" "rootp r \<noteq> Some z" using dj(3) cut_id rootp_Some by blast+
    show ?thesis
    proof (cases "rootp l = Some z")
      case True
      then have "p = a" "cut z l = ALeaf" using top [OF _ sub(1)] by auto
      then show ?thesis using True na sub(2) dj(2) r assms(8) az by (simp add: links_upd unlink_def fun_upd_same del: fun_upd_apply)
    next
      case False
      obtain p' where "p' \<in> addrs l" "p = p'" using parent_in [OF sub(1) dj(4) L False assms(5)] assms(7) by auto
      then have "p \<noteq> a" "p \<notin> addrs r" using dj by auto
      then show ?thesis using ANode.IH(1) [OF sub(1) dj(4) L False] na sub(2) r az rootp_cut [OF False]
        by (simp add: links_upd fun_upd_other del: fun_upd_apply)
    qed
  next
    case R
    then have l: "cut z l = l" "rootp l \<noteq> Some z" using dj(3) cut_id rootp_Some by blast+
    show ?thesis
    proof (cases "rootp r = Some z")
      case True
      then have "p = a" "cut z r = ALeaf" using top [OF _ sub(2)] by auto
      then show ?thesis using True na sub(1) dj(1) l assms(8) az by (simp add: links_upd unlink_def fun_upd_same del: fun_upd_apply)
    next
      case False
      obtain p' where "p' \<in> addrs r" "p = p'" using parent_in [OF sub(2) dj(5) R False assms(5)] assms(7) by auto
      then have "p \<noteq> a" "p \<notin> addrs l" using dj by auto
      then show ?thesis using ANode.IH(2) [OF sub(2) dj(5) R False] na sub(1) l az rootp_cut [OF False]
        by (simp add: links_upd fun_upd_other del: fun_upd_apply)
    qed
  qed
qed simp

lemma remove_leaf_unlinks:
  assumes "heap t z = Some m" and "parent m = Some p" and "heap t p = Some n" and "z \<in> kids n" and "leftNode n \<noteq> rightNode n"
    and "refresh (t\<lparr>heap := (heap t)(p \<mapsto> unlink z n)\<rparr>) (Some p) = Some (t\<lparr>heap := h'\<rparr>)"
    and "\<forall>x. no_count (h' x) = no_count (((heap t)(p \<mapsto> unlink z n)) x)" and "cnt_ok h' p"
  shows "remove_leaf t (Some z) = Some (t\<lparr>heap := h'\<rparr>)"
proof -
  have "no_count (h' p) = no_count (Some (unlink z n))" using assms(7) by (simp add: fun_upd_same del: fun_upd_apply)
  from no_count_eqD [OF this refl] obtain n' where n': "h' p = Some n'" "leftNode n' = leftNode (unlink z n)"
    "rightNode n' = rightNode (unlink z n)" by metis
  have "refresh_child (Suc (next_addr t + 2)) (t\<lparr>heap := h'\<rparr>) (Some p) = Some (t\<lparr>heap := h'\<rparr>)"
    by (rule refresh_no_change) (simp add: assms(8))
  then have again: "refresh (t\<lparr>heap := h'\<rparr>) (Some p) = Some (t\<lparr>heap := h'\<rparr>)" by (simp add: refresh_def numeral_3_eq_3)
  show ?thesis
  proof (cases "leftNode n = Some z")
    case True
    then have "unlink z n = n\<lparr>leftNode := None\<rparr>" by (simp add: unlink_def)
    then show ?thesis using True assms(1-6) n' again
      by (simp add: remove_leaf_def deref_def set_left_def put_def set_parent_def del: fun_upd_apply)
  next
    case False
    then have "rightNode n = Some z" "unlink z n = n\<lparr>rightNode := None\<rparr>" using assms(4) by (auto simp: unlink_def kids_def)
    then show ?thesis using False assms(1-6) n' again
      by (simp add: remove_leaf_def deref_def set_rigth_def put_def set_parent_def del: fun_upd_apply)
  qed
qed

lemma remove_leaf_shape:
  assumes "shape (heap t) q T" and "disj_addrs T" and "bounded t" and "q = None \<or> (\<exists>s \<in> addrs T. q = Some s)"
    and "z \<in> addrs T" and "rootp T \<noteq> Some z" and "heap t z = Some m" and "kids m = {}"
  shows "\<exists>h'. remove_leaf t (Some z) = Some (t\<lparr>heap := h'\<rparr>) \<and> shape h' q (cut z T)"
proof -
  let ?h = "heap t"
  note lk = shape_links [OF assms(1)]
  obtain p where p: "p \<in> addrs T" "parent m = Some p" "z \<in> kids_of ?h p"
    using parent_in [OF lk assms(2,5,6,7)] by blast
  obtain n where n: "?h p = Some n" "z \<in> kids n" "leftNode n \<noteq> rightNode n"
    using links_node [OF lk assms(2) p(1)] p(3) by (auto simp: kids_of_def)
  have pz: "p \<noteq> z" using n(1,2) assms(7,8) by auto
  let ?n = "unlink z n"
  let ?h1 = "?h(p \<mapsto> ?n)"
  let ?t1 = "t\<lparr>heap := ?h1\<rparr>"
  let ?D = "addrs T" let ?C = "cut z T"
  have lk1: "links ?h1 q ?C" by (rule links_unlink [OF lk assms(2,5,6,7,8) p(2) n(1)])
  have dj: "disj_addrs ?C" by (rule disj_cut [OF assms(2)])
  have D: "addrs ?C = ?D - {z}" by (rule cut_addrs [OF lk assms(2,7,8)])
  have z1: "?h1 z = Some m" using pz assms(7) by simp
  have pC: "p \<in> addrs ?C" using D p(1) pz by simp
  have node: "\<exists>n. ?h1 x = Some n \<and> kids n \<subseteq> addrs ?C \<and> set_option (parent n) \<subseteq> ?D \<and> x \<notin> kids n
      \<and> (\<forall>k \<in> kids n. (\<exists>m. ?h1 k = Some m \<and> parent m = Some x) \<and> rootp ?C \<noteq> Some k)" if "x \<in> ?D" for x
  proof (cases "x = z")
    case True
    then show ?thesis using z1 assms(8) p(1,2) by (simp del: fun_upd_apply)
  next
    case False
    then have "x \<in> addrs ?C" using that D by simp
    from links_node [OF lk1 dj this] show ?thesis using assms(4) D by (fastforce simp del: fun_upd_apply)
  qed
  have lkd: "linked ?h1 ?D"
    unfolding linked_def
  proof
    fix x assume "x \<in> ?D"
    from node [OF this] show "\<exists>n. ?h1 x = Some n \<and> kids n \<subseteq> ?D \<and> set_option (parent n) \<subseteq> ?D \<and> x \<notin> kids n
        \<and> (\<forall>k \<in> kids n. \<exists>m. ?h1 k = Some m \<and> parent m = Some x)" using D by blast
  qed
  obtain ps r where ps: "path ?h1 p ps r" "rootp ?C = Some r" "length ps < aheight ?C" using links_path [OF lk1 pC] by blast
  have top: "\<forall>x \<in> ?D. r \<notin> kids_of ?h1 x"
  proof
    fix x assume "x \<in> ?D"
    from node [OF this] show "r \<notin> kids_of ?h1 x" using ps(2) by (auto simp: kids_of_def simp del: fun_upd_apply)
  qed
  have ok: "\<forall>x \<in> ?D. x \<noteq> p \<longrightarrow> cnt_ok ?h1 x"
  proof (intro ballI impI)
    fix x assume x: "x \<in> ?D" "x \<noteq> p"
    have old: "cnt_ok ?h x" by (rule shape_cnt_ok [OF assms(1) x(1)])
    have same: "cntp ?h1 (Some k) = cntp ?h (Some k)" for k using n(1) by (simp add: cntp_def unlink_def)
    then have "cntp ?h1 k = cntp ?h k" for k by (cases k) (simp_all add: cntp_def)
    moreover have "dom ?h1 = dom ?h" using n(1) by auto
    ultimately show "cnt_ok ?h1 x" using old x(2) by (simp add: cnt_ok_def)
  qed
  have "aheight ?C \<le> asize ?C" by (rule aheight_le_asize)
  also have "\<dots> = card (addrs ?C)" using card_addrs [OF dj] by simp
  also have "\<dots> \<le> card {..<next_addr t}"
    using D shape_dom [OF assms(1)] assms(3) by (intro card_mono) (auto simp: bounded_def)
  finally have fuel: "length ps + 2 \<le> next_addr t + 3" using ps(3) by simp
  have h1: "heap ?t1 = ?h1" by simp
  obtain h' where h': "refresh_child (next_addr t + 3) ?t1 (Some p) = Some (?t1\<lparr>heap := h'\<rparr>)"
    "\<forall>x \<in> ?D. cnt_ok h' x" "\<forall>x. no_count (h' x) = no_count (?h1 x)"
    using refresh_restores [of ?t1 p ps r ?D, unfolded h1, OF ps(1) lkd p(1) ok top fuel] by blast
  have "refresh ?t1 (Some p) = Some (t\<lparr>heap := h'\<rparr>)" using h'(1) by (simp add: refresh_def)
  then have "remove_leaf t (Some z) = Some (t\<lparr>heap := h'\<rparr>)"
    by (rule remove_leaf_unlinks [OF assms(7) p(2) n(1-3)]) (use h' p(1) in blast)+
  moreover have "shape h' q ?C"
  proof (rule links_shape)
    show "links h' q ?C" by (rule links_cong [OF _ lk1]) (use h'(3) in blast)
    show "\<forall>x \<in> addrs ?C. cnt_ok h' x" using h'(2) D by blast
  qed
  ultimately show ?thesis by blast
qed

section \<open>\<open>RB_DELETE\<close> on a balanced tree\<close>

primrec set_entry :: "addr \<Rightarrow> 'v \<Rightarrow> 'v atree \<Rightarrow> 'v atree" where
  "set_entry z w ALeaf = ALeaf"
| "set_entry z w (ANode a c l v r) = ANode a c (set_entry z w l) (if a = z then w else v) (set_entry z w r)"

lemma set_entry_same [simp]: "addrs (set_entry z w T) = addrs T" "rootp (set_entry z w T) = rootp T" "asize (set_entry z w T) = asize T"
  "disj_addrs (set_entry z w T) = disj_addrs T"
proof -
  show addrs: "addrs (set_entry z w T) = addrs T" for T by (induction T) auto
  show "rootp (set_entry z w T) = rootp T" "asize (set_entry z w T) = asize T" for T by (induction T) auto
  show "disj_addrs (set_entry z w T) = disj_addrs T" by (induction T) (auto simp: addrs)
qed

lemma entries_set_entry: "entries (set_entry z w T) = map (\<lambda>(a, v). (a, if a = z then w else v)) (entries T)"
  by (induction T) auto

lemma shape_set_entry:
  "shape h q T \<Longrightarrow> h z = Some n \<Longrightarrow> shape (h(z \<mapsto> n\<lparr>node_value := w\<rparr>)) q (set_entry z w T)"
  by (induction T arbitrary: q) auto

lemma subtree:
  assumes "shape h q T" and "disj_addrs T" and "invc T" and "invh T" and "z \<in> addrs T"
  shows "\<exists>q' c l v r us ws. shape h q' (ANode z c l v r) \<and> disj_addrs (ANode z c l v r) \<and> invc (ANode z c l v r)
    \<and> invh (ANode z c l v r) \<and> entries T = us @ entries (ANode z c l v r) @ ws \<and> addrs (ANode z c l v r) \<subseteq> addrs T
    \<and> rootp T \<notin> Some ` (addrs l \<union> addrs r) \<and> (rootp T = Some z \<longrightarrow> T = ANode z c l v r)"
  using assms
proof (induction T arbitrary: q)
  case (ANode a c l v r)
  consider "z = a" | "z \<in> addrs l" "z \<noteq> a" | "z \<in> addrs r" "z \<noteq> a" using ANode.prems(5) by auto
  then show ?case
  proof cases
    case 1
    then show ?thesis using ANode.prems by (intro exI [of _ q] exI [of _ c] exI [of _ l] exI [of _ v] exI [of _ r] exI [of _ "[]"]) auto
  next
    case 2
    obtain q' c' l' v' r' us ws where z: "shape h q' (ANode z c' l' v' r')" "disj_addrs (ANode z c' l' v' r')"
      "invc (ANode z c' l' v' r')" "invh (ANode z c' l' v' r')" "entries l = us @ entries (ANode z c' l' v' r') @ ws"
      "addrs (ANode z c' l' v' r') \<subseteq> addrs l"
      using ANode.IH(1) [of "Some a"] ANode.prems 2 by auto
    have "a \<notin> addrs l' \<union> addrs r'" using z(6) ANode.prems(2) by auto
    then show ?thesis using z 2(2)
      by (intro exI [of _ q'] exI [of _ c'] exI [of _ l'] exI [of _ v'] exI [of _ r'] exI [of _ us] exI [of _ "ws @ (a, v) # entries r"]) auto
  next
    case 3
    obtain q' c' l' v' r' us ws where z: "shape h q' (ANode z c' l' v' r')" "disj_addrs (ANode z c' l' v' r')"
      "invc (ANode z c' l' v' r')" "invh (ANode z c' l' v' r')" "entries r = us @ entries (ANode z c' l' v' r') @ ws"
      "addrs (ANode z c' l' v' r') \<subseteq> addrs r"
      using ANode.IH(2) [of "Some a"] ANode.prems 3 by auto
    have "a \<notin> addrs l' \<union> addrs r'" using z(6) ANode.prems(2) by auto
    then show ?thesis using z 3(2)
      by (intro exI [of _ q'] exI [of _ c'] exI [of _ l'] exI [of _ v'] exI [of _ r'] exI [of _ "entries l @ (a, v) # us"] exI [of _ ws]) auto
  qed
qed simp

text \<open>In a balanced tree the least node of a subtree has no children.\<close>

lemma min_childless:
  "shape h q R \<Longrightarrow> invc R \<Longrightarrow> invh R \<Longrightarrow> R \<noteq> ALeaf \<Longrightarrow>
   \<exists>y w m rest. entries R = (y, w) # rest \<and> h y = Some m \<and> kids m = {} \<and> node_value m = w"
proof (induction R arbitrary: q)
  case (ANode a c l v r)
  show ?case
  proof (cases "l = ALeaf")
    case True
    have "r = ALeaf"
    proof (cases r)
      case (ANode b d rl rv rr)
      then show ?thesis using True ANode.prems(2,3) by (cases d) auto
    qed
    then show ?thesis using True ANode.prems(1) by (auto simp: kids_def)
  next
    case False
    then show ?thesis using ANode.IH(1) [of "Some a"] ANode.prems by fastforce
  qed
qed simp

lemma cut_entry:
  assumes "shape h q T" and "disj_addrs T" and "h z = Some m" and "kids m = {}" and "entries T = us @ (z, v) # ws"
  shows "inorder (cut z T) = map snd us @ map snd ws"
proof -
  have "distinct (map fst (entries T))" using distinct_entries [OF assms(2)] by simp
  then have "filter (\<lambda>e. fst e \<noteq> z) us = us" "filter (\<lambda>e. fst e \<noteq> z) ws = ws"
    unfolding assms(5) by (force simp: filter_id_conv)+
  then have "entries (cut z T) = us @ ws" using entries_cut [OF shape_links [OF assms(1)] assms(2-4)] assms(5) by simp
  then show ?thesis using entries_lists(2) [of "cut z T"] by simp
qed

definition one_child :: "'v rbtree \<Rightarrow> addr \<Rightarrow> bool" where
  "one_child t a \<longleftrightarrow> (\<exists>n. heap t a = Some n \<and> (leftNode n = None) \<noteq> (rightNode n = None))"

lemma RB_DELETE_loops: "one_child t z \<Longrightarrow> RB_DELETE k t (Some z) = None"
proof (induction k)
  case (Suc k)
  then obtain n where n: "heap t z = Some n" "(leftNode n = None) \<noteq> (rightNode n = None)" by (auto simp: one_child_def)
  have "put t (Some z) (node_value_update (\<lambda>_. node_value n)) = Some t"
    using n(1) by (simp add: put_def fun_upd_idem del: fun_upd_apply)
  then show ?case using n Suc by (auto simp: deref_def Let_def)
qed simp

lemma RB_DELETE_removes:
  assumes "rep t T" and "llrb T" and "1 < asize T" and "z \<in> addrs T" and "\<not> one_child t z"
  shows "\<exists>t' T' us v ws. RB_DELETE (Suc k) t (Some z) = Some t' \<and> entries T = us @ (z, v) # ws \<and> inorder T' = map snd us @ map snd ws
    \<and> root t' = rootp T' \<and> (\<exists>q. shape (heap t') q T')"
proof -
  obtain q where r: "root t = rootp T" "disj_addrs T" "bounded t" "shape (heap t) q T" "q = None \<or> (\<exists>s \<in> addrs T. q = Some s)"
    using assms(1) by (auto simp: rep_def)
  have inv: "invc T" "invh T" using assms(2) by (simp_all add: llrb_def)
  obtain q' c l v R us ws where z: "shape (heap t) q' (ANode z c l v R)" "disj_addrs (ANode z c l v R)" "invc (ANode z c l v R)"
    "invh (ANode z c l v R)" "entries T = us @ entries (ANode z c l v R) @ ws" "addrs (ANode z c l v R) \<subseteq> addrs T"
    "rootp T \<notin> Some ` (addrs l \<union> addrs R)" "rootp T = Some z \<longrightarrow> T = ANode z c l v R"
    using subtree [OF r(4,2) inv assms(4)] by metis
  obtain n where n: "heap t z = Some n" "leftNode n = rootp l" "rightNode n = rootp R" "node_value n = v" using z(1) by auto
  show ?thesis
  proof (cases "l = ALeaf")
    case True
    then have R: "R = ALeaf" using assms(5) n by (auto simp: one_child_def)
    then have "kids n = {}" "rootp T \<noteq> Some z" using n(2,3) True z(8) assms(3) by (auto simp: kids_def)
    then obtain h' where h': "remove_leaf t (Some z) = Some (t\<lparr>heap := h'\<rparr>)" "shape h' q (cut z T)"
      using remove_leaf_shape [OF r(4,2,3,5) assms(4) _ n(1)] by blast
    have "put t (Some z) (node_value_update (\<lambda>_. v)) = Some t"
      using n(1,4) by (auto simp: put_def fun_upd_idem simp del: fun_upd_apply)
    then have "RB_DELETE (Suc k) t (Some z) = Some (t\<lparr>heap := h'\<rparr>)" using h'(1) n True R by (simp add: deref_def)
    moreover have e: "entries T = us @ (z, v) # ws" using z(5) True R by simp
    moreover have "inorder (cut z T) = map snd us @ map snd ws" by (rule cut_entry [OF r(4,2) n(1) \<open>kids n = {}\<close> e])
    moreover have "root (t\<lparr>heap := h'\<rparr>) = rootp (cut z T)" using r(1) rootp_cut [OF \<open>rootp T \<noteq> Some z\<close>] by simp
    ultimately show ?thesis using h'(2) by (intro exI [of _ "t\<lparr>heap := h'\<rparr>"] exI [of _ "cut z T"] exI [of _ us] exI [of _ v] exI [of _ ws]) auto
  next
    case False
    then have R: "R \<noteq> ALeaf" using assms(5) n by (auto simp: one_child_def)
    have sR: "shape (heap t) (Some z) R" using z(1) by simp
    obtain y w m rest where y: "entries R = (y, w) # rest" "heap t y = Some m" "kids m = {}" "node_value m = w"
      using min_childless [OF sR _ _ R] z(3,4) by auto
    have yR: "y \<in> addrs R" using set_entries [of R] y(1) by force
    have hd: "hd (inorder_addrs R) = y" using entries_lists(1) [of R] y(1) by (metis fst_conv list.sel(1) list.simps(9))
    have "asize R \<le> asize T"
      using z(5) length_inorder [of T] length_inorder [of R] entries_lists(2) [of T] entries_lists(2) [of R]
      by (metis (no_types, lifting) entries.simps(2) le_add1 le_add2 length_append length_map list.size(4) le_trans trans_le_add2)
    then have "aheight R \<le> next_addr t + 1" using aheight_le_asize [of R] asize_le_next [OF r(4,2,3)] by simp
    then have succ: "TREE_SUCCESSOR t (Some z) = Some (Some y)"
      using get_min_shape [OF sR R] hd n(1,3) R by (simp add: TREE_SUCCESSOR_def deref_def)
    let ?h2 = "(heap t)(z \<mapsto> n\<lparr>node_value := w\<rparr>)"
    let ?t2 = "t\<lparr>heap := ?h2\<rparr>"
    let ?T2 = "set_entry z w T"
    have h2: "heap ?t2 = ?h2" by simp
    have yz: "y \<noteq> z" using yR z(2) by auto
    have s2: "shape ?h2 q ?T2" by (rule shape_set_entry [OF r(4) n(1)])
    have yT: "y \<in> addrs ?T2" "rootp ?T2 \<noteq> Some y" using yR z(6,7) by auto
    have b2: "bounded ?t2" using r(3) n(1) by (auto simp: bounded_def)
    have y2: "?h2 y = Some m" using y(2) yz by simp
    obtain h' where h': "remove_leaf ?t2 (Some y) = Some (?t2\<lparr>heap := h'\<rparr>)" "shape h' q (cut y ?T2)"
      using remove_leaf_shape [of ?t2 q ?T2 y m, unfolded h2, OF s2 _ b2 _ yT y2 y(3)] r(2,5) by auto
    have "RB_DELETE (Suc k) t (Some z) = Some (t\<lparr>heap := h'\<rparr>)"
      using h'(1) n R False succ y(2-4) by (simp add: deref_def put_def kids_def)
    moreover have e: "entries T = (us @ entries l) @ (z, v) # entries R @ ws" using z(5) by simp
    have "distinct (map fst (entries T))" using distinct_entries [OF r(2)] by simp
    then have "z \<notin> fst ` set (us @ entries l)" "z \<notin> fst ` set (rest @ ws)" using set_entries [of l] unfolding e y(1) by auto
    then have keep: "map (\<lambda>(a, v). (a, if a = z then w else v)) xs = xs" if "set xs \<subseteq> set (us @ entries l) \<union> set (rest @ ws)" for xs
      using that by (intro map_idI) force
    have kept: "map (\<lambda>(a, v). (a, if a = z then w else v)) us = us" "map (\<lambda>(a, v). (a, if a = z then w else v)) (entries l) = entries l"
      "map (\<lambda>(a, v). (a, if a = z then w else v)) rest = rest" "map (\<lambda>(a, v). (a, if a = z then w else v)) ws = ws"
      by (rule keep; auto)+
    have e2: "entries ?T2 = (us @ entries l @ [(z, w)]) @ (y, w) # rest @ ws"
      using e y(1) yz kept by (simp add: entries_set_entry)
    have "inorder (cut y ?T2) = map snd (us @ entries l @ [(z, w)]) @ map snd (rest @ ws)"
      by (rule cut_entry [OF s2 _ y2 y(3) e2]) (simp add: r(2))
    then have "inorder (cut y ?T2) = map snd (us @ entries l) @ map snd (entries R @ ws)" using y(1) by simp
    moreover have "root (t\<lparr>heap := h'\<rparr>) = rootp (cut y ?T2)" using r(1) rootp_cut [OF yT(2)] by simp
    ultimately show ?thesis using h'(2) e
      by (intro exI [of _ "t\<lparr>heap := h'\<rparr>"] exI [of _ "cut y ?T2"] exI [of _ "us @ entries l"] exI [of _ v] exI [of _ "entries R @ ws"]) auto
  qed
qed

section \<open>The destructor\<close>

lemma deleteAll_shape:
  "shape (heap t) q T \<Longrightarrow> disj_addrs T \<Longrightarrow> aheight T < k \<Longrightarrow>
   deleteAll k t (rootp T) = Some (t\<lparr>heap := heap t |` (- addrs T)\<rparr>)"
proof (induction T arbitrary: q k t)
  case ALeaf
  then show ?case by (cases k) auto
next
  case (ANode a c l v r)
  obtain j where k: "k = Suc j" "aheight l < j" "aheight r < j" using ANode.prems(3) by (cases k) auto
  have dj: "disj_addrs l" "disj_addrs r" "a \<notin> addrs l" "a \<notin> addrs r" "addrs l \<inter> addrs r = {}" using ANode.prems(2) by auto
  have sub: "shape (heap t) (Some a) l" "shape (heap t) (Some a) r" using ANode.prems(1) by auto
  let ?t1 = "t\<lparr>heap := heap t |` (- addrs l)\<rparr>"
  have l: "deleteAll j t (rootp l) = Some ?t1" by (rule ANode.IH(1) [OF sub(1) dj(1) k(2)])
  have "shape (heap t |` (- addrs l)) (Some a) r = shape (heap t) (Some a) r" by (rule shape_cong) (use dj(5) in \<open>auto simp: restrict_map_def\<close>)
  then have "shape (heap ?t1) (Some a) r" using sub(2) by simp
  then have r: "deleteAll j ?t1 (rootp r) = Some (?t1\<lparr>heap := heap ?t1 |` (- addrs r)\<rparr>)"
    by (rule ANode.IH(2) [OF _ dj(2) k(3)])
  have "(heap t |` (- addrs l) |` (- addrs r))(a := None) = heap t |` (- addrs (ANode a c l v r))"
    by (auto simp: restrict_map_def fun_eq_iff)
  then show ?case using ANode.prems(1) l r k(1) dj(3,4) by (simp add: deref_def)
qed

end
