(* ===== verification/Ranking.thy ===== *)
theory Ranking
  imports RBTree_Removed
begin

text \<open>
  The ranking of the players: \<open>RBTree<ScoreIndex>\<close> of \<open>DB/DBAccess.h\<close>, the tree of
  \<open>base/rbtree\<close> ordered by \<open>ScoreIndex::operator<\<close> (highest score first, then highest user
  id). The theory shows that this comparison is a strict total order, so that the tree is a
  ranked set, and states the properties of the tree on it.
\<close>

record ScoreIndex =
  score :: int
  user_id :: int

definition score_less :: "ScoreIndex \<Rightarrow> ScoreIndex \<Rightarrow> bool" where
  "score_less l r =
     (if score l \<noteq> score r then score l > score r else user_id l > user_id r)"

interpretation ranking: strict_order score_less
  by unfold_locales (auto simp: score_less_def split: if_splits)

fun insert_scores :: "ScoreIndex rbtree \<Rightarrow> ScoreIndex list \<Rightarrow> ScoreIndex rbtree option" where
  "insert_scores t [] = Some t"
| "insert_scores t (v # vs) = do { t \<leftarrow> insert_value score_less t v; insert_scores t vs }"

text \<open>What iteration reads from position \<open>p\<close> in at most \<open>k\<close> steps.\<close>

fun read_iter :: "nat \<Rightarrow> 'v rbtree \<Rightarrow> ptr \<Rightarrow> 'v list option" where
  "read_iter 0 t p = Some []"
| "read_iter (Suc k) t p = (if p = None then Some []
     else do {
       n \<leftarrow> deref t p;
       p' \<leftarrow> next_iter t p;
       vs \<leftarrow> read_iter k t p';
       Some (node_value n # vs) })"

lemma insert_scores_holds:
  "tree_holds score_less t xs ps \<Longrightarrow>
   \<exists>t' xs' ps'. insert_scores t vs = Some t' \<and> tree_holds score_less t' xs' ps'
     \<and> set xs' = set vs \<union> set xs"
proof (induction vs arbitrary: t xs ps)
  case (Cons v vs)
  obtain t1 ps1 where t1: "insert_value score_less t v = Some t1"
    "tree_holds score_less t1 (ins_list score_less v xs) ps1"
    using ranking.rb.holds_ins [OF Cons.prems] by blast
  moreover have "set (ins_list score_less v xs) = insert v (set xs)"
    using ranking.set_ins_list ranking.rb.holds_sorted [OF Cons.prems] by blast
  ultimately show ?case using Cons.IH [OF t1(2)] by auto
qed auto

lemma begin_iter_holds:
  assumes "tree_holds lt t xs ps" and "xs \<noteq> []"
  shows "begin_iter t = Some (Some (ps ! 0))"
proof -
  obtain T where T: "rep t T" "xs = inorder T" "ps = inorder_addrs T"
    using assms(1) by (auto simp: tree_holds_def)
  obtain q where q: "shape (heap t) q T" "root t = rootp T" using T(1) by (auto simp: rep_def)
  have ne: "T \<noteq> ALeaf" using assms(2) T(2) by auto
  then have "inorder_addrs T \<noteq> []" by simp
  then have "hd (inorder_addrs T) = inorder_addrs T ! 0" by (rule hd_conv_nth)
  moreover have "aheight T \<le> next_addr t + 1" using rep_fuel [OF T(1)] by simp
  ultimately show ?thesis using get_min_shape [OF q(1) ne] q(2) T(3)
    by (simp only: begin_iter_def get_min_def)
qed

lemma read_iter_from:
  assumes "tree_holds score_less t xs ps" and "i + k < length xs"
  shows "read_iter k t (Some (ps ! i)) = Some (take k (drop i xs))"
  using assms(2)
proof (induction k arbitrary: i)
  case (Suc k)
  have i: "i < length xs" "i + 1 < length xs" using Suc.prems by auto
  obtain n where n: "heap t (ps ! i) = Some n" "node_value n = xs ! i"
    using ranking.rb.holds_value [OF assms(1) i(1)] by (auto simp: node_at_def)
  have adv: "next_iter t (Some (ps ! i)) = Some (Some (ps ! (i + 1)))"
    using ranking.rb.holds_advance [OF assms(1) i(2)] by (simp only: next_at_def)
  have "read_iter k t (Some (ps ! (i + 1))) = Some (take k (drop (i + 1) xs))"
    using Suc.prems by (intro Suc.IH) simp
  moreover have "drop i xs = xs ! i # drop (i + 1) xs"
    using Cons_nth_drop_Suc [OF i(1)] by simp
  ultimately show ?case using n adv by (simp add: deref_def)
qed simp

text \<open>Three players, for the examples: the third is first, the second last.\<close>

definition three :: "ScoreIndex list" where
  "three = [\<lparr>score = 20, user_id = 1010\<rparr>, \<lparr>score = 5, user_id = 1011\<rparr>,
            \<lparr>score = 20, user_id = 1012\<rparr>]"

lemma three_holds:
  "\<exists>t ps. insert_scores empty_tree three = Some t
     \<and> tree_holds score_less t [three ! 2, three ! 0, three ! 1] ps"
proof -
  obtain t xs ps where t: "insert_scores empty_tree three = Some t" "tree_holds score_less t xs ps"
    "set xs = set three" using insert_scores_holds [OF ranking.rb.holds_new, of three] by auto
  have s: "sorted_wrt score_less xs" "distinct xs"
    using ranking.rb.holds_sorted [OF t(2)] by auto
  have "sorted_wrt score_less [three ! 2, three ! 0, three ! 1]"
    by (simp add: three_def score_less_def)
  moreover have "set [three ! 2, three ! 0, three ! 1] = set xs"
    unfolding t(3) by (auto simp: three_def)
  ultimately have "[three ! 2, three ! 0, three ! 1] = xs"
    using ranking.sorted_set_unique s(1) by blast
  then show ?thesis using t by blast
qed

text \<open>Two of them, inserted in order: the second insertion rotates the root.\<close>

lemma two_parents:
  "map_option root (insert_scores empty_tree [three ! 0, three ! 1]) = Some (Some 1)"
  "do { t \<leftarrow> insert_scores empty_tree [three ! 0, three ! 1]; map_option parent (heap t 1) }
     = Some (Some 0)"
  by code_simp+

section \<open>Properties\<close>

text \<open>C1. Inserting scores into the empty tree never crashes; it stores each of them once, in
  order, counts them, and answers an index with the position of that rank, or with null.\<close>

theorem ranking_after_inserts:
  "\<exists>t xs ps. insert_scores empty_tree vs = Some t \<and> tree_holds score_less t xs ps
     \<and> set xs = set vs \<and> sorted_wrt score_less xs
     \<and> tree_size t = Some (int (card (set vs)))
     \<and> (\<forall>i. by_index t i =
          Some (if 0 \<le> i \<and> i < int (card (set vs)) then Some (ps ! nat i) else None))"
proof -
  obtain t xs ps where t: "insert_scores empty_tree vs = Some t" "tree_holds score_less t xs ps"
    "set xs = set vs" using insert_scores_holds [OF ranking.rb.holds_new, of vs] by auto
  have s: "sorted_wrt score_less xs" "distinct xs"
    using ranking.rb.holds_sorted [OF t(2)] by auto
  then have "length xs = card (set vs)" using t(3) distinct_card by metis
  then show ?thesis
    using t s ranking.rb.holds_size [OF t(2)] ranking.rb.holds_at [OF t(2)] by metis
qed

text \<open>C24. \<open>search\<close> undoes \<open>by_index\<close>: the rank that the code computes for the value at an index
  is that index.\<close>

theorem rank_of_index:
  assumes "tree_holds score_less t xs ps" and "0 \<le> i" and "i < int (length xs)"
  shows "\<exists>p v q. by_index t i = Some (Some p) \<and> node_at t p = Some v
    \<and> search score_less t v out = Some (Some q, i)"
  using assms by (rule ranking.rb.rank_at_index)

text \<open>C25. Iterating from the position of an index reads the following values in order, as far as
  the last but one.\<close>

theorem page_of_ranking:
  assumes "tree_holds score_less t xs ps" and "i + k < length xs"
  shows "\<exists>p. by_index t (int i) = Some p \<and> read_iter k t p = Some (take k (drop i xs))"
  using assms read_iter_from [OF assms] ranking.rb.holds_at [OF assms(1), of "int i"] by simp

theorem rank_of_index_witness:
  "\<exists>t p v q. insert_scores empty_tree three = Some t \<and> by_index t 1 = Some (Some p)
     \<and> node_at t p = Some v \<and> search score_less t v 7 = Some (Some q, 1)"
proof -
  obtain t ps where t: "insert_scores empty_tree three = Some t"
    "tree_holds score_less t [three ! 2, three ! 0, three ! 1] ps" using three_holds by blast
  from rank_of_index [OF t(2), of 1 7] t(1) show ?thesis by simp
qed

theorem page_of_ranking_witness:
  "\<exists>t p. insert_scores empty_tree three = Some t \<and> by_index t (int 1) = Some p
     \<and> read_iter 1 t p = Some [three ! 0]"
proof -
  obtain t ps where t: "insert_scores empty_tree three = Some t"
    "tree_holds score_less t [three ! 2, three ! 0, three ! 1] ps" using three_holds by blast
  from page_of_ranking [OF t(2), of 1 1] t(1) show ?thesis by simp
qed

text \<open>The search for a value that is not in the tree returns null and adds the number of
  values before it to whatever the caller's \<open>out\<close> held.\<close>

theorem search_absent:
  assumes "tree_holds score_less t xs ps" and "v \<notin> set xs"
  shows "search score_less t v out =
    Some (None, out + int (length (filter (\<lambda>z. score_less z v) xs)))"
  using ranking.search_holds [OF assms(1), of v out] assms(2) by auto

theorem search_absent_witness:
  "\<exists>t. insert_scores empty_tree three = Some t
     \<and> search score_less t \<lparr>score = 7, user_id = 1\<rparr> 1000 = Some (None, 1002)"
proof -
  obtain t ps where t: "insert_scores empty_tree three = Some t"
    "tree_holds score_less t [three ! 2, three ! 0, three ! 1] ps" using three_holds by blast
  from search_absent [OF t(2), of "\<lparr>score = 7, user_id = 1\<rparr>" 1000] t(1) show ?thesis
    by (simp add: three_def score_less_def)
qed

text \<open>C26. The tree stays balanced: its height is at most twice the logarithm of its size.\<close>

theorem ranking_height:
  "\<exists>t T. insert_scores empty_tree vs = Some t \<and> rep t T \<and> llrb T
     \<and> 2 ^ aheight T \<le> (card (set vs) + 1) ^ 2"
proof -
  obtain t xs ps where t: "insert_scores empty_tree vs = Some t" "tree_holds score_less t xs ps"
    "set xs = set vs" using insert_scores_holds [OF ranking.rb.holds_new, of vs] by auto
  obtain T where T: "rep t T" "llrb T" "xs = inorder T" using t(2) by (auto simp: tree_holds_def)
  have "length xs = card (set vs)"
    using ranking.rb.holds_sorted [OF t(2)] t(3) distinct_card by metis
  then show ?thesis using t(1) T llrb_height [OF T(2)] by auto
qed

text \<open>Once the root's parent pointer is not null, no step of the iterator reaches the end:
  past the last value it goes on in the tree or never returns.\<close>

theorem iteration_never_ends:
  assumes "tree_holds score_less t xs ps" and "root t = Some r" and "heap t r = Some n"
    and "parent n \<noteq> None" and "p \<in> set ps"
  shows "next_iter t (Some p) \<noteq> Some None"
proof -
  obtain T where T: "rep t T" "ps = inorder_addrs T" using assms(1) by (auto simp: tree_holds_def)
  have "T \<noteq> ALeaf" using assms(5) T(2) by auto
  then show ?thesis using next_iter_never_null [OF T(1)] assms T(2) by simp
qed

theorem iteration_never_ends_witness:
  "\<exists>t p. insert_scores empty_tree [three ! 0, three ! 1] = Some t \<and> begin_iter t = Some p
     \<and> next_iter t p \<noteq> Some None"
proof -
  obtain t xs ps where t: "insert_scores empty_tree [three ! 0, three ! 1] = Some t"
    "tree_holds score_less t xs ps" "set xs = {three ! 0, three ! 1}"
    using insert_scores_holds [OF ranking.rb.holds_new, of "[three ! 0, three ! 1]"] by auto
  have r: "root t = Some 1" "map_option parent (heap t 1) = Some (Some 0)"
    using two_parents by (simp_all only: t(1) Option.bind.bind_lunit option.map option.inject)
  have "length xs = length ps" "xs \<noteq> []"
    using ranking.rb.holds_sorted [OF t(2)] t(3) by auto
  then have "ps ! 0 \<in> set ps" by (metis length_0_conv length_greater_0_conv nth_mem)
  moreover obtain n where "heap t 1 = Some n" "parent n \<noteq> None" using r(2) by auto
  ultimately have "next_iter t (Some (ps ! 0)) \<noteq> Some None"
    using iteration_never_ends [OF t(2) r(1)] by blast
  then show ?thesis using t(1) begin_iter_holds [OF t(2) \<open>xs \<noteq> []\<close>] by blast
qed

text \<open>\<open>my_delete\<close> of a value that the tree does not hold leaves the tree as it is.\<close>

theorem delete_absent:
  assumes "tree_holds score_less t xs ps" and "v \<notin> set xs"
  shows "my_delete score_less t v = Some t"
  using ranking.search_holds [OF assms(1), of v 0] assms(2) by (auto simp: my_delete_def)

theorem delete_absent_witness:
  "\<exists>t. insert_scores empty_tree three = Some t
     \<and> my_delete score_less t \<lparr>score = 7, user_id = 1\<rparr> = Some t"
proof -
  obtain t ps where t: "insert_scores empty_tree three = Some t"
    "tree_holds score_less t [three ! 2, three ! 0, three ! 1] ps" using three_holds by blast
  from delete_absent [OF t(2), of "\<lparr>score = 7, user_id = 1\<rparr>"] t(1) show ?thesis
    by (simp add: three_def)
qed

text \<open>Deleting a value whose node has two children takes another value out of the tree as
  well: here the second of three, and the third goes with it.\<close>

theorem delete_loses_another:
  "do { t \<leftarrow> insert_scores empty_tree three;
        t \<leftarrow> my_delete score_less t (three ! 0);
        r \<leftarrow> search score_less t (three ! 0) 0;
        r' \<leftarrow> search score_less t (three ! 1) 0;
        Some (fst r, fst r') } = Some (None, None)"
  by code_simp



text \<open>The other removal function breaks the tree of three: afterwards a node is its own right
  child. The destructor frees every node of a tree
  that insertions built, once.\<close>

lemma delete_one_child_self_loop:
  "do { t \<leftarrow> insert_scores empty_tree three;
        t \<leftarrow> delete_one_child t (root t);
        r \<leftarrow> deref t (root t);
        n \<leftarrow> deref t (rightNode r);
        Some (rightNode n = rightNode r) } = Some True"
  by code_simp

lemma destructor_frees:
  "\<exists>t T. insert_scores empty_tree vs = Some t \<and> rep t T
     \<and> deleteAll (Suc (aheight T)) t (root t) = Some (t\<lparr>heap := heap t |` (- addrs T)\<rparr>)"
proof -
  obtain t xs ps where t: "insert_scores empty_tree vs = Some t" "tree_holds score_less t xs ps"
    using insert_scores_holds [OF ranking.rb.holds_new, of vs] by auto
  obtain T where T: "rep t T" using t(2) by (auto simp: tree_holds_def)
  then obtain q where q: "root t = rootp T" "disj_addrs T" "shape (heap t) q T" by (auto simp: rep_def)
  have "deleteAll (Suc (aheight T)) t (root t) = Some (t\<lparr>heap := heap t |` (- addrs T)\<rparr>)"
    unfolding q(1) by (rule deleteAll_shape [OF q(3,2)]) simp
  then show ?thesis using t(1) T by blast
qed

text \<open>Deleting the only value of a tree dereferences its null parent, whatever the value.\<close>

lemma delete_only_crashes:
  "\<exists>t. insert_value score_less empty_tree v = Some t \<and> remove_leaf t (root t) = None
     \<and> my_delete score_less t v = None"
  by (simp add: insert_value_def empty_tree_def initNode_def set_color_def put_def deref_def
      remove_leaf_def my_delete_def search_def score_less_def count_of_def Let_def)

end
