(* ===== verification/StdMap.thy ===== *)
theory StdMap
  imports Prelude
begin

text \<open>
  \<open>std::map\<close> as the program uses it: an association list sorted by key, so that iteration in key
  order, \<open>find\<close>, \<open>operator[]\<close>, \<open>erase\<close>, \<open>size\<close> and \<open>clear\<close> are all executable. The laws the
  other theories rely on are the locale \<open>ordered_map\<close>, interpreted on this representation.
\<close>

type_synonym ('k, 'v) stdmap = "('k \<times> 'v) list"

definition ordered :: "('k::linorder, 'v) stdmap \<Rightarrow> bool" where
  "ordered m \<longleftrightarrow> sorted_wrt (<) (map fst m)"

definition keys :: "('k, 'v) stdmap \<Rightarrow> 'k list" where
  "keys m = map fst m"

definition vals :: "('k, 'v) stdmap \<Rightarrow> 'v list" where
  "vals m = map snd m"

fun find_key :: "('k, 'v) stdmap \<Rightarrow> 'k \<Rightarrow> 'v option" where
  "find_key [] k = None"
| "find_key ((k', v) # m) k = (if k' = k then Some v else find_key m k)"

fun set_key :: "'k::linorder \<Rightarrow> 'v \<Rightarrow> ('k, 'v) stdmap \<Rightarrow> ('k, 'v) stdmap" where
  "set_key k v [] = [(k, v)]"
| "set_key k v ((k', v') # m) =
     (if k < k' then (k, v) # (k', v') # m
      else if k = k' then (k, v) # m
      else (k', v') # set_key k v m)"

fun erase_key :: "'k \<Rightarrow> ('k, 'v) stdmap \<Rightarrow> ('k, 'v) stdmap" where
  "erase_key k [] = []"
| "erase_key k ((k', v') # m) = (if k = k' then m else (k', v') # erase_key k m)"

text \<open>\<open>operator[]\<close> used as a value: a missing key is inserted with the default value.\<close>

definition index_key :: "'v \<Rightarrow> ('k::linorder, 'v) stdmap \<Rightarrow> 'k \<Rightarrow> ('k, 'v) stdmap \<times> 'v" where
  "index_key d m k = (case find_key m k of Some v \<Rightarrow> (m, v) | None \<Rightarrow> (set_key k d m, d))"

locale ordered_map =
  fixes empty :: "'m"
    and lookup :: "'m \<Rightarrow> 'k::linorder \<Rightarrow> 'v option"
    and update :: "'k \<Rightarrow> 'v \<Rightarrow> 'm \<Rightarrow> 'm"
    and delete :: "'k \<Rightarrow> 'm \<Rightarrow> 'm"
    and list_keys :: "'m \<Rightarrow> 'k list"
    and valid :: "'m \<Rightarrow> bool"
  assumes valid_empty: "valid empty" and lookup_empty: "lookup empty k = None"
    and valid_update: "valid m \<Longrightarrow> valid (update k v m)"
    and valid_delete: "valid m \<Longrightarrow> valid (delete k m)"
    and lookup_update: "valid m \<Longrightarrow> lookup (update k v m) j = (if j = k then Some v else lookup m j)"
    and lookup_delete: "valid m \<Longrightarrow> lookup (delete k m) j = (if j = k then None else lookup m j)"
    and keys_sorted: "valid m \<Longrightarrow> sorted_wrt (<) (list_keys m)"
    and keys_set: "valid m \<Longrightarrow> set (list_keys m) = {k. lookup m k \<noteq> None}"
begin

lemma keys_distinct: "valid m \<Longrightarrow> distinct (list_keys m)"
  using keys_sorted [of m] by (simp add: strict_sorted_iff)

lemma lookup_update_same: "valid m \<Longrightarrow> lookup (update k v m) k = Some v"
  by (simp add: lookup_update)

lemma size_update:
  assumes "valid m"
  shows "length (list_keys (update k v m)) =
    (if lookup m k = None then length (list_keys m) + 1 else length (list_keys m))"
proof -
  have len: "length (list_keys m) = card {k. lookup m k \<noteq> None}" if "valid m" for m
    using keys_distinct [OF that] keys_set [OF that] distinct_card by metis
  have fin: "finite {k. lookup m k \<noteq> None}" using keys_set [OF assms] List.finite_set by metis
  have "{j. lookup (update k v m) j \<noteq> None} = insert k {j. lookup m j \<noteq> None}"
    using lookup_update [OF assms] by auto
  then show ?thesis
    using len [OF assms] len [OF valid_update [OF assms]] fin by (auto simp: card_insert_if)
qed

lemma delete_all:
  "valid m \<Longrightarrow> valid (fold delete ks m)
     \<and> lookup (fold delete ks m) j = (if j \<in> set ks then None else lookup m j)"
  by (induction ks arbitrary: m) (auto simp: valid_delete lookup_delete)

end

lemma find_key_set_key:
  "find_key (set_key k v m) j = (if j = k then Some v else find_key m j)" if "ordered m"
  using that by (induction m) (auto simp: ordered_def)

lemma set_key_twice: "set_key k v (set_key k w m) = set_key k v m"
  by (induction k w m rule: set_key.induct) auto

lemma set_keys_set_key: "fst ` set (set_key k v m) = insert k (fst ` set m)"
  by (induction k v m rule: set_key.induct) auto

lemma ordered_set_key: "ordered m \<Longrightarrow> ordered (set_key k v m)"
proof (induction m)
  case (Cons a m)
  then have "\<And>x. x \<in> fst ` set (set_key k v m) \<Longrightarrow> x = k \<or> x \<in> fst ` set m"
    by (auto simp: set_keys_set_key)
  with Cons show ?case by (cases a) (fastforce simp: ordered_def)
qed (simp add: ordered_def)

lemma erase_key_subset: "set (erase_key k m) \<subseteq> set m"
  by (induction k m rule: erase_key.induct) auto

lemma ordered_erase_key: "ordered m \<Longrightarrow> ordered (erase_key k m)"
proof (induction m)
  case (Cons a m)
  then show ?case using erase_key_subset [of k m] by (cases a) (auto simp: ordered_def)
qed simp

lemma find_key_notin: "k \<notin> fst ` set m \<Longrightarrow> find_key m k = None"
  by (induction m k rule: find_key.induct) auto

lemma find_key_erase_key:
  "find_key (erase_key k m) j = (if j = k then None else find_key m j)" if "ordered m"
  using that
proof (induction m)
  case (Cons a m)
  then have "fst a \<notin> fst ` set m" by (auto simp: ordered_def)
  with Cons find_key_notin [of "fst a" m] show ?case by (cases a) (auto simp: ordered_def)
qed simp

lemma keys_iff_find: "k \<in> set (keys m) \<longleftrightarrow> find_key m k \<noteq> None"
  by (induction m k rule: find_key.induct) (auto simp: keys_def)

lemma find_key_Some_in: "find_key m k = Some v \<Longrightarrow> (k, v) \<in> set m"
  by (induction m k rule: find_key.induct) (auto split: if_splits)

lemma in_find_key: "ordered m \<Longrightarrow> (k, v) \<in> set m \<Longrightarrow> find_key m k = Some v"
  by (induction m) (force simp: ordered_def)+

interpretation stdmap: ordered_map "[]" find_key set_key erase_key keys ordered
  by unfold_locales
    (simp_all add: ordered_set_key ordered_erase_key find_key_set_key find_key_erase_key keys_iff_find
      set_eq_iff, simp_all add: ordered_def keys_def)

lemma ordered_Nil [simp]: "ordered []"
  by (simp add: ordered_def)

lemma ordered_index_key [simp]: "ordered m \<Longrightarrow> ordered (fst (index_key d m k))"
  by (simp add: index_key_def ordered_set_key split: option.split)

lemma index_key_lookup:
  assumes "ordered m"
  shows "snd (index_key d m k) = (case find_key m k of Some v \<Rightarrow> v | None \<Rightarrow> d)"
    and "find_key (fst (index_key d m k)) j =
      (if j = k \<and> find_key m k = None then Some d else find_key m j)"
  using find_key_set_key [OF assms] by (auto simp: index_key_def split: option.split)

lemmas stdmap_simps = find_key_set_key find_key_erase_key ordered_set_key ordered_erase_key
  index_key_lookup

end
