(* ===== verification/AsyncMap.thy ===== *)
theory AsyncMap
  imports StdMap
begin

text \<open>
  The containers of \<open>base/asyncmap.h\<close>: the ring buffer \<open>AsyncQueue\<close>, the job queue
  \<open>SafeAsyncPriorityQueue\<close> (a plain \<open>std::queue\<close>: its priority is commented out) and
  \<open>SafeAsyncMap\<close>. The locks make every operation atomic, so each is one function. Both queues
  keep the contract \<open>fifo\<close>; for the ring buffer the contract holds for one producer and one
  consumer, in any interleaving of their steps.
\<close>

section \<open>AsyncQueue\<close>

record 'a AsyncQueue =
  array :: "'a list"
  reserv_head :: nat
  completed_head :: nat
  tail :: nat

text \<open>The template parameter \<open>_size\<close> is the length of the array.\<close>

definition new_queue :: "'a list \<Rightarrow> 'a AsyncQueue" where
  "new_queue a = \<lparr>array = a, reserv_head = 0, completed_head = 0, tail = 0\<rparr>"

definition clear :: "'a AsyncQueue \<Rightarrow> 'a AsyncQueue" where
  "clear q = q\<lparr>reserv_head := 0, completed_head := 0, tail := 0\<rparr>"

definition qsize :: "'a AsyncQueue \<Rightarrow> nat" where
  "qsize q = length (array q)"

definition distance :: "nat \<Rightarrow> nat \<Rightarrow> nat \<Rightarrow> nat" where
  "distance n a b = nat (let tmp = int a - int b in if tmp < 0 then tmp + int n else tmp)"

definition reserved_number :: "'a AsyncQueue \<Rightarrow> nat" where
  "reserved_number q = distance (qsize q) (reserv_head q) (tail q)"

definition uncomplted_reserved_size :: "'a AsyncQueue \<Rightarrow> nat" where
  "uncomplted_reserved_size q = distance (qsize q) (reserv_head q) (completed_head q)"

definition completed_size :: "'a AsyncQueue \<Rightarrow> nat" where
  "completed_size q = distance (qsize q) (completed_head q) (tail q)"

definition is_empty :: "'a AsyncQueue \<Rightarrow> bool" where
  "is_empty q \<longleftrightarrow> completed_size q = 0"

text \<open>\<open>reserve_new\<close> returns the slot to write, or null when the buffer is full.\<close>

definition reserve_new :: "'a AsyncQueue \<Rightarrow> 'a AsyncQueue \<times> nat option" where
  "reserve_new q =
     (if reserved_number q + 3 > qsize q then (q, None)
      else (q\<lparr>reserv_head := (reserv_head q + 1) mod qsize q\<rparr>, Some (reserv_head q)))"

definition write_slot :: "nat \<Rightarrow> 'a \<Rightarrow> 'a AsyncQueue \<Rightarrow> 'a AsyncQueue" where
  "write_slot i v q = q\<lparr>array := (array q)[i := v]\<rparr>"

definition complte_last_reserved :: "'a AsyncQueue \<Rightarrow> 'a AsyncQueue" where
  "complte_last_reserved q =
     (if uncomplted_reserved_size q \<le> 0 then q
      else q\<lparr>completed_head := (completed_head q + 1) mod qsize q\<rparr>)"

definition pop :: "'a AsyncQueue \<Rightarrow> 'a AsyncQueue" where
  "pop q = (if completed_size q < 1 then q else q\<lparr>tail := (tail q + 1) mod qsize q\<rparr>)"

definition front :: "'a AsyncQueue \<Rightarrow> 'a" where
  "front q = array q ! tail q"

text \<open>What the producer does for one value, as \<open>SharedMemoryLoger::init_memory\<close> does.\<close>

definition push :: "'a AsyncQueue \<Rightarrow> 'a \<Rightarrow> 'a AsyncQueue option" where
  "push q v = (case reserve_new q of
     (q, None) \<Rightarrow> None
   | (q, Some i) \<Rightarrow> Some (complte_last_reserved (write_slot i v q)))"

definition items :: "'a AsyncQueue \<Rightarrow> 'a list" where
  "items q = map (\<lambda>i. array q ! ((tail q + i) mod qsize q)) [0..<completed_size q]"

text \<open>The three indices are in the array and in order, and two slots stay free.\<close>

definition queue_inv :: "'a AsyncQueue \<Rightarrow> bool" where
  "queue_inv q \<longleftrightarrow> reserv_head q < qsize q \<and> completed_head q < qsize q \<and> tail q < qsize q
     \<and> completed_size q + uncomplted_reserved_size q = reserved_number q
     \<and> reserved_number q + 2 \<le> max 2 (qsize q)"


lemma distance_eq:
  "a < n \<Longrightarrow> b < n \<Longrightarrow> distance n a b = (if b \<le> a then a - b else a + n - b)"
  by (auto simp: distance_def Let_def nat_diff_distrib)

lemma distance_less: "a < n \<Longrightarrow> b < n \<Longrightarrow> distance n a b < n"
  by (auto simp: distance_eq)

lemma distance_mod: "a < n \<Longrightarrow> b < n \<Longrightarrow> (b + distance n a b) mod n = a"
  by (auto simp: distance_eq)

lemma distance_Suc:
  assumes "a < n" and "b < n" and "distance n a b + 1 < n"
  shows "distance n ((a + 1) mod n) b = distance n a b + 1"
proof (cases "a + 1 < n")
  case True
  then show ?thesis using assms by (auto simp: distance_eq split: if_splits)
next
  case False
  then have "a + 1 = n" using assms(1) by simp
  then show ?thesis using assms by (auto simp: distance_eq split: if_splits)
qed

lemma distance_pred:
  assumes "a < n" and "b < n" and "0 < distance n a b"
  shows "distance n a ((b + 1) mod n) = distance n a b - 1"
proof (cases "b + 1 < n")
  case True
  then show ?thesis using assms by (auto simp: distance_eq split: if_splits)
next
  case False
  then have "b + 1 = n" using assms(2) by simp
  then show ?thesis using assms by (auto simp: distance_eq split: if_splits)
qed

lemma ring_index_neq:
  assumes "j < d" and "d < n" shows "(b + j) mod n \<noteq> (b + d) mod (n::nat)"
proof
  assume "(b + j) mod n = (b + d) mod n"
  then have "(b + d) mod n = (b + j) mod n" by simp
  then have "n dvd (b + d) - (b + j)" using assms(1) by (subst (asm) mod_eq_dvd_iff_nat) simp_all
  then show False using assms by (auto dest: dvd_imp_le)
qed

subsection \<open>One operation at a time\<close>

lemma queue_inv_new: "0 < length a \<Longrightarrow> queue_inv (new_queue a)"
  by (simp add: queue_inv_def new_queue_def qsize_def reserved_number_def completed_size_def
      uncomplted_reserved_size_def distance_def)

lemma items_new [simp]: "items (new_queue a) = []"
  by (simp add: items_def new_queue_def completed_size_def distance_def)

lemma length_items: "length (items q) = completed_size q"
  by (simp add: items_def)

lemma qsize_simps [simp]:
  "qsize (write_slot i v q) = qsize q" "qsize (complte_last_reserved q) = qsize q"
  "qsize (pop q) = qsize q" "qsize (fst (reserve_new q)) = qsize q"
  "qsize (q\<lparr>reserv_head := a\<rparr>) = qsize q" "qsize (q\<lparr>completed_head := a\<rparr>) = qsize q"
  "qsize (q\<lparr>tail := a\<rparr>) = qsize q"
  by (simp_all add: qsize_def write_slot_def complte_last_reserved_def pop_def reserve_new_def)

lemma reserve_new_step:
  assumes "queue_inv q" and "reserve_new q = (q', Some i)"
  shows "queue_inv q'" and "items q' = items q" and "i = reserv_head q"
    and "uncomplted_reserved_size q' = uncomplted_reserved_size q + 1"
    and "completed_head q' = completed_head q" and "array q' = array q"
proof -
  have r: "reserved_number q + 3 \<le> qsize q" "i = reserv_head q"
    "q' = q\<lparr>reserv_head := (reserv_head q + 1) mod qsize q\<rparr>"
    using assms(2) by (auto simp: reserve_new_def split: if_splits)
  have h: "reserv_head q < qsize q" "completed_head q < qsize q" "tail q < qsize q"
    "completed_size q + uncomplted_reserved_size q = reserved_number q"
    using assms(1) by (auto simp: queue_inv_def)
  have n: "reserved_number q' = reserved_number q + 1"
    "uncomplted_reserved_size q' = uncomplted_reserved_size q + 1"
    "completed_size q' = completed_size q" "qsize q' = qsize q"
    using distance_Suc [OF h(1,3)] distance_Suc [OF h(1,2)] r h(4)
    by (simp_all add: reserved_number_def uncomplted_reserved_size_def completed_size_def qsize_def)
  show "queue_inv q'" using n h r by (auto simp: queue_inv_def)
  show "items q' = items q" using n r(3) by (simp add: items_def)
  show "i = reserv_head q" "uncomplted_reserved_size q' = uncomplted_reserved_size q + 1"
    "completed_head q' = completed_head q" "array q' = array q"
    using r n by simp_all
qed

lemma write_slot_step:
  assumes "queue_inv q" and "0 < uncomplted_reserved_size q"
  shows "queue_inv (write_slot (completed_head q) v q)"
    and "items (write_slot (completed_head q) v q) = items q"
    and "uncomplted_reserved_size (write_slot (completed_head q) v q) = uncomplted_reserved_size q"
proof -
  let ?q = "write_slot (completed_head q) v q"
  have n: "reserved_number ?q = reserved_number q" "completed_size ?q = completed_size q"
    "uncomplted_reserved_size ?q = uncomplted_reserved_size q"
    by (simp_all add: reserved_number_def uncomplted_reserved_size_def completed_size_def)
      (simp_all add: write_slot_def)
  show "queue_inv ?q" "uncomplted_reserved_size ?q = uncomplted_reserved_size q"
    using assms(1) n by (auto simp: queue_inv_def write_slot_def qsize_def)
  have h: "completed_head q < qsize q" "tail q < qsize q" using assms(1) by (auto simp: queue_inv_def)
  have "completed_head q \<noteq> (tail q + i) mod qsize q" if "i < completed_size q" for i
    using ring_index_neq [OF that, of "qsize q" "tail q"] distance_mod [OF h] distance_less [OF h]
    by (metis completed_size_def)
  then show "items ?q = items q" using n(2) by (auto simp: items_def) (simp add: write_slot_def nth_list_update_neq)
qed

lemma complte_step:
  assumes "queue_inv q" and "0 < uncomplted_reserved_size q"
  shows "queue_inv (complte_last_reserved q)"
    and "items (complte_last_reserved q) = items q @ [array q ! completed_head q]"
    and "uncomplted_reserved_size (complte_last_reserved q) = uncomplted_reserved_size q - 1"
proof -
  let ?q = "complte_last_reserved q"
  have q: "?q = q\<lparr>completed_head := (completed_head q + 1) mod qsize q\<rparr>"
    using assms(2) by (simp add: complte_last_reserved_def)
  have h: "reserv_head q < qsize q" "completed_head q < qsize q" "tail q < qsize q"
    "completed_size q + uncomplted_reserved_size q = reserved_number q"
    using assms(1) by (auto simp: queue_inv_def)
  have less: "completed_size q + 1 < qsize q"
    using h(4) assms(1,2) distance_less [OF h(1,3)] by (auto simp: queue_inv_def reserved_number_def)
  have n: "reserved_number ?q = reserved_number q" "completed_size ?q = completed_size q + 1"
    "uncomplted_reserved_size ?q = uncomplted_reserved_size q - 1"
    using distance_Suc [OF h(2,3)] distance_pred [OF h(1,2)] less assms(2)
    by (simp_all add: reserved_number_def uncomplted_reserved_size_def completed_size_def)
      (simp_all add: q)
  show "queue_inv ?q" "uncomplted_reserved_size ?q = uncomplted_reserved_size q - 1"
    using n h assms by (auto simp: queue_inv_def q)
  have "(tail q + completed_size q) mod qsize q = completed_head q"
    using distance_mod [OF h(2,3)] by (simp add: completed_size_def)
  then show "items ?q = items q @ [array q ! completed_head q]"
    using n(2) by (auto simp: items_def) (simp_all add: q)
qed

lemma pop_step:
  assumes "queue_inv q" and "items q \<noteq> []"
  shows "queue_inv (pop q)" and "items q = front q # items (pop q)"
    and "uncomplted_reserved_size (pop q) = uncomplted_reserved_size q"
    and "completed_head (pop q) = completed_head q" and "array (pop q) = array q"
proof -
  have pos: "0 < completed_size q" using assms(2) by (auto simp flip: length_items)
  have q: "pop q = q\<lparr>tail := (tail q + 1) mod qsize q\<rparr>" using pos by (simp add: pop_def)
  have h: "reserv_head q < qsize q" "completed_head q < qsize q" "tail q < qsize q"
    "completed_size q + uncomplted_reserved_size q = reserved_number q"
    using assms(1) by (auto simp: queue_inv_def)
  have n: "reserved_number (pop q) = reserved_number q - 1" "completed_size (pop q) = completed_size q - 1"
    "uncomplted_reserved_size (pop q) = uncomplted_reserved_size q"
    using distance_pred [OF h(2,3)] distance_pred [OF h(1,3)] pos h(4)
    by (simp_all add: reserved_number_def uncomplted_reserved_size_def completed_size_def)
      (simp_all add: q)
  show "queue_inv (pop q)" "uncomplted_reserved_size (pop q) = uncomplted_reserved_size q"
    "completed_head (pop q) = completed_head q" "array (pop q) = array q"
    using n h assms pos by (auto simp: queue_inv_def q)
  obtain k where k: "completed_size q = Suc k" using pos gr0_conv_Suc by blast
  have "items q = map (\<lambda>i. array q ! ((tail q + i) mod qsize q)) (0 # map Suc [0..<k])"
    unfolding items_def k map_Suc_upt upt_conv_Cons [OF zero_less_Suc] by simp
  also have "\<dots> = front q # items (pop q)"
    using n(2) k h(3) by (simp add: items_def front_def) (simp add: q mod_add_left_eq)
  finally show "items q = front q # items (pop q)" .
qed

lemma push_step:
  assumes "queue_inv q" and "uncomplted_reserved_size q = 0" and "push q v = Some q'"
  shows "queue_inv q' \<and> uncomplted_reserved_size q' = 0 \<and> items q' = items q @ [v]"
proof -
  obtain q1 i where q1: "reserve_new q = (q1, Some i)"
    "q' = complte_last_reserved (write_slot i v q1)"
    using assms(3) by (auto simp: push_def split: option.splits prod.splits)
  note r = reserve_new_step [OF assms(1) q1(1)]
  have i: "i = completed_head q1"
    using r assms(1,2) by (auto simp: queue_inv_def uncomplted_reserved_size_def distance_eq split: if_splits)
  have un: "uncomplted_reserved_size q1 = 1" using r(4) assms(2) by simp
  note w = write_slot_step [OF r(1), of v, folded i]
  have len: "i < length (array q1)" using r(1) i by (auto simp: queue_inv_def qsize_def)
  have "array (write_slot i v q1) ! completed_head (write_slot i v q1) = v"
    using len i by (simp add: write_slot_def)
  then show ?thesis
    using complte_step [OF w(1)] w(2,3) un q1(2) r(2) by simp
qed

section \<open>SafeAsyncPriorityQueue\<close>

text \<open>\<open>std::queue\<close>: \<open>front\<close> and \<open>pop\<close> of an empty queue are undefined.\<close>

definition spq_push :: "'a list \<Rightarrow> 'a \<Rightarrow> 'a list" where
  "spq_push q v = q @ [v]"

definition spq_top :: "'a list \<Rightarrow> 'a option" where
  "spq_top q = (case q of [] \<Rightarrow> None | v # q \<Rightarrow> Some v)"

definition spq_pop :: "'a list \<Rightarrow> 'a list option" where
  "spq_pop q = (case q of [] \<Rightarrow> None | v # q \<Rightarrow> Some q)"

definition spq_empty :: "'a list \<Rightarrow> bool" where
  "spq_empty q \<longleftrightarrow> q = []"

section \<open>SafeAsyncMap\<close>

definition sam_push :: "'k::linorder \<Rightarrow> 'v \<Rightarrow> ('k, 'v) stdmap \<Rightarrow> ('k, 'v) stdmap" where
  "sam_push k v m = set_key k v m"

definition sam_remove :: "'k \<Rightarrow> ('k, 'v) stdmap \<Rightarrow> ('k, 'v) stdmap" where
  "sam_remove k m = erase_key k m"

text \<open>\<open>get\<close> is \<open>operator[]\<close>: asking for a missing key inserts a default value.\<close>

definition sam_get :: "'v \<Rightarrow> ('k::linorder, 'v) stdmap \<Rightarrow> 'k \<Rightarrow> ('k, 'v) stdmap \<times> 'v" where
  "sam_get d m k = index_key d m k"

section \<open>The contract of the queues\<close>

text \<open>A full queue may refuse a value (\<open>None\<close>); what it accepts comes out once and in order.\<close>

locale fifo =
  fixes enq :: "'q \<Rightarrow> 'v \<Rightarrow> 'q option"
    and deq :: "'q \<Rightarrow> 'q option"
    and peek :: "'q \<Rightarrow> 'v option"
    and contents :: "'q \<Rightarrow> 'v list"
    and good :: "'q \<Rightarrow> bool"
  assumes enq_contents: "good q \<Longrightarrow> enq q v = Some q' \<Longrightarrow> good q' \<and> contents q' = contents q @ [v]"
    and deq_contents: "good q \<Longrightarrow> contents q \<noteq> [] \<Longrightarrow>
      \<exists>q'. deq q = Some q' \<and> good q' \<and> contents q' = tl (contents q)"
    and peek_contents: "good q \<Longrightarrow> contents q \<noteq> [] \<Longrightarrow> peek q = Some (hd (contents q))"
begin

text \<open>Take values as long as \<open>P\<close> holds of the first; the fuel bounds the number taken.\<close>

fun take_while :: "('v \<Rightarrow> bool) \<Rightarrow> nat \<Rightarrow> 'q \<Rightarrow> ('v list \<times> 'q) option" where
  "take_while P 0 q = Some ([], q)"
| "take_while P (Suc k) q = do {
     v \<leftarrow> peek q;
     if P v then do { q \<leftarrow> deq q; (vs, q) \<leftarrow> take_while P k q; Some (v # vs, q) }
     else Some ([], q) }"

lemma take_while_contents:
  "good q \<Longrightarrow> k = length (contents q) \<Longrightarrow>
   \<exists>q'. take_while P k q = Some (takeWhile P (contents q), q')
     \<and> good q' \<and> contents q' = dropWhile P (contents q)"
proof (induction k arbitrary: q)
  case (Suc k)
  obtain v vs where c: "contents q = v # vs" using Suc.prems(2) by (cases "contents q") auto
  obtain q' where "deq q = Some q'" "good q'" "contents q' = vs"
    using deq_contents [OF Suc.prems(1)] c by auto
  moreover have "peek q = Some v" using peek_contents [OF Suc.prems(1)] c by simp
  moreover have "k = length vs" using Suc.prems(2) c by simp
  ultimately show ?case using Suc.IH [of q'] c Suc.prems(1) by auto
qed auto

end

interpretation spq: fifo "\<lambda>q v. Some (spq_push q v)" spq_pop spq_top "\<lambda>q. q" "\<lambda>q. True"
  by unfold_locales (auto simp: spq_push_def spq_pop_def spq_top_def split: list.splits)

interpretation ring: fifo push "\<lambda>q. Some (pop q)" "\<lambda>q. Some (front q)" items
  "\<lambda>q. queue_inv q \<and> uncomplted_reserved_size q = 0"
proof (unfold_locales, goal_cases)
  case (1 q v q')
  then show ?case using push_step [of q v q'] by blast
next
  case (2 q)
  then have "items q = front q # items (pop q)" using pop_step(2) [of q] by blast
  then show ?case using 2 pop_step(1,3) [of q] by simp
next
  case (3 q)
  then show ?case using pop_step(2) [of q] by (metis list.sel(1))
qed

section \<open>One producer and one consumer\<close>

text \<open>
  The two threads take turns between any two calls. The producer is between calls, has reserved
  a slot, or has written it; the two lists record the values completed and consumed so far.
\<close>

datatype 'a phase = Idle | Reserved nat | Written nat 'a

record 'a run =
  the_queue :: "'a AsyncQueue"
  phase :: "'a phase"
  produced :: "'a list"
  consumed :: "'a list"

inductive turn :: "'a run \<Rightarrow> 'a run \<Rightarrow> bool" where
  reserve: "phase r = Idle \<Longrightarrow> reserve_new (the_queue r) = (q, Some i) \<Longrightarrow>
    turn r (r\<lparr>the_queue := q, phase := Reserved i\<rparr>)"
| fill: "phase r = Reserved i \<Longrightarrow>
    turn r (r\<lparr>the_queue := write_slot i v (the_queue r), phase := Written i v\<rparr>)"
| complete: "phase r = Written i v \<Longrightarrow>
    turn r (r\<lparr>the_queue := complte_last_reserved (the_queue r), phase := Idle,
              produced := produced r @ [v]\<rparr>)"
| consume: "\<not> is_empty (the_queue r) \<Longrightarrow>
    turn r (r\<lparr>the_queue := pop (the_queue r), consumed := consumed r @ [front (the_queue r)]\<rparr>)"

inductive reachable_run :: "'a list \<Rightarrow> 'a run \<Rightarrow> bool" for a where
  start: "reachable_run a \<lparr>the_queue = new_queue a, phase = Idle, produced = [], consumed = []\<rparr>"
| next_turn: "reachable_run a r \<Longrightarrow> turn r r' \<Longrightarrow> reachable_run a r'"

definition run_inv :: "'a run \<Rightarrow> bool" where
  "run_inv r \<longleftrightarrow> queue_inv (the_queue r) \<and> produced r = consumed r @ items (the_queue r)
     \<and> (case phase r of
          Idle \<Rightarrow> uncomplted_reserved_size (the_queue r) = 0
        | Reserved i \<Rightarrow> uncomplted_reserved_size (the_queue r) = 1 \<and> i = completed_head (the_queue r)
        | Written i v \<Rightarrow> uncomplted_reserved_size (the_queue r) = 1 \<and> i = completed_head (the_queue r)
            \<and> array (the_queue r) ! i = v)"

lemma turn_inv:
  assumes "turn r r'" and "run_inv r"
  shows "run_inv r'"
  using assms
proof (cases rule: turn.cases)
  case (reserve q i)
  have inv: "queue_inv (the_queue r)" "uncomplted_reserved_size (the_queue r) = 0"
    using assms(2) reserve(2) by (auto simp: run_inv_def)
  note st = reserve_new_step [OF inv(1) reserve(3)]
  have "completed_head (the_queue r) = reserv_head (the_queue r)"
    using inv by (auto simp: queue_inv_def uncomplted_reserved_size_def distance_eq split: if_splits)
  then show ?thesis using st inv assms(2) reserve(1) by (auto simp: run_inv_def)
next
  case (fill i v)
  have inv: "queue_inv (the_queue r)" "uncomplted_reserved_size (the_queue r) = 1"
    "i = completed_head (the_queue r)"
    using assms(2) fill(2) by (auto simp: run_inv_def)
  have "i < length (array (the_queue r))" using inv by (auto simp: queue_inv_def qsize_def)
  moreover have "completed_head (write_slot i v q) = completed_head q" for q :: "'a AsyncQueue"
    by (simp add: write_slot_def)
  ultimately show ?thesis using write_slot_step [OF inv(1), of v] inv assms(2) fill(1)
    by (auto simp: run_inv_def) (simp add: write_slot_def)
next
  case (complete i v)
  have inv: "queue_inv (the_queue r)" "uncomplted_reserved_size (the_queue r) = 1"
    "i = completed_head (the_queue r)" "array (the_queue r) ! i = v"
    using assms(2) complete(2) by (auto simp: run_inv_def)
  then show ?thesis using complte_step [OF inv(1)] assms(2) complete(1) by (auto simp: run_inv_def)
next
  case consume
  have inv: "queue_inv (the_queue r)" using assms(2) by (simp add: run_inv_def)
  have "items (the_queue r) \<noteq> []"
    using consume(2) by (auto simp: is_empty_def simp flip: length_items)
  from pop_step [OF inv this] assms(2) consume(1) show ?thesis
    by (auto simp: run_inv_def split: phase.splits)
qed

lemma reachable_run_inv: "reachable_run a r \<Longrightarrow> 0 < length a \<Longrightarrow> run_inv r"
proof (induction rule: reachable_run.induct)
  case start
  then show ?case
    by (simp add: run_inv_def queue_inv_new)
      (simp add: new_queue_def uncomplted_reserved_size_def distance_def)
qed (auto intro: turn_inv)

lemma reachable_run_qsize: "reachable_run a r \<Longrightarrow> qsize (the_queue r) = length a"
proof (induction rule: reachable_run.induct)
  case start
  then show ?case by (simp add: new_queue_def qsize_def)
next
  case (next_turn r r')
  from next_turn(2,3) show ?case
    by (cases rule: turn.cases) (auto simp: reserve_new_def split: if_splits)
qed

section \<open>Properties\<close>

text \<open>C2. In every interleaving of one producer and one consumer, what the consumer has read
  followed by what is in the buffer is what the producer has completed, in order.\<close>

theorem ring_buffer_fifo:
  assumes "reachable_run a r" and "0 < length a"
  shows "produced r = consumed r @ items (the_queue r) \<and> length (items (the_queue r)) \<le> length a - 2"
  using reachable_run_inv [OF assms] reachable_run_qsize [OF assms(1)]
  by (auto simp: run_inv_def queue_inv_def length_items)

theorem ring_buffer_fifo_witness:
  "\<exists>r. reachable_run [0, 0, 0, 0] r \<and> produced r = [7::nat] \<and> consumed r = [7]
     \<and> items (the_queue r) = []"
proof -
  let ?q = "new_queue [0, 0, 0, 0 :: nat]"
  let ?r0 = "\<lparr>the_queue = ?q, phase = Idle, produced = [], consumed = []\<rparr>"
  let ?r1 = "?r0\<lparr>the_queue := fst (reserve_new ?q), phase := Reserved 0\<rparr>"
  let ?r2 = "?r1\<lparr>the_queue := write_slot 0 7 (the_queue ?r1), phase := Written 0 7\<rparr>"
  let ?r3 = "?r2\<lparr>the_queue := complte_last_reserved (the_queue ?r2), phase := Idle, produced := [7]\<rparr>"
  let ?r4 = "?r3\<lparr>the_queue := pop (the_queue ?r3), consumed := [7]\<rparr>"
  have 1: "turn ?r0 ?r1"
    by (rule turn.intros(1)) (simp_all add: reserve_new_def new_queue_def qsize_def
        reserved_number_def distance_def)
  have 2: "turn ?r1 ?r2" using turn.intros(2) [of ?r1 0 7] by simp
  have 3: "turn ?r2 ?r3" using turn.intros(3) [of ?r2 0 7] by simp
  have v: "\<not> is_empty (the_queue ?r3)" "front (the_queue ?r3) = 7" by code_simp+
  have 4: "turn ?r3 ?r4" using turn.intros(4) [OF v(1)] v(2) by simp
  have r: "reachable_run [0, 0, 0, 0] ?r4"
    using 1 2 3 4 by (meson reachable_run.intros)
  from ring_buffer_fifo [OF r] show ?thesis using r by (intro exI [of _ ?r4]) simp
qed

text \<open>With two producers the buffer hands out a slot before it is written: both reserve, the
  second writes and completes, and the consumer reads the first one's slot.\<close>

lemma two_producers_unwritten_slot:
  "(let (q, i) = reserve_new (new_queue [0, 0, 0, 0, 0 :: nat]);
        (q, j) = reserve_new q;
        q = complte_last_reserved (write_slot (the j) 9 q)
    in (i, j, is_empty q, front q)) = (Some 0, Some 1, False, 0)"
  by code_simp

end
