(* ===== verification/Bytes.thy ===== *)
theory Bytes
  imports Prelude "HOL-Library.Word"
begin

text \<open>
  Memory as the messages use it: a buffer of bytes, little-endian fields, and packed structs
  (\<open>PAK_STRUCT\<close>), whose fields lie one after the other without padding. A cast of a buffer to a
  message type is a view of the buffer through the layout of that type.
\<close>

type_synonym byte = "8 word"
type_synonym buffer = "byte list"

fun le_value :: "byte list \<Rightarrow> int" where
  "le_value [] = 0"
| "le_value (b # bs) = uint b + 256 * le_value bs"

fun le_bytes :: "nat \<Rightarrow> int \<Rightarrow> byte list" where
  "le_bytes 0 v = []"
| "le_bytes (Suc n) v = word_of_int (v mod 256) # le_bytes n (v div 256)"

lemma length_le_bytes [simp]: "length (le_bytes n v) = n"
  by (induction n arbitrary: v) auto

lemma le_value_bytes: "le_value (le_bytes n v) = v mod 256 ^ n"
proof (induction n arbitrary: v)
  case (Suc n)
  have "uint (word_of_int (v mod 256) :: byte) = v mod 256"
    by (simp add: uint_word_of_int)
  then show ?case using Suc by (simp add: zmod_zmult2_eq)
qed simp

lemma le_value_bounds: "0 \<le> le_value bs \<and> le_value bs < 256 ^ length bs"
proof (induction bs)
  case (Cons b bs)
  have "0 \<le> uint b" "uint b < 256" using uint_bounded [of b] by auto
  then show ?case using Cons by auto
qed simp

subsection \<open>Field types\<close>

text \<open>The integer and character types of the messages on the server's machine (LP64).\<close>

datatype ctype = CBool | CShort | CInt | CUInt | CLong | CULong | CFloat | CChars nat | CStruct nat

fun size_of :: "ctype \<Rightarrow> nat" where
  "size_of CBool = 1"
| "size_of CShort = 2"
| "size_of CInt = 4"
| "size_of CUInt = 4"
| "size_of CLong = 8"
| "size_of CULong = 8"
| "size_of CFloat = 4"
| "size_of (CChars n) = n"
| "size_of (CStruct n) = n"

text \<open>The value of a field: signed types sign-extend, a float is its bit pattern.\<close>

fun decode :: "ctype \<Rightarrow> byte list \<Rightarrow> int" where
  "decode CShort bs = to_i16 (le_value bs)"
| "decode CInt bs = to_i32 (le_value bs)"
| "decode CLong bs = to_i64 (le_value bs)"
| "decode t bs = le_value bs"

fun in_range :: "ctype \<Rightarrow> int \<Rightarrow> bool" where
  "in_range CShort v \<longleftrightarrow> - (2 ^ 15) \<le> v \<and> v < 2 ^ 15"
| "in_range CInt v \<longleftrightarrow> in_i32 v"
| "in_range CLong v \<longleftrightarrow> in_i64 v"
| "in_range CBool v \<longleftrightarrow> v = 0 \<or> v = 1"
| "in_range t v \<longleftrightarrow> 0 \<le> v \<and> v < 256 ^ size_of t"

lemma decode_encode:
  assumes "in_range t v"
  shows "decode t (le_bytes (size_of t) v) = v"
proof -
  have mods: "256 ^ 2 = (2 ^ 16 :: int)" "256 ^ 4 = (2 ^ 32 :: int)" "256 ^ 8 = (2 ^ 64 :: int)"
    by simp_all
  have signed: "to_i16 (v mod 2 ^ 16) = to_i16 v" "to_i32 (v mod 2 ^ 32) = to_i32 v"
    "to_i64 (v mod 2 ^ 64) = to_i64 v"
    by (simp_all add: to_i16_def to_i32_def to_i64_def mod_add_left_eq del: power_numeral)
  show ?thesis
  proof (cases t)
    case CShort
    then show ?thesis using assms signed(1) by (simp add: le_value_bytes mods to_i16_def)
  next
    case CInt
    then show ?thesis using assms signed(2) to_i32_id
      by (simp only: decode.simps size_of.simps le_value_bytes mods in_range.simps)
  next
    case CLong
    then show ?thesis using assms signed(3) to_i64_id
      by (simp only: decode.simps size_of.simps le_value_bytes mods in_range.simps)
  next
    case CBool
    then show ?thesis using assms by auto
  qed (use assms in \<open>simp_all only: decode.simps size_of.simps le_value_bytes in_range.simps
        mod_pos_pos_trivial\<close>)
qed

subsection \<open>Packed structs\<close>

type_synonym layout = "(string \<times> ctype) list"

definition struct_size :: "layout \<Rightarrow> nat" where
  "struct_size l = (\<Sum>(f, t) \<leftarrow> l. size_of t)"

fun field_at :: "layout \<Rightarrow> string \<Rightarrow> (nat \<times> ctype) option" where
  "field_at [] f = None"
| "field_at ((g, t) # l) f =
     (if g = f then Some (0, t) else map_option (\<lambda>(off, u). (size_of t + off, u)) (field_at l f))"

definition offset_of :: "layout \<Rightarrow> string \<Rightarrow> nat" where
  "offset_of l f = (case field_at l f of None \<Rightarrow> 0 | Some (off, t) \<Rightarrow> off)"

definition bytes_at :: "nat \<Rightarrow> nat \<Rightarrow> buffer \<Rightarrow> byte list" where
  "bytes_at off n b = take n (drop off b)"

definition overwrite :: "nat \<Rightarrow> byte list \<Rightarrow> buffer \<Rightarrow> buffer" where
  "overwrite off bs b = take off b @ bs @ drop (off + length bs) b"

definition field :: "layout \<Rightarrow> string \<Rightarrow> buffer \<Rightarrow> int" where
  "field l f b = (case field_at l f of None \<Rightarrow> 0 | Some (off, t) \<Rightarrow> decode t (bytes_at off (size_of t) b))"

definition put_field :: "layout \<Rightarrow> string \<Rightarrow> int \<Rightarrow> buffer \<Rightarrow> buffer" where
  "put_field l f v b =
     (case field_at l f of None \<Rightarrow> b | Some (off, t) \<Rightarrow> overwrite off (le_bytes (size_of t) v) b)"

text \<open>The bytes of an array field.\<close>

definition field_bytes :: "layout \<Rightarrow> string \<Rightarrow> buffer \<Rightarrow> byte list" where
  "field_bytes l f b = (case field_at l f of None \<Rightarrow> [] | Some (off, t) \<Rightarrow> bytes_at off (size_of t) b)"

text \<open>A C string: the characters up to the first zero byte.\<close>

definition c_str :: "byte list \<Rightarrow> byte list" where
  "c_str bs = takeWhile (\<lambda>c. c \<noteq> 0) bs"

lemma length_overwrite: "off + length bs \<le> length b \<Longrightarrow> length (overwrite off bs b) = length b"
  by (simp add: overwrite_def)

lemma bytes_at_overwrite_same:
  "off + length bs \<le> length b \<Longrightarrow> n = length bs \<Longrightarrow> bytes_at off n (overwrite off bs b) = bs"
  by (simp add: bytes_at_def overwrite_def)

lemma bytes_at_overwrite_other:
  assumes "off + length bs \<le> length b" and "o' + n \<le> off \<or> off + length bs \<le> o'"
  shows "bytes_at o' n (overwrite off bs b) = bytes_at o' n b"
  using assms(2)
proof
  assume "o' + n \<le> off"
  then show ?thesis using assms(1)
    by (auto simp: bytes_at_def overwrite_def nth_append intro!: nth_equalityI)
next
  assume "off + length bs \<le> o'"
  then show ?thesis using assms(1) by (simp add: bytes_at_def overwrite_def)
qed

lemma field_at_Some_in: "field_at l f = Some (off, t) \<Longrightarrow> f \<in> fst ` set l"
  by (induction l f arbitrary: off rule: field_at.induct) (auto split: if_splits)

lemma field_at_None: "field_at l f = None \<longleftrightarrow> f \<notin> fst ` set l"
  by (induction l f rule: field_at.induct) auto

lemma field_at_bound: "field_at l f = Some (off, t) \<Longrightarrow> off + size_of t \<le> struct_size l"
proof (induction l f arbitrary: off rule: field_at.induct)
  case (2 g u l f)
  then show ?case by (fastforce simp: struct_size_def split: if_splits)
qed simp

lemma field_at_disjoint:
  "field_at l f = Some (off, t) \<Longrightarrow> field_at l g = Some (o', u) \<Longrightarrow> f \<noteq> g \<Longrightarrow>
   o' + size_of u \<le> off \<or> off + size_of t \<le> o'"
proof (induction l f arbitrary: off o' rule: field_at.induct)
  case (2 h v l f)
  then show ?case by (fastforce split: if_splits)
qed simp

lemma field_at_append: "f \<in> fst ` set l \<Longrightarrow> field_at (l @ m) f = field_at l f"
  by (induction l f rule: field_at.induct) force+

text \<open>A message seen through its base class has the fields of the base class.\<close>

lemma field_base: "f \<in> fst ` set l \<Longrightarrow> field (l @ m) f b = field l f b"
  by (simp add: field_def field_at_append)

text \<open>The contract of a block of named cells.\<close>

locale cells =
  fixes get :: "'f \<Rightarrow> 'b \<Rightarrow> 'v"
    and put :: "'f \<Rightarrow> 'v \<Rightarrow> 'b \<Rightarrow> 'b"
    and fits :: "'f \<Rightarrow> 'v \<Rightarrow> bool"
    and block :: "'b \<Rightarrow> bool"
  assumes put_block: "block b \<Longrightarrow> block (put f v b)"
    and get_put_same: "block b \<Longrightarrow> fits f v \<Longrightarrow> get f (put f v b) = v"
    and get_put_other: "block b \<Longrightarrow> g \<noteq> f \<Longrightarrow> get g (put f v b) = get g b"
begin

lemma get_put_all:
  assumes "block b" and "\<forall>(f, v) \<in> set fvs. fits f v" and "distinct (map fst fvs)"
  shows "block (fold (\<lambda>(f, v). put f v) fvs b)"
    and "(f, v) \<in> set fvs \<Longrightarrow> get f (fold (\<lambda>(f, v). put f v) fvs b) = v"
    and "f \<notin> fst ` set fvs \<Longrightarrow> get f (fold (\<lambda>(f, v). put f v) fvs b) = get f b"
proof -
  have *: "block (fold (\<lambda>(f, v). put f v) fvs b) \<and>
    (\<forall>f v. (f, v) \<in> set fvs \<longrightarrow> get f (fold (\<lambda>(f, v). put f v) fvs b) = v) \<and>
    (\<forall>f. f \<notin> fst ` set fvs \<longrightarrow> get f (fold (\<lambda>(f, v). put f v) fvs b) = get f b)"
    using assms
  proof (induction fvs arbitrary: b)
    case (Cons x fvs)
    obtain g w where x: "x = (g, w)" by (cases x)
    have "block (put g w b)" using Cons.prems(1) by (rule put_block)
    from Cons.IH [OF this] Cons.prems x get_put_same [OF Cons.prems(1)] get_put_other [OF Cons.prems(1)]
    show ?case by (auto simp: image_iff)
  qed simp
  show "block (fold (\<lambda>(f, v). put f v) fvs b)" using * by blast
  show "(f, v) \<in> set fvs \<Longrightarrow> get f (fold (\<lambda>(f, v). put f v) fvs b) = v" using * by blast
  show "f \<notin> fst ` set fvs \<Longrightarrow> get f (fold (\<lambda>(f, v). put f v) fvs b) = get f b" using * by blast
qed

end

definition fits_field :: "layout \<Rightarrow> string \<Rightarrow> int \<Rightarrow> bool" where
  "fits_field l f v = (case field_at l f of None \<Rightarrow> False | Some (off, t) \<Rightarrow> in_range t v)"

interpretation struct: cells "field l" "put_field l" "fits_field l"
  "\<lambda>b. struct_size l \<le> length b" for l
proof (unfold_locales, goal_cases)
  case (1 b f v)
  show ?case
  proof (cases "field_at l f")
    case (Some x)
    obtain off t where x: "x = (off, t)" by (cases x)
    have "off + size_of t \<le> length b" using field_at_bound [of l f off t] Some x 1 by simp
    then show ?thesis using Some x 1 by (simp add: put_field_def length_overwrite)
  qed (use 1 in \<open>simp add: put_field_def\<close>)
next
  case (2 b f v)
  then obtain off t where "field_at l f = Some (off, t)" "in_range t v"
    by (auto simp: fits_field_def split: option.splits)
  moreover have "off + size_of t \<le> length b" using field_at_bound calculation(1) 2(1) le_trans by blast
  ultimately show ?case
    by (simp add: field_def put_field_def bytes_at_overwrite_same decode_encode)
next
  case (3 b g f v)
  show ?case
  proof (cases "field_at l f = None \<or> field_at l g = None")
    case True
    then show ?thesis by (elim disjE) (simp_all add: field_def put_field_def)
  next
    case False
    then obtain off t o' u where at: "field_at l f = Some (off, t)" "field_at l g = Some (o', u)"
      by (cases "field_at l f"; cases "field_at l g") auto
    have "off + size_of t \<le> length b" using field_at_bound at(1) 3(1) le_trans by blast
    then show ?thesis using field_at_disjoint [OF at] 3(2) at
      by (simp add: field_def put_field_def bytes_at_overwrite_other)
  qed
qed

end
