(* ===== verification/Messages.thy ===== *)
theory Messages
  imports Bytes
begin

text \<open>
  The wire format: \<open>base_message/BaseMessage.h\<close>, \<open>Classes/game_message/Messages.h\<close> and
  \<open>societalgaming.h\<close>. Every message type is its packed layout; the type codes, the \<open>check\<close>
  functions, the self-relative arrays (\<open>MyArray\<close>, \<open>MyPointer\<close>) and \<open>get_action\<close> work on
  buffers through these layouts.
\<close>

section \<open>Type codes\<close>

datatype BaseType = ACK | NCK | MSG | PINGR_EQUEST | PING_RESPONSE | LOGIN | LOGIN_RESPONSE
  | LOGIN_RESPONSE_ACK | LOGIN_PROBLEM | PREGISTERREQUEST | PREGISTERRESPONSE | REGISTER
  | REGISTER_RESPONSE | REGISTER_RESPONSE_ACK | PYTHON_SERVER_BUY_REQUEST | PYTHON_SERVER_BUY_RESPONSE

fun base_code :: "BaseType \<Rightarrow> int" where
  "base_code ACK = 1"
| "base_code NCK = 2"
| "base_code MSG = 3"
| "base_code PINGR_EQUEST = 4"
| "base_code PING_RESPONSE = 5"
| "base_code LOGIN = or 32 1"
| "base_code LOGIN_RESPONSE = or 32 2"
| "base_code LOGIN_RESPONSE_ACK = or 32 3"
| "base_code LOGIN_PROBLEM = or 32 4"
| "base_code PREGISTERREQUEST = or (or 32 16) 1"
| "base_code PREGISTERRESPONSE = or (or 32 16) 2"
| "base_code REGISTER = or (or 32 16) 3"
| "base_code REGISTER_RESPONSE = or (or 32 16) 4"
| "base_code REGISTER_RESPONSE_ACK = or (or 32 16) 5"
| "base_code PYTHON_SERVER_BUY_REQUEST = or 64 1"
| "base_code PYTHON_SERVER_BUY_RESPONSE = or 64 2"

datatype CatagoryType = MATCH | ROOM | SINGLE_USER | SERVER_EVENT | SOTCEIAL_GAMING | CHAT
  | SERVER_CHECK | USER_UPGRADE | GAME_DATA | SYSTEAM

fun category_code :: "CatagoryType \<Rightarrow> int" where
  "category_code MATCH = push_bit 8 1"
| "category_code ROOM = push_bit 8 2"
| "category_code SINGLE_USER = push_bit 8 3"
| "category_code SERVER_EVENT = push_bit 8 4"
| "category_code SOTCEIAL_GAMING = push_bit 8 5"
| "category_code CHAT = push_bit 8 6"
| "category_code SERVER_CHECK = push_bit 8 7"
| "category_code USER_UPGRADE = push_bit 8 8"
| "category_code GAME_DATA = push_bit 8 9"
| "category_code SYSTEAM = push_bit 8 255"

datatype MsgType = MATCH_REQUEST | MATCH_RESPONSE | READY_TOMATCH | VISITOR_REQUEST
  | MATCH_REQUEST_CANCEL | MATCH_REQUEST_TIME_BOT | MATCH_BOT_RESULT | USER_MATCH_REQUEST
  | GAMEACTION_CLIENT_SEND | GAMEACTION_SERVER_SEND | TANK_STATE_16 | SHOT_STATE_16 | GAME_END
  | SMILE_CHAT | CLOSE_GAME | DIRECT_MSG | ROOM_STATE_REQUST | ROOM_STATE_RESPONSE
  | GAME_REPOSITONS | SMALL_MSG | ROOM_EVENT_ACK | GAME_REQUEST | GAME_REQUEST_RESPONSE
  | TOP_HUNDERD_SCORE_REQUEST | TOP_HUNDERD_SCORE_RESPONSE | HUNDERD_STATE_REQUEST
  | HUNDERD_STATE_RESPONSE | CHAT_MESSAGE | PROFILE_REQUEST | PROFILE_RESPONSE
  | CHANGE_DISPLAY_NAME_REQUEST | CHANGE_DISPLAY_NAME_RESPONSE | CHANGE_TEAM_REQUEST
  | CHANGE_TEAM_RESPONSE | CHANGE_MONY_TO_COIN | USE_MONY | USER_GAME_DATA
  | GAME_PLAYER_CONFIGURE | TEAM_UPGRADE | TEAM_UPGRADE_RESPONSE | BUY_POSTION | GEM_WIN
  | EMOTY_CASH_COIN | SERVER_DATA_CHECK_REQUEST | SERVER_LONG_MSG | BUG_CHECK_POINT
  | SERVER_DOWNLOAD_INSTALL_APK

fun type_parts :: "MsgType \<Rightarrow> CatagoryType \<times> int" where
  "type_parts MATCH_REQUEST = (MATCH, 1)"
| "type_parts MATCH_RESPONSE = (MATCH, 2)"
| "type_parts READY_TOMATCH = (MATCH, 3)"
| "type_parts VISITOR_REQUEST = (MATCH, 4)"
| "type_parts MATCH_REQUEST_CANCEL = (MATCH, 5)"
| "type_parts MATCH_REQUEST_TIME_BOT = (MATCH, 6)"
| "type_parts MATCH_BOT_RESULT = (MATCH, 7)"
| "type_parts USER_MATCH_REQUEST = (MATCH, 8)"
| "type_parts GAMEACTION_CLIENT_SEND = (ROOM, 3)"
| "type_parts GAMEACTION_SERVER_SEND = (ROOM, 4)"
| "type_parts TANK_STATE_16 = (ROOM, 5)"
| "type_parts SHOT_STATE_16 = (ROOM, 6)"
| "type_parts GAME_END = (ROOM, 7)"
| "type_parts SMILE_CHAT = (ROOM, 9)"
| "type_parts CLOSE_GAME = (ROOM, 10)"
| "type_parts DIRECT_MSG = (ROOM, 11)"
| "type_parts ROOM_STATE_REQUST = (ROOM, 12)"
| "type_parts ROOM_STATE_RESPONSE = (ROOM, 13)"
| "type_parts GAME_REPOSITONS = (ROOM, 14)"
| "type_parts SMALL_MSG = (ROOM, 15)"
| "type_parts ROOM_EVENT_ACK = (ROOM, 16)"
| "type_parts GAME_REQUEST = (SOTCEIAL_GAMING, 1)"
| "type_parts GAME_REQUEST_RESPONSE = (SOTCEIAL_GAMING, 2)"
| "type_parts TOP_HUNDERD_SCORE_REQUEST = (SOTCEIAL_GAMING, 4)"
| "type_parts TOP_HUNDERD_SCORE_RESPONSE = (SOTCEIAL_GAMING, 5)"
| "type_parts HUNDERD_STATE_REQUEST = (SOTCEIAL_GAMING, 6)"
| "type_parts HUNDERD_STATE_RESPONSE = (SOTCEIAL_GAMING, 7)"
| "type_parts CHAT_MESSAGE = (CHAT, 1)"
| "type_parts PROFILE_REQUEST = (SINGLE_USER, 1)"
| "type_parts PROFILE_RESPONSE = (SINGLE_USER, 2)"
| "type_parts CHANGE_DISPLAY_NAME_REQUEST = (SINGLE_USER, 3)"
| "type_parts CHANGE_DISPLAY_NAME_RESPONSE = (SINGLE_USER, 4)"
| "type_parts CHANGE_TEAM_REQUEST = (SINGLE_USER, 5)"
| "type_parts CHANGE_TEAM_RESPONSE = (SINGLE_USER, 6)"
| "type_parts CHANGE_MONY_TO_COIN = (SINGLE_USER, 7)"
| "type_parts USE_MONY = (SINGLE_USER, 8)"
| "type_parts USER_GAME_DATA = (SINGLE_USER, 19)"
| "type_parts GAME_PLAYER_CONFIGURE = (GAME_DATA, 5)"
| "type_parts TEAM_UPGRADE = (USER_UPGRADE, 1)"
| "type_parts TEAM_UPGRADE_RESPONSE = (USER_UPGRADE, 2)"
| "type_parts BUY_POSTION = (USER_UPGRADE, 3)"
| "type_parts GEM_WIN = (SERVER_EVENT, 1)"
| "type_parts EMOTY_CASH_COIN = (SERVER_EVENT, 2)"
| "type_parts SERVER_DATA_CHECK_REQUEST = (SERVER_CHECK, 2)"
| "type_parts SERVER_LONG_MSG = (SERVER_CHECK, 2)"
| "type_parts BUG_CHECK_POINT = (SYSTEAM, 1)"
| "type_parts SERVER_DOWNLOAD_INSTALL_APK = (SYSTEAM, 30)"

definition type_code :: "MsgType \<Rightarrow> int" where
  "type_code t = (let (c, n) = type_parts t in or (category_code c) n)"

section \<open>Structs\<close>

text \<open>
  The packed structs, a derived struct after the fields of its base. \<open>MisleState\<close> has a second
  field \<open>owner_id\<close>, which hides the one of its base; it is \<open>misle_owner_id\<close> here.
\<close>

definition BaseMessage :: layout where
  "BaseMessage =
    [(''base_type'', CUInt), (''client_process_id'', CLong), (''id'', CULong),
    (''answer_of_msg_id'', CULong), (''user_id'', CLong), (''cookie'', CLong),
    (''rand_key'', CLong), (''hash'', CLong), (''size_of_data'', CUInt),
    (''start_of_body'', CUInt), (''ack_required'', CBool)]"

definition ACKMSG :: layout where
  "ACKMSG =
    BaseMessage @ [(''ack_lvl'', CInt)]"

definition LoginMSG :: layout where
  "LoginMSG =
    BaseMessage @ [(''password'', CChars 32)]"

definition LoginResponse :: layout where
  "LoginResponse =
    BaseMessage @ [(''done'', CBool), (''display_name'', CChars 64)]"

definition LoginProblem :: layout where
  "LoginProblem =
    BaseMessage @ [(''problem'', CUInt)]"

definition PingRequestMsg :: layout where
  "PingRequestMsg =
    BaseMessage @ [(''version_id'', CInt), (''branch_id'', CInt), (''pinger_time'', CLong)]"

definition PingResponseMsg :: layout where
  "PingResponseMsg =
    BaseMessage @ [(''pinger_time'', CLong), (''responser_time'', CLong),
    (''upgrade_requrid'', CBool)]"

definition MsgHeader :: layout where
  "MsgHeader =
    BaseMessage @ [(''type'', CUInt)]"

definition BuyPostion :: layout where
  "BuyPostion =
    MsgHeader @ [(''postion_id'', CInt)]"

definition TeamUpgrade :: layout where
  "TeamUpgrade =
    MsgHeader @ [(''team_id'', CInt), (''to_level'', CInt)]"

definition TeamUpgradeResponse :: layout where
  "TeamUpgradeResponse =
    MsgHeader @ [(''team_id'', CInt), (''to_level'', CInt), (''done'', CInt)]"

definition ROOM_DATA :: layout where
  "ROOM_DATA =
    [(''id'', CLong), (''code'', CLong)]"

definition JoinResponse :: layout where
  "JoinResponse =
    MsgHeader @ [(''lig_id'', CLong), (''room'', CStruct (struct_size ROOM_DATA)),
    (''game_start_time'', CLong), (''mili_second_per_step'', CInt)]"

definition JoinRequest :: layout where
  "JoinRequest =
    MsgHeader @ [(''lig_id'', CInt)]"

definition MatchTimeBot :: layout where
  "MatchTimeBot =
    MsgHeader @ [(''lig_id'', CInt)]"

definition MatchBotResult :: layout where
  "MatchBotResult =
    MsgHeader @ [(''bot_id'', CInt), (''lig_id'', CInt), (''human_score'', CInt),
    (''bot_score'', CInt)]"

definition UserMatchRequest :: layout where
  "UserMatchRequest =
    MsgHeader @ [(''target_user'', CLong), (''lig_id'', CInt)]"

definition ReadyMatch :: layout where
  "ReadyMatch =
    MsgHeader @ [(''lig_id'', CInt)]"

definition ConvertMony :: layout where
  "ConvertMony =
    MsgHeader @ [(''mony'', CInt)]"

definition UseMony :: layout where
  "UseMony =
    MsgHeader @ [(''mony'', CInt), (''discrib'', CChars 64)]"

definition RoomMsg :: layout where
  "RoomMsg =
    MsgHeader @ [(''room.id'', CLong), (''room.code'', CLong)]"

definition GameActionMsg :: layout where
  "GameActionMsg =
    RoomMsg @ [(''start_states'', CUInt), (''number_of_states'', CUInt)]"

definition MyArray :: layout where
  "MyArray =
    [(''start'', CUInt), (''size'', CUInt)]"

definition MyPointer :: layout where
  "MyPointer =
    [(''start'', CUInt)]"

definition TankState16Msg :: layout where
  "TankState16Msg =
    RoomMsg @ [(''array'', CStruct (struct_size MyArray))]"

definition ZIP_Point :: layout where
  "ZIP_Point =
    [(''x'', CFloat), (''y'', CFloat)]"

definition ShotState :: layout where
  "ShotState =
    [(''player_id'', CLong), (''shot_id'', CLong), (''target_user'', CLong),
    (''room_time'', CLong), (''pos'', CStruct (struct_size ZIP_Point)),
    (''v'', CStruct (struct_size ZIP_Point)), (''shot_type'', CInt), (''hash_key'', CLong),
    (''hash_result'', CLong)]"

definition ShotState16Msg :: layout where
  "ShotState16Msg =
    RoomMsg @ [(''states'', CStruct (struct_size ShotState))]"

definition StikerMsg :: layout where
  "StikerMsg =
    RoomMsg @ [(''idx'', CInt)]"

definition SmallGameChat :: layout where
  "SmallGameChat =
    RoomMsg @ [(''msg'', CChars 64)]"

definition GameEndMsg :: layout where
  "GameEndMsg =
    RoomMsg @ [(''winner_role'', CInt), (''winer_prize'', CInt), (''reason'', CUInt)]"

definition GameExtraMsg :: layout where
  "GameExtraMsg =
    RoomMsg @ [(''player_win'', CInt), (''mony_bounuce'', CInt), (''coin_bounuce'', CInt)]"

definition GameMoveMentMsg :: layout where
  "GameMoveMentMsg =
    RoomMsg @ [(''p_idx'', CShort), (''n'', CShort), (''time'', CStruct 40),
    (''movs'', CStruct (struct_size ZIP_Point))]"

definition GameConfigResponse :: layout where
  "GameConfigResponse =
    MsgHeader @ [(''gem'', CInt), (''config_id'', CInt),
    (''config'', CStruct (5 * struct_size ZIP_Point)), (''active'', CBool), (''have'', CBool)]"

definition DirectMsg :: layout where
  "DirectMsg =
    RoomMsg @ [(''type2'', CInt), (''len'', CInt), (''data'', CChars 1024)]"

definition RoomStateRequest :: layout where
  "RoomStateRequest =
    RoomMsg @ [(''last_got_event'', CLong)]"

definition RoomEventAck :: layout where
  "RoomEventAck =
    RoomMsg @ [(''obj_id'', CLong), (''step'', CInt)]"

definition ChangeNameRequest :: layout where
  "ChangeNameRequest =
    MsgHeader @ [(''display_name'', CChars 64)]"

definition ChangeTeamRequest :: layout where
  "ChangeTeamRequest =
    MsgHeader @ [(''team_id'', CInt), (''avatar_id'', CInt)]"

definition ChangeNameResponse :: layout where
  "ChangeNameResponse =
    MsgHeader @ [(''done'', CBool), (''display_name'', CChars 64)]"

definition RequestProfile :: layout where
  "RequestProfile =
    MsgHeader @ [(''target_user_id'', CInt)]"

definition ResponseProfile :: layout where
  "ResponseProfile =
    MsgHeader @ [(''target_user_id'', CInt), (''level'', CInt), (''coin'', CInt),
    (''mony'', CInt), (''goals_number'', CInt), (''win_number'', CInt), (''loss_number'', CInt),
    (''team_id'', CInt), (''team_id2'', CInt), (''avatar_id'', CInt),
    (''achivment_set'', CLong), (''exp'', CLong), (''display_name'', CChars 64),
    (''cup'', CLong), (''defult_position'', CInt), (''rank'', CInt)]"

definition UserGameData :: layout where
  "UserGameData =
    MsgHeader @ [(''configs'', CStruct 32), (''teams'', CStruct 512)]"

definition UserBigProfile :: layout where
  "UserBigProfile =
    MsgHeader @ [(''target_user_id'', CInt), (''level'', CInt), (''display_name'', CChars 64),
    (''number_achivments_complited'', CInt)]"

definition GemWin :: layout where
  "GemWin =
    MsgHeader @ [(''win_type'', CUInt), (''gems'', CInt), (''parms1'', CInt),
    (''parms2'', CInt), (''parms3'', CInt)]"

definition EmptyCashCoin :: layout where
  "EmptyCashCoin =
    MsgHeader @ [(''coin'', CInt), (''minute'', CInt)]"

definition ServerDataRequest :: layout where
  "ServerDataRequest =
    MsgHeader @ [(''last_data_version'', CInt)]"

definition ServerLongMsg :: layout where
  "ServerLongMsg =
    MsgHeader @ [(''long_msg_id'', CLong), (''last_app_version'', CInt),
    (''data_version'', CInt), (''deleted'', CInt), (''length'', CInt), (''a'', CChars 2048)]"

definition ServerDownloadInstallCommand :: layout where
  "ServerDownloadInstallCommand =
    MsgHeader @ [(''command_id'', CLong), (''command_type'', CChars 128), (''url'', CChars 256),
    (''file_name'', CChars 256), (''check_sum'', CInt), (''pic_url'', CChars 256),
    (''pic_fn'', CChars 64)]"

definition GameRequest :: layout where
  "GameRequest =
    MsgHeader @ [(''request_id'', CLong), (''target_user_id'', CLong), (''lig_id'', CInt)]"

definition GameRequestResponse :: layout where
  "GameRequestResponse =
    MsgHeader @ [(''request_id'', CLong), (''target_user_id'', CLong), (''lig_id'', CInt),
    (''is_accepted'', CBool), (''reject_reason'', CInt)]"

definition HundredStateRequest :: layout where
  "HundredStateRequest =
    MsgHeader @ [(''n'', CInt), (''a'', CStruct (128 * 8))]"

definition HundredProfile :: layout where
  "HundredProfile =
    [(''id'', CInt), (''rank'', CInt), (''cup'', CInt), (''avatar_id'', CInt),
    (''team_id'', CInt), (''level'', CInt), (''city_id'', CInt), (''name'', CChars 64),
    (''state'', CUInt)]"

definition HundredStateResponse :: layout where
  "HundredStateResponse =
    MsgHeader @ [(''n'', CInt), (''profiles'', CStruct (100 * struct_size HundredProfile))]"

definition TopHundredRequest :: layout where
  "TopHundredRequest =
    MsgHeader @ [(''section_id'', CLong), (''shift'', CInt), (''count'', CInt)]"

definition TopHundredResponse :: layout where
  "TopHundredResponse =
    MsgHeader @ [(''section_id'', CLong), (''shift'', CInt), (''count'', CInt),
    (''profiles'', CStruct (100 * 8))]"

definition ChatMessage :: layout where
  "ChatMessage =
    RoomMsg @ [(''target_conversation_id'', CLong), (''msg_id'', CLong), (''length'', CInt),
    (''a'', CChars 1027)]"

definition BoardObjectState :: layout where
  "BoardObjectState =
    [(''object_type'', CUInt), (''event_type'', CUInt), (''object_id'', CLong),
    (''owner_id'', CLong), (''room_time'', CInt), (''pos'', CStruct (struct_size ZIP_Point)),
    (''z'', CFloat), (''r'', CFloat), (''angle'', CFloat)]"

definition LiveBoardObjectState :: layout where
  "LiveBoardObjectState =
    BoardObjectState @ [(''speed'', CFloat), (''max_healt'', CInt), (''max_speed'', CFloat),
    (''healt'', CInt), (''born_step'', CInt)]"

definition UnitState :: layout where
  "UnitState =
    LiveBoardObjectState @ [(''user_id'', CLong), (''target_angle'', CFloat),
    (''max_angle_speed'', CFloat), (''angle_speed'', CFloat)]"

definition TankState :: layout where
  "TankState =
    UnitState @ [(''target_range'', CFloat), (''canon_angle'', CFloat),
    (''remain_shot'', CFloat), (''shot_damage'', CInt)]"

definition MisleState :: layout where
  "MisleState =
    LiveBoardObjectState @ [(''misle_owner_id'', CLong), (''target_tank_id'', CLong),
    (''max_dis'', CFloat), (''angle_speed'', CFloat), (''damage'', CInt)]"

definition PlatformLineState :: layout where
  "PlatformLineState =
    BoardObjectState @ [(''start'', CStruct (struct_size ZIP_Point)),
    (''finish'', CStruct (struct_size ZIP_Point))]"

definition InputState :: layout where
  "InputState =
    [(''size_of_data'', CUInt), (''type'', CUInt), (''tank_id'', CLong),
    (''trigger_step'', CInt), (''id'', CUInt), (''client_id'', CUInt)]"

definition InputFarmanState :: layout where
  "InputFarmanState =
    InputState @ [(''farman'', CFloat), (''speed'', CFloat)]"

definition InputShotState :: layout where
  "InputShotState =
    InputState @ [(''shot'', CInt), (''shot_id'', CLong), (''targetet'', CBool),
    (''angle'', CFloat)]"

section \<open>Checks\<close>

text \<open>The inherited \<open>check\<close> of the messages that do not define their own always succeeds.\<close>

definition BaseMessage_check :: "buffer \<Rightarrow> bool" where
  "BaseMessage_check b = True"

definition MsgHeader_check :: "buffer \<Rightarrow> bool" where
  "MsgHeader_check b = BaseMessage_check b"

definition RoomMsg_check :: "buffer \<Rightarrow> bool" where
  "RoomMsg_check b = MsgHeader_check b"

definition JoinRequest_check :: "buffer \<Rightarrow> bool" where
  "JoinRequest_check b \<longleftrightarrow>
     field JoinRequest ''lig_id'' b > 0 \<and> field JoinRequest ''lig_id'' b < 12"

definition MatchTimeBot_check :: "buffer \<Rightarrow> bool" where
  "MatchTimeBot_check b \<longleftrightarrow>
     field MatchTimeBot ''lig_id'' b > 0 \<and> field MatchTimeBot ''lig_id'' b < 12"

definition MatchBotResult_check :: "buffer \<Rightarrow> bool" where
  "MatchBotResult_check b \<longleftrightarrow>
     field MatchBotResult ''lig_id'' b > 0 \<and> field MatchBotResult ''lig_id'' b < 12"

definition UserMatchRequest_check :: "buffer \<Rightarrow> bool" where
  "UserMatchRequest_check b \<longleftrightarrow>
     field UserMatchRequest ''lig_id'' b > 0 \<and> field UserMatchRequest ''lig_id'' b < 12"

definition ConvertMony_check :: "buffer \<Rightarrow> bool" where
  "ConvertMony_check b \<longleftrightarrow> field ConvertMony ''mony'' b > 0"

definition UseMony_check :: "buffer \<Rightarrow> bool" where
  "UseMony_check b \<longleftrightarrow> field UseMony ''mony'' b > 0"

definition GameActionMsg_check :: "nat \<Rightarrow> buffer \<Rightarrow> bool" where
  "GameActionMsg_check n b =
     (if n < struct_size GameActionMsg then False
      else if field GameActionMsg ''start_states'' b \<noteq> int (struct_size GameActionMsg) then False
      else if field GameActionMsg ''number_of_states'' b > 1 then False
      else if field GameActionMsg ''size_of_data'' b \<noteq> int n then False
      else RoomMsg_check b)"

definition CloseGame_check :: "buffer \<Rightarrow> bool" where
  "CloseGame_check b = RoomMsg_check b"

definition StikerMsg_check :: "buffer \<Rightarrow> bool" where
  "StikerMsg_check b \<longleftrightarrow>
     RoomMsg_check b \<and> field StikerMsg ''idx'' b > -1 \<and> field StikerMsg ''idx'' b < 4"

definition SmallGameChat_check :: "buffer \<Rightarrow> bool" where
  "SmallGameChat_check b = RoomMsg_check b"

definition TopHundredRequest_check :: "buffer \<Rightarrow> bool" where
  "TopHundredRequest_check b \<longleftrightarrow> field TopHundredRequest ''count'' b \<le> 100"

text \<open>
  \<open>get_action\<close> copies \<open>size_of_data\<close> bytes from \<open>start_states\<close> on into a fresh block of 256
  bytes, which holds \<open>junk\<close> before. The copy is undefined if it leaves either block.
\<close>

definition get_action :: "byte list \<Rightarrow> buffer \<Rightarrow> buffer option" where
  "get_action junk b =
     (let n = nat (field GameActionMsg ''size_of_data'' b);
          off = nat (field GameActionMsg ''start_states'' b)
      in if n \<le> 256 \<and> off + n \<le> length b
         then Some (overwrite 0 (bytes_at off n b) (take 256 junk)) else None)"

section \<open>Self-relative arrays\<close>

text \<open>
  \<open>MyArray\<close> and \<open>MyPointer\<close> hold offsets from their own address; \<open>pos\<close> is that address from
  the start of the message. \<open>init\<close> places the data at the current end of the message and moves
  the end.
\<close>

definition field_from :: "nat \<Rightarrow> layout \<Rightarrow> string \<Rightarrow> buffer \<Rightarrow> int" where
  "field_from pos l f b = field l f (drop pos b)"

definition put_from :: "nat \<Rightarrow> layout \<Rightarrow> string \<Rightarrow> int \<Rightarrow> buffer \<Rightarrow> buffer" where
  "put_from pos l f v b = take pos b @ put_field l f v (drop pos b)"

definition getEndData :: "buffer \<Rightarrow> nat" where
  "getEndData b = nat (field BaseMessage ''size_of_data'' b)"

definition grow_data :: "nat \<Rightarrow> buffer \<Rightarrow> buffer" where
  "grow_data n b =
     put_field BaseMessage ''size_of_data'' (to_u32 (field BaseMessage ''size_of_data'' b + int n)) b"

definition MyArray_init :: "nat \<Rightarrow> nat \<Rightarrow> nat \<Rightarrow> buffer \<Rightarrow> buffer" where
  "MyArray_init pos elem x b =
     (let b = put_from pos MyArray ''start'' (to_u32 (int (getEndData b) - int pos)) b;
          b = put_from pos MyArray ''size'' (to_u32 (int x)) b
      in grow_data (x * elem) b)"

definition MyArray_getIndex :: "nat \<Rightarrow> nat \<Rightarrow> nat \<Rightarrow> buffer \<Rightarrow> nat" where
  "MyArray_getIndex pos elem i b = pos + nat (field_from pos MyArray ''start'' b) + i * elem"

definition MyPointer_init :: "nat \<Rightarrow> nat \<Rightarrow> buffer \<Rightarrow> buffer" where
  "MyPointer_init pos n b =
     grow_data n (put_from pos MyPointer ''start'' (to_u32 (int (getEndData b) - int pos)) b)"

definition MyPointer_getPtr :: "nat \<Rightarrow> buffer \<Rightarrow> nat" where
  "MyPointer_getPtr pos b = pos + nat (field_from pos MyPointer ''start'' b)"

section \<open>Lemmas\<close>

definition all_types :: "MsgType list" where
  "all_types = [MATCH_REQUEST, MATCH_RESPONSE, READY_TOMATCH, VISITOR_REQUEST,
     MATCH_REQUEST_CANCEL, MATCH_REQUEST_TIME_BOT, MATCH_BOT_RESULT, USER_MATCH_REQUEST,
     GAMEACTION_CLIENT_SEND, GAMEACTION_SERVER_SEND, TANK_STATE_16, SHOT_STATE_16, GAME_END,
     SMILE_CHAT, CLOSE_GAME, DIRECT_MSG, ROOM_STATE_REQUST, ROOM_STATE_RESPONSE,
     GAME_REPOSITONS, SMALL_MSG, ROOM_EVENT_ACK, GAME_REQUEST, GAME_REQUEST_RESPONSE,
     TOP_HUNDERD_SCORE_REQUEST, TOP_HUNDERD_SCORE_RESPONSE, HUNDERD_STATE_REQUEST,
     HUNDERD_STATE_RESPONSE, CHAT_MESSAGE, PROFILE_REQUEST, PROFILE_RESPONSE,
     CHANGE_DISPLAY_NAME_REQUEST, CHANGE_DISPLAY_NAME_RESPONSE, CHANGE_TEAM_REQUEST,
     CHANGE_TEAM_RESPONSE, CHANGE_MONY_TO_COIN, USE_MONY, USER_GAME_DATA,
     GAME_PLAYER_CONFIGURE, TEAM_UPGRADE, TEAM_UPGRADE_RESPONSE, BUY_POSTION, GEM_WIN,
     EMOTY_CASH_COIN, SERVER_LONG_MSG, BUG_CHECK_POINT, SERVER_DOWNLOAD_INSTALL_APK]"

lemma all_types_complete: "t \<noteq> SERVER_DATA_CHECK_REQUEST \<Longrightarrow> t \<in> set all_types"
  by (cases t) (simp_all add: all_types_def)

lemma type_codes_distinct: "distinct (map type_code all_types)"
  by code_simp

lemma type_code_clash: "type_code SERVER_DATA_CHECK_REQUEST = type_code SERVER_LONG_MSG"
  by code_simp

lemma layout_sizes:
  "struct_size BaseMessage = 69" "struct_size MsgHeader = 73" "struct_size RoomMsg = 89"
  "struct_size GameActionMsg = 97" "struct_size TankState16Msg = 97" "struct_size MyPointer = 4"
  "struct_size MyArray = 8" "struct_size TankState = 104" "struct_size InputFarmanState = 36"
  "struct_size InputShotState = 45" "struct_size InputState = 28"
  by code_simp+

section \<open>Properties\<close>

text \<open>Writing the fields of a packed message and reading them back, through the message's
  own type or through a base class, gives what was written, for any memory the message is
  written to.\<close>

lemma message_roundtrip:
  assumes "struct_size (l @ m) \<le> length b" and "\<forall>(f, v) \<in> set fvs. fits_field (l @ m) f v"
    and "distinct (map fst fvs)" and "(f, v) \<in> set fvs"
  shows "field (l @ m) f (fold (\<lambda>(f, v). put_field (l @ m) f v) fvs b) = v
     \<and> (f \<in> fst ` set l \<longrightarrow> field l f (fold (\<lambda>(f, v). put_field (l @ m) f v) fvs b) = v)"
proof -
  have "field (l @ m) f (fold (\<lambda>(f, v). put_field (l @ m) f v) fvs b) = v"
    using assms by (rule struct.get_put_all(2))
  then show ?thesis using field_base [of f l m] by metis
qed

text \<open>No two message types have the same code, apart from \<open>SERVER_LONG_MSG\<close> and
  \<open>SERVER_DATA_CHECK_REQUEST\<close>.\<close>

theorem type_code_injective:
  "type_code s = type_code t \<longleftrightarrow>
     s = t \<or> {s, t} = {SERVER_LONG_MSG, SERVER_DATA_CHECK_REQUEST}"
proof -
  have inj: "inj_on type_code (set all_types)"
    using type_codes_distinct by (simp add: distinct_map)
  define r where "r = (\<lambda>t. if t = SERVER_DATA_CHECK_REQUEST then SERVER_LONG_MSG else t)"
  have r: "r t \<in> set all_types" for t
    using all_types_complete [of t] all_types_complete [of SERVER_LONG_MSG] by (simp add: r_def)
  have code: "type_code (r t) = type_code t" for t using type_code_clash by (simp add: r_def)
  have "type_code s = type_code t \<longleftrightarrow> r s = r t"
    using inj_on_eq_iff [OF inj r r, of s t] by (simp only: code)
  then show ?thesis by (simp add: r_def doubleton_eq_iff) blast
qed

text \<open>C38. A game action that passes its \<open>check\<close> is copied whole into the block of 256 bytes if
  it is not longer than that; a longer one is copied beyond the end of the block, as no check
  bounds the length.\<close>

theorem get_action_bound:
  assumes "GameActionMsg_check n b" and "struct_size GameActionMsg + n \<le> length b"
    and "length junk = 256"
  shows "if n \<le> 256
     then \<exists>d. get_action junk b = Some d \<and> length d = 256 \<and> bytes_at 0 n d = bytes_at 97 n b
     else get_action junk b = None"
proof -
  have f: "field GameActionMsg ''size_of_data'' b = int n"
    "field GameActionMsg ''start_states'' b = 97"
    using assms(1) by (auto simp: GameActionMsg_check_def layout_sizes split: if_splits)
  have "length (bytes_at 97 n b) = n" using assms(2) by (simp add: bytes_at_def layout_sizes)
  then show ?thesis using f assms(2,3)
    by (auto simp: get_action_def layout_sizes length_overwrite bytes_at_overwrite_same)
qed

theorem get_action_bound_witness:
  "\<exists>b. GameActionMsg_check 300 b \<and> length b = 16384 \<and> get_action (replicate 256 0) b = None"
proof -
  let ?fvs = "[(''size_of_data'', 300), (''start_states'', 97), (''number_of_states'', 0)] :: (string \<times> int) list"
  let ?b0 = "replicate 16384 0 :: buffer"
  let ?b = "fold (\<lambda>(f, v). put_field GameActionMsg f v) ?fvs ?b0"
  have fits: "\<forall>(f, v) \<in> set ?fvs. fits_field GameActionMsg f v" by code_simp
  have g: "field GameActionMsg f ?b = v" if "(f, v) \<in> set ?fvs" for f v
    using that fits by (intro struct.get_put_all(2)) (simp_all add: layout_sizes)
  have f: "field GameActionMsg ''size_of_data'' ?b = 300" "field GameActionMsg ''start_states'' ?b = 97"
    "field GameActionMsg ''number_of_states'' ?b = 0"
    by (rule g, simp)+
  have at: "field_at GameActionMsg ''size_of_data'' = Some (60, CUInt)"
    "field_at GameActionMsg ''start_states'' = Some (89, CUInt)"
    "field_at GameActionMsg ''number_of_states'' = Some (93, CUInt)" by code_simp+
  have len: "length ?b = 16384" by (simp add: put_field_def at length_overwrite del: replicate.simps)
  have c: "GameActionMsg_check 300 ?b"
    by (simp only: GameActionMsg_check_def f layout_sizes)
      (simp add: RoomMsg_check_def MsgHeader_check_def BaseMessage_check_def)
  from get_action_bound [OF c, of "replicate 256 0"] len have "get_action (replicate 256 0) ?b = None"
    by (simp add: layout_sizes del: fold_simps replicate.simps)
  with c len show ?thesis by blast
qed

end
