(* ===== verification/DB.thy ===== *)
theory DB
  imports Ranking StdMap Bytes
begin

text \<open>
  The user database in memory, \<open>DB/DBAccess\<close>: the map of users, the ranking by score, login,
  registration, the top list, money and the extra data of a user. What an SQL query returns is
  a parameter of the operation that runs it: the rows of the player table, the id of an inserted
  row or \<open>None\<close> if the insertion failed, the entries of a JSON column.
\<close>

section \<open>State\<close>

record UserExtraData =
  team_level :: "int list"
  postions :: "bool list"

definition new_UserExtraData :: UserExtraData where
  "new_UserExtraData =
     \<lparr>team_level = [1, 1, 1] @ replicate 61 0, postions = [True, True] @ replicate 126 False\<rparr>"

record UserData =
  ud_id :: int
  ud_level :: int
  ud_coin :: int
  ud_exp :: int
  ud_lose_number :: int
  ud_win_number :: int
  ud_total_coin_winer :: int
  ud_avatar_id :: int
  ud_app_version :: int
  ud_display_name :: "byte list"
  ud_pass :: "byte list"
  ud_port :: ptr
  ud_free_coin_time :: int
  ud_cup :: int
  ud_name_changed :: int
  ud_extra :: "UserExtraData option"

text \<open>\<open>std::make_shared<UserData>()\<close>: value initialisation zeroes what has no initialiser.\<close>

definition new_UserData :: UserData where
  "new_UserData = \<lparr>ud_id = 0, ud_level = 0, ud_coin = 0, ud_exp = 0, ud_lose_number = 0,
     ud_win_number = 0, ud_total_coin_winer = 0, ud_avatar_id = 0, ud_app_version = 0,
     ud_display_name = replicate 64 0, ud_pass = replicate 32 0, ud_port = None,
     ud_free_coin_time = 0, ud_cup = 0, ud_name_changed = 0, ud_extra = None\<rparr>"

record DBAccess =
  users :: "(int, UserData) stdmap"
  max_user_id :: int
  cups_users :: "ScoreIndex rbtree"

definition empty_DB :: DBAccess where
  "empty_DB = \<lparr>users = [], max_user_id = 0, cups_users = empty_tree\<rparr>"

text \<open>\<open>strcpy\<close> into an array: the string and its zero byte must fit.\<close>

definition c_strcpy :: "byte list \<Rightarrow> byte list \<Rightarrow> byte list option" where
  "c_strcpy src dst =
     (let s = c_str src @ [0] in if length s \<le> length dst then Some (overwrite 0 s dst) else None)"

section \<open>Users\<close>

definition get_user_data_by_id :: "DBAccess \<Rightarrow> int \<Rightarrow> UserData option" where
  "get_user_data_by_id d uid = find_key (users d) uid"

definition put_user :: "UserData \<Rightarrow> int \<Rightarrow> DBAccess \<Rightarrow> DBAccess" where
  "put_user u uid d = d\<lparr>users := set_key uid u (users d)\<rparr>"

definition login :: "DBAccess \<Rightarrow> int \<Rightarrow> byte list \<Rightarrow> UserData option" where
  "login d uid pass =
     (case get_user_data_by_id d uid of
        Some p \<Rightarrow> if c_str (ud_pass p) = c_str pass then Some p else None
      | None \<Rightarrow> None)"

section \<open>The ranking\<close>

definition change_user :: "int \<Rightarrow> DBAccess \<Rightarrow> DBAccess option" where
  "change_user uid d =
     (if uid < 1010 then Some d
      else do {
        ud \<leftarrow> get_user_data_by_id d uid;
        let sc = \<lparr>score = ud_cup ud, user_id = uid\<rparr>;
        t \<leftarrow> my_delete score_less (cups_users d) sc;
        t \<leftarrow> insert_value score_less t sc;
        Some (d\<lparr>cups_users := t\<rparr>) })"

text \<open>\<open>rank\<close> is not initialised: \<open>junk\<close> is what the stack holds there.\<close>

definition get_user_rank :: "int \<Rightarrow> DBAccess \<Rightarrow> UserData \<Rightarrow> int option" where
  "get_user_rank junk d ud =
     map_option snd (search score_less (cups_users d) \<lparr>score = ud_cup ud, user_id = ud_id ud\<rparr> junk)"

text \<open>
  The loop of \<open>get_top_hundred\<close>: it reads the iterator, then advances it, also after the last
  one. The \<open>capacity\<close> is the number of entries of the caller's array.
\<close>

fun read_top :: "nat \<Rightarrow> nat \<Rightarrow> ScoreIndex rbtree \<Rightarrow> ptr \<Rightarrow> int list option" where
  "read_top capacity 0 t p = Some []"
| "read_top capacity (Suc k) t p =
     (case capacity of 0 \<Rightarrow> None
      | Suc capacity \<Rightarrow> do {
          n \<leftarrow> deref t p;
          p \<leftarrow> next_iter t p;
          us \<leftarrow> read_top capacity k t p;
          Some (user_id (node_value n) # us) })"

text \<open>
  \<open>shift + count > size()\<close> compares an \<open>int\<close>, converted, with a \<open>size_t\<close>; the assignment to
  \<open>count\<close> converts back.
\<close>

definition get_top_hundred :: "DBAccess \<Rightarrow> int \<Rightarrow> int \<Rightarrow> (int \<times> int list) option" where
  "get_top_hundred d shift count = do {
     p \<leftarrow> by_index (cups_users d) shift;
     size \<leftarrow> tree_size (cups_users d);
     let count = (if to_u64 (to_i32 (shift + count)) > to_u64 size
                  then to_i32 (to_u64 (to_u64 size - to_u64 shift)) else count);
     if count < 0 then Some (0, [])
     else do {
       us \<leftarrow> read_top 100 (nat count) (cups_users d) p;
       Some (count, us) } }"

section \<open>Loading and registering\<close>

record player_row =
  row_id :: int
  row_password :: "byte list"
  row_display_name :: "byte list"
  row_level :: int
  row_coin :: int
  row_win_number :: int
  row_lose_number :: int
  row_avatar_id :: int
  row_exp :: int
  row_total_coin_winer :: int

text \<open>The constructor's loop: the id of the row is read but never stored in the user.\<close>

definition load_row :: "player_row \<Rightarrow> DBAccess \<Rightarrow> DBAccess option" where
  "load_row r d = do {
     let ud = new_UserData;
     pw \<leftarrow> c_strcpy (row_password r) (ud_pass ud);
     nm \<leftarrow> c_strcpy (row_display_name r) (ud_display_name ud);
     let ud = ud\<lparr>ud_pass := pw, ud_display_name := nm, ud_level := row_level r,
       ud_coin := row_coin r, ud_win_number := row_win_number r,
       ud_lose_number := row_lose_number r, ud_avatar_id := row_avatar_id r, ud_exp := row_exp r,
       ud_total_coin_winer := row_total_coin_winer r\<rparr>;
     let d = d\<lparr>max_user_id := max_user_id d + 1\<rparr>;
     d \<leftarrow> change_user (ud_id ud) d;
     Some (put_user ud (ud_id ud) d) }"

definition load_players :: "player_row list \<Rightarrow> DBAccess \<Rightarrow> DBAccess option" where
  "load_players rows d = for_each load_row rows (d\<lparr>max_user_id := 0\<rparr>)"

fun digits :: "nat \<Rightarrow> byte list" where
  "digits n = (if n < 10 then [of_nat (48 + n)] else digits (n div 10) @ [of_nat (48 + n mod 10)])"

declare digits.simps [simp del]

definition decimal :: "int \<Rightarrow> byte list" where
  "decimal i = (if i < 0 then 45 # digits (nat (- i)) else digits (nat i))"

text \<open>The UTF-8 bytes of the Persian word for guest and a space.\<close>

definition guest_word :: "byte list" where
  "guest_word = [0xD9, 0x85, 0xD9, 0x87, 0xD9, 0x85, 0xD8, 0xA7, 0xD9, 0x86, 0x20]"

record RegisterResponse =
  rr_done :: bool
  rr_userId :: int
  rr_pass :: "byte list"

text \<open>
  \<open>%d\<close> prints the low 32 bits of the random \<open>long long\<close>. When the insertion fails, the user is
  created in memory all the same, under the number of users plus one.
\<close>

definition register_user :: "int \<Rightarrow> int option \<Rightarrow> DBAccess \<Rightarrow> (DBAccess \<times> RegisterResponse) option" where
  "register_user rand_pass inserted d = do {
     let pass = decimal (to_i32 rand_pass);
     let uid = (case inserted of Some i \<Rightarrow> i | None \<Rightarrow> int (length (users d)) + 1);
     let ud = new_UserData;
     pw \<leftarrow> c_strcpy pass (ud_pass ud);
     nm \<leftarrow> c_strcpy (guest_word @ decimal (max_user_id d)) (ud_display_name ud);
     let ud = ud\<lparr>ud_id := uid, ud_pass := pw, ud_display_name := nm, ud_coin := 50,
       ud_win_number := 0, ud_lose_number := 0, ud_extra := Some new_UserExtraData\<rparr>;
     Some (put_user ud uid (d\<lparr>max_user_id := to_i32 (uid + 1)\<rparr>),
           \<lparr>rr_done = True, rr_userId = uid, rr_pass = pass\<rparr>) }"

section \<open>Money and extra data\<close>

text \<open>The guard is a conjunction of \<open>user_id < 10\<close> and \<open>user_id > 200000\<close>.\<close>

definition add_user_mony :: "int \<Rightarrow> int \<Rightarrow> DBAccess \<Rightarrow> DBAccess option" where
  "add_user_mony uid mony d =
     (if uid < 10 \<and> uid > 200000 \<and> find_key (users d) uid = None then Some d
      else do {
        ud \<leftarrow> find_key (users d) uid;
        Some (put_user (ud\<lparr>ud_coin := to_i32 (ud_coin ud + mony)\<rparr>) uid d) })"

definition set_level :: "int \<times> int \<Rightarrow> UserExtraData \<Rightarrow> UserExtraData option" where
  "set_level xv e =
     (let (x, v) = xv
      in if x < 0 \<or> x > 64 then Some e
         else if nat x < length (team_level e)
              then Some (e\<lparr>team_level := (team_level e)[nat x := v]\<rparr>) else None)"

definition set_postion :: "int \<Rightarrow> UserExtraData \<Rightarrow> UserExtraData option" where
  "set_postion x e =
     (if 0 \<le> x \<and> nat x < length (postions e)
      then Some (e\<lparr>postions := (postions e)[nat x := True]\<rparr>) else None)"

definition load_extra :: "(int \<times> int) list \<Rightarrow> int list \<Rightarrow> int \<Rightarrow> DBAccess \<Rightarrow> DBAccess option" where
  "load_extra teams configs uid d = do {
     ud \<leftarrow> get_user_data_by_id d uid;
     let e = (case ud_extra ud of Some e \<Rightarrow> e | None \<Rightarrow> new_UserExtraData);
     e \<leftarrow> for_each set_level teams e;
     e \<leftarrow> for_each set_postion configs e;
     Some (put_user (ud\<lparr>ud_extra := Some e\<rparr>) uid d) }"

definition load_extra_if_not_exist :: "(int \<times> int) list \<Rightarrow> int list \<Rightarrow> int \<Rightarrow> DBAccess \<Rightarrow> DBAccess option" where
  "load_extra_if_not_exist teams configs uid d = do {
     ud \<leftarrow> get_user_data_by_id d uid;
     if ud_extra ud = None then load_extra teams configs uid d else Some d }"

definition close_extra :: "UserData \<Rightarrow> UserData" where
  "close_extra ud = ud\<lparr>ud_extra := None\<rparr>"

section \<open>Statements sent to the database\<close>

text \<open>A prepared statement: the placeholders of its text and the values bound to them.\<close>

record sql_update =
  placeholders :: "string list"
  bound :: "(string \<times> int) list"

definition unbound :: "sql_update \<Rightarrow> string list" where
  "unbound q = filter (\<lambda>p. p \<notin> fst ` set (bound q)) (placeholders q)"

definition save_user_data :: "int \<Rightarrow> DBAccess \<Rightarrow> sql_update option" where
  "save_user_data uid d = do {
     ud \<leftarrow> find_key (users d) uid;
     Some \<lparr>placeholders = [''mony'', ''coin'', ''lose_number'', ''win_number'', ''goal_number'',
              ''achivment_set'', ''team_id'', ''avatar_id'', ''exp'', ''cup'', ''level'',
              ''total_coin_winer'', ''app_version'', ''id''],
            bound = [(''id'', uid), (''coin'', ud_coin ud), (''lose_number'', ud_lose_number ud),
              (''win_number'', ud_win_number ud), (''avatar_id'', ud_avatar_id ud),
              (''exp'', ud_exp ud), (''level'', ud_level ud),
              (''total_coin_winer'', ud_total_coin_winer ud), (''app_version'', ud_app_version ud)]\<rparr> }"

definition save_app_version :: "int \<Rightarrow> DBAccess \<Rightarrow> sql_update option" where
  "save_app_version uid d = do {
     ud \<leftarrow> find_key (users d) uid;
     Some \<lparr>placeholders = [''app_version'', ''id''], bound = [(''app_version'', ud_app_version ud)]\<rparr> }"

definition set_buy_item_used :: "int \<Rightarrow> sql_update" where
  "set_buy_item_used i = \<lparr>placeholders = [''id''], bound = [(''id'', i)]\<rparr>"

definition bug_check_point :: "int \<Rightarrow> sql_update" where
  "bug_check_point uid = \<lparr>placeholders = [''user_id''], bound = [(''user_id'', uid)]\<rparr>"

text \<open>Statements with text among their values, which is the second component.\<close>

definition save_use_mony :: "int \<Rightarrow> int \<Rightarrow> byte list \<Rightarrow> sql_update \<times> (string \<times> byte list) list" where
  "save_use_mony uid mony code =
     (\<lparr>placeholders = [''user_id'', ''mony'', ''code''], bound = [(''user_id'', uid), (''mony'', mony)]\<rparr>,
      [(''code'', c_str code)])"

definition change_display_name :: "UserData \<Rightarrow> sql_update \<times> (string \<times> byte list) list" where
  "change_display_name ud =
     (\<lparr>placeholders = [''display_name'', ''name_changed'', ''id''],
       bound = [(''id'', ud_id ud), (''name_changed'', ud_name_changed ud)]\<rparr>,
      [(''display_name'', c_str (ud_display_name ud))])"

text \<open>
  Two statements write one number into a JSON array: the index and the number are part of the text.
  Without extra data nothing is sent; the user and the index are used unchecked.
\<close>

definition save_postions :: "int \<Rightarrow> int \<Rightarrow> DBAccess \<Rightarrow> (int \<times> int \<times> sql_update) option option" where
  "save_postions uid i d = do {
     ud \<leftarrow> get_user_data_by_id d uid;
     Some (map_option (\<lambda>x. (i, 1, \<lparr>placeholders = [''user_id''], bound = [(''user_id'', uid)]\<rparr>)) (ud_extra ud)) }"

definition save_team_levl :: "int \<Rightarrow> int \<Rightarrow> DBAccess \<Rightarrow> (int \<times> int \<times> sql_update) option option" where
  "save_team_levl uid i d = do {
     ud \<leftarrow> get_user_data_by_id d uid;
     case ud_extra ud of None \<Rightarrow> Some None
     | Some x \<Rightarrow> if 0 \<le> i \<and> nat i < length (team_level x)
         then Some (Some (i, team_level x ! nat i, \<lparr>placeholders = [''user_id''], bound = [(''user_id'', uid)]\<rparr>))
         else None }"

section \<open>Lemmas\<close>

text \<open>
  Saving a user leaves five placeholders without a value, and saving the version of the application the
  one that selects the row; the other statements are complete.
\<close>

lemma save_user_data_unbound:
  "save_user_data uid d = Some q \<Longrightarrow> unbound q = [''mony'', ''goal_number'', ''achivment_set'', ''team_id'', ''cup'']"
  by (auto simp: save_user_data_def unbound_def split: bind_splits)

lemma save_app_version_unbound: "save_app_version uid d = Some q \<Longrightarrow> unbound q = [''id'']"
  by (auto simp: save_app_version_def unbound_def split: bind_splits)

lemma statements_complete:
  "unbound (set_buy_item_used i) = []" "unbound (bug_check_point uid) = []"
  "unbound (fst (save_use_mony uid n code)) = map fst (snd (save_use_mony uid n code))"
  "unbound (fst (change_display_name ud)) = map fst (snd (change_display_name ud))"
  by (simp_all add: unbound_def set_buy_item_used_def bug_check_point_def save_use_mony_def change_display_name_def)

lemma digits_props:
  "length (digits n) \<le> k" if "n < 10 ^ k" "0 < k"
  using that
proof (induction n arbitrary: k rule: digits.induct)
  case (1 n)
  show ?case
  proof (cases "n < 10")
    case True
    then show ?thesis using 1(3) by (simp add: digits.simps)
  next
    case False
    then obtain j where k: "k = Suc j" "0 < j" using 1(2,3) by (cases k; cases "k - 1") auto
    then have "n div 10 < 10 ^ j" using 1(2) by (simp add: less_mult_imp_div_less mult.commute)
    from 1(1) [OF False this k(2)] show ?thesis using False k by (subst digits.simps) simp
  qed
qed

lemma digit_nonzero: "(of_nat (48 + n mod 10) :: byte) \<noteq> 0"
proof -
  have "n mod 10 < 10" by simp
  then have "\<not> 256 dvd 48 + n mod 10" by (intro nat_dvd_not_less) linarith+
  then show ?thesis by (subst word_of_nat_eq_0_iff) simp
qed

lemma digits_nonzero: "0 \<notin> set (digits n)"
proof (induction n rule: digits.induct)
  case (1 n)
  show ?case
  proof (cases "n < 10")
    case True
    then show ?thesis using digit_nonzero [of n] by (subst digits.simps) simp
  next
    case False
    then show ?thesis using 1 digit_nonzero [of n] by (subst digits.simps) simp
  qed
qed

lemma decimal_nonzero: "0 \<notin> set (decimal i)"
  using digits_nonzero by (simp add: decimal_def)

lemma length_decimal:
  assumes "in_i32 i"
  shows "length (decimal i) \<le> 11"
proof -
  have "nat i < 10 ^ 10" "nat (- i) < 10 ^ 10" using assms by (auto simp: in_i32_def)
  from digits_props [OF this(1)] digits_props [OF this(2)] show ?thesis
    by (simp add: decimal_def)
qed

lemma c_str_nonzero: "0 \<notin> set s \<Longrightarrow> c_str s = s"
  by (auto simp: c_str_def takeWhile_eq_all_conv)

lemma c_str_app: "0 \<notin> set s \<Longrightarrow> c_str (s @ 0 # t) = s"
  by (induction s) (auto simp: c_str_def)

lemma c_strcpy_string:
  assumes "0 \<notin> set s" and "length s < length dst"
  shows "\<exists>d. c_strcpy s dst = Some d \<and> c_str d = s \<and> length d = length dst"
  using assms by (auto simp: c_strcpy_def c_str_nonzero overwrite_def c_str_app)

lemma in_i32_conv [simp]: "in_i32 (to_i32 i)"
  by (rule in_i32_to_i32)

lemma guest_nonzero: "0 \<notin> set guest_word"
  by (simp add: guest_word_def)

lemma register_user_total:
  assumes "in_i32 (max_user_id d)"
  shows "\<exists>d' r u. register_user rp ins d = Some (d', r)
     \<and> d' = put_user u (rr_userId r) (d\<lparr>max_user_id := to_i32 (rr_userId r + 1)\<rparr>)
     \<and> c_str (ud_pass u) = rr_pass r \<and> ud_id u = rr_userId r \<and> ud_coin u = 50
     \<and> rr_pass r = decimal (to_i32 rp)
     \<and> rr_userId r = (case ins of Some i \<Rightarrow> i | None \<Rightarrow> int (length (users d)) + 1)"
proof -
  have "length (decimal (to_i32 rp)) < length (ud_pass new_UserData)"
    using length_decimal [of "to_i32 rp"] by (simp add: new_UserData_def)
  then obtain pw where pw: "c_strcpy (decimal (to_i32 rp)) (ud_pass new_UserData) = Some pw"
    "c_str pw = decimal (to_i32 rp)" using c_strcpy_string [OF decimal_nonzero] by blast
  have "0 \<notin> set (guest_word @ decimal (max_user_id d))"
    using guest_nonzero decimal_nonzero by simp
  moreover have "length (guest_word @ decimal (max_user_id d)) < length (ud_display_name new_UserData)"
    using length_decimal [OF assms] by (simp add: new_UserData_def guest_word_def)
  ultimately obtain nm where
    "c_strcpy (guest_word @ decimal (max_user_id d)) (ud_display_name new_UserData) = Some nm"
    using c_strcpy_string by blast
  then show ?thesis using pw by (auto simp: register_user_def Let_def)
qed

lemma c_str_idem: "c_str (c_str s) = c_str s"
  by (auto simp: c_str_def takeWhile_eq_all_conv dest: set_takeWhileD)

lemma load_row_keys:
  assumes "load_row r d = Some d'" and "ordered (users d)"
  shows "ordered (users d') \<and> (\<forall>k. k \<noteq> 0 \<longrightarrow> find_key (users d') k = find_key (users d) k)"
  using assms
  by (auto simp: load_row_def bind_Some_iff Let_def change_user_def new_UserData_def put_user_def
      ordered_set_key find_key_set_key)

lemma read_top_read_iter:
  assumes "read_iter k t p = Some vs" and "length vs = k" and "k \<le> n"
  shows "read_top n k t p = Some (map user_id vs)"
  using assms
proof (induction k arbitrary: p vs n)
  case (Suc k)
  obtain n' where n: "n = Suc n'" "k \<le> n'" using Suc.prems(3) by (cases n) auto
  show ?case
  proof (cases p)
    case None
    then show ?thesis using Suc.prems by simp
  next
    case (Some a)
    with Suc.prems(1) obtain m p' ws where st: "deref t p = Some m" "next_iter t p = Some p'"
      "read_iter k t p' = Some ws" "vs = node_value m # ws"
      by (auto simp: bind_Some_iff)
    then show ?thesis using Suc.IH [OF st(3) _ n(2)] Suc.prems(2) n(1) by simp
  qed
qed simp

lemma to_u64_diff: "to_u64 (a - to_u64 b) = to_u64 (a - b)"
  by (simp add: to_u64_def mod_diff_right_eq)

text \<open>The last level named for a team is the one that stays.\<close>

lemma set_levels_all:
  assumes "length (team_level e) = 64" and "\<forall>(x, v) \<in> set teams. x \<le> (63::int)"
  shows "\<exists>e'. for_each set_level teams e = Some e' \<and> length (team_level e') = 64 \<and> postions e' = postions e
     \<and> (\<forall>x < 64. team_level e' ! x = (case map_of (rev teams) (int x) of None \<Rightarrow> team_level e ! x | Some v \<Rightarrow> v))"
  using assms(2)
proof (induction teams rule: rev_induct)
  case (snoc a teams)
  obtain x v where a: "a = (x, v)" by (cases a)
  obtain e1 where e1: "for_each set_level teams e = Some e1" "length (team_level e1) = 64" "postions e1 = postions e"
    "\<forall>y < 64. team_level e1 ! y = (case map_of (rev teams) (int y) of None \<Rightarrow> team_level e ! y | Some v \<Rightarrow> v)"
    using snoc by auto
  have x: "x \<le> 63" using snoc.prems a by simp
  show ?case
  proof (cases "x < 0")
    case True
    then have "set_level a e1 = Some e1" by (simp add: set_level_def a)
    moreover have "int y \<noteq> x" for y using True by simp
    ultimately show ?thesis using e1 by (auto simp: for_each_append a)
  next
    case False
    let ?e = "e1\<lparr>team_level := (team_level e1)[nat x := v]\<rparr>"
    have "set_level a e1 = Some ?e" using x False e1(2) by (simp add: set_level_def a)
    moreover have "team_level ?e ! y = (case map_of (rev (teams @ [a])) (int y) of None \<Rightarrow> team_level e ! y | Some v \<Rightarrow> v)"
      if "y < 64" for y
      using that x False e1(2,4) by (auto simp: a nth_list_update)
    ultimately show ?thesis using e1(1-3) by (auto simp: for_each_append)
  qed
qed (use assms(1) in simp)

lemma set_postions_all:
  assumes "length (postions e) = 128" and "\<forall>x \<in> set configs. 0 \<le> x \<and> x < 128"
  shows "\<exists>e'. for_each set_postion configs e = Some e' \<and> team_level e' = team_level e
     \<and> (\<forall>x < 128. postions e' ! x = (postions e ! x \<or> int x \<in> set configs))"
  using assms
proof (induction configs arbitrary: e)
  case (Cons c cs)
  let ?e = "e\<lparr>postions := (postions e)[nat c := True]\<rparr>"
  have c: "0 \<le> c" "c < 128" using Cons.prems(2) by auto
  then have st: "set_postion c e = Some ?e" using Cons.prems(1) by (simp add: set_postion_def)
  have "length (postions ?e) = 128" using Cons.prems(1) by simp
  from Cons.IH [OF this] Cons.prems(2) obtain e' where e': "for_each set_postion cs ?e = Some e'"
    "team_level e' = team_level ?e"
    "\<forall>x < 128. postions e' ! x = (postions ?e ! x \<or> int x \<in> set cs)" by auto
  moreover have "postions ?e ! x = (postions e ! x \<or> int x = c)" if "x < 128" for x
    using Cons.prems(1) c that by (auto simp: nth_list_update)
  ultimately show ?case using st by auto
qed simp

section \<open>Properties\<close>

text \<open>C17. A registration always succeeds; the new user can log in with the password it was given,
  and the logins of all other ids are as before.\<close>

theorem register_then_login:
  assumes "ordered (users d)" and "in_i32 (max_user_id d)"
  shows "\<exists>d' r. register_user rp ins d = Some (d', r) \<and> rr_done r
     \<and> map_option ud_id (login d' (rr_userId r) (rr_pass r)) = Some (rr_userId r)
     \<and> (\<forall>uid pass. uid \<noteq> rr_userId r \<longrightarrow> login d' uid pass = login d uid pass)"
proof -
  obtain d' r u where r: "register_user rp ins d = Some (d', r)"
    "d' = put_user u (rr_userId r) (d\<lparr>max_user_id := to_i32 (rr_userId r + 1)\<rparr>)"
    "c_str (ud_pass u) = rr_pass r" "ud_id u = rr_userId r" "rr_pass r = decimal (to_i32 rp)"
    using register_user_total [OF assms(2), of rp ins] by auto
  have "rr_done r" using r(1) by (auto simp: register_user_def bind_Some_iff Let_def)
  moreover have "c_str (rr_pass r) = rr_pass r" using r(3) c_str_idem by metis
  ultimately show ?thesis using r assms(1)
    by (auto simp: login_def get_user_data_by_id_def put_user_def find_key_set_key)
qed

theorem register_then_login_witness:
  "\<exists>d' r. register_user 4294967301 (Some 77) empty_DB = Some (d', r)
     \<and> map_option ud_id (login d' 77 (rr_pass r)) = Some 77"
proof -
  have "in_i32 (max_user_id empty_DB)" "ordered (users empty_DB)"
    by (simp_all add: empty_DB_def in_i32_def)
  from register_then_login [OF this(2,1), of 4294967301 "Some 77"]
  obtain d' r where "register_user 4294967301 (Some 77) empty_DB = Some (d', r)"
    "map_option ud_id (login d' (rr_userId r) (rr_pass r)) = Some (rr_userId r)" by blast
  moreover from this(1) have "rr_userId r = 77"
    by (auto simp: register_user_def bind_Some_iff Let_def)
  ultimately show ?thesis by auto
qed



text \<open>C39. However many rows the player table has, loading it leaves every player unknown whose id
  is not 0: nobody can log in after a restart.\<close>

theorem loaded_players_cannot_login:
  assumes "load_players rows empty_DB = Some d" and "uid \<noteq> 0"
  shows "login d uid pass = None"
proof -
  let ?P = "\<lambda>d. ordered (users d) \<and> (\<forall>k. k \<noteq> 0 \<longrightarrow> find_key (users d) k = None)"
  have "for_each load_row rows (empty_DB\<lparr>max_user_id := 0\<rparr>) = Some d"
    using assms(1) by (simp add: load_players_def)
  then have "?P d"
  proof (rule for_each_invariant)
    show "?P (empty_DB\<lparr>max_user_id := 0\<rparr>)" by (simp add: empty_DB_def)
  next
    fix r d d' assume "?P d" "load_row r d = Some d'"
    then show "?P d'" using load_row_keys [of r d d'] by auto
  qed
  then show ?thesis using assms(2) by (simp add: login_def get_user_data_by_id_def)
qed

theorem loaded_players_cannot_login_witness:
  "\<exists>d. load_players [\<lparr>row_id = 1010, row_password = [49], row_display_name = [65], row_level = 1,
        row_coin = 5, row_win_number = 0, row_lose_number = 0, row_avatar_id = 0, row_exp = 0,
        row_total_coin_winer = 0\<rparr>] empty_DB = Some d \<and> login d 1010 [49, 0] = None"
proof -
  let ?rows = "[\<lparr>row_id = 1010, row_password = [49], row_display_name = [65], row_level = 1,
        row_coin = 5, row_win_number = 0, row_lose_number = 0, row_avatar_id = 0, row_exp = 0,
        row_total_coin_winer = 0\<rparr>]"
  have "load_players ?rows empty_DB \<noteq> None"
    by (simp add: load_players_def load_row_def c_strcpy_def c_str_def new_UserData_def
        change_user_def Let_def)
  then obtain d where d: "load_players ?rows empty_DB = Some d" by blast
  from loaded_players_cannot_login [OF d, of 1010 "[49, 0]"] d show ?thesis by auto
qed

text \<open>C32. A page of the top list that ends before the last player is read in rank order; a request
  with a negative shift dereferences null.\<close>

theorem top_hundred_page:
  assumes "tree_holds score_less (cups_users d) xs ps" and "0 < count" and "count \<le> 100"
    and "shift + count < int (length xs)" and "int (length xs) < 2 ^ 30" and "- (2 ^ 30) < shift"
  shows "get_top_hundred d shift count =
    (if 0 \<le> shift then Some (count, map user_id (take (nat count) (drop (nat shift) xs))) else None)"
proof (cases "0 \<le> shift")
  case True
  have sz: "tree_size (cups_users d) = Some (int (length xs))"
    using ranking.rb.holds_size [OF assms(1)] .
  have at: "by_index (cups_users d) shift = Some (Some (ps ! nat shift))"
    using ranking.rb.holds_at [OF assms(1), of shift] True assms(2,4) by simp
  have le: "nat shift + nat count < length xs" using assms(2,4) True by linarith
  have vs: "read_iter (nat count) (cups_users d) (Some (ps ! nat shift)) =
      Some (take (nat count) (drop (nat shift) xs))"
    using read_iter_from [OF assms(1) le] .
  have "length (take (nat count) (drop (nat shift) xs)) = nat count" using le by simp
  from read_top_read_iter [OF vs this, of 100] assms(3)
  have rt: "read_top 100 (nat count) (cups_users d) (Some (ps ! nat shift)) =
      Some (map user_id (take (nat count) (drop (nat shift) xs)))" by simp
  have "in_i32 (shift + count)" "in_u64 (shift + count)" "in_u64 (int (length xs))"
    using True assms(2,4,5) by (auto simp: in_i32_def in_u64_def)
  then have "\<not> to_u64 (to_i32 (shift + count)) > to_u64 (int (length xs))"
    using assms(4) by (simp add: to_i32_id to_u64_id)
  then show ?thesis using True sz at rt assms(2) by (simp add: get_top_hundred_def)
next
  case False
  have sz: "tree_size (cups_users d) = Some (int (length xs))"
    using ranking.rb.holds_size [OF assms(1)] .
  have at: "by_index (cups_users d) shift = Some None"
    using ranking.rb.holds_at [OF assms(1), of shift] False by simp
  have null: "read_top 100 (nat k) t None = None" if "0 < k" for k and t :: "ScoreIndex rbtree"
  proof -
    obtain j where "nat k = Suc j" using \<open>0 < k\<close> by (cases "nat k") auto
    then show ?thesis by (simp add: numeral_eq_Suc deref_def)
  qed
  have n: "to_u64 (int (length xs)) = int (length xs)"
    using assms(5) by (intro to_u64_id) (simp add: in_u64_def)
  have i: "to_i32 (shift + count) = shift + count"
    using False assms(2-6) by (intro to_i32_id) (simp add: in_i32_def)
  have m: "to_u64 (int (length xs) - to_u64 shift) = int (length xs) - shift"
    using False assms(5,6) by (subst to_u64_diff) (simp add: to_u64_id in_u64_def)
  have "to_i32 (int (length xs) - shift) = int (length xs) - shift"
    using False assms(5,6) by (intro to_i32_id) (simp add: in_i32_def)
  then show ?thesis using False sz at n i m null assms(2)
    by (simp add: get_top_hundred_def Let_def split: if_splits)
qed

theorem top_hundred_page_witness:
  "\<exists>t. insert_scores empty_tree three = Some t
     \<and> get_top_hundred (empty_DB\<lparr>cups_users := t\<rparr>) 0 2 = Some (2, [1012, 1010])
     \<and> get_top_hundred (empty_DB\<lparr>cups_users := t\<rparr>) (- 1) 2 = None"
proof -
  obtain t ps where t: "insert_scores empty_tree three = Some t"
    "tree_holds score_less t [three ! 2, three ! 0, three ! 1] ps" using three_holds by blast
  let ?d = "empty_DB\<lparr>cups_users := t\<rparr>"
  have h: "tree_holds score_less (cups_users ?d) [three ! 2, three ! 0, three ! 1] ps"
    using t(2) by simp
  have 1: "get_top_hundred ?d 0 2 = Some (2, [1012, 1010])"
    using top_hundred_page [OF h, of 2 0] by (simp add: three_def)
  have 2: "get_top_hundred ?d (- 1) 2 = None"
    using top_hundred_page [OF h, of 2 "- 1"] by simp
  show ?thesis using 1 2 t(1) by blast
qed

text \<open>C33. Loading a user's extra data: when every team number is at most 63 and every position is in
  the array, every team has the level that the database names last for it, or the one it starts with, and exactly
  the first two positions and the named ones are marked; team number 64 passes the check of the code and writes
  beyond the array.\<close>

theorem extra_data_loaded:
  assumes "find_key (users d) uid = Some ud" and "ordered (users d)"
    and "\<forall>(x, v) \<in> set teams. x \<le> 63" and "\<forall>x \<in> set configs. 0 \<le> x \<and> x < 128"
    and "ud_extra ud = None"
  shows "\<exists>d' ud' e. load_extra teams configs uid d = Some d' \<and> find_key (users d') uid = Some ud'
     \<and> ud_extra ud' = Some e
     \<and> (\<forall>x < 128. postions e ! x = (x < 2 \<or> int x \<in> set configs))
     \<and> (\<forall>x < 64. team_level e ! x
          = (case map_of (rev teams) (int x) of None \<Rightarrow> if x < 3 then 1 else 0 | Some v \<Rightarrow> v))
     \<and> load_extra ((64, v) # teams) configs uid d = None"
proof -
  have "length (team_level new_UserExtraData) = 64" by (simp add: new_UserExtraData_def)
  from set_levels_all [OF this assms(3)]
  obtain e1 where e1: "for_each set_level teams new_UserExtraData = Some e1" "postions e1 = postions new_UserExtraData"
    "\<forall>x < 64. team_level e1 ! x
       = (case map_of (rev teams) (int x) of None \<Rightarrow> team_level new_UserExtraData ! x | Some v \<Rightarrow> v)" by auto
  have "team_level new_UserExtraData ! x = (if x < 3 then 1 else 0)" if "x < 64" for x
    using that by (simp add: new_UserExtraData_def nth_Cons split: nat.split)
  then have lev: "\<forall>x < 64. team_level e1 ! x
       = (case map_of (rev teams) (int x) of None \<Rightarrow> if x < 3 then 1 else 0 | Some v \<Rightarrow> v)"
    using e1(3) by (simp split: option.split)
  have "length (postions e1) = 128" using e1(2) by (simp add: new_UserExtraData_def)
  then obtain e2 where e2: "for_each set_postion configs e1 = Some e2"
    "team_level e2 = team_level e1"
    "\<forall>x < 128. postions e2 ! x = (postions e1 ! x \<or> int x \<in> set configs)"
    using set_postions_all [OF _ assms(4)] by blast
  have "postions e1 ! x = (x < 2)" if "x < 128" for x
    using e1(2) that by (simp add: new_UserExtraData_def nth_Cons split: nat.split)
  then have pos: "\<forall>x < 128. postions e2 ! x = (x < 2 \<or> int x \<in> set configs)" using e2(3) by simp
  have oob: "set_level (64, v) new_UserExtraData = None"
    by (simp add: set_level_def new_UserExtraData_def)
  have "load_extra teams configs uid d = Some (put_user (ud\<lparr>ud_extra := Some e2\<rparr>) uid d)"
    "load_extra ((64, v) # teams) configs uid d = None"
    using assms(1,5) e1(1) e2(1) oob by (simp_all add: load_extra_def get_user_data_by_id_def)
  then show ?thesis using pos lev e2(2) assms(2)
    by (intro exI [of _ "put_user (ud\<lparr>ud_extra := Some e2\<rparr>) uid d"] exI [of _ "ud\<lparr>ud_extra := Some e2\<rparr>"] exI [of _ e2])
      (simp add: put_user_def find_key_set_key)
qed

theorem extra_data_loaded_witness:
  "\<exists>d' ud' e. load_extra [(7, 4)] [100] 5 (put_user new_UserData 5 empty_DB) = Some d'
     \<and> find_key (users d') 5 = Some ud' \<and> ud_extra ud' = Some e \<and> postions e ! 100 \<and> team_level e ! 7 = 4"
proof -
  let ?d = "put_user new_UserData 5 empty_DB"
  have 1: "find_key (users ?d) 5 = Some new_UserData" "ordered (users ?d)"
    by (simp_all add: put_user_def empty_DB_def ordered_def)
  have 2: "\<forall>(x, v) \<in> set [(7 :: int, 4 :: int)]. x \<le> 63" "\<forall>x \<in> set [100 :: int]. 0 \<le> x \<and> x < 128"
    "ud_extra new_UserData = None" by (simp_all add: new_UserData_def)
  from extra_data_loaded [OF 1 2]
  obtain d' ud' e where "load_extra [(7, 4)] [100] 5 ?d = Some d'" "find_key (users d') 5 = Some ud'"
    "ud_extra ud' = Some e" "\<forall>x < 128. postions e ! x = (x < 2 \<or> int x \<in> set [100])"
    "\<forall>x < 64. team_level e ! x = (case map_of (rev [(7, 4)]) (int x) of None \<Rightarrow> if x < 3 then 1 else 0 | Some v \<Rightarrow> v)" by blast
  then show ?thesis by (intro exI [of _ d'] exI [of _ ud'] exI [of _ e]) simp
qed

end
