(* ===== verification/Float32.thy ===== *)
theory Float32
  imports Prelude Complex_Main
begin

text \<open>
  The \<open>float\<close> and \<open>double\<close> arithmetic of the game: IEEE 754 binary formats as rationals with
  rounding to nearest, ties to even. Infinities and NaN are kept; the two zeros are one value,
  which only the sign bit on the wire could tell apart (the program never divides by zero).
  \<open>double\<close> intermediate results, where the source has a \<open>double\<close> operand, are rounded to 53 bits.
\<close>

datatype fl = Fin rat | PInf | MInf | NaN

text \<open>\<open>log2_floor x\<close> is the exponent of the leading bit of a positive rational.\<close>

function bit_length :: "int \<Rightarrow> int" where
  "bit_length n = (if n \<le> 0 then 0 else 1 + bit_length (n div 2))"
  by pat_completeness auto
termination by (relation "measure nat") auto

declare bit_length.simps [simp del]

definition log2_floor :: "rat \<Rightarrow> int" where
  "log2_floor x =
     (let (n, d) = quotient_of x;
          k = bit_length n - bit_length d
      in if (if 0 \<le> k then 2 ^ nat k * d \<le> n else d \<le> 2 ^ nat (- k) * n) then k else k - 1)"

definition pow2 :: "int \<Rightarrow> rat" where
  "pow2 e = (if 0 \<le> e then 2 ^ nat e else 1 / 2 ^ nat (- e))"

definition round_even :: "rat \<Rightarrow> int" where
  "round_even x =
     (let f = \<lfloor>x\<rfloor>; r = x - of_int f
      in if r < 1 / 2 then f else if 1 / 2 < r then f + 1 else if even f then f else f + 1)"

text \<open>Rounding to \<open>p\<close> bits, with exponents of the last bit from \<open>emin\<close> to \<open>emax\<close>.\<close>

definition round_fmt :: "nat \<Rightarrow> int \<Rightarrow> int \<Rightarrow> rat \<Rightarrow> fl" where
  "round_fmt p emin emax x =
     (if x = 0 then Fin 0
      else let e = max (log2_floor \<bar>x\<bar> - (int p - 1)) emin;
               m = round_even (\<bar>x\<bar> / pow2 e);
               y = of_int m * pow2 e
           in if y \<ge> pow2 (emax + int p) then (if x < 0 then MInf else PInf)
              else Fin (if x < 0 then - y else y))"

definition round32 :: "rat \<Rightarrow> fl" where
  "round32 x = round_fmt 24 (- 149) 104 x"

definition round64 :: "rat \<Rightarrow> fl" where
  "round64 x = round_fmt 53 (- 1074) 971 x"

subsection \<open>Operations\<close>

fun neg :: "fl \<Rightarrow> fl" where
  "neg (Fin x) = Fin (- x)"
| "neg PInf = MInf"
| "neg MInf = PInf"
| "neg NaN = NaN"

fun fabs :: "fl \<Rightarrow> fl" where
  "fabs (Fin x) = Fin \<bar>x\<bar>"
| "fabs NaN = NaN"
| "fabs x = PInf"

fun add_with :: "(rat \<Rightarrow> fl) \<Rightarrow> fl \<Rightarrow> fl \<Rightarrow> fl" where
  "add_with rnd (Fin x) (Fin y) = rnd (x + y)"
| "add_with rnd NaN y = NaN"
| "add_with rnd x NaN = NaN"
| "add_with rnd PInf MInf = NaN"
| "add_with rnd MInf PInf = NaN"
| "add_with rnd PInf y = PInf"
| "add_with rnd MInf y = MInf"
| "add_with rnd x PInf = PInf"
| "add_with rnd x MInf = MInf"

definition inf_of :: "bool \<Rightarrow> fl" where
  "inf_of sgn_bit = (if sgn_bit then MInf else PInf)"

fun is_neg :: "fl \<Rightarrow> bool" where
  "is_neg (Fin x) \<longleftrightarrow> x < 0"
| "is_neg MInf \<longleftrightarrow> True"
| "is_neg x \<longleftrightarrow> False"

fun mul_with :: "(rat \<Rightarrow> fl) \<Rightarrow> fl \<Rightarrow> fl \<Rightarrow> fl" where
  "mul_with rnd (Fin x) (Fin y) = rnd (x * y)"
| "mul_with rnd NaN y = NaN"
| "mul_with rnd x NaN = NaN"
| "mul_with rnd x y = (if x = Fin 0 \<or> y = Fin 0 then NaN else inf_of (is_neg x \<noteq> is_neg y))"

fun div_with :: "(rat \<Rightarrow> fl) \<Rightarrow> fl \<Rightarrow> fl \<Rightarrow> fl" where
  "div_with rnd (Fin x) (Fin y) =
     (if y = 0 then if x = 0 then NaN else inf_of (x < 0) else rnd (x / y))"
| "div_with rnd NaN y = NaN"
| "div_with rnd x NaN = NaN"
| "div_with rnd (Fin x) y = Fin 0"
| "div_with rnd x (Fin y) = inf_of (is_neg x \<noteq> (y < 0))"
| "div_with rnd x y = NaN"

definition fadd :: "fl \<Rightarrow> fl \<Rightarrow> fl" where "fadd = add_with round32"
definition fsub :: "fl \<Rightarrow> fl \<Rightarrow> fl" where "fsub x y = fadd x (neg y)"
definition fmul :: "fl \<Rightarrow> fl \<Rightarrow> fl" where "fmul = mul_with round32"
definition fdiv :: "fl \<Rightarrow> fl \<Rightarrow> fl" where "fdiv = div_with round32"
definition dadd :: "fl \<Rightarrow> fl \<Rightarrow> fl" where "dadd = add_with round64"
definition dsub :: "fl \<Rightarrow> fl \<Rightarrow> fl" where "dsub x y = dadd x (neg y)"
definition dmul :: "fl \<Rightarrow> fl \<Rightarrow> fl" where "dmul = mul_with round64"
definition ddiv :: "fl \<Rightarrow> fl \<Rightarrow> fl" where "ddiv = div_with round64"

text \<open>A \<open>double\<close> stored in a \<open>float\<close>.\<close>

fun to_float :: "fl \<Rightarrow> fl" where
  "to_float (Fin x) = round32 x"
| "to_float x = x"

fun flt :: "fl \<Rightarrow> fl \<Rightarrow> bool" where
  "flt (Fin x) (Fin y) \<longleftrightarrow> x < y"
| "flt NaN y \<longleftrightarrow> False"
| "flt x NaN \<longleftrightarrow> False"
| "flt MInf y \<longleftrightarrow> y \<noteq> MInf"
| "flt x PInf \<longleftrightarrow> x \<noteq> PInf"
| "flt x y \<longleftrightarrow> False"

definition fgt :: "fl \<Rightarrow> fl \<Rightarrow> bool" where
  "fgt x y \<longleftrightarrow> flt y x"

definition f_of_int :: "int \<Rightarrow> fl" where
  "f_of_int i = round32 (of_int i)"

text \<open>The decimal literals of the source, as \<open>double\<close> or \<open>float\<close>.\<close>

definition dlit :: "rat \<Rightarrow> fl" where "dlit x = round64 x"
definition flit :: "rat \<Rightarrow> fl" where "flit x = to_float (dlit x)"

text \<open>\<open>int(x)\<close>: truncation; out of the range of \<open>int\<close> it is undefined.\<close>

fun f_to_int :: "fl \<Rightarrow> int option" where
  "f_to_int (Fin x) =
     (let i = (if x < 0 then - \<lfloor>- x\<rfloor> else \<lfloor>x\<rfloor>) in if in_i32 i then Some i else None)"
| "f_to_int x = None"

text \<open>
  The integer square root by Newton's iteration, and the correctly rounded \<open>sqrt\<close>: the root is
  computed with \<open>2 p + 4\<close> bits and a sticky bit, which decides every tie.
\<close>

fun isqrt_loop :: "nat \<Rightarrow> int \<Rightarrow> int \<Rightarrow> int" where
  "isqrt_loop 0 n x = x"
| "isqrt_loop (Suc k) n x =
     (let y = (x + n div x) div 2 in if y < x then isqrt_loop k n y else x)"

definition isqrt :: "int \<Rightarrow> int" where
  "isqrt n = (if n \<le> 0 then 0
     else isqrt_loop (nat (bit_length n) + 8) n (2 ^ nat ((bit_length n + 1) div 2)))"

fun sqrt_with :: "(rat \<Rightarrow> fl) \<Rightarrow> nat \<Rightarrow> fl \<Rightarrow> fl" where
  "sqrt_with rnd p (Fin x) =
     (if x < 0 then NaN else if x = 0 then Fin 0
      else let s = 2 * (int p + 2) - log2_floor x div 2 * 2;
               h = s div 2 * 2;
               n = \<lfloor>x * pow2 h\<rfloor>;
               r = isqrt n;
               sticky = (if of_int (r * r) = x * pow2 h then 0 else 1 / 2)
           in rnd ((of_int r + sticky) * pow2 (- (h div 2))))"
| "sqrt_with rnd p PInf = PInf"
| "sqrt_with rnd p x = NaN"

definition fsqrt :: "fl \<Rightarrow> fl" where
  "fsqrt = sqrt_with round32 24"

end
