(* ===== verification/Geometry.thy ===== *)
theory Geometry
  imports Float32
begin

text \<open>
  Vectors and segments: \<open>cocos2d_server/CocoBase.inl\<close>, \<open>MathShapeUtils/Base.h\<close> and
  \<open>SegmentLine\<close>. The trigonometric functions of the C library are the parameter \<open>libm\<close>.
\<close>

record libm =
  cosf :: "fl \<Rightarrow> fl"
  sinf :: "fl \<Rightarrow> fl"
  acosf :: "fl \<Rightarrow> fl"

section \<open>Point\<close>

record Point =
  px :: fl
  py :: fl

definition pt :: "fl \<Rightarrow> fl \<Rightarrow> Point" where
  "pt a b = \<lparr>px = a, py = b\<rparr>"

definition p_scale :: "Point \<Rightarrow> fl \<Rightarrow> Point" where
  "p_scale p t = pt (fmul (px p) t) (fmul (py p) t)"

definition p_div :: "Point \<Rightarrow> fl \<Rightarrow> Point" where
  "p_div p s = pt (fdiv (px p) s) (fdiv (py p) s)"

definition p_add :: "Point \<Rightarrow> Point \<Rightarrow> Point" where
  "p_add p q = pt (fadd (px p) (px q)) (fadd (py p) (py q))"

definition p_sub :: "Point \<Rightarrow> Point \<Rightarrow> Point" where
  "p_sub p q = pt (fsub (px p) (px q)) (fsub (py p) (py q))"

definition p_neg :: "Point \<Rightarrow> Point" where
  "p_neg p = pt (neg (px p)) (neg (py p))"

definition lengthSquared :: "Point \<Rightarrow> fl" where
  "lengthSquared p = fadd (fmul (px p) (px p)) (fmul (py p) (py p))"

definition p_length :: "Point \<Rightarrow> fl" where
  "p_length p = fsqrt (lengthSquared p)"

definition normalize :: "Point \<Rightarrow> Point" where
  "normalize p =
     (let l = fsqrt (lengthSquared p)
      in if flt l (dlit (1 / 100000)) then pt (Fin 1) (Fin 0)
         else pt (fdiv (px p) l) (fdiv (py p) l))"

definition rotate :: "Point \<Rightarrow> Point \<Rightarrow> Point" where
  "rotate p q = pt (fsub (fmul (px p) (px q)) (fmul (py p) (py q)))
                   (fadd (fmul (px p) (py q)) (fmul (py p) (px q)))"

definition dot :: "Point \<Rightarrow> Point \<Rightarrow> fl" where
  "dot p q = fadd (fmul (px p) (px q)) (fmul (py p) (py q))"

section \<open>Angles\<close>

text \<open>\<open>Base2D::PI\<close> is a \<open>float\<close>, \<open>GameCore::PI\<close> a \<open>double\<close>.\<close>

definition Base2D_PI :: fl where
  "Base2D_PI = flit (31415 / 10000)"

definition GameCore_PI :: fl where
  "GameCore_PI = dlit (314159265358979323846 / 10 ^ 20)"

definition find_angle :: "libm \<Rightarrow> Point \<Rightarrow> fl" where
  "find_angle m p =
     (let f = normalize p;
          a = acosf m (px f)
      in if flt (py f) (Fin 0) then fsub (fmul Base2D_PI (Fin 2)) a else a)"

text \<open>
  \<open>GameCore::angle_refresh_pi_npi\<close>, in \<open>double\<close> because of \<open>PI\<close>; converting a value to \<open>int\<close> that
  does not fit, or NaN, is undefined.
\<close>

definition turns :: "fl \<Rightarrow> fl \<Rightarrow> fl option" where
  "turns v k = do {
     n \<leftarrow> f_to_int (dadd (ddiv (ddiv v GameCore_PI) (Fin 2)) k);
     if in_i32 (n * 2) then Some (dmul (Fin (of_int (n * 2))) GameCore_PI) else None }"

definition angle_refresh_pi_npi :: "fl \<Rightarrow> fl option" where
  "angle_refresh_pi_npi a = do {
     a \<leftarrow> (if flt a (Fin 0) then do {
              n \<leftarrow> turns (neg a) (Fin 2);
              Some (to_float (dadd a n)) }
            else Some a);
     n \<leftarrow> turns a (Fin 0);
     let a = to_float (dsub a n);
     Some (if fgt a GameCore_PI then to_float (dsub a (dmul (Fin 2) GameCore_PI)) else a) }"

section \<open>SegmentLine\<close>

record SegmentLine =
  l_pos :: Point
  l_start :: Point
  l_finish :: Point
  mozdavaj :: Point
  direction :: Point
  amud :: Point
  h_d :: fl

definition l_length :: "SegmentLine \<Rightarrow> fl" where
  "l_length l = p_length (p_sub (l_finish l) (l_start l))"

definition l_refresh :: "SegmentLine \<Rightarrow> SegmentLine" where
  "l_refresh l =
     (let p = normalize (p_sub (l_finish l) (l_start l))
      in l\<lparr>h_d := fdiv (l_length l) (Fin 2),
            mozdavaj := pt (px p) (neg (py p)),
            direction := p,
            amud := pt (py p) (neg (px p))\<rparr>)"

definition zero_point :: Point where
  "zero_point = pt (Fin 0) (Fin 0)"

definition make_segment :: "Point \<Rightarrow> Point \<Rightarrow> Point \<Rightarrow> SegmentLine" where
  "make_segment pos s f =
     l_refresh \<lparr>l_pos = pos, l_start = s, l_finish = f, mozdavaj = zero_point,
                direction = zero_point, amud = zero_point, h_d = Fin 0\<rparr>"

definition segment_of :: "Point \<Rightarrow> Point \<Rightarrow> SegmentLine" where
  "segment_of s f =
     (let pos = p_div (p_add s f) (Fin 2) in make_segment pos (p_sub s pos) (p_sub f pos))"

definition shif :: "Point \<Rightarrow> SegmentLine \<Rightarrow> SegmentLine" where
  "shif p l = l\<lparr>l_pos := p_add (l_pos l) p\<rparr>"

definition l_rotate :: "Point \<Rightarrow> SegmentLine \<Rightarrow> SegmentLine" where
  "l_rotate v l =
     l\<lparr>l_pos := rotate (l_pos l) v, l_start := rotate (l_start l) v, l_finish := rotate (l_finish l) v\<rparr>"

text \<open>Rotation about a centre: the results of \<open>rotate\<close> are thrown away.\<close>

definition l_rotate_about :: "Point \<Rightarrow> Point \<Rightarrow> SegmentLine \<Rightarrow> SegmentLine" where
  "l_rotate_about c v l =
     (let s = p_sub (l_start l) c; f = p_sub (l_finish l) c
      in l\<lparr>l_start := p_add s c, l_finish := p_add f c\<rparr>)"

definition get_distance :: "SegmentLine \<Rightarrow> Point \<Rightarrow> fl" where
  "get_distance l p =
     (let p = rotate (p_sub p (l_pos l)) (mozdavaj l)
      in if flt (neg (h_d l)) (px p) \<and> flt (px p) (h_d l) then fabs (py p)
         else p_length (if fgt (px p) (Fin 0) then p\<lparr>px := fsub (px p) (h_d l)\<rparr>
                        else p\<lparr>px := fadd (px p) (h_d l)\<rparr>))"

text \<open>The opposite sides test of \<open>have_intersec\<close> and of \<open>Misle::clear_collision\<close>.\<close>

definition eps :: fl where
  "eps = dlit (1 / 100000)"

definition crosses_line :: "Point \<Rightarrow> Point \<Rightarrow> bool" where
  "crosses_line a b \<longleftrightarrow>
     flt (py a) (neg eps) \<and> fgt (py b) eps \<or> fgt (py a) eps \<and> flt (py b) (neg eps)"

definition crossing_x :: "Point \<Rightarrow> Point \<Rightarrow> fl" where
  "crossing_x a b =
     fdiv (fadd (fmul (px a) (fabs (py b))) (fmul (px b) (fabs (py a))))
          (fadd (fabs (py a)) (fabs (py b)))"

definition touches :: "fl \<Rightarrow> fl \<Rightarrow> Point \<Rightarrow> bool" where
  "touches h r p \<longleftrightarrow> flt (fabs (px p)) h \<and> flt (fabs (py p)) r"

definition have_intersec :: "SegmentLine \<Rightarrow> Point \<Rightarrow> Point \<Rightarrow> fl \<Rightarrow> bool" where
  "have_intersec l s f r =
     (let s_p = rotate (p_sub s (l_pos l)) (mozdavaj l);
          f_p = rotate (p_sub f (l_pos l)) (mozdavaj l)
      in if crosses_line f_p s_p \<and> flt (fabs (crossing_x f_p s_p)) (h_d l) then True
         else if touches (h_d l) r s_p then True
         else touches (h_d l) r f_p)"

end
