(* ===== verification/GameObjects.thy ===== *)
theory GameObjects
  imports Geometry StdMap
begin

text \<open>
  The objects of a game: \<open>GameCore/BoardObject.h\<close>, \<open>Tank.h\<close>, \<open>Misle.h\<close> and \<open>PlatformLine.h\<close>,
  with \<open>GameCore\<close> itself. Class inheritance is record extension; an object in the store is one
  of four kinds. On the server every view is a \<open>ServerViewShadow\<close>, whose only effect is to
  append the object's id to \<open>last_step_events\<close>; \<open>view\<close> says whether it is set.
\<close>

section \<open>Inputs\<close>

record InputBase =
  input_id :: int
  client_id :: int
  trigger_step :: int

datatype Input =
    InputFarman InputBase fl fl
  | InputShot InputBase int bool fl

fun input_base :: "Input \<Rightarrow> InputBase" where
  "input_base (InputFarman b f s) = b"
| "input_base (InputShot b sid targeted a) = b"

text \<open>\<open>std::multimap\<close>: equal keys stay in the order of insertion.\<close>

fun insert_multi :: "'k::linorder \<Rightarrow> 'v \<Rightarrow> ('k \<times> 'v) list \<Rightarrow> ('k \<times> 'v) list" where
  "insert_multi k v [] = [(k, v)]"
| "insert_multi k v ((k', v') # m) = (if k < k' then (k, v) # (k', v') # m else (k', v') # insert_multi k v m)"

section \<open>Objects\<close>

record BoardObject =
  pos :: Point
  next_pos :: Point
  z :: fl
  angle :: fl
  radius :: fl
  view :: bool
  obj_id :: int
  for_remove :: bool
  last_event_time :: int
  my_step :: int

record LiveBoardObject = BoardObject +
  speed :: fl
  max_speed :: fl
  velocity :: Point
  max_healt :: int
  healt :: int
  born_step :: int
  history :: "(int, Point \<times> fl) stdmap"

record Unit = LiveBoardObject +
  unit_user_id :: int
  target_angle :: fl
  max_angle_speed :: fl
  angle_speed :: fl

record ConstantTankAi =
  ai_path :: "Point list"
  currentTargetIndex :: nat

record Tank = Unit +
  target_range :: fl
  canon_angle :: fl
  max_shot :: int
  remain_shot :: fl
  shot_damage :: int
  team_index :: int
  ai :: "ConstantTankAi option"
  inps :: "(int \<times> Input) list"
  cinps :: "(int, Input) stdmap"
  sinps :: "(int, Input) stdmap"

record Misle = LiveBoardObject +
  misle_owner :: int
  max_dis :: fl
  damage :: int

record PlatformLine = BoardObject +
  seg :: SegmentLine

datatype object = TankObj Tank | MisleObj Misle | BlockObj BoardObject | LineObj PlatformLine

fun base_of :: "object \<Rightarrow> BoardObject" where
  "base_of (TankObj t) = BoardObject.truncate t"
| "base_of (MisleObj m) = BoardObject.truncate m"
| "base_of (BlockObj b) = b"
| "base_of (LineObj l) = BoardObject.truncate l"

fun set_event_time :: "int \<Rightarrow> object \<Rightarrow> object" where
  "set_event_time t (TankObj x) = TankObj (x\<lparr>last_event_time := t\<rparr>)"
| "set_event_time t (MisleObj x) = MisleObj (x\<lparr>last_event_time := t\<rparr>)"
| "set_event_time t (BlockObj x) = BlockObj (x\<lparr>last_event_time := t\<rparr>)"
| "set_event_time t (LineObj x) = LineObj (x\<lparr>last_event_time := t\<rparr>)"

fun set_for_remove :: "object \<Rightarrow> object" where
  "set_for_remove (TankObj x) = TankObj (x\<lparr>for_remove := True\<rparr>)"
| "set_for_remove (MisleObj x) = MisleObj (x\<lparr>for_remove := True\<rparr>)"
| "set_for_remove (BlockObj x) = BlockObj (x\<lparr>for_remove := True\<rparr>)"
| "set_for_remove (LineObj x) = LineObj (x\<lparr>for_remove := True\<rparr>)"

fun set_view :: "bool \<Rightarrow> object \<Rightarrow> object" where
  "set_view v (TankObj x) = TankObj (x\<lparr>view := v\<rparr>)"
| "set_view v (MisleObj x) = MisleObj (x\<lparr>view := v\<rparr>)"
| "set_view v (BlockObj x) = BlockObj (x\<lparr>view := v\<rparr>)"
| "set_view v (LineObj x) = LineObj (x\<lparr>view := v\<rparr>)"

fun move_to_next :: "object \<Rightarrow> object" where
  "move_to_next (TankObj x) = TankObj (x\<lparr>pos := next_pos x\<rparr>)"
| "move_to_next (MisleObj x) = MisleObj (x\<lparr>pos := next_pos x\<rparr>)"
| "move_to_next (BlockObj x) = BlockObj (x\<lparr>pos := next_pos x\<rparr>)"
| "move_to_next (LineObj x) = LineObj (x\<lparr>pos := next_pos x\<rparr>)"

section \<open>GameCore\<close>

record Player =
  player_user_id :: int
  player_tank :: ptr

record GameCore =
  objects :: "addr \<rightharpoonup> object"
  next_obj :: addr
  shots :: "(int, addr) stdmap"
  zombies :: "(int, addr) stdmap"
  all_objects :: "(int, addr) stdmap"
  tanks :: "(int, addr) stdmap"
  block_lines :: "addr list"
  blocks :: "addr list"
  players :: "(int, Player) stdmap"
  max_d :: fl
  server :: bool
  start_time :: int
  core_time :: int
  milisecond_per_step :: int
  step_time :: fl
  shot_id_counter :: int
  last_step_events :: "int list"

definition new_GameCore :: GameCore where
  "new_GameCore = \<lparr>objects = Map.empty, next_obj = 0, shots = [], zombies = [], all_objects = [],
     tanks = [], block_lines = [], blocks = [], players = [], max_d = Fin 0, server = False,
     start_time = 0, core_time = 0, milisecond_per_step = 20, step_time = Fin 0,
     shot_id_counter = 0, last_step_events = []\<rparr>"

definition get_step_with_time :: "GameCore \<Rightarrow> int \<Rightarrow> int" where
  "get_step_with_time c t = c_div (t - start_time c) (milisecond_per_step c)"

definition get_milisecond_time :: "GameCore \<Rightarrow> int \<Rightarrow> int" where
  "get_milisecond_time c t = t - start_time c"

definition generate_shot_id :: "GameCore \<Rightarrow> GameCore \<times> int" where
  "generate_shot_id c =
     (c\<lparr>shot_id_counter := shot_id_counter c + 1\<rparr>, shot_id_counter c + 1)"

definition triger_change :: "int \<Rightarrow> GameCore \<Rightarrow> GameCore" where
  "triger_change i c = c\<lparr>last_step_events := last_step_events c @ [i]\<rparr>"

subsection \<open>The store\<close>

definition obj_at :: "GameCore \<Rightarrow> addr \<Rightarrow> object option" where
  "obj_at c a = objects c a"

definition put_obj :: "addr \<Rightarrow> object \<Rightarrow> GameCore \<Rightarrow> GameCore" where
  "put_obj a ob c = c\<lparr>objects := (objects c)(a \<mapsto> ob)\<rparr>"

definition new_obj :: "object \<Rightarrow> GameCore \<Rightarrow> GameCore \<times> addr" where
  "new_obj ob c =
     (c\<lparr>objects := (objects c)(next_obj c \<mapsto> ob), next_obj := next_obj c + 1\<rparr>, next_obj c)"

definition tank_at :: "GameCore \<Rightarrow> addr \<Rightarrow> Tank option" where
  "tank_at c a = (case objects c a of Some (TankObj t) \<Rightarrow> Some t | _ \<Rightarrow> None)"

definition misle_at :: "GameCore \<Rightarrow> addr \<Rightarrow> Misle option" where
  "misle_at c a = (case objects c a of Some (MisleObj m) \<Rightarrow> Some m | _ \<Rightarrow> None)"

definition block_at :: "GameCore \<Rightarrow> addr \<Rightarrow> BoardObject option" where
  "block_at c a = (case objects c a of Some (BlockObj b) \<Rightarrow> Some b | _ \<Rightarrow> None)"

definition line_at :: "GameCore \<Rightarrow> addr \<Rightarrow> PlatformLine option" where
  "line_at c a = (case objects c a of Some (LineObj l) \<Rightarrow> Some l | _ \<Rightarrow> None)"

definition put_tank :: "addr \<Rightarrow> Tank \<Rightarrow> GameCore \<Rightarrow> GameCore" where
  "put_tank a t c = put_obj a (TankObj t) c"

definition put_misle :: "addr \<Rightarrow> Misle \<Rightarrow> GameCore \<Rightarrow> GameCore" where
  "put_misle a m c = put_obj a (MisleObj m) c"

subsection \<open>Objects of the game\<close>

text \<open>The state of a new object: \<open>BoardObject::BoardObject\<close> with the member initialisers.\<close>

definition new_BoardObject :: "GameCore \<Rightarrow> BoardObject" where
  "new_BoardObject c = \<lparr>pos = zero_point, next_pos = zero_point, z = Fin 0, angle = Fin 0,
     radius = Fin 0, view = False, obj_id = 0, for_remove = False, last_event_time = 0,
     my_step = core_time c\<rparr>"

definition new_LiveBoardObject :: "GameCore \<Rightarrow> LiveBoardObject" where
  "new_LiveBoardObject c = BoardObject.extend (new_BoardObject c)
     (LiveBoardObject.fields (Fin 0) (Fin 0) zero_point 0 0 0 [])"

definition new_Unit :: "GameCore \<Rightarrow> Unit" where
  "new_Unit c = LiveBoardObject.extend (new_LiveBoardObject c\<lparr>healt := 100, max_healt := 100\<rparr>)
     (Unit.fields 0 (Fin 0) (to_float (dmul (dlit (3 / 10)) (dlit (31415 / 10000)))) (Fin 0))"

definition new_Tank :: "GameCore \<Rightarrow> Tank" where
  "new_Tank c = Unit.extend
     (new_Unit c\<lparr>max_angle_speed := to_float (dmul (dmul (dlit (1 / 2)) (dlit (31415 / 10000))) (Fin 10)),
        radius := Fin 50\<rparr>)
     (Tank.fields (Fin 1000) (Fin 0) 3 (Fin 3) 30 0 None [] [] [])"

definition new_Misle :: "GameCore \<Rightarrow> Misle" where
  "new_Misle c = LiveBoardObject.extend (new_LiveBoardObject c\<lparr>radius := Fin 10\<rparr>)
     (Misle.fields 0 (Fin 0) 0)"

definition new_PlatformLine :: "libm \<Rightarrow> GameCore \<Rightarrow> Point \<Rightarrow> Point \<Rightarrow> PlatformLine" where
  "new_PlatformLine m c s f =
     (let l = segment_of s f
      in BoardObject.extend
           (new_BoardObject c\<lparr>pos := l_pos l, angle := find_angle m (direction l)\<rparr>)
           (PlatformLine.fields l))"

definition add_object :: "addr \<Rightarrow> GameCore \<Rightarrow> GameCore option" where
  "add_object a c = do {
     ob \<leftarrow> obj_at c a;
     let i = obj_id (base_of ob);
     let c = c\<lparr>zombies := set_key i a (zombies c), all_objects := set_key i a (all_objects c)\<rparr>;
     Some (if server c then put_obj a (set_event_time (core_time c) ob) c else c) }"

text \<open>\<open>handle_tank\<close>, \<open>handle_shot\<close> and \<open>handle_block\<close> of the server's view handler.\<close>

definition handle_new :: "addr \<Rightarrow> GameCore \<Rightarrow> GameCore option" where
  "handle_new a c = do {
     ob \<leftarrow> obj_at c a;
     Some (if \<not> view (base_of ob)
           then triger_change (obj_id (base_of ob)) (put_obj a (set_view True ob) c) else c) }"

definition create_block :: "GameCore \<Rightarrow> GameCore \<times> addr" where
  "create_block c =
     (let b = new_BoardObject c; (c, i) = generate_shot_id c in new_obj (BlockObj (b\<lparr>obj_id := i\<rparr>)) c)"

definition create_platform_line :: "libm \<Rightarrow> Point \<Rightarrow> Point \<Rightarrow> GameCore \<Rightarrow> GameCore \<times> addr" where
  "create_platform_line m s f c =
     (let l = new_PlatformLine m c s f; (c, i) = generate_shot_id c
      in new_obj (LineObj (l\<lparr>obj_id := i\<rparr>)) c)"

definition create_shot :: "GameCore \<Rightarrow> GameCore \<times> addr" where
  "create_shot c =
     (let t = new_Misle c; (c, i) = generate_shot_id c
      in new_obj (MisleObj (t\<lparr>obj_id := i, damage := 30\<rparr>)) c)"

definition create_tank :: "GameCore \<Rightarrow> GameCore \<times> addr" where
  "create_tank c =
     (let t = new_Tank c; (c, i) = generate_shot_id c in new_obj (TankObj (t\<lparr>obj_id := i\<rparr>)) c)"

definition init_block :: "addr \<Rightarrow> GameCore \<Rightarrow> GameCore option" where
  "init_block a c = do { c \<leftarrow> add_object a c; handle_new a (c\<lparr>blocks := blocks c @ [a]\<rparr>) }"

definition init_platform_line :: "addr \<Rightarrow> GameCore \<Rightarrow> GameCore option" where
  "init_platform_line a c = do {
     c \<leftarrow> add_object a c; handle_new a (c\<lparr>block_lines := block_lines c @ [a]\<rparr>) }"

definition init_shot :: "addr \<Rightarrow> GameCore \<Rightarrow> GameCore option" where
  "init_shot a c = do {
     t \<leftarrow> misle_at c a;
     c \<leftarrow> add_object a (put_misle a (t\<lparr>born_step := core_time c\<rparr>) c);
     handle_new a (c\<lparr>shots := set_key (obj_id t) a (shots c)\<rparr>) }"

definition init_tank :: "addr \<Rightarrow> GameCore \<Rightarrow> GameCore option" where
  "init_tank a c = do {
     c \<leftarrow> add_object a c;
     t \<leftarrow> tank_at c a;
     handle_new a (c\<lparr>tanks := set_key (obj_id t) a (tanks c)\<rparr>) }"

definition get_tank :: "GameCore \<Rightarrow> int \<Rightarrow> ptr" where
  "get_tank c i = find_key (tanks c) i"

definition get_player :: "GameCore \<Rightarrow> int \<Rightarrow> Player option" where
  "get_player c i = find_key (players c) i"

definition get_object :: "GameCore \<Rightarrow> int \<Rightarrow> ptr" where
  "get_object c i = find_key (all_objects c) i"

definition get_live_or_zombiee :: "GameCore \<Rightarrow> int \<Rightarrow> ptr" where
  "get_live_or_zombiee c i = find_key (zombies c) i"

text \<open>A player with a tank keeps it, whatever has happened to the tank.\<close>

definition add_player_with_tank :: "int \<Rightarrow> GameCore \<Rightarrow> (GameCore \<times> ptr) option" where
  "add_player_with_tank uid c =
     (let p = (case find_key (players c) uid of Some p \<Rightarrow> p
               | None \<Rightarrow> \<lparr>player_user_id = uid, player_tank = None\<rparr>);
          c = c\<lparr>players := set_key uid p (players c)\<rparr>
      in if player_tank p \<noteq> None then Some (c, player_tank p)
         else do {
           let (c, a) = create_tank c;
           t \<leftarrow> tank_at c a;
           let c = put_tank a (t\<lparr>unit_user_id := uid, radius := Fin 100, pos := zero_point,
             angle := to_float (ddiv GameCore_PI (Fin 2)), max_speed := Fin 400\<rparr>) c;
           let c = c\<lparr>players := set_key uid (p\<lparr>player_tank := Some a\<rparr>) (players c)\<rparr>;
           c \<leftarrow> init_tank a c;
           Some (c, Some a) })"

definition set_tank :: "int \<Rightarrow> Point \<Rightarrow> fl \<Rightarrow> fl \<Rightarrow> GameCore \<Rightarrow> GameCore option" where
  "set_tank pid p s an c = do {
     c \<leftarrow> (if find_key (tanks c) pid = None then map_option fst (add_player_with_tank pid c) else Some c);
     a \<leftarrow> find_key (tanks c) pid;
     t \<leftarrow> tank_at c a;
     Some (put_tank a (t\<lparr>pos := p, speed := s, angle := an\<rparr>) c) }"

definition int_point :: "int \<Rightarrow> int \<Rightarrow> Point" where
  "int_point i j = pt (f_of_int i) (f_of_int j)"

definition place_block :: "fl \<Rightarrow> Point \<Rightarrow> GameCore \<Rightarrow> GameCore option" where
  "place_block rd p c = do {
     let (c, a) = create_block c;
     b \<leftarrow> block_at c a;
     init_block a (put_obj a (BlockObj (b\<lparr>radius := rd, pos := p\<rparr>)) c) }"

definition place_line :: "libm \<Rightarrow> Point \<Rightarrow> Point \<Rightarrow> GameCore \<Rightarrow> GameCore option" where
  "place_line m s f c = (let (c, a) = create_platform_line m s f c in init_platform_line a c)"

definition core_init :: "libm \<Rightarrow> GameCore \<Rightarrow> GameCore option" where
  "core_init m c =
     (let c = c\<lparr>max_d := Fin 5000,
                step_time := to_float (dmul (Fin (of_int (milisecond_per_step c))) (dlit (1 / 1000)))\<rparr>
      in if server c then do {
           c \<leftarrow> place_line m (int_point 500 500) (int_point 1000 1000) c;
           c \<leftarrow> place_block (Fin 0) (int_point 500 500) c;
           c \<leftarrow> place_block (Fin 200) (int_point 1000 1000) c;
           c \<leftarrow> place_line m (int_point 1000 1000) (int_point 0 2000) c;
           place_block (Fin 0) (int_point 0 2000) c }
         else Some c)"

end
