(* ===== verification/GameStep.thy ===== *)
theory GameStep
  imports GameObjects
begin

text \<open>
  One step of a game: \<open>Tank.cpp\<close>, \<open>Misle.cpp\<close>, \<open>BoardObject.cpp\<close>, the tank AI of
  \<open>Ai/RandomTankAi.cpp\<close> and \<open>GameCore::update\<close>. Objects are named by their address; a function
  on \<open>this\<close> takes that address. \<open>None\<close> is undefined behaviour: a null pointer, a conversion of a
  float to \<open>int\<close> that does not fit, a call through a wrongly cast view, or the end of the fuel.
\<close>

section \<open>Living objects\<close>

definition on_ded :: "addr \<Rightarrow> GameCore \<Rightarrow> GameCore option" where
  "on_ded a c = do {
     ob \<leftarrow> obj_at c a;
     Some (if view (base_of ob) then triger_change (obj_id (base_of ob)) c else c) }"

definition dead :: "addr \<Rightarrow> GameCore \<Rightarrow> GameCore option" where
  "dead a c = do {
     ob \<leftarrow> obj_at c a;
     let ob = set_for_remove ob;
     let ob = (if server c then set_event_time (core_time c) ob else ob);
     on_ded a (put_obj a ob c) }"

definition live_update :: "libm \<Rightarrow> fl \<Rightarrow> 'a LiveBoardObject_scheme \<Rightarrow> 'a LiveBoardObject_scheme" where
  "live_update m dt t =
     (let vel = p_scale (pt (cosf m (angle t)) (sinf m (angle t))) (speed t)
      in t\<lparr>velocity := vel, next_pos := p_add (pos t) (p_scale vel dt)\<rparr>)"

definition get_damage :: "int \<Rightarrow> addr \<Rightarrow> GameCore \<Rightarrow> GameCore option" where
  "get_damage n a c = do {
     t \<leftarrow> tank_at c a;
     let t = t\<lparr>healt := healt t - n\<rparr>;
     Some (put_tank a (if server c then t\<lparr>last_event_time := core_time c\<rparr> else t) c) }"

section \<open>Actions of a tank\<close>

definition add_action :: "int \<Rightarrow> fl \<Rightarrow> fl \<Rightarrow> int \<Rightarrow> Tank \<Rightarrow> Tank \<times> Input" where
  "add_action action_time f s cid t =
     (let i = InputFarman \<lparr>input_id = action_time, client_id = cid, trigger_step = action_time\<rparr> f s
      in (t\<lparr>inps := insert_multi action_time i (inps t), cinps := set_key cid i (cinps t)\<rparr>, i))"

text \<open>The shot's \<open>angle\<close> is not initialised; it is \<open>Fin 0\<close> here and never read.\<close>

definition add_shot_action :: "int \<Rightarrow> int \<Rightarrow> addr \<Rightarrow> GameCore \<Rightarrow> (GameCore \<times> Input) option" where
  "add_shot_action action_time cid a c = do {
     t \<leftarrow> tank_at c a;
     let (c, sid) = generate_shot_id c;
     let i = InputShot \<lparr>input_id = action_time, client_id = cid, trigger_step = action_time\<rparr>
               sid False (Fin 0);
     Some (put_tank a (t\<lparr>inps := insert_multi action_time i (inps t),
                        cinps := set_key cid i (cinps t),
                        sinps := set_key action_time i (sinps t)\<rparr>) c, i) }"

definition get_action_of :: "Tank \<Rightarrow> int \<Rightarrow> Input option" where
  "get_action_of t cid = find_key (cinps t) cid"

definition add_created_action :: "Input \<Rightarrow> Tank \<Rightarrow> Tank" where
  "add_created_action i t =
     (let b = input_base i
      in if find_key (sinps t) (input_id b) \<noteq> None then t
         else t\<lparr>inps := insert_multi (trigger_step b) i (inps t),
                sinps := set_key (input_id b) i (sinps t)\<rparr>)"

text \<open>The nearest other living tank of another team; \<open>0\<close> if none is in range.\<close>

definition may_target :: "addr \<Rightarrow> Tank \<Rightarrow> addr \<Rightarrow> Tank \<Rightarrow> bool" where
  "may_target a this b t \<longleftrightarrow>
     \<not> for_remove t \<and> b \<noteq> a \<and> (team_index t \<noteq> team_index this \<or> team_index this = 0)"

definition target_distance :: "Tank \<Rightarrow> Tank \<Rightarrow> fl" where
  "target_distance this t = p_length (p_sub (pos t) (pos this))"

definition target_step :: "GameCore \<Rightarrow> addr \<Rightarrow> Tank \<Rightarrow> int \<times> addr \<Rightarrow> fl \<times> int \<Rightarrow> (fl \<times> int) option" where
  "target_step c a this = (\<lambda>(i, b) (best, res). do {
     t \<leftarrow> tank_at c b;
     Some (if may_target a this b t \<and> flt (target_distance this t) best
           then (target_distance this t, i) else (best, res)) })"

definition sugesst_target :: "addr \<Rightarrow> GameCore \<Rightarrow> int option" where
  "sugesst_target a c = do {
     this \<leftarrow> tank_at c a;
     (best, res) \<leftarrow> for_each (target_step c a this) (tanks c) (target_range this, 0);
     Some res }"

text \<open>The direction of a shot and the new angle of the canon.\<close>

definition aim :: "libm \<Rightarrow> bool \<Rightarrow> fl \<Rightarrow> addr \<Rightarrow> Tank \<Rightarrow> GameCore \<Rightarrow> (fl \<times> fl) option" where
  "aim m targeted angle2 a this c = do {
     o_id \<leftarrow> (if \<not> targeted then sugesst_target a c else Some 0);
     if targeted then Some (angle2, canon_angle this)
     else if o_id \<noteq> 0 then do {
       b \<leftarrow> get_object c o_id;
       t \<leftarrow> obj_at c b;
       let an = find_angle m (p_sub (pos (base_of t)) (pos this));
       Some (an, an) }
     else Some (canon_angle this, canon_angle this) }"

definition launch :: "libm \<Rightarrow> int \<Rightarrow> fl \<Rightarrow> Tank \<Rightarrow> Misle \<Rightarrow> Misle" where
  "launch m sid angle2 this t =
     (let p = p_add (pos this) (p_scale (pt (cosf m angle2) (sinf m angle2)) (Fin 100))
      in t\<lparr>damage := shot_damage this, obj_id := sid, misle_owner := obj_id this,
           pos := p, next_pos := p, angle := angle2, speed := Fin 2500, z := Fin 50,
           max_dis := flit (8 / 10)\<rparr>)"

definition shot :: "libm \<Rightarrow> int \<Rightarrow> bool \<Rightarrow> fl \<Rightarrow> addr \<Rightarrow> GameCore \<Rightarrow> GameCore option" where
  "shot m sid targeted angle2 a c = do {
     this \<leftarrow> tank_at c a;
     if flt (remain_shot this) (Fin 1) then Some c
     else do {
       let this = this\<lparr>remain_shot := fsub (remain_shot this) (Fin 1)\<rparr>;
       let (c, s) = create_shot (put_tank a this c);
       (angle2, canon) \<leftarrow> aim m targeted angle2 a this c;
       t \<leftarrow> misle_at c s;
       c \<leftarrow> init_shot s (put_misle s (launch m sid angle2 this t)
              (put_tank a (this\<lparr>canon_angle := canon\<rparr>) c));
       this \<leftarrow> tank_at c a;
       Some (if server c then put_tank a (this\<lparr>last_event_time := core_time c\<rparr>) c else c) } }"

fun run_on_this :: "libm \<Rightarrow> Input \<Rightarrow> addr \<Rightarrow> GameCore \<Rightarrow> GameCore option" where
  "run_on_this m (InputFarman b farman s) a c = do {
     t \<leftarrow> tank_at c a;
     let t = t\<lparr>target_angle := farman, speed := s\<rparr>;
     let t = (if flt (speed t) (Fin 0) then t\<lparr>speed := Fin 0\<rparr> else t);
     let t = (if fgt (speed t) (max_speed t) then t\<lparr>speed := max_speed t\<rparr> else t);
     Some (put_tank a t c) }"
| "run_on_this m (InputShot b sid targeted an) a c =
     (if server c then shot m sid targeted an a c else Some c)"

definition ai_step :: "libm \<Rightarrow> int \<Rightarrow> Tank \<Rightarrow> Tank option" where
  "ai_step m now t = (case ai t of
     None \<Rightarrow> Some t
   | Some brain \<Rightarrow>
       if currentTargetIndex brain < length (ai_path brain) then
         (let p = p_sub (ai_path brain ! currentTargetIndex brain) (pos t);
              an = find_angle m p;
              t = fst (add_action now an (Fin 1000) 0 t);
              k = currentTargetIndex brain + 1
          in Some (if flt (lengthSquared p) (Fin 200)
                   then t\<lparr>ai := Some (brain\<lparr>currentTargetIndex :=
                            (if k \<ge> length (ai_path brain) then 0 else k)\<rparr>)\<rparr>
                   else t))
       else None)"

text \<open>
  The pruning loops drop entries from the front until the first that is recent; the entries are
  never null. A front entry of \<open>cinps\<close> is the one with the smallest client id.
\<close>

definition prune :: "int \<Rightarrow> ('k \<times> Input) list \<Rightarrow> ('k \<times> Input) list" where
  "prune limit m = dropWhile (\<lambda>(k, i). \<not> trigger_step (input_base i) \<ge> limit) m"

definition clamp_speed :: "Tank \<Rightarrow> Tank" where
  "clamp_speed t =
     (let t = (if fgt (speed t) (max_speed t) then t\<lparr>speed := max_speed t\<rparr> else t)
      in if flt (speed t) (Fin 0) then t\<lparr>speed := Fin 0\<rparr> else t)"

definition pruned :: "Tank \<Rightarrow> Tank" where
  "pruned t =
     (let t = clamp_speed t
      in t\<lparr>inps := prune (my_step t) (inps t), cinps := prune (my_step t - 1000) (cinps t),
           sinps := prune (my_step t) (sinps t)\<rparr>)"

definition run_input :: "libm \<Rightarrow> Input \<Rightarrow> addr \<Rightarrow> GameCore \<Rightarrow> GameCore option" where
  "run_input m i a c = do {
     t \<leftarrow> tank_at c a;
     if trigger_step (input_base i) = my_step t then do {
       c \<leftarrow> run_on_this m i a c;
       t \<leftarrow> tank_at c a;
       let c = triger_change (obj_id t) c;
       Some (if server c then put_tank a (t\<lparr>last_event_time := core_time c\<rparr>) c else c) }
     else Some c }"

text \<open>Run the actions of this step; every turn erases one, so their number is enough fuel.\<close>

fun run_inputs :: "libm \<Rightarrow> nat \<Rightarrow> addr \<Rightarrow> GameCore \<Rightarrow> GameCore option" where
  "run_inputs m 0 a c = do {
     t \<leftarrow> tank_at c a;
     if find_key (inps t) (my_step t) = None then Some c else None }"
| "run_inputs m (Suc k) a c = do {
     t \<leftarrow> tank_at c a;
     case find_key (inps t) (my_step t) of
       None \<Rightarrow> Some c
     | Some i \<Rightarrow> do {
         c \<leftarrow> run_input m i a c;
         t \<leftarrow> tank_at c a;
         run_inputs m k a (put_tank a (t\<lparr>inps := erase_key (my_step t) (inps t)\<rparr>) c) } }"

definition update_inputs :: "libm \<Rightarrow> addr \<Rightarrow> GameCore \<Rightarrow> GameCore option" where
  "update_inputs m a c = do {
     t \<leftarrow> tank_at c a;
     t \<leftarrow> ai_step m (core_time c) t;
     run_inputs m (length (inps (pruned t))) a (put_tank a (pruned t) c) }"

definition update_angle :: "fl \<Rightarrow> Tank \<Rightarrow> Tank option" where
  "update_angle dt t = do {
     target \<leftarrow> angle_refresh_pi_npi (target_angle t);
     an \<leftarrow> angle_refresh_pi_npi (angle t);
     dis \<leftarrow> angle_refresh_pi_npi (fsub target an);
     let mx = max_angle_speed t;
     let sp = fmul (fmul mx dis) (Fin 10);
     let sp = (if fgt sp mx then mx else sp);
     let sp = (if flt sp (neg mx) then neg mx else sp);
     let d_a = fmul dt sp;
     let an = (if flt dis (neg d_a) then fadd an d_a else an);
     let an = (if fgt dis d_a then fadd an d_a else if flt (fabs dis) d_a then target else an);
     let an = target;
     n \<leftarrow> f_to_int (fmul an (Fin 1000));
     Some (t\<lparr>target_angle := target, angle_speed := sp,
             angle := to_float (dmul (Fin (of_int n)) (dlit (1 / 1000)))\<rparr>) }"

definition tank_update :: "libm \<Rightarrow> addr \<Rightarrow> GameCore \<Rightarrow> GameCore option" where
  "tank_update m a c = do {
     c \<leftarrow> update_inputs m a c;
     t \<leftarrow> tank_at c a;
     if my_step t \<ge> core_time c then Some (put_tank a (t\<lparr>next_pos := pos t\<rparr>) c)
     else do {
       t \<leftarrow> update_angle (step_time c) t;
       let rs = to_float (dadd (remain_shot t) (dmul (step_time c) (Fin (3 / 2))));
       let rs = (if fgt rs (f_of_int (max_shot t)) then f_of_int (max_shot t) else rs);
       let step = my_step t + 1;
       let h = erase_key (step - 30 * 3) (set_key step (pos t, z t) (history t));
       let t = t\<lparr>remain_shot := rs, my_step := step, history := h\<rparr>;
       Some (put_tank a (live_update m (step_time c) t) c) } }"

section \<open>Collisions of a tank\<close>

text \<open>
  The view of a tank on the server is a \<open>ServerViewShadow\<close>; \<open>clear_collision\<close> casts it to an
  \<open>AbstractTankViewHandler\<close> and calls a method that it does not have.
\<close>

definition collide_line :: "fl \<Rightarrow> bool \<Rightarrow> PlatformLine \<Rightarrow> Point \<Rightarrow> Point option" where
  "collide_line r has_view pl np =
     (let l = seg pl;
          mz = rotate (p_sub np (pos pl)) (mozdavaj l)
      in if touches (h_d l) r mz then
           (if has_view then None
            else Some (if fgt (py mz) (Fin 0)
                       then p_add np (p_scale (p_neg (amud l)) (fsub r (py mz)))
                       else p_add np (p_scale (amud l) (fadd r (py mz)))))
         else Some np)"

definition collide_block :: "fl \<Rightarrow> BoardObject \<Rightarrow> Point \<Rightarrow> Point" where
  "collide_block r b np =
     (let rr = fadd r (radius b);
          p = p_sub np (pos b)
      in if flt (p_length p) rr then p_add (pos b) (p_scale (normalize p) rr) else np)"

definition stay_in :: "fl \<Rightarrow> fl \<Rightarrow> Point \<Rightarrow> Point" where
  "stay_in md r np = (if fgt (p_length np) (fsub md r) then p_scale (normalize np) (fsub md r) else np)"

definition unit_clear_collision :: "addr \<Rightarrow> GameCore \<Rightarrow> GameCore option" where
  "unit_clear_collision a c = do {
     t \<leftarrow> tank_at c a;
     np \<leftarrow> for_each (\<lambda>la np. do { pl \<leftarrow> line_at c la; collide_line (radius t) (view t) pl np })
            (block_lines c) (next_pos t);
     np \<leftarrow> for_each (\<lambda>ba np. do { b \<leftarrow> block_at c ba; Some (collide_block (radius t) b np) }) (blocks c) np;
     Some (put_tank a (t\<lparr>next_pos := stay_in (max_d c) (radius t) np\<rparr>) c) }"

section \<open>Missiles\<close>

definition miss :: "addr \<Rightarrow> GameCore \<Rightarrow> GameCore option" where
  "miss a c = do {
     t \<leftarrow> misle_at c a;
     dead a (put_misle a (t\<lparr>for_remove := True\<rparr>) c) }"

definition misle_update :: "libm \<Rightarrow> addr \<Rightarrow> GameCore \<Rightarrow> GameCore option" where
  "misle_update m a c = do {
     t \<leftarrow> misle_at c a;
     let age = fmul (step_time c) (f_of_int (core_time c - born_step t));
     c \<leftarrow> (if fgt age (max_dis t) then miss a c else Some c);
     t \<leftarrow> misle_at c a;
     Some (put_misle a (live_update m (step_time c) t) c) }"

text \<open>The missile's view dies: the clients are told, and the view is dropped.\<close>

definition drop_view :: "addr \<Rightarrow> GameCore \<Rightarrow> GameCore option" where
  "drop_view a c = do {
     c \<leftarrow> on_ded a c;
     t \<leftarrow> misle_at c a;
     Some (put_misle a (t\<lparr>view := False\<rparr>) c) }"

definition explode :: "addr \<Rightarrow> GameCore \<Rightarrow> GameCore option" where
  "explode a c = do {
     t \<leftarrow> misle_at c a;
     drop_view a (put_misle a (t\<lparr>for_remove := True\<rparr>) c) }"

text \<open>What a platform line does to a missile: it explodes, it only loses its view, or nothing.\<close>

datatype line_hit = Through | Touch | Miss

definition hit_line :: "Misle \<Rightarrow> PlatformLine \<Rightarrow> line_hit" where
  "hit_line t pl =
     (let l = seg pl;
          mz = rotate (p_sub (next_pos t) (pos pl)) (mozdavaj l);
          prv = rotate (p_sub (pos t) (pos pl)) (mozdavaj l)
      in if crosses_line prv mz \<and> flt (fabs (crossing_x prv mz)) (h_d l) then Through
         else if touches (h_d l) (radius t) mz then Touch else Miss)"

fun misle_lines :: "addr \<Rightarrow> addr list \<Rightarrow> GameCore \<Rightarrow> (GameCore \<times> bool) option" where
  "misle_lines a [] c = Some (c, False)"
| "misle_lines a (la # las) c = do {
     t \<leftarrow> misle_at c a;
     pl \<leftarrow> line_at c la;
     case hit_line t pl of
       Through \<Rightarrow> do { c \<leftarrow> explode a c; Some (c, True) }
     | Touch \<Rightarrow> do { c \<leftarrow> drop_view a c; Some (c, True) }
     | Miss \<Rightarrow> misle_lines a las c }"

text \<open>\<open>t\<close> is the missile's position, size and owner, which the loops do not change.\<close>

definition misle_block :: "addr \<Rightarrow> Misle \<Rightarrow> addr \<Rightarrow> GameCore \<Rightarrow> GameCore option" where
  "misle_block a t ba c = do {
     b \<leftarrow> block_at c ba;
     if flt (p_length (p_sub (pos b) (pos t))) (fadd (radius t) (radius b)) then explode a c
     else Some c }"

definition hit_tank :: "addr \<Rightarrow> addr \<Rightarrow> GameCore \<Rightarrow> GameCore option" where
  "hit_tank a ta c = do {
     t \<leftarrow> misle_at c a;
     c \<leftarrow> get_damage (damage t) ta (put_misle a (t\<lparr>for_remove := True\<rparr>) c);
     drop_view a c }"

definition misle_tank :: "addr \<Rightarrow> Misle \<Rightarrow> int \<times> addr \<Rightarrow> GameCore \<Rightarrow> GameCore option" where
  "misle_tank a t ia c = do {
     k \<leftarrow> tank_at c (snd ia);
     if obj_id k \<noteq> misle_owner t
       \<and> flt (p_length (p_sub (pos k) (pos t))) (fadd (radius t) (radius k))
     then hit_tank a (snd ia) c else Some c }"

definition misle_clear_collision :: "addr \<Rightarrow> GameCore \<Rightarrow> GameCore option" where
  "misle_clear_collision a c = do {
     (c, finished) \<leftarrow> misle_lines a (block_lines c) c;
     if finished then Some c
     else do {
       t \<leftarrow> misle_at c a;
       c \<leftarrow> for_each (misle_block a t) (blocks c) c;
       c \<leftarrow> for_each (misle_tank a t) (tanks c) c;
       if fgt (p_length (pos t)) (max_d c) then explode a c else Some c } }"

section \<open>The step\<close>

definition kill_tanks :: "GameCore \<Rightarrow> GameCore option" where
  "kill_tanks c =
     (if server c
      then for_each (\<lambda>(i, a) c. do {
             t \<leftarrow> tank_at c a;
             if healt t < 0 then dead a c else Some c }) (tanks c) c
      else Some c)"

definition removed_ids :: "GameCore \<Rightarrow> int list option" where
  "removed_ids c = for_each (\<lambda>(i, a) ids. do {
     ob \<leftarrow> obj_at c a;
     Some (if for_remove (base_of ob) then ids @ [i] else ids) }) (all_objects c) []"

definition forget_object :: "int \<Rightarrow> GameCore \<Rightarrow> GameCore" where
  "forget_object i c = c\<lparr>tanks := erase_key i (tanks c), shots := erase_key i (shots c),
     all_objects := erase_key i (all_objects c)\<rparr>"

definition check_collision :: "GameCore \<Rightarrow> GameCore option" where
  "check_collision c = do {
     c \<leftarrow> for_each (\<lambda>(i, a). unit_clear_collision a) (tanks c) c;
     for_each (\<lambda>(i, a). misle_clear_collision a) (shots c) c }"

definition move_object :: "int \<times> addr \<Rightarrow> GameCore \<Rightarrow> GameCore option" where
  "move_object ia c = do { ob \<leftarrow> obj_at c (snd ia); Some (put_obj (snd ia) (move_to_next ob) c) }"

definition core_update :: "libm \<Rightarrow> GameCore \<Rightarrow> GameCore option" where
  "core_update m c = do {
     let c = c\<lparr>core_time := core_time c + 1\<rparr>;
     c \<leftarrow> kill_tanks c;
     ids \<leftarrow> removed_ids c;
     let c = fold forget_object ids c;
     c \<leftarrow> for_each (\<lambda>(i, a). misle_update m a) (shots c) c;
     c \<leftarrow> for_each (\<lambda>(i, a). tank_update m a) (tanks c) c;
     c \<leftarrow> check_collision c;
     c \<leftarrow> for_each move_object (shots c) c;
     for_each move_object (tanks c) c }"

end
