(* ===== verification/GameData.thy ===== *)
theory GameData
  imports GameStep Messages
begin

text \<open>
  What the server tells a client about an object: the \<open>get_data\<close> functions of \<open>BoardObject\<close>,
  \<open>LiveBoardObject\<close>, \<open>Unit\<close>, \<open>Tank\<close>, \<open>Misle\<close>, \<open>CircleBlock\<close>, \<open>PlatformLine\<close> and of the inputs,
  as bytes. \<open>new TankState()\<close> zeroes the fields that no \<open>get_data\<close> sets.
\<close>

section \<open>Floats in memory\<close>

definition float_bits :: "fl \<Rightarrow> int" where
  "float_bits v = (case v of
     NaN \<Rightarrow> 0x7FC00000
   | PInf \<Rightarrow> 0x7F800000
   | MInf \<Rightarrow> 0xFF800000
   | Fin q \<Rightarrow>
       (let a = \<bar>q\<bar>; s = (if q < 0 then 2 ^ 31 else 0)
        in if a = 0 then 0
           else let k = log2_floor a
                in if k < - 126 then s + \<lfloor>a * pow2 149\<rfloor>
                   else s + (k + 127) * 2 ^ 23 + (\<lfloor>a * pow2 (23 - k)\<rfloor> - 2 ^ 23)))"

definition bits_float :: "int \<Rightarrow> fl" where
  "bits_float b =
     (let s = (if b div 2 ^ 31 mod 2 = 1 then - 1 else 1);
          e = b div 2 ^ 23 mod 256;
          m = b mod 2 ^ 23
      in if e = 255 then (if m \<noteq> 0 then NaN else if s = 1 then PInf else MInf)
         else if e = 0 then Fin (s * of_int m * pow2 (- 149))
         else Fin (s * of_int (2 ^ 23 + m) * pow2 (e - 150)))"

text \<open>A \<open>ZIP_Point\<close> as the number that its eight bytes are.\<close>

definition point_bits :: "Point \<Rightarrow> int" where
  "point_bits p = float_bits (px p) + 2 ^ 32 * float_bits (py p)"

section \<open>Object states\<close>

type_synonym assignments = "(string \<times> int) list"

definition write_all :: "layout \<Rightarrow> assignments \<Rightarrow> buffer \<Rightarrow> buffer" where
  "write_all l fvs b = fold (\<lambda>(f, v). put_field l f v) fvs b"

definition zeroed :: "layout \<Rightarrow> buffer" where
  "zeroed l = replicate (struct_size l) 0"

definition board_data :: "GameCore \<Rightarrow> 'a BoardObject_scheme \<Rightarrow> assignments" where
  "board_data c t =
     [(''object_id'', obj_id t), (''pos'', point_bits (pos t)), (''z'', float_bits (z t)),
      (''angle'', float_bits (angle t)), (''room_time'', core_time c), (''r'', float_bits (radius t))]"

definition live_data :: "GameCore \<Rightarrow> 'a LiveBoardObject_scheme \<Rightarrow> assignments" where
  "live_data c t = board_data c t @
     [(''max_speed'', float_bits (max_speed t)), (''speed'', float_bits (speed t)),
      (''healt'', healt t), (''max_healt'', max_healt t), (''born_step'', born_step t)]"

definition unit_data :: "GameCore \<Rightarrow> 'a Unit_scheme \<Rightarrow> assignments" where
  "unit_data c t = live_data c t @
     [(''object_type'', 1), (''target_angle'', float_bits (target_angle t)),
      (''user_id'', unit_user_id t), (''angle_speed'', float_bits (angle_speed t))]"

definition tank_data :: "GameCore \<Rightarrow> Tank \<Rightarrow> assignments" where
  "tank_data c t = unit_data c t @
     [(''canon_angle'', float_bits (canon_angle t)), (''target_range'', float_bits (target_range t)),
      (''shot_damage'', shot_damage t), (''remain_shot'', float_bits (remain_shot t))]"

definition misle_data :: "GameCore \<Rightarrow> Misle \<Rightarrow> assignments" where
  "misle_data c t = live_data c t @
     [(''object_type'', 2), (''owner_id'', misle_owner t), (''max_dis'', float_bits (max_dis t)),
      (''damage'', damage t)]"

definition circle_data :: "GameCore \<Rightarrow> BoardObject \<Rightarrow> assignments" where
  "circle_data c t = board_data c t @ [(''object_type'', 3)]"

definition line_data :: "GameCore \<Rightarrow> PlatformLine \<Rightarrow> assignments" where
  "line_data c t = board_data c t @
     [(''object_type'', 4), (''start'', point_bits (l_start (seg t))),
      (''finish'', point_bits (l_finish (seg t)))]"

text \<open>\<open>MyDataBlock\<close>: a size and a pointer; the size need not be that of the memory.\<close>

record MyDataBlock =
  block_size :: nat
  block_data :: buffer

fun get_data :: "GameCore \<Rightarrow> object \<Rightarrow> MyDataBlock" where
  "get_data c (TankObj t) =
     \<lparr>block_size = struct_size TankState, block_data = write_all TankState (tank_data c t) (zeroed TankState)\<rparr>"
| "get_data c (MisleObj t) =
     \<lparr>block_size = struct_size MisleState,
      block_data = write_all MisleState ((''angle_speed'', float_bits (Fin 1)) # misle_data c t) (zeroed MisleState)\<rparr>"
| "get_data c (BlockObj t) =
     \<lparr>block_size = struct_size BoardObjectState,
      block_data = write_all BoardObjectState (circle_data c t) (zeroed BoardObjectState)\<rparr>"
| "get_data c (LineObj t) =
     \<lparr>block_size = struct_size PlatformLineState,
      block_data = write_all PlatformLineState (line_data c t) (zeroed PlatformLineState)\<rparr>"

text \<open>
  The block \<open>init_client\<close> sends for a removed object: a \<open>BoardObjectState\<close> passed off as a
  \<open>TankState\<close>.
\<close>

definition removed_block :: "GameCore \<Rightarrow> object \<Rightarrow> MyDataBlock" where
  "removed_block c ob =
     \<lparr>block_size = struct_size TankState,
      block_data = write_all BoardObjectState
        (board_data c (base_of ob) @ [(''event_type'', 4)]) (zeroed BoardObjectState)\<rparr>"

section \<open>Inputs\<close>

definition input_data :: "InputBase \<Rightarrow> assignments" where
  "input_data i = [(''trigger_step'', trigger_step i), (''id'', to_u32 (input_id i)),
     (''client_id'', to_u32 (client_id i)), (''tank_id'', input_id i)]"

text \<open>
  \<open>get_data\<close> of an input writes into the message at the position of the state; the last write
  of \<open>size_of_data\<close> is the size of the input's own state.
\<close>

fun input_assignments :: "Input \<Rightarrow> layout \<times> assignments" where
  "input_assignments (InputFarman i f s) =
     (InputFarmanState, input_data i @ [(''farman'', float_bits f), (''speed'', float_bits s),
        (''type'', 1), (''size_of_data'', int (struct_size InputFarmanState))])"
| "input_assignments (InputShot i sid targeted an) =
     (InputShotState, input_data i @ [(''shot_id'', sid), (''type'', 2),
        (''targetet'', if targeted then 1 else 0), (''angle'', float_bits an),
        (''size_of_data'', int (struct_size InputShotState))])"

end
