(* ===== verification/FloatBits.thy ===== *)
theory FloatBits
  imports GameData
begin

text \<open>
  Floats on the wire: \<open>bits_float\<close> undoes \<open>float_bits\<close> for every value that fits a \<open>float\<close>, so that
  what the server writes into a message is what a client reads. The zeros are one value.
\<close>

section \<open>Powers of two and the leading bit\<close>

lemma pow2_powi: "pow2 e = 2 powi e"
  by (simp add: pow2_def power_int_def inverse_eq_divide power_one_over)

lemma pow2_add: "pow2 (a + b) = pow2 a * pow2 b"
  by (simp add: pow2_powi power_int_add)

lemma pow2_pos [simp]: "0 < pow2 e"
  by (simp add: pow2_def)

lemma pow2_minus: "pow2 a * pow2 (- a) = 1"
  by (simp add: pow2_add [symmetric]) (simp add: pow2_def)

lemma pow2_le: "a \<le> b \<Longrightarrow> pow2 a \<le> pow2 b"
  by (simp add: pow2_powi power_int_increasing)

lemma pow2_less: "pow2 a < pow2 b \<Longrightarrow> a < b"
  using pow2_le by (meson not_less)

lemma pow2_of_int: "0 \<le> k \<Longrightarrow> pow2 k = of_int (2 ^ nat k)"
  by (simp add: pow2_def)

lemma bit_length_bounds: "0 < n \<Longrightarrow> 1 \<le> bit_length n \<and> 2 ^ nat (bit_length n - 1) \<le> n \<and> n < 2 ^ nat (bit_length n)"
proof (induction n rule: bit_length.induct)
  case (1 n)
  show ?case
  proof (cases "n div 2 = 0")
    case True
    then have "n = 1" using 1(2) by presburger
    then show ?thesis by (simp add: bit_length.simps)
  next
    case False
    then have pos: "0 < n div 2" using 1(2) by (simp add: pos_imp_zdiv_nonneg_iff order_less_le)
    note ih = 1(1) [OF _ pos]
    have b: "bit_length n = 1 + bit_length (n div 2)" using 1(2) by (subst bit_length.simps) simp
    let ?k = "bit_length (n div 2)"
    have k: "1 \<le> ?k" "2 ^ nat (?k - 1) \<le> n div 2" "n div 2 < 2 ^ nat ?k" using ih 1(2) by auto
    have "(2::int) ^ nat ?k = 2 * 2 ^ nat (?k - 1)" using k(1) by (simp add: nat_diff_distrib power_eq_if)
    moreover have "(2::int) ^ nat (1 + ?k) = 2 * 2 ^ nat ?k" using k(1) by (simp add: nat_add_distrib)
    moreover define x where "x = (2::int) ^ nat (?k - 1)"
    have "2 * x \<le> n" "n < 4 * x" if "x \<le> n div 2" "n div 2 < 2 * x" using that by presburger+
    ultimately show ?thesis using k b by (simp add: x_def)
  qed
qed

lemma log2_floor_bounds:
  assumes "0 < a"
  shows "pow2 (log2_floor a) \<le> a" and "a < pow2 (log2_floor a + 1)"
proof -
  obtain n d where q: "quotient_of a = (n, d)" by (cases "quotient_of a")
  have d: "0 < d" using quotient_of_denom_pos [OF q] .
  have a: "a = of_int n / of_int d" using quotient_of_div [OF q] .
  then have n: "0 < n" using assms d by (simp add: zero_less_divide_iff)
  let ?bn = "bit_length n" and ?bd = "bit_length d"
  define k where "k = ?bn - ?bd"
  note bn = bit_length_bounds [OF n] and bd = bit_length_bounds [OF d]
  have N: "pow2 (?bn - 1) \<le> of_int n" "of_int n < pow2 ?bn" "pow2 (?bd - 1) \<le> of_int d" "of_int d < pow2 ?bd"
    using bn bd by (simp_all add: pow2_of_int del: of_int_power)
  have up: "a < pow2 (k + 1)"
  proof -
    have "of_int n < pow2 (k + 1) * pow2 (?bd - 1)" using N(2) by (simp add: pow2_add [symmetric] k_def)
    also have "\<dots> \<le> pow2 (k + 1) * of_int d" using N(3) by (intro mult_left_mono) (simp_all add: less_imp_le)
    finally show ?thesis using d a by (simp add: divide_less_eq)
  qed
  have low: "pow2 (k - 1) \<le> a"
  proof -
    have "pow2 (k - 1) * of_int d \<le> pow2 (k - 1) * pow2 ?bd" using N(4) by (intro mult_left_mono) (simp_all add: less_imp_le)
    also have "\<dots> = pow2 (?bn - 1)" by (simp add: pow2_add [symmetric] k_def)
    also have "\<dots> \<le> of_int n" by (rule N(1))
    finally show ?thesis using d a by (simp add: le_divide_eq)
  qed
  have test: "(if 0 \<le> k then 2 ^ nat k * d \<le> n else d \<le> 2 ^ nat (- k) * n) \<longleftrightarrow> pow2 k \<le> a"
  proof (cases "0 \<le> k")
    case True
    have "2 ^ nat k * d \<le> n \<longleftrightarrow> pow2 k * of_int d \<le> of_int n"
      using True by (simp add: pow2_of_int del: of_int_power) (metis of_int_le_iff of_int_mult of_int_power of_int_numeral)
    then show ?thesis using True d a by (simp add: le_divide_eq)
  next
    case False
    define P where "P = (of_int (2 ^ nat (- k)) :: rat)"
    have P: "pow2 k = 1 / P" "0 < P" using False by (simp_all add: pow2_def P_def)
    have "d \<le> 2 ^ nat (- k) * n \<longleftrightarrow> of_int d \<le> P * of_int n"
      unfolding P_def by (metis of_int_le_iff of_int_mult)
    also have "\<dots> \<longleftrightarrow> 1 \<le> P * a" using a d by (simp add: le_divide_eq)
    also have "\<dots> \<longleftrightarrow> pow2 k \<le> a" using P by (simp add: divide_le_eq mult.commute)
    finally show ?thesis using False by simp
  qed
  have l: "log2_floor a = (if pow2 k \<le> a then k else k - 1)"
    unfolding log2_floor_def q Let_def prod.case k_def [symmetric] by (simp only: test)
  show "pow2 (log2_floor a) \<le> a" "a < pow2 (log2_floor a + 1)"
    using l up low by (auto split: if_splits)
qed

section \<open>The integer square root\<close>

text \<open>Newton's iteration at least halves the distance to the root, so \<open>isqrt\<close> has enough fuel.\<close>

lemma isqrt_loop_root:
  "0 < x \<Longrightarrow> 0 < s \<Longrightarrow> s * s \<le> n \<Longrightarrow> n < (s + 1) * (s + 1) \<Longrightarrow> s \<le> x \<Longrightarrow> x - s < 2 ^ k \<Longrightarrow> isqrt_loop k n x = s"
proof (induction k arbitrary: x)
  case (Suc k)
  let ?q = "n div x"
  let ?y = "(x + ?q) div 2"
  have d: "?q * x + n mod x = n" "0 \<le> n mod x" "n mod x < x" using Suc.prems(1) by simp_all
  have "(?q + 1) * x = ?q * x + x" by (simp add: algebra_simps)
  then have q: "?q * x \<le> n" "n < (?q + 1) * x" using d by linarith+
  have "2 * s - x \<le> ?q"
  proof (rule ccontr)
    assume "\<not> 2 * s - x \<le> ?q"
    then have "(?q + 1) * x \<le> (2 * s - x) * x" using Suc.prems(1) by (intro mult_right_mono) simp_all
    also have "\<dots> \<le> s * s" using zero_le_square [of "s - x"] by (simp add: algebra_simps)
    finally show False using q(2) Suc.prems(3) by simp
  qed
  then have y: "s \<le> ?y" by simp
  show ?case
  proof (cases "?y < x")
    case True
    then have "s + 1 \<le> x" using y by simp
    have "?q \<le> s"
    proof (rule ccontr)
      assume "\<not> ?q \<le> s"
      then have "(s + 1) * (s + 1) \<le> ?q * x" using \<open>s + 1 \<le> x\<close> Suc.prems(2) by (intro mult_mono) simp_all
      then show False using q(1) Suc.prems(4) by simp
    qed
    then have "2 * (?y - s) \<le> x - s" by simp
    then have "?y - s < 2 ^ k" using Suc.prems(6) by simp
    moreover have "0 < ?y" using y Suc.prems(2) by linarith
    ultimately have "isqrt_loop k n ?y = s" using Suc.IH [OF _ Suc.prems(2-4) y] by simp
    then show ?thesis using True by (simp add: Let_def)
  next
    case False
    then have "x \<le> ?q" by simp
    then have "x * x \<le> ?q * x" using Suc.prems(1) by (intro mult_right_mono) simp_all
    then have "x * x \<le> n" using q(1) by linarith
    then have "x * x < (s + 1) * (s + 1)" using Suc.prems(4) by simp
    then have "x \<le> s" using Suc.prems(1,2) mult_mono [of "s + 1" x "s + 1" x] by fastforce
    then show ?thesis using False Suc.prems(5) by (simp add: Let_def)
  qed
qed simp

lemma integer_root: "\<exists>s \<ge> 0. s * s \<le> int n \<and> int n < (s + 1) * (s + 1)"
proof (induction n)
  case (Suc n)
  then obtain s where s: "0 \<le> s" "s * s \<le> int n" "int n < (s + 1) * (s + 1)" by blast
  show ?case
  proof (cases "int (Suc n) = (s + 1) * (s + 1)")
    case True
    then show ?thesis using s by (intro exI [of _ "s + 1"]) (simp add: algebra_simps)
  next
    case False
    then show ?thesis using s by (intro exI [of _ s]) simp
  qed
qed (auto intro: exI [of _ 0])

lemma isqrt_root:
  assumes "0 < n"
  shows "isqrt n * isqrt n \<le> n \<and> n < (isqrt n + 1) * (isqrt n + 1)"
proof -
  obtain s where s: "0 \<le> s" "s * s \<le> n" "n < (s + 1) * (s + 1)" using integer_root [of "nat n"] assms by auto
  let ?b = "bit_length n"
  define h where "h = nat ((?b + 1) div 2)"
  note b = bit_length_bounds [OF assms]
  have "nat ?b \<le> h + h" using b unfolding h_def by linarith
  then have "(2::int) ^ nat ?b \<le> 2 ^ h * 2 ^ h" by (metis one_le_numeral power_add power_increasing)
  then have "s * s < 2 ^ h * 2 ^ h" using s b by linarith
  then have "s < 2 ^ h" using s(1) mult_mono [of "2 ^ h" s "2 ^ h" s] by fastforce
  moreover have "(2::int) ^ h < 2 ^ (nat ?b + 8)" using b unfolding h_def by (intro power_strict_increasing) linarith+
  ultimately have "s \<le> 2 ^ h" "2 ^ h - s < 2 ^ (nat ?b + 8)" using s(1) by linarith+
  moreover have "0 < s" using s assms by (cases "s = 0") simp_all
  ultimately have "isqrt_loop (nat ?b + 8) n (2 ^ h) = s" using s(2,3) by (intro isqrt_loop_root) simp_all
  then have "isqrt n = s" using assms by (simp add: isqrt_def h_def)
  then show ?thesis using s by simp
qed

section \<open>The bits of a float\<close>

text \<open>A value that fits a \<open>float\<close>: rounding it changes nothing.\<close>

fun is_float :: "fl \<Rightarrow> bool" where
  "is_float (Fin v) \<longleftrightarrow> round32 v = Fin v"
| "is_float v \<longleftrightarrow> True"

lemma float_parts:
  assumes "round32 v = Fin v" and "v \<noteq> 0"
  obtains k m where "k = log2_floor \<bar>v\<bar>" and "k \<le> 127" and "\<bar>v\<bar> = of_int m * pow2 (max (k - 23) (- 149))"
    and "0 < m" and "k < - 126 \<Longrightarrow> m < 2 ^ 23" and "- 126 \<le> k \<Longrightarrow> 2 ^ 23 \<le> m \<and> m < 2 ^ 24"
proof -
  define k where "k = log2_floor \<bar>v\<bar>"
  define x where "x = max (k - 23) (- 149)"
  define m where "m = round_even (\<bar>v\<bar> / pow2 x)"
  have pos: "0 < \<bar>v\<bar>" using assms(2) by simp
  have big: "of_int m * pow2 x < pow2 128" "(if v < 0 then - (of_int m * pow2 x) else of_int m * pow2 x) = v"
    using assms by (auto simp: round32_def round_fmt_def k_def x_def m_def Let_def split: if_splits)
  have m: "\<bar>v\<bar> = of_int m * pow2 x" using big(2) by (auto split: if_splits)
  have "0 < of_int m * pow2 x" using pos m by simp
  then have "0 < (of_int m :: rat)" by (rule zero_less_mult_pos2) simp
  then have m0: "0 < m" by simp
  note k = log2_floor_bounds [OF pos, folded k_def]
  have "pow2 k < pow2 128" using k(1) big(1) m by simp
  then have k127: "k \<le> 127" using pow2_less by fastforce
  have low: "m < 2 ^ 23" if "k < - 126"
  proof -
    have x: "x = - 149" using that by (simp add: x_def)
    have "of_int m * pow2 x < pow2 (- 126)" using k(2) m pow2_le [of "k + 1" "- 126"] that by simp
    also have "\<dots> = 2 ^ 23 * pow2 x" by (simp add: x pow2_def)
    finally have "of_int m < (2 ^ 23 :: rat)" using mult_less_cancel_right_pos [OF pow2_pos [of x]] by blast
    then show ?thesis by (metis of_int_less_iff of_int_numeral of_int_power)
  qed
  have high: "2 ^ 23 \<le> m \<and> m < 2 ^ 24" if "- 126 \<le> k"
  proof -
    have x: "x = k - 23" using that by (simp add: x_def)
    have "2 ^ 23 * pow2 x \<le> of_int m * pow2 x" using k(1) m
      by (simp add: x pow2_add [of "k" "- 23", simplified] pow2_def [of "- 23"])
    moreover have "of_int m * pow2 x < 2 ^ 24 * pow2 x" using k(2) m
      by (simp add: x pow2_add [of k 1] pow2_add [of "k" "- 23", simplified] pow2_def [of "- 23"] pow2_def [of 1])
    ultimately have "(2 ^ 23 :: rat) \<le> of_int m" "of_int m < (2 ^ 24 :: rat)"
      using mult_le_cancel_right_pos [OF pow2_pos [of x]] mult_less_cancel_right_pos [OF pow2_pos [of x]] by blast+
    then show ?thesis by (metis of_int_less_iff of_int_le_iff of_int_numeral of_int_power)
  qed
  show ?thesis by (rule that [OF k_def k127 m [unfolded x_def] m0 low high])
qed

text \<open>What the four bytes of a \<open>float\<close> say: sign, exponent and mantissa.\<close>

lemma bits_float_parts:
  assumes "sg = 0 \<or> sg = 1" and "0 \<le> ex" and "ex < 255" and "0 \<le> mt" and "mt < 2 ^ 23"
  shows "bits_float (sg * 2 ^ 31 + ex * 2 ^ 23 + mt)
    = Fin ((if sg = 1 then - 1 else 1) * (if ex = 0 then of_int mt * pow2 (- 149) else of_int (2 ^ 23 + mt) * pow2 (ex - 150)))"
proof -
  let ?b = "sg * 2 ^ 31 + ex * 2 ^ 23 + mt"
  have b: "?b = (sg * 256 + ex) * 2 ^ 23 + mt" by simp
  have "?b div 2 ^ 23 = sg * 256 + ex" unfolding b using assms(4,5)
    by (subst div_add1_eq) (simp add: div_pos_pos_trivial)
  moreover have "?b mod 2 ^ 23 = mt mod 2 ^ 23" unfolding b by (rule mod_mult_self3)
  then have "?b mod 2 ^ 23 = mt" using assms(4,5) by (simp only: mod_pos_pos_trivial)
  moreover have "?b div 2 ^ 31 mod 2 = sg" using assms by auto
  ultimately show ?thesis using assms(1-3) by (auto simp: bits_float_def Let_def)
qed

lemma float_bits_parts:
  assumes "round32 v = Fin v" and "v \<noteq> 0"
  obtains sg ex mt where "float_bits (Fin v) = sg * 2 ^ 31 + ex * 2 ^ 23 + mt" and "sg = (if v < 0 then 1 else 0)"
    and "0 \<le> ex" and "ex < 255" and "0 \<le> mt" and "mt < 2 ^ 23"
    and "\<bar>v\<bar> = (if ex = 0 then of_int mt * pow2 (- 149) else of_int (2 ^ 23 + mt) * pow2 (ex - 150))"
proof -
  define sg where "sg = (if v < 0 then 1 else 0 :: int)"
  obtain k m where p: "k = log2_floor \<bar>v\<bar>" "k \<le> 127" "\<bar>v\<bar> = of_int m * pow2 (max (k - 23) (- 149))"
    "0 < m" "k < - 126 \<Longrightarrow> m < 2 ^ 23" "- 126 \<le> k \<Longrightarrow> 2 ^ 23 \<le> m \<and> m < 2 ^ 24"
    using float_parts [OF assms] by metis
  have bits: "float_bits (Fin v) = (if k < - 126 then sg * 2 ^ 31 + \<lfloor>\<bar>v\<bar> * pow2 149\<rfloor>
      else sg * 2 ^ 31 + (k + 127) * 2 ^ 23 + (\<lfloor>\<bar>v\<bar> * pow2 (23 - k)\<rfloor> - 2 ^ 23))"
    using assms(2) by (simp add: float_bits_def Let_def p(1) sg_def)
  show ?thesis
  proof (cases "k < - 126")
    case True
    then have v: "\<bar>v\<bar> = of_int m * pow2 (- 149)" using p(3) by (simp add: max_def)
    then have "\<lfloor>\<bar>v\<bar> * pow2 149\<rfloor> = m" using pow2_minus [of 149] by (simp add: mult.assoc mult.commute [of "pow2 149"])
    then have "float_bits (Fin v) = sg * 2 ^ 31 + 0 * 2 ^ 23 + m" using bits True by simp
    from that [OF this sg_def] show ?thesis using True p(4,5) v by simp
  next
    case False
    then have "max (k - 23) (- 149) = k - 23" by simp
    then have v: "\<bar>v\<bar> = of_int m * pow2 (k - 23)" using p(3) by simp
    then have "\<lfloor>\<bar>v\<bar> * pow2 (23 - k)\<rfloor> = m" using pow2_minus [of "k - 23"] by (simp add: mult.assoc)
    then have b: "float_bits (Fin v) = sg * 2 ^ 31 + (k + 127) * 2 ^ 23 + (m - 2 ^ 23)" using bits False by simp
    have ex: "0 \<le> k + 127" "k + 127 < 255" "k + 127 \<noteq> 0" using False p(2) by simp_all
    have mt: "0 \<le> m - 2 ^ 23" "m - 2 ^ 23 < 2 ^ 23" using False p(6) by simp_all
    have "\<bar>v\<bar> = of_int (2 ^ 23 + (m - 2 ^ 23)) * pow2 (k + 127 - 150)" using v by simp
    then show ?thesis using that [OF b sg_def ex(1,2) mt] ex(3) by simp
  qed
qed

lemma float_bits_range:
  assumes "is_float v"
  shows "0 \<le> float_bits v \<and> float_bits v < 2 ^ 32"
proof (cases v)
  case (Fin u)
  show ?thesis
  proof (cases "u = 0")
    case False
    have fits: "round32 u = Fin u" using assms Fin by simp
    obtain sg ex mt where "float_bits (Fin u) = sg * 2 ^ 31 + ex * 2 ^ 23 + mt" "sg = (if u < 0 then 1 else 0)"
      "0 \<le> ex" "ex < 255" "0 \<le> mt" "mt < 2 ^ 23"
      using float_bits_parts [OF fits False] by metis
    then show ?thesis using Fin by (auto split: if_splits)
  qed (simp add: Fin float_bits_def)
qed (simp_all add: float_bits_def)

lemma bits_float_bits:
  assumes "is_float v"
  shows "bits_float (float_bits v) = v"
proof (cases v)
  case (Fin u)
  show ?thesis
  proof (cases "u = 0")
    case False
    have fits: "round32 u = Fin u" using assms Fin by simp
    obtain sg ex mt where p: "float_bits (Fin u) = sg * 2 ^ 31 + ex * 2 ^ 23 + mt" "sg = (if u < 0 then 1 else 0)"
      "0 \<le> ex" "ex < 255" "0 \<le> mt" "mt < 2 ^ 23"
      "\<bar>u\<bar> = (if ex = 0 then of_int mt * pow2 (- 149) else of_int (2 ^ 23 + mt) * pow2 (ex - 150))"
      using float_bits_parts [OF fits False] by metis
    have "sg = 0 \<or> sg = 1" using p(2) by simp
    from bits_float_parts [OF this p(3-6)] show ?thesis
      using p(2,7) by (simp add: Fin p(1) abs_if split: if_splits)
  qed (simp add: Fin float_bits_def bits_float_def pow2_def)
qed (simp_all add: float_bits_def bits_float_def)

end
