(* ===== verification/GameInv.thy ===== *)
theory GameInv
  imports GameStep
begin

text \<open>
  What holds of a game at every moment: the id maps are ordered and lead to objects of the right
  kind, addresses are not reused, and the ids of announced shots differ from those of tanks
  (\<open>core_ok\<close>); and what one operation of a step can change (\<open>evolves\<close>).
\<close>

section \<open>Objects over time\<close>

text \<open>An object keeps its kind; a tank keeps its id and owner and gains no announced shot; what is
  marked for removal stays marked.\<close>

definition is_farman :: "Input \<Rightarrow> bool" where
  "is_farman i = (case i of InputFarman b f s \<Rightarrow> True | InputShot b sid tg an \<Rightarrow> False)"

definition tank_later :: "Tank \<Rightarrow> Tank \<Rightarrow> bool" where
  "tank_later t t' \<longleftrightarrow> obj_id t' = obj_id t \<and> unit_user_id t' = unit_user_id t
     \<and> (\<forall>ki \<in> set (inps t'). ki \<in> set (inps t) \<or> is_farman (snd ki))
     \<and> (for_remove t \<longrightarrow> for_remove t')"

inductive later :: "object \<Rightarrow> object \<Rightarrow> bool" where
  tank: "tank_later t t' \<Longrightarrow> later (TankObj t) (TankObj t')"
| misle: "(for_remove m \<Longrightarrow> for_remove m') \<Longrightarrow> later (MisleObj m) (MisleObj m')"
| block: "(for_remove b \<Longrightarrow> for_remove b') \<Longrightarrow> later (BlockObj b) (BlockObj b')"
| line: "(for_remove l \<Longrightarrow> for_remove l') \<Longrightarrow> later (LineObj l) (LineObj l')"

inductive_simps later_simps [simp]:
  "later (TankObj t) ob" "later (MisleObj m) ob" "later (BlockObj b) ob" "later (LineObj l) ob"
  "later ob (TankObj t)" "later ob (MisleObj m)"

lemma tank_later_refl [simp]: "tank_later t t"
  by (simp add: tank_later_def)

lemma tank_later_trans: "tank_later x y \<Longrightarrow> tank_later y u \<Longrightarrow> tank_later x u"
  unfolding tank_later_def by (metis (no_types, lifting))

lemma later_refl [simp]: "later ob ob"
  by (cases ob) auto

lemma later_trans: "later x y \<Longrightarrow> later y u \<Longrightarrow> later x u"
  by (induction rule: later.induct) (auto intro: tank_later_trans)

lemma later_for_remove: "later x y \<Longrightarrow> for_remove (base_of x) \<Longrightarrow> for_remove (base_of y)"
  by (induction rule: later.induct) (auto simp: tank_later_def BoardObject.truncate_def)

lemma later_views [simp]:
  "later ob (set_view v ob)" "later ob (set_for_remove ob)" "later ob (set_event_time n ob)"
  "later ob (move_to_next ob)"
  by (cases ob; simp add: tank_later_def)+

section \<open>The invariant\<close>

definition is_tank :: "GameCore \<Rightarrow> addr \<Rightarrow> bool" where
  "is_tank c a \<longleftrightarrow> (\<exists>t. objects c a = Some (TankObj t))"

definition is_misle :: "GameCore \<Rightarrow> addr \<Rightarrow> bool" where
  "is_misle c a \<longleftrightarrow> (\<exists>t. objects c a = Some (MisleObj t))"

definition is_block :: "GameCore \<Rightarrow> addr \<Rightarrow> bool" where
  "is_block c a \<longleftrightarrow> (\<exists>t. objects c a = Some (BlockObj t))"

definition is_line :: "GameCore \<Rightarrow> addr \<Rightarrow> bool" where
  "is_line c a \<longleftrightarrow> (\<exists>t. objects c a = Some (LineObj t))"

definition maps_ok :: "GameCore \<Rightarrow> bool" where
  "maps_ok c \<longleftrightarrow> ordered (tanks c) \<and> ordered (shots c) \<and> ordered (all_objects c)
     \<and> ordered (zombies c) \<and> ordered (players c)"

definition kinds_ok :: "GameCore \<Rightarrow> bool" where
  "kinds_ok c \<longleftrightarrow>
     (\<forall>i a. find_key (tanks c) i = Some a \<longrightarrow> is_tank c a \<and> find_key (all_objects c) i = Some a)
     \<and> (\<forall>i a. find_key (shots c) i = Some a \<longrightarrow> is_misle c a)
     \<and> (\<forall>i a. find_key (all_objects c) i = Some a \<longrightarrow> objects c a \<noteq> None)
     \<and> (\<forall>i a. find_key (zombies c) i = Some a \<longrightarrow> objects c a \<noteq> None)
     \<and> (\<forall>i p a. find_key (players c) i = Some p \<and> player_tank p = Some a \<longrightarrow> is_tank c a)
     \<and> (\<forall>a \<in> set (blocks c). is_block c a) \<and> (\<forall>a \<in> set (block_lines c). is_line c a)
     \<and> (\<forall>a \<ge> next_obj c. objects c a = None)"

text \<open>A shot announced by an action has an id that was handed out and is not that of a tank.\<close>

definition shot_free :: "GameCore \<Rightarrow> int \<Rightarrow> bool" where
  "shot_free c sid \<longleftrightarrow> sid \<le> shot_id_counter c \<and> find_key (tanks c) sid = None"

definition input_free :: "GameCore \<Rightarrow> Input \<Rightarrow> bool" where
  "input_free c i = (case i of InputFarman b f s \<Rightarrow> True | InputShot b sid tg an \<Rightarrow> shot_free c sid)"

definition ids_ok :: "GameCore \<Rightarrow> bool" where
  "ids_ok c \<longleftrightarrow>
     (\<forall>a t. objects c a = Some (TankObj t) \<longrightarrow> (\<forall>ki \<in> set (inps t). input_free c (snd ki)))
     \<and> (\<forall>i a. find_key (tanks c) i = Some a \<longrightarrow> i \<le> shot_id_counter c)"

definition core_ok :: "GameCore \<Rightarrow> bool" where
  "core_ok c \<longleftrightarrow> maps_ok c \<and> kinds_ok c \<and> ids_ok c"

text \<open>What a step cannot change, and how it changes the store.\<close>

definition evolves :: "GameCore \<Rightarrow> GameCore \<Rightarrow> bool" where
  "evolves c c' \<longleftrightarrow> tanks c' = tanks c \<and> players c' = players c \<and> blocks c' = blocks c
     \<and> block_lines c' = block_lines c \<and> server c' = server c \<and> core_time c' = core_time c
     \<and> start_time c' = start_time c \<and> milisecond_per_step c' = milisecond_per_step c
     \<and> step_time c' = step_time c \<and> max_d c' = max_d c
     \<and> shot_id_counter c \<le> shot_id_counter c' \<and> next_obj c \<le> next_obj c'
     \<and> (\<forall>a ob. objects c a = Some ob \<longrightarrow> (\<exists>ob'. objects c' a = Some ob' \<and> later ob ob'))
     \<and> (\<forall>a. objects c a = None \<longrightarrow> objects c' a = None \<or> is_misle c' a)
     \<and> (\<exists>es. last_step_events c' = last_step_events c @ es)"

definition stays :: "GameCore \<Rightarrow> GameCore \<Rightarrow> bool" where
  "stays c c' \<longleftrightarrow> (core_ok c \<longrightarrow> core_ok c' \<and> evolves c c')"

lemma evolves_refl [simp]: "evolves c c"
  by (simp add: evolves_def)

lemma evolves_store: "evolves c c' \<Longrightarrow> objects c a = Some ob \<Longrightarrow> \<exists>ob'. objects c' a = Some ob' \<and> later ob ob'"
  by (simp add: evolves_def)

lemma evolves_misle: "evolves c c' \<Longrightarrow> is_misle c a \<Longrightarrow> is_misle c' a"
  by (fastforce simp: is_misle_def dest: evolves_store)

lemma evolves_tank: "evolves c c' \<Longrightarrow> is_tank c a \<Longrightarrow> is_tank c' a"
  by (fastforce simp: is_tank_def dest: evolves_store)

lemma evolves_new: "evolves c c' \<Longrightarrow> objects c a = None \<Longrightarrow> objects c' a = None \<or> is_misle c' a"
  by (simp add: evolves_def)

lemma evolves_tank_back:
  assumes "evolves c c'" and "objects c' a = Some (TankObj t')"
  shows "\<exists>t. objects c a = Some (TankObj t) \<and> tank_later t t'"
proof (cases "objects c a")
  case None
  then show ?thesis using evolves_new [OF assms(1) None] assms(2) by (auto simp: is_misle_def)
next
  case (Some ob)
  then show ?thesis using evolves_store [OF assms(1) Some] assms(2) by (auto elim: later.cases)
qed

lemma evolves_trans:
  assumes "evolves x y" and "evolves y u"
  shows "evolves x u"
proof -
  have "\<exists>ob'. objects u a = Some ob' \<and> later ob ob'" if "objects x a = Some ob" for a ob
    using evolves_store [OF assms(1) that] evolves_store [OF assms(2)] later_trans by blast
  moreover have "objects u a = None \<or> is_misle u a" if "objects x a = None" for a
  proof (cases "objects y a")
    case None
    then show ?thesis using assms(2) by (simp add: evolves_def)
  next
    case (Some ob)
    then have "is_misle y a" using evolves_new [OF assms(1) that] by simp
    then show ?thesis using evolves_misle [OF assms(2)] by simp
  qed
  moreover have "\<exists>es. last_step_events u = last_step_events x @ es"
    using assms by (auto simp: evolves_def)
  ultimately show ?thesis using assms by (auto simp: evolves_def)
qed

lemma stays_refl [simp]: "stays c c"
  by (simp add: stays_def)

lemma stays_trans: "stays x y \<Longrightarrow> stays y u \<Longrightarrow> stays x u"
  unfolding stays_def by (meson evolves_trans)

text \<open>The invariant of the store carries over to a later store with the same maps.\<close>

lemma core_ok_same_maps:
  assumes "core_ok c" and "evolves c c'" and "shots c' = shots c" and "zombies c' = zombies c"
    and "all_objects c' = all_objects c" and "\<forall>a \<ge> next_obj c'. objects c' a = None"
  shows "core_ok c'"
proof -
  have kinds: "is_tank c a \<Longrightarrow> is_tank c' a" "is_misle c a \<Longrightarrow> is_misle c' a"
    "is_block c a \<Longrightarrow> is_block c' a" "is_line c a \<Longrightarrow> is_line c' a"
    "objects c a \<noteq> None \<Longrightarrow> objects c' a \<noteq> None" for a
    using evolves_store [OF assms(2), of a] evolves_tank [OF assms(2)] evolves_misle [OF assms(2)]
    by (auto simp: is_block_def is_line_def)
  have same: "tanks c' = tanks c" "players c' = players c" "blocks c' = blocks c"
    "block_lines c' = block_lines c" "shot_id_counter c \<le> shot_id_counter c'"
    using assms(2) by (simp_all add: evolves_def)
  have "kinds_ok c" using assms(1) by (simp add: core_ok_def)
  then have "kinds_ok c'" using kinds assms(6) unfolding kinds_ok_def same assms(3-5)
    by (intro conjI allI impI ballI) simp_all
  moreover have "maps_ok c'" using assms(1) same assms(3-5) by (simp add: core_ok_def maps_ok_def)
  moreover have "ids_ok c'"
  proof -
    have free: "input_free c i \<Longrightarrow> input_free c' i" for i
      using same by (auto simp: input_free_def shot_free_def split: Input.splits)
    have "input_free c' (snd ki)" if t': "objects c' a = Some (TankObj t')" "ki \<in> set (inps t')" for a t' ki
    proof -
      obtain t where t: "objects c a = Some (TankObj t)" "tank_later t t'"
        using evolves_tank_back [OF assms(2) t'(1)] by blast
      then have "ki \<in> set (inps t) \<or> is_farman (snd ki)" using t'(2) by (auto simp: tank_later_def)
      then show ?thesis
      proof
        assume "ki \<in> set (inps t)"
        then have "input_free c (snd ki)" using t(1) assms(1) by (auto simp: core_ok_def ids_ok_def)
        then show ?thesis by (rule free)
      qed (auto simp: is_farman_def input_free_def split: Input.splits)
    qed
    moreover have "i \<le> shot_id_counter c'" if "find_key (tanks c') i = Some a" for i a
      using that same assms(1) by (fastforce simp: core_ok_def ids_ok_def)
    ultimately show ?thesis by (auto simp: ids_ok_def)
  qed
  ultimately show ?thesis by (simp add: core_ok_def)
qed

section \<open>Every operation of a step keeps it\<close>

lemma core_ok_fresh: "core_ok c \<Longrightarrow> next_obj c \<le> a \<Longrightarrow> objects c a = None"
  by (simp add: core_ok_def kinds_ok_def)

lemma core_ok_allocated: "core_ok c \<Longrightarrow> objects c a = Some ob \<Longrightarrow> a < next_obj c"
  using core_ok_fresh [of c a] by (cases "a < next_obj c") auto

lemma evolves_put:
  assumes "objects c a = Some ob" and "later ob ob'"
  shows "evolves c (put_obj a ob' c)"
  using assms by (auto simp: evolves_def put_obj_def is_misle_def)

lemma stays_put [inv_intros]:
  assumes "objects c a = Some ob" and "later ob ob'"
  shows "stays c (put_obj a ob' c)"
  unfolding stays_def
proof (intro impI conjI)
  assume ok: "core_ok c"
  show "evolves c (put_obj a ob' c)" using assms by (rule evolves_put)
  show "core_ok (put_obj a ob' c)"
  proof (rule core_ok_same_maps [OF ok evolves_put [OF assms]])
    show "\<forall>b \<ge> next_obj (put_obj a ob' c). objects (put_obj a ob' c) b = None"
      using core_ok_allocated [OF ok assms(1)] core_ok_fresh [OF ok] by (auto simp: put_obj_def)
  qed (simp_all add: put_obj_def)
qed

lemma tank_at_Some [simp]: "tank_at c a = Some t \<longleftrightarrow> objects c a = Some (TankObj t)"
  by (auto simp: tank_at_def split: option.splits object.splits)

lemma misle_at_Some [simp]: "misle_at c a = Some t \<longleftrightarrow> objects c a = Some (MisleObj t)"
  by (auto simp: misle_at_def split: option.splits object.splits)

lemma block_at_Some [simp]: "block_at c a = Some t \<longleftrightarrow> objects c a = Some (BlockObj t)"
  by (auto simp: block_at_def split: option.splits object.splits)

lemma line_at_Some [simp]: "line_at c a = Some t \<longleftrightarrow> objects c a = Some (LineObj t)"
  by (auto simp: line_at_def split: option.splits object.splits)

lemma obj_at_Some [simp]: "obj_at c a = Some t \<longleftrightarrow> objects c a = Some t"
  by (simp add: obj_at_def)

lemma at_objects [simp]:
  "objects c a = Some (TankObj t) \<Longrightarrow> tank_at c a = Some t"
  "objects c a = Some (MisleObj m) \<Longrightarrow> misle_at c a = Some m"
  "objects c a = Some (BlockObj b) \<Longrightarrow> block_at c a = Some b"
  "objects c a = Some (LineObj l) \<Longrightarrow> line_at c a = Some l"
  "obj_at c a = objects c a"
  by (simp_all add: tank_at_def misle_at_def block_at_def line_at_def obj_at_def)

lemma stays_put_tank [inv_intros]:
  "objects c a = Some (TankObj t) \<Longrightarrow> tank_later t t' \<Longrightarrow> stays c (put_tank a t' c)"
  unfolding put_tank_def by (rule stays_put) (auto intro: later.intros)

lemma stays_put_misle [inv_intros]:
  "objects c a = Some (MisleObj t) \<Longrightarrow> (for_remove t \<Longrightarrow> for_remove t') \<Longrightarrow> stays c (put_misle a t' c)"
  unfolding put_misle_def by (rule stays_put) (auto intro: later.intros)

lemma stays_triger [inv_intros]: "stays c (triger_change i c)"
proof -
  have ev: "evolves c (triger_change i c)" by (simp add: evolves_def triger_change_def)
  then show ?thesis
    using core_ok_same_maps [OF _ ev] core_ok_fresh [of c]
    by (simp add: stays_def) (simp add: triger_change_def)
qed

lemma stays_on_ded: "on_ded a c = Some c' \<Longrightarrow> stays c c'"
  by (auto simp: on_ded_def bind_Some_iff stays_triger split: if_splits)

lemma stays_dead:
  assumes "dead a c = Some c'"
  shows "stays c c'"
proof -
  obtain ob where ob: "objects c a = Some ob"
    "on_ded a (put_obj a (if server c then set_event_time (core_time c) (set_for_remove ob)
       else set_for_remove ob) c) = Some c'"
    using assms by (auto simp: dead_def bind_Some_iff Let_def)
  have "stays c (put_obj a (if server c then set_event_time (core_time c) (set_for_remove ob)
       else set_for_remove ob) c)"
    using later_trans [OF later_views(2) later_views(3)] by (intro stays_put [OF ob(1)]) auto
  then show ?thesis using stays_on_ded [OF ob(2)] by (rule stays_trans)
qed

lemma for_each_stays:
  assumes "for_each f xs c = Some c'" and "\<And>x c c'. f x c = Some c' \<Longrightarrow> stays c c'"
  shows "stays c c'"
  by (rule for_each_invariant [OF assms(1), where P = "stays c"]) (auto dest: assms(2) intro: stays_trans)

lemma stays_get_damage: "get_damage n a c = Some c' \<Longrightarrow> stays c c'"
  by (auto simp: get_damage_def bind_Some_iff Let_def tank_later_def intro!: stays_put_tank)

lemma live_update_fields [simp]:
  "obj_id (live_update m dt t) = obj_id t" "for_remove (live_update m dt t) = for_remove t"
  "inps (live_update m dt k) = inps k" "unit_user_id (live_update m dt u) = unit_user_id u"
  by (simp_all add: live_update_def Let_def)

lemma stays_miss:
  assumes "miss a c = Some c'"
  shows "stays c c'"
proof -
  obtain t where t: "objects c a = Some (MisleObj t)"
    "dead a (put_misle a (t\<lparr>for_remove := True\<rparr>) c) = Some c'"
    using assms by (auto simp: miss_def bind_Some_iff)
  have "stays c (put_misle a (t\<lparr>for_remove := True\<rparr>) c)" by (rule stays_put_misle [OF t(1)]) simp
  then show ?thesis using stays_dead [OF t(2)] by (rule stays_trans)
qed

lemma stays_misle_update:
  assumes "misle_update m a c = Some c'"
  shows "stays c c'"
proof -
  obtain c1 t where t: "miss a c = Some c1 \<or> c1 = c" "objects c1 a = Some (MisleObj t)"
    "c' = put_misle a (live_update m (step_time c1) t) c1"
    using assms by (auto simp: misle_update_def bind_Some_iff Let_def split: if_splits)
  have "stays c c1" using t(1) stays_miss by auto
  moreover have "stays c1 c'" unfolding t(3) by (rule stays_put_misle [OF t(2)]) simp
  ultimately show ?thesis by (rule stays_trans)
qed

lemma stays_drop_view:
  assumes "drop_view a c = Some c'"
  shows "stays c c'"
proof -
  obtain c1 t where t: "on_ded a c = Some c1" "objects c1 a = Some (MisleObj t)"
    "c' = put_misle a (t\<lparr>view := False\<rparr>) c1"
    using assms by (auto simp: drop_view_def bind_Some_iff)
  have "stays c1 c'" unfolding t(3) by (rule stays_put_misle [OF t(2)]) simp
  with stays_on_ded [OF t(1)] show ?thesis by (rule stays_trans)
qed

lemma stays_explode:
  assumes "explode a c = Some c'"
  shows "stays c c'"
proof -
  obtain t where t: "objects c a = Some (MisleObj t)"
    "drop_view a (put_misle a (t\<lparr>for_remove := True\<rparr>) c) = Some c'"
    using assms by (auto simp: explode_def bind_Some_iff)
  have "stays c (put_misle a (t\<lparr>for_remove := True\<rparr>) c)" by (rule stays_put_misle [OF t(1)]) simp
  then show ?thesis using stays_drop_view [OF t(2)] by (rule stays_trans)
qed

lemma stays_misle_lines: "misle_lines a las c = Some (c', b) \<Longrightarrow> stays c c'"
proof (induction las)
  case (Cons la las)
  obtain t pl where "objects c a = Some (MisleObj t)" "objects c la = Some (LineObj pl)"
    using Cons.prems by (auto simp: bind_Some_iff)
  with Cons stays_explode stays_drop_view show ?case
    by (cases "hit_line t pl") (auto simp: bind_Some_iff)
qed simp

lemma stays_unit_collision: "unit_clear_collision a c = Some c' \<Longrightarrow> stays c c'"
  by (auto simp: unit_clear_collision_def bind_Some_iff tank_later_def intro!: stays_put_tank)

lemma stays_hit_tank:
  assumes "hit_tank a ta c = Some c'"
  shows "stays c c'"
proof -
  obtain t c1 where t: "objects c a = Some (MisleObj t)"
    "get_damage (damage t) ta (put_misle a (t\<lparr>for_remove := True\<rparr>) c) = Some c1"
    "drop_view a c1 = Some c'"
    using assms by (auto simp: hit_tank_def bind_Some_iff)
  have "stays c (put_misle a (t\<lparr>for_remove := True\<rparr>) c)" by (rule stays_put_misle [OF t(1)]) simp
  from stays_trans [OF this stays_get_damage [OF t(2)]] stays_drop_view [OF t(3)]
  show ?thesis by (rule stays_trans)
qed

lemma stays_misle_collision:
  assumes "misle_clear_collision a c = Some c'"
  shows "stays c c'"
proof -
  obtain c1 fin where 1: "misle_lines a (block_lines c) c = Some (c1, fin)"
    "fin \<and> c' = c1 \<or> (\<exists>t c2 c3. for_each (misle_block a t) (blocks c1) c1 = Some c2
       \<and> for_each (misle_tank a t) (tanks c2) c2 = Some c3 \<and> (c' = c3 \<or> explode a c3 = Some c'))"
    using assms by (auto simp: misle_clear_collision_def bind_Some_iff split: if_splits) blast+
  have "stays c1 c'" using 1(2)
  proof (elim disjE conjE exE)
    fix t c2 c3
    assume f: "for_each (misle_block a t) (blocks c1) c1 = Some c2"
      "for_each (misle_tank a t) (tanks c2) c2 = Some c3"
    have "stays c1 c2" by (rule for_each_stays [OF f(1)])
        (auto simp: misle_block_def bind_Some_iff dest: stays_explode split: if_splits)
    moreover have "stays c2 c3" by (rule for_each_stays [OF f(2)])
        (auto simp: misle_tank_def bind_Some_iff dest: stays_hit_tank split: if_splits)
    ultimately have "stays c1 c3" by (rule stays_trans)
    then show "c' = c3 \<Longrightarrow> stays c1 c'" "explode a c3 = Some c' \<Longrightarrow> stays c1 c'"
      by (auto dest: stays_explode intro: stays_trans)
  qed simp
  with stays_misle_lines [OF 1(1)] show ?thesis by (rule stays_trans)
qed

section \<open>Shots and actions\<close>

lemma input_free_frame [simp]:
  "input_free (c\<lparr>zombies := z1, all_objects := a1\<rparr>) i = input_free c i"
  "input_free (c\<lparr>shots := s1\<rparr>) i = input_free c i"
  "input_free (c\<lparr>core_time := n\<rparr>) i = input_free c i"
  "input_free (c\<lparr>blocks := bs\<rparr>) i = input_free c i"
  "input_free (c\<lparr>block_lines := bs\<rparr>) i = input_free c i"
  "input_free (c\<lparr>max_d := d, step_time := st\<rparr>) i = input_free c i"
  "input_free (c\<lparr>players := ps\<rparr>) i = input_free c i"
  "input_free (c\<lparr>server := sv\<rparr>) i = input_free c i"
  "input_free (c\<lparr>last_step_events := es\<rparr>) i = input_free c i"
  by (simp_all add: input_free_def shot_free_def split: Input.split)

lemma shot_free_evolves: "shot_free c sid \<Longrightarrow> evolves c c' \<Longrightarrow> shot_free c' sid"
  by (auto simp: shot_free_def evolves_def)

lemma stays_create_shot: "create_shot c = (c', s) \<Longrightarrow> stays c c' \<and> (core_ok c \<longrightarrow> is_misle c' s)"
proof -
  assume cs: "create_shot c = (c', s)"
  then have c': "c' = c\<lparr>shot_id_counter := shot_id_counter c + 1,
      objects := (objects c)(next_obj c \<mapsto> MisleObj (new_Misle c\<lparr>obj_id := shot_id_counter c + 1, damage := 30\<rparr>)),
      next_obj := next_obj c + 1\<rparr>" "s = next_obj c"
    by (auto simp: create_shot_def generate_shot_id_def new_obj_def Let_def)
  have ev: "evolves c c'" if "core_ok c"
    using core_ok_allocated [OF that] by (force simp: evolves_def c' is_misle_def)
  have "core_ok c'" if "core_ok c"
  proof (rule core_ok_same_maps [OF that ev [OF that]])
    show "\<forall>a \<ge> next_obj c'. objects c' a = None" using core_ok_fresh [OF that] by (auto simp: c')
  qed (simp_all add: c')
  then show ?thesis using ev by (auto simp: stays_def c' is_misle_def)
qed

lemma stays_register:
  assumes "objects c a = Some ob" and "find_key (tanks c) i = None"
  shows "stays c (c\<lparr>zombies := set_key i a (zombies c), all_objects := set_key i a (all_objects c)\<rparr>)"
    (is "stays c ?c")
  unfolding stays_def
proof (intro impI conjI)
  assume ok: "core_ok c"
  show "evolves c ?c" by (simp add: evolves_def)
  have m: "ordered (zombies c)" "ordered (all_objects c)" using ok by (auto simp: core_ok_def maps_ok_def)
  have "kinds_ok ?c" using ok assms m
    unfolding core_ok_def kinds_ok_def is_tank_def is_misle_def is_block_def is_line_def
    by (intro conjI allI impI ballI)
      (auto simp: find_key_set_key [OF m(1)] find_key_set_key [OF m(2)] split: if_splits)
  moreover have "maps_ok ?c" using ok m by (simp add: core_ok_def maps_ok_def ordered_set_key)
  moreover have "ids_ok ?c"
    using ok by (simp add: core_ok_def ids_ok_def)
  ultimately show "core_ok ?c" by (simp add: core_ok_def)
qed

lemma stays_add_object:
  assumes "add_object a c = Some c'" and "objects c a = Some ob"
    and "find_key (tanks c) (obj_id (base_of ob)) = None"
  shows "stays c c'"
proof -
  let ?i = "obj_id (base_of ob)"
  let ?c = "c\<lparr>zombies := set_key ?i a (zombies c), all_objects := set_key ?i a (all_objects c)\<rparr>"
  have c': "c' = (if server c then put_obj a (set_event_time (core_time c) ob) ?c else ?c)"
    using assms(1,2) by (auto simp: add_object_def Let_def obj_at_def)
  have "stays ?c c'" using stays_put [of ?c a ob] assms(2) by (auto simp: c')
  with stays_register [OF assms(2,3)] show ?thesis by (rule stays_trans)
qed

lemma stays_handle_new: "handle_new a c = Some c' \<Longrightarrow> stays c c'"
  by (auto simp: handle_new_def bind_Some_iff split: if_splits
      intro: stays_trans [OF stays_put stays_triger])

lemma stays_add_shot:
  assumes "is_misle c a"
  shows "stays c (c\<lparr>shots := set_key i a (shots c)\<rparr>)" (is "stays c ?c")
  unfolding stays_def
proof (intro impI conjI)
  assume ok: "core_ok c"
  show "evolves c ?c" by (simp add: evolves_def)
  have m: "ordered (shots c)" using ok by (auto simp: core_ok_def maps_ok_def)
  have "kinds_ok ?c" using ok assms
    unfolding core_ok_def kinds_ok_def is_tank_def is_misle_def is_block_def is_line_def
    by (intro conjI allI impI ballI) (auto simp: find_key_set_key [OF m] split: if_splits)
  moreover have "maps_ok ?c" using ok m by (simp add: core_ok_def maps_ok_def ordered_set_key)
  moreover have "ids_ok ?c"
    using ok by (simp add: core_ok_def ids_ok_def)
  ultimately show "core_ok ?c" by (simp add: core_ok_def)
qed

lemma stays_init_shot:
  assumes "init_shot a c = Some c'" and "objects c a = Some (MisleObj t)"
    and "find_key (tanks c) (obj_id t) = None"
  shows "stays c c'"
proof -
  let ?t = "t\<lparr>born_step := core_time c\<rparr>"
  let ?c = "put_misle a ?t c"
  obtain c2 where c2: "add_object a ?c = Some c2"
    "handle_new a (c2\<lparr>shots := set_key (obj_id t) a (shots c2)\<rparr>) = Some c'"
    using assms(1,2) by (auto simp: init_shot_def bind_Some_iff)
  have 1: "stays c ?c" by (rule stays_put_misle [OF assms(2)]) simp
  have 2: "stays ?c c2"
    using assms(3) by (intro stays_add_object [OF c2(1), of "MisleObj ?t"])
      (simp_all add: put_misle_def put_obj_def BoardObject.truncate_def)
  have "is_misle c2 a"
    using c2(1) by (auto simp: add_object_def bind_Some_iff Let_def put_misle_def put_obj_def is_misle_def)
  from stays_trans [OF stays_add_shot [OF this] stays_handle_new [OF c2(2)]]
  show ?thesis using stays_trans [OF 1 2] by (blast intro: stays_trans)
qed

lemma stays_shot:
  assumes "shot m sid tg an a c = Some c'" and "shot_free c sid" and "core_ok c"
  shows "core_ok c' \<and> evolves c c'"
proof (cases "c' = c")
  case False
  obtain me where me: "objects c a = Some (TankObj me)" "\<not> flt (remain_shot me) (Fin 1)"
    using assms(1) False by (auto simp: shot_def bind_Some_iff split: if_splits)
  define this1 where "this1 = me\<lparr>remain_shot := fsub (remain_shot me) (Fin 1)\<rparr>"
  obtain c2 s where c2: "create_shot (put_tank a this1 c) = (c2, s)" by fastforce
  obtain an canon t c5 t6 where c5: "objects c2 s = Some (MisleObj t)"
    "init_shot s (put_misle s (launch m sid an this1 t) (put_tank a (this1\<lparr>canon_angle := canon\<rparr>) c2)) = Some c5"
    "objects c5 a = Some (TankObj t6)"
    "c' = (if server c5 then put_tank a (t6\<lparr>last_event_time := core_time c5\<rparr>) c5 else c5)"
    using assms(1) me c2
    by (simp add: shot_def bind_Some_iff Let_def this1_def) blast
  define t5 where "t5 = launch m sid an this1 t"
  have launched: "obj_id t5 = sid" "for_remove t5 = for_remove t"
    by (simp_all add: t5_def launch_def Let_def)
  note c5 = c5 [folded t5_def]
  let ?c3 = "put_tank a (this1\<lparr>canon_angle := canon\<rparr>) c2"
  let ?c4 = "put_misle s t5 ?c3"
  have st1: "stays c (put_tank a this1 c)"
    by (rule stays_put_tank [OF me(1)]) (simp add: this1_def tank_later_def)
  have st2: "stays (put_tank a this1 c) c2" and "core_ok (put_tank a this1 c) \<longrightarrow> is_misle c2 s"
    using stays_create_shot [OF c2] by auto
  then obtain t2 where t2: "objects c2 a = Some (TankObj t2)" "tank_later this1 t2"
    using st1 assms(3) evolves_store [of "put_tank a this1 c" c2 a "TankObj this1"]
    by (auto simp: stays_def put_tank_def put_obj_def)
  have same: "objects c2 a = Some (TankObj this1)"
    using c2 t2(1) c5(1) core_ok_allocated [OF assms(3) me(1)]
    by (auto simp: create_shot_def generate_shot_id_def new_obj_def put_tank_def put_obj_def)
  have st3: "stays c2 ?c3" by (rule stays_put_tank [OF same]) (simp add: tank_later_def)
  have "s \<noteq> a" using c5(1) same by auto
  then have s3: "objects ?c3 s = Some (MisleObj t)" using c5(1) by (simp add: put_tank_def put_obj_def)
  have st4: "stays ?c3 ?c4" by (rule stays_put_misle [OF s3]) (simp add: launched)
  have "stays c ?c4" using st1 st2 st3 st4 by (blast intro: stays_trans)
  then have ok4: "core_ok ?c4" "evolves c ?c4" using assms(3) by (simp_all add: stays_def)
  have "find_key (tanks ?c4) (obj_id t5) = None"
    using shot_free_evolves [OF assms(2) ok4(2)] launched(1) by (simp add: shot_free_def)
  then have "stays ?c4 c5" by (intro stays_init_shot [OF c5(2)]) (simp_all add: put_misle_def put_obj_def)
  moreover have "stays c5 c'" unfolding c5(4) using stays_put_tank [OF c5(3)] by (simp add: tank_later_def)
  ultimately show ?thesis using ok4 by (meson stays_def evolves_trans)
qed (use assms in simp)

lemma stays_run_on_this:
  assumes "run_on_this m i a c = Some c'" and "input_free c i" and "core_ok c"
  shows "core_ok c' \<and> evolves c c'"
proof (cases i)
  case (InputFarman b f s)
  obtain t t' where t: "objects c a = Some (TankObj t)" "c' = put_tank a t' c" "tank_later t t'"
    using assms(1) InputFarman by (auto simp: bind_Some_iff Let_def tank_later_def split: if_splits)
  from stays_put_tank [OF t(1,3)] show ?thesis using assms(3) t(2) by (simp add: stays_def)
next
  case (InputShot b sid tg an)
  then show ?thesis using assms stays_shot [of m sid tg an a c c']
    by (auto simp: input_free_def split: if_splits)
qed

lemma core_ok_input:
  "core_ok c \<Longrightarrow> objects c a = Some (TankObj t) \<Longrightarrow> ki \<in> set (inps t) \<Longrightarrow> input_free c (snd ki)"
  by (simp add: core_ok_def ids_ok_def)

lemma set_insert_multi: "set (insert_multi k v m) = insert (k, v) (set m)"
  by (induction k v m rule: insert_multi.induct) auto

lemma prune_subset: "set (prune n m) \<subseteq> set m"
  by (auto simp: prune_def dest: set_dropWhileD)

lemma stays_run_input:
  assumes "run_input m i a c = Some c'" and "input_free c i" and "core_ok c"
  shows "core_ok c' \<and> evolves c c'"
proof (cases "c' = c")
  case False
  then obtain c1 t where 1: "run_on_this m i a c = Some c1" "objects c1 a = Some (TankObj t)"
    "c' = (if server c1 then put_tank a (t\<lparr>last_event_time := core_time c1\<rparr>) (triger_change (obj_id t) c1)
           else triger_change (obj_id t) c1)"
    using assms(1) by (auto simp: run_input_def bind_Some_iff Let_def triger_change_def split: if_splits)
  have "objects (triger_change (obj_id t) c1) a = Some (TankObj t)" using 1(2) by (simp add: triger_change_def)
  from stays_put_tank [OF this] have "stays (triger_change (obj_id t) c1) c'"
    using 1(3) by (simp add: tank_later_def)
  with stays_triger have "stays c1 c'" by (rule stays_trans)
  moreover have "core_ok c1 \<and> evolves c c1" using stays_run_on_this [OF 1(1) assms(2,3)] .
  ultimately show ?thesis by (meson stays_def evolves_trans)
qed (use assms in simp)

lemma erase_key_subset_later: "tank_later t (t\<lparr>inps := erase_key k (inps t)\<rparr>)"
  using erase_key_subset [of k "inps t"] by (auto simp: tank_later_def)

lemma stays_run_inputs: "run_inputs m k a c = Some c' \<Longrightarrow> stays c c'"
proof (induction k arbitrary: c)
  case 0
  then show ?case by (auto simp: bind_Some_iff split: if_splits)
next
  case (Suc k)
  show ?case
  proof (cases "c' = c \<or> \<not> core_ok c")
    case False
    then obtain t i c1 t1 where 1: "objects c a = Some (TankObj t)" "find_key (inps t) (my_step t) = Some i"
      "run_input m i a c = Some c1" "objects c1 a = Some (TankObj t1)"
      "run_inputs m k a (put_tank a (t1\<lparr>inps := erase_key (my_step t1) (inps t1)\<rparr>) c1) = Some c'"
      using Suc.prems by (auto simp: bind_Some_iff split: option.splits)
    have "input_free c i" using core_ok_input [OF _ 1(1) find_key_Some_in [OF 1(2)]] False by simp
    then have "stays c c1" using stays_run_input [OF 1(3)] by (simp add: stays_def)
    moreover have "stays c1 c'"
      using stays_trans [OF stays_put_tank [OF 1(4) erase_key_subset_later] Suc.IH [OF 1(5)]] .
    ultimately show ?thesis by (rule stays_trans)
  qed (auto simp: stays_def)
qed

lemma ai_step_later: "ai_step m n t = Some t' \<Longrightarrow> tank_later t t'"
  by (auto simp: ai_step_def add_action_def Let_def tank_later_def set_insert_multi is_farman_def
      split: option.splits if_splits)

lemma clamp_speed_fields [simp]:
  "obj_id (clamp_speed t) = obj_id t" "for_remove (clamp_speed t) = for_remove t"
  "inps (clamp_speed t) = inps t" "unit_user_id (clamp_speed t) = unit_user_id t"
  "my_step (clamp_speed t) = my_step t" "cinps (clamp_speed t) = cinps t" "sinps (clamp_speed t) = sinps t"
  by (simp_all add: clamp_speed_def Let_def)

lemma pruned_later: "tank_later t (pruned t)"
  using prune_subset by (fastforce simp: tank_later_def pruned_def Let_def)

lemma stays_update_inputs: "update_inputs m a c = Some c' \<Longrightarrow> stays c c'"
proof -
  assume "update_inputs m a c = Some c'"
  then obtain t t1 where t: "objects c a = Some (TankObj t)" "ai_step m (core_time c) t = Some t1"
    "run_inputs m (length (inps (pruned t1))) a (put_tank a (pruned t1) c) = Some c'"
    by (auto simp: update_inputs_def bind_Some_iff)
  have "stays c (put_tank a (pruned t1) c)"
    by (rule stays_put_tank [OF t(1) tank_later_trans [OF ai_step_later [OF t(2)] pruned_later]])
  then show ?thesis using stays_run_inputs [OF t(3)] by (rule stays_trans)
qed

lemma update_angle_later: "update_angle dt t = Some t' \<Longrightarrow> tank_later t t'"
  by (auto simp: update_angle_def bind_Some_iff Let_def tank_later_def)

lemma stays_tank_update:
  assumes "tank_update m a c = Some c'"
  shows "stays c c'"
proof -
  obtain c1 t t' where 1: "update_inputs m a c = Some c1" "objects c1 a = Some (TankObj t)"
    "c' = put_tank a t' c1" "tank_later t t'"
  proof -
    obtain c1 t where 1: "update_inputs m a c = Some c1" "objects c1 a = Some (TankObj t)"
      using assms by (auto simp: tank_update_def bind_Some_iff)
    show thesis
    proof (cases "my_step t \<ge> core_time c1")
      case True
      then have "c' = put_tank a (t\<lparr>next_pos := pos t\<rparr>) c1"
        using assms 1 by (simp add: tank_update_def)
      from that [OF 1 this] show thesis by (simp add: tank_later_def)
    next
      case False
      then obtain t2 where t2: "update_angle (step_time c1) t = Some t2"
        using assms 1 by (auto simp: tank_update_def bind_Some_iff)
      obtain rs st h where "c' = put_tank a (live_update m (step_time c1)
          (t2\<lparr>remain_shot := rs, my_step := st, history := h\<rparr>)) c1"
        using assms 1 t2 False by (auto simp: tank_update_def Let_def)
      from that [OF 1 this] update_angle_later [OF t2] show thesis by (simp add: tank_later_def)
    qed
  qed
  from stays_trans [OF stays_update_inputs [OF 1(1)] stays_put_tank [OF 1(2,4)]] 1(3)
  show ?thesis by simp
qed

section \<open>The step\<close>

lemma core_ok_time: "core_ok c \<Longrightarrow> core_ok (c\<lparr>core_time := n\<rparr>)"
  by (simp add: core_ok_def maps_ok_def kinds_ok_def ids_ok_def is_tank_def is_misle_def is_block_def
      is_line_def)

lemma forget_object_fields [simp]:
  "objects (forget_object i c) = objects c" "core_time (forget_object i c) = core_time c"
  "server (forget_object i c) = server c" "blocks (forget_object i c) = blocks c"
  "zombies (forget_object i c) = zombies c" "players (forget_object i c) = players c"
  by (simp_all add: forget_object_def)

lemma core_ok_forget:
  assumes "core_ok c"
  shows "core_ok (forget_object i c)"
proof -
  have m: "ordered (tanks c)" "ordered (shots c)" "ordered (all_objects c)"
    using assms by (auto simp: core_ok_def maps_ok_def)
  have find: "find_key (tanks (forget_object i c)) j = (if j = i then None else find_key (tanks c) j)"
    "find_key (shots (forget_object i c)) j = (if j = i then None else find_key (shots c) j)"
    "find_key (all_objects (forget_object i c)) j = (if j = i then None else find_key (all_objects c) j)"
    for j using m by (simp_all add: forget_object_def find_key_erase_key)
  have "kinds_ok (forget_object i c)" using assms
    unfolding core_ok_def kinds_ok_def find is_tank_def is_misle_def is_block_def is_line_def
    by (auto simp: forget_object_def)
  moreover have "maps_ok (forget_object i c)"
    using assms by (simp add: core_ok_def maps_ok_def forget_object_def ordered_erase_key)
  moreover have "input_free (forget_object i c) x" if "input_free c x" for x
    using that by (auto simp: input_free_def shot_free_def find split: Input.splits)
      (simp_all add: forget_object_def)
  then have "ids_ok (forget_object i c)"
    using assms unfolding core_ok_def ids_ok_def find by (auto simp: forget_object_def split: if_splits)
  ultimately show ?thesis by (simp add: core_ok_def)
qed

lemma forget_all:
  assumes "core_ok c"
  shows "core_ok (fold forget_object ids c)"
    and "find_key (tanks (fold forget_object ids c)) j = (if j \<in> set ids then None else find_key (tanks c) j)"
    and "core_time (fold forget_object ids c) = core_time c"
    and "server (fold forget_object ids c) = server c"
    and "players (fold forget_object ids c) = players c"
  using assms
proof (induction ids arbitrary: c)
  case (Cons i ids)
  {
    case 2
    have "ordered (tanks c)" using 2 by (simp add: core_ok_def maps_ok_def)
    then show ?case using Cons.IH(2) [OF core_ok_forget [OF 2, of i]]
      by (simp add: forget_object_def find_key_erase_key)
  }
qed (auto simp: core_ok_forget)

lemma for_each_evolves:
  assumes "for_each f xs c = Some c'" and "\<And>x c c'. f x c = Some c' \<Longrightarrow> stays c c'" and "core_ok c"
  shows "core_ok c' \<and> evolves c c'"
  using for_each_stays [OF assms(1,2)] assms(3) by (simp add: stays_def)

lemma stays_kill_tanks:
  assumes "kill_tanks c = Some c'"
  shows "stays c c'"
proof (cases "server c")
  case True
  then have "for_each (\<lambda>(i, a) c. do {
      t \<leftarrow> tank_at c a;
      if healt t < 0 then dead a c else Some c }) (tanks c) c = Some c'"
    using assms by (simp add: kill_tanks_def)
  then show ?thesis
    by (rule for_each_stays) (auto simp: bind_Some_iff dest: stays_dead split: if_splits)
qed (use assms in \<open>simp add: kill_tanks_def\<close>)

lemma stays_check_collision:
  assumes "check_collision c = Some c'"
  shows "stays c c'"
proof -
  obtain c1 where c1: "for_each (\<lambda>(i, a). unit_clear_collision a) (tanks c) c = Some c1"
    "for_each (\<lambda>(i, a). misle_clear_collision a) (shots c1) c1 = Some c'"
    using assms by (auto simp: check_collision_def bind_Some_iff)
  have "stays c c1" by (rule for_each_stays [OF c1(1)]) (auto dest: stays_unit_collision)
  moreover have "stays c1 c'" by (rule for_each_stays [OF c1(2)]) (auto dest: stays_misle_collision)
  ultimately show ?thesis by (rule stays_trans)
qed

lemma stays_move: "move_object ia c = Some c' \<Longrightarrow> stays c c'"
  by (auto simp: move_object_def bind_Some_iff intro!: stays_put)

text \<open>After the tanks are killed and forgotten, the rest of the step keeps the maps of tanks.\<close>

lemma core_update_parts:
  assumes "core_update m c = Some c'" and "core_ok c"
  obtains c1 ids where "kill_tanks (c\<lparr>core_time := core_time c + 1\<rparr>) = Some c1"
    and "removed_ids c1 = Some ids" and "core_ok c1" and "evolves (c\<lparr>core_time := core_time c + 1\<rparr>) c1"
    and "core_ok c'" and "evolves (fold forget_object ids c1) c'"
proof -
  obtain c1 ids c2 c3 c4 c5 where u: "kill_tanks (c\<lparr>core_time := core_time c + 1\<rparr>) = Some c1"
    "removed_ids c1 = Some ids"
    "for_each (\<lambda>(i, a). misle_update m a) (shots (fold forget_object ids c1)) (fold forget_object ids c1) = Some c2"
    "for_each (\<lambda>(i, a). tank_update m a) (tanks c2) c2 = Some c3" "check_collision c3 = Some c4"
    "for_each move_object (shots c4) c4 = Some c5" "for_each move_object (tanks c5) c5 = Some c'"
    using assms(1) by (auto simp: core_update_def bind_Some_iff Let_def)
  have 1: "core_ok c1 \<and> evolves (c\<lparr>core_time := core_time c + 1\<rparr>) c1"
    using stays_kill_tanks [OF u(1)] core_ok_time [OF assms(2)] by (simp add: stays_def)
  have "stays (fold forget_object ids c1) c2"
    using for_each_stays [OF u(3)] stays_misle_update by (auto split: prod.splits)
  moreover have "stays c2 c3" using for_each_stays [OF u(4)] stays_tank_update by (auto split: prod.splits)
  moreover have "stays c3 c4" using stays_check_collision [OF u(5)] .
  moreover have "stays c4 c5" using for_each_stays [OF u(6)] stays_move by auto
  moreover have "stays c5 c'" using for_each_stays [OF u(7)] stays_move by auto
  ultimately have "stays (fold forget_object ids c1) c'" by (blast intro: stays_trans)
  then have "core_ok c' \<and> evolves (fold forget_object ids c1) c'"
    using forget_all(1) 1 by (simp add: stays_def)
  with u(1,2) 1 show thesis using that by blast
qed

section \<open>Which tanks a step removes\<close>

definition kill_one :: "int \<times> addr \<Rightarrow> GameCore \<Rightarrow> GameCore option" where
  "kill_one = (\<lambda>(i, a) c. do { t \<leftarrow> tank_at c a; if healt t < 0 then dead a c else Some c })"

text \<open>The tank that the loop over the addresses \<open>as\<close> leaves of \<open>t\<close> at address \<open>a\<close>.\<close>

definition killed :: "addr set \<Rightarrow> addr \<Rightarrow> Tank \<Rightarrow> Tank \<Rightarrow> bool" where
  "killed as a t t' \<longleftrightarrow> healt t' = healt t \<and> (for_remove t' \<longleftrightarrow> for_remove t \<or> healt t < 0 \<and> a \<in> as)"

lemma dead_tank:
  assumes "dead a c = Some c'" and "objects c a = Some (TankObj t)"
  shows "\<exists>t'. objects c' = (objects c)(a \<mapsto> TankObj t') \<and> for_remove t' \<and> healt t' = healt t"
proof -
  let ?ob = "if server c then set_event_time (core_time c) (set_for_remove (TankObj t))
    else set_for_remove (TankObj t)"
  have "on_ded a (put_obj a ?ob c) = Some c'"
    using assms by (simp add: dead_def Let_def split del: if_split)
  then have "objects c' = (objects c)(a \<mapsto> ?ob)"
    by (auto simp: on_ded_def put_obj_def triger_change_def bind_Some_iff)
  then show ?thesis by (cases "server c") auto
qed

lemma kill_one_killed:
  assumes "kill_one x c = Some c'" and "objects c a = Some (TankObj t)"
  shows "\<exists>t'. objects c' a = Some (TankObj t') \<and> killed {snd x} a t t'"
proof -
  obtain k where k: "objects c (snd x) = Some (TankObj k)"
    "(if healt k < 0 then dead (snd x) c else Some c) = Some c'"
    using assms(1) unfolding kill_one_def case_prod_unfold bind_Some_iff tank_at_Some by blast
  show ?thesis
  proof (cases "healt k < 0")
    case True
    then obtain k' where "objects c' = (objects c)(snd x \<mapsto> TankObj k')" "for_remove k'" "healt k' = healt k"
      using dead_tank [of "snd x" c c' k] k by auto
    then show ?thesis using assms(2) k(1) True by (cases "snd x = a") (auto simp: killed_def)
  next
    case False
    then show ?thesis using k assms(2) by (auto simp: killed_def)
  qed
qed

lemma kill_all_killed:
  "for_each kill_one xs c = Some c' \<Longrightarrow> objects c a = Some (TankObj t) \<Longrightarrow>
   \<exists>t'. objects c' a = Some (TankObj t') \<and> killed (snd ` set xs) a t t'"
proof (induction xs arbitrary: c t)
  case (Cons x xs)
  obtain c1 where c1: "kill_one x c = Some c1" "for_each kill_one xs c1 = Some c'"
    using Cons.prems(1) by (auto simp: bind_Some_iff)
  obtain t1 where t1: "objects c1 a = Some (TankObj t1)" "killed {snd x} a t t1"
    using kill_one_killed [OF c1(1) Cons.prems(2)] by blast
  obtain t' where "objects c' a = Some (TankObj t')" "killed (snd ` set xs) a t1 t'"
    using Cons.IH [OF c1(2) t1(1)] by blast
  then show ?case using t1(2) by (auto simp: killed_def)
qed (auto simp: killed_def)

lemma removed_ids_loop:
  assumes "for_each (\<lambda>(i, a) ids. do {
     ob \<leftarrow> obj_at c a;
     Some (if for_remove (base_of ob) then ids @ [i] else ids) }) xs ids0 = Some ids"
  shows "set ids = set ids0 \<union> {i. \<exists>a ob. (i, a) \<in> set xs \<and> objects c a = Some ob \<and> for_remove (base_of ob)}"
  using assms
proof (induction xs arbitrary: ids0)
  case (Cons x xs)
  obtain i a ob where x: "x = (i, a)" "objects c a = Some ob"
    "for_each (\<lambda>(i, a) ids. do {
       ob \<leftarrow> obj_at c a;
       Some (if for_remove (base_of ob) then ids @ [i] else ids) }) xs
       (if for_remove (base_of ob) then ids0 @ [i] else ids0) = Some ids"
    using Cons.prems by (cases x) (auto simp: bind_Some_iff split: if_splits)
  from Cons.IH [OF x(3)] x(1,2) show ?case by (auto split: if_splits)
qed simp

lemma removed_ids_iff:
  assumes "removed_ids c = Some ids" and "ordered (all_objects c)" and "find_key (all_objects c) i = Some a"
    and "objects c a = Some ob"
  shows "i \<in> set ids \<longleftrightarrow> for_remove (base_of ob)"
proof -
  have "set ids = {i. \<exists>a ob. (i, a) \<in> set (all_objects c) \<and> objects c a = Some ob \<and> for_remove (base_of ob)}"
    using removed_ids_loop [of c "all_objects c" "[]" ids] assms(1) by (simp add: removed_ids_def)
  moreover have "(i, b) \<in> set (all_objects c) \<longleftrightarrow> b = a" for b
    using in_find_key [OF assms(2), of i b] find_key_Some_in [OF assms(3)] assms(3) by auto
  ultimately show ?thesis using assms(4) by auto
qed

text \<open>The tanks that are gone after a step: marked ones and, on a server, those below zero.\<close>

definition doomed :: "GameCore \<Rightarrow> addr \<Rightarrow> bool" where
  "doomed c a = (case objects c a of
     Some (TankObj t) \<Rightarrow> for_remove t \<or> server c \<and> healt t < 0 | _ \<Rightarrow> False)"

lemma tanks_after_update:
  assumes "core_ok c" and "core_update m c = Some c'"
  shows "core_ok c'" and "core_time c' = core_time c + 1" and "players c' = players c"
    and "server c' = server c"
    and "find_key (tanks c') i =
      (case find_key (tanks c) i of None \<Rightarrow> None | Some a \<Rightarrow> if doomed c a then None else Some a)"
proof -
  let ?c = "c\<lparr>core_time := core_time c + 1\<rparr>"
  obtain c1 ids where p: "kill_tanks ?c = Some c1" "removed_ids c1 = Some ids" "core_ok c1"
    "evolves ?c c1" "core_ok c'" "evolves (fold forget_object ids c1) c'"
    using core_update_parts [OF assms(2,1)] .
  note f = forget_all [OF p(3), of ids]
  show "core_ok c'" "core_time c' = core_time c + 1" "players c' = players c" "server c' = server c"
    using p(4,5,6) f by (simp_all add: evolves_def)
  have t1: "tanks c1 = tanks c" "tanks c' = tanks (fold forget_object ids c1)"
    using p(4,6) by (simp_all add: evolves_def)
  show "find_key (tanks c') i =
      (case find_key (tanks c) i of None \<Rightarrow> None | Some a \<Rightarrow> if doomed c a then None else Some a)"
  proof (cases "find_key (tanks c) i")
    case None
    then show ?thesis using t1 f(2) by simp
  next
    case (Some a)
    have ok: "is_tank c a" "is_tank c1 a" "find_key (all_objects c1) i = Some a" "ordered (all_objects c1)"
      using Some assms(1) p(3) t1 by (auto simp: core_ok_def kinds_ok_def maps_ok_def)
    then obtain t where t: "objects c a = Some (TankObj t)" by (auto simp: is_tank_def)
    have "(i, a) \<in> set (tanks c)" using Some by (rule find_key_Some_in)
    then have mem: "a \<in> snd ` set (tanks c)" by force
    have "\<exists>t1. objects c1 a = Some (TankObj t1)
       \<and> (for_remove t1 \<longleftrightarrow> for_remove t \<or> server c \<and> healt t < 0)"
    proof (cases "server c")
      case True
      then have "for_each kill_one (tanks c) ?c = Some c1"
        using p(1) by (simp add: kill_tanks_def kill_one_def)
      from kill_all_killed [OF this, of a t] t mem True show ?thesis by (auto simp: killed_def)
    next
      case False
      then show ?thesis using p(1) t by (auto simp: kill_tanks_def)
    qed
    then obtain t1 where t1': "objects c1 a = Some (TankObj t1)"
      "for_remove t1 \<longleftrightarrow> for_remove t \<or> server c \<and> healt t < 0" by blast
    have "i \<in> set ids \<longleftrightarrow> for_remove t1"
      using removed_ids_iff [OF p(2) ok(4,3) t1'(1)] by (simp add: BoardObject.truncate_def)
    then show ?thesis using Some t t1 t1'(2) f(2) by (simp add: doomed_def)
  qed
qed

section \<open>Creation\<close>

lemma core_ok_new: "core_ok (new_GameCore\<lparr>server := sv, start_time := s, milisecond_per_step := ms\<rparr>)"
  by (simp add: core_ok_def maps_ok_def kinds_ok_def ids_ok_def new_GameCore_def)

text \<open>Registering a new object under the next id and address.\<close>

definition registered :: "object \<Rightarrow> GameCore \<Rightarrow> GameCore" where
  "registered ob c =
     (let i = shot_id_counter c + 1
      in c\<lparr>objects := (objects c)(next_obj c \<mapsto> ob), next_obj := next_obj c + 1, shot_id_counter := i,
           zombies := set_key i (next_obj c) (zombies c),
           all_objects := set_key i (next_obj c) (all_objects c)\<rparr>)"

lemma core_ok_registered:
  assumes "core_ok c" and "\<And>t. ob = TankObj t \<Longrightarrow> inps t = []"
  shows "core_ok (registered ob c)" and "objects (registered ob c) (next_obj c) = Some ob"
proof -
  let ?c = "registered ob c" and ?i = "shot_id_counter c + 1"
  have fresh: "objects c (next_obj c) = None" using core_ok_fresh [OF assms(1)] by simp
  have m: "ordered (zombies c)" "ordered (all_objects c)" using assms(1) by (auto simp: core_ok_def maps_ok_def)
  have f: "find_key (zombies ?c) j = (if j = ?i then Some (next_obj c) else find_key (zombies c) j)"
    "find_key (all_objects ?c) j = (if j = ?i then Some (next_obj c) else find_key (all_objects c) j)"
    "objects ?c b = (if b = next_obj c then Some ob else objects c b)" for j b
    using m by (simp_all add: registered_def Let_def find_key_set_key)
  have same: "tanks ?c = tanks c" "shots ?c = shots c" "players ?c = players c" "blocks ?c = blocks c"
    "block_lines ?c = block_lines c" "next_obj ?c = next_obj c + 1" "shot_id_counter ?c = ?i"
    by (simp_all add: registered_def Let_def)
  have keep: "is_tank c a \<Longrightarrow> is_tank ?c a" "is_misle c a \<Longrightarrow> is_misle ?c a" "is_block c a \<Longrightarrow> is_block ?c a"
    "is_line c a \<Longrightarrow> is_line ?c a" "objects c a \<noteq> None \<Longrightarrow> objects ?c a \<noteq> None" for a
    using fresh by (auto simp: is_tank_def is_misle_def is_block_def is_line_def f(3))
  have no_tank: "find_key (tanks c) ?i = None"
    using assms(1) by (cases "find_key (tanks c) ?i") (fastforce simp: core_ok_def ids_ok_def)+
  have k: "kinds_ok c" using assms(1) by (simp add: core_ok_def)
  then have "kinds_ok ?c" using keep no_tank unfolding kinds_ok_def same f(1,2)
    by (intro conjI allI impI ballI) (auto simp: f(3) split: if_splits)
  moreover have "maps_ok ?c"
    using assms(1) by (simp add: core_ok_def maps_ok_def registered_def Let_def ordered_set_key)
  moreover have "input_free ?c x" if "input_free c x" for x
    using that by (auto simp: input_free_def shot_free_def same split: Input.splits)
  then have "ids_ok ?c" using assms unfolding core_ok_def ids_ok_def f(3) same
    by (fastforce split: if_splits)
  ultimately show "core_ok ?c" "objects ?c (next_obj c) = Some ob" by (simp_all add: core_ok_def f(3))
qed

text \<open>\<open>stored ob c\<close>: the object is in the store and has an id, but is in no map yet.\<close>

definition stored :: "object \<Rightarrow> GameCore \<Rightarrow> GameCore" where
  "stored ob c = c\<lparr>objects := (objects c)(next_obj c \<mapsto> ob), next_obj := next_obj c + 1,
     shot_id_counter := shot_id_counter c + 1\<rparr>"

definition stamped :: "GameCore \<Rightarrow> object \<Rightarrow> object" where
  "stamped c ob = (if server c then set_event_time (core_time c) ob else ob)"

lemma add_object_stored:
  assumes "obj_id (base_of ob) = shot_id_counter c + 1"
  shows "add_object (next_obj c) (stored ob c) = Some (registered (stamped c ob) c)"
  using assms
  by (simp add: add_object_def stored_def registered_def stamped_def Let_def put_obj_def)

lemma create_stored:
  "create_block c = (stored (BlockObj (new_BoardObject c\<lparr>obj_id := shot_id_counter c + 1\<rparr>)) c, next_obj c)"
  "create_tank c = (stored (TankObj (new_Tank c\<lparr>obj_id := shot_id_counter c + 1\<rparr>)) c, next_obj c)"
  "create_platform_line m s f c =
     (stored (LineObj (new_PlatformLine m c s f\<lparr>obj_id := shot_id_counter c + 1\<rparr>)) c, next_obj c)"
  by (simp_all add: create_block_def create_tank_def create_platform_line_def generate_shot_id_def
      new_obj_def stored_def Let_def)

lemma put_obj_stored: "put_obj (next_obj c) ob' (stored ob c) = stored ob' c"
  by (simp add: put_obj_def stored_def)

lemma stored_objects [simp]: "objects (stored ob c) (next_obj c) = Some ob"
  by (simp add: stored_def)

lemma core_ok_more_blocks:
  "core_ok c \<Longrightarrow> is_block c a \<Longrightarrow> core_ok (c\<lparr>blocks := blocks c @ [a]\<rparr>)"
  "core_ok c \<Longrightarrow> is_line c a \<Longrightarrow> core_ok (c\<lparr>block_lines := block_lines c @ [a]\<rparr>)"
  by (simp_all add: core_ok_def maps_ok_def kinds_ok_def ids_ok_def is_tank_def is_misle_def
      is_block_def is_line_def)

lemma handle_new_total: "objects c a \<noteq> None \<Longrightarrow> \<exists>c'. handle_new a c = Some c'"
  by (auto simp: handle_new_def)

lemma place_object:
  assumes "core_ok c" and "obj_id (base_of ob) = shot_id_counter c + 1" and "ob = BlockObj b"
  shows "\<exists>c'. init_block (next_obj c) (stored ob c) = Some c' \<and> core_ok c'
    \<and> blocks c' = blocks c @ [next_obj c] \<and> block_lines c' = block_lines c \<and> tanks c' = tanks c \<and> server c' = server c"
proof -
  let ?ob = "stamped c ob" and ?a = "next_obj c"
  obtain b' where b': "?ob = BlockObj b'" using assms(3) by (cases "server c") (auto simp: stamped_def)
  let ?c = "registered ?ob c\<lparr>blocks := blocks c @ [?a]\<rparr>"
  have r: "core_ok (registered ?ob c)" "objects (registered ?ob c) ?a = Some ?ob"
    using core_ok_registered [OF assms(1), of ?ob] b' by auto
  have ok: "core_ok ?c"
    using core_ok_more_blocks(1) [OF r(1), of ?a] r(2) b' by (simp add: is_block_def registered_def Let_def)
  obtain c' where c': "handle_new ?a ?c = Some c'" using handle_new_total [of ?c ?a] r(2) by auto
  have "init_block ?a (stored ob c) = Some c'"
    using add_object_stored [OF assms(2)] c' by (simp add: init_block_def registered_def Let_def)
  moreover have "core_ok c' \<and> evolves ?c c'" using stays_handle_new [OF c'] ok by (simp add: stays_def)
  ultimately show ?thesis by (auto simp: evolves_def registered_def Let_def)
qed

lemma place_line_object:
  assumes "core_ok c" and "obj_id (base_of ob) = shot_id_counter c + 1" and "ob = LineObj b"
  shows "\<exists>c'. init_platform_line (next_obj c) (stored ob c) = Some c' \<and> core_ok c'
    \<and> block_lines c' = block_lines c @ [next_obj c] \<and> blocks c' = blocks c \<and> tanks c' = tanks c \<and> server c' = server c"
proof -
  let ?ob = "stamped c ob" and ?a = "next_obj c"
  obtain b' where b': "?ob = LineObj b'" using assms(3) by (cases "server c") (auto simp: stamped_def)
  let ?c = "registered ?ob c\<lparr>block_lines := block_lines c @ [?a]\<rparr>"
  have r: "core_ok (registered ?ob c)" "objects (registered ?ob c) ?a = Some ?ob"
    using core_ok_registered [OF assms(1), of ?ob] b' by auto
  have ok: "core_ok ?c"
    using core_ok_more_blocks(2) [OF r(1), of ?a] r(2) b' by (simp add: is_line_def registered_def Let_def)
  obtain c' where c': "handle_new ?a ?c = Some c'" using handle_new_total [of ?c ?a] r(2) by auto
  have "init_platform_line ?a (stored ob c) = Some c'"
    using add_object_stored [OF assms(2)] c' by (simp add: init_platform_line_def registered_def Let_def)
  moreover have "core_ok c' \<and> evolves ?c c'" using stays_handle_new [OF c'] ok by (simp add: stays_def)
  ultimately show ?thesis by (auto simp: evolves_def registered_def Let_def)
qed

lemma place_block_ok:
  assumes "core_ok c"
  shows "\<exists>c'. place_block rd p c = Some c' \<and> core_ok c' \<and> blocks c' = blocks c @ [next_obj c]
    \<and> block_lines c' = block_lines c \<and> tanks c' = tanks c \<and> server c' = server c"
  using place_object [OF assms, of "BlockObj (new_BoardObject c\<lparr>obj_id := shot_id_counter c + 1, radius := rd, pos := p\<rparr>)"]
  by (simp add: place_block_def create_stored put_obj_stored)

lemma place_line_ok:
  assumes "core_ok c"
  shows "\<exists>c'. place_line m s f c = Some c' \<and> core_ok c' \<and> block_lines c' = block_lines c @ [next_obj c]
    \<and> blocks c' = blocks c \<and> tanks c' = tanks c \<and> server c' = server c"
  using place_line_object [OF assms, of "LineObj (new_PlatformLine m c s f\<lparr>obj_id := shot_id_counter c + 1\<rparr>)"]
  by (simp add: place_line_def create_stored BoardObject.truncate_def)

lemma core_ok_sizes:
  "core_ok c \<Longrightarrow> core_ok (c\<lparr>max_d := d, step_time := st\<rparr>)"
  by (simp_all add: core_ok_def maps_ok_def kinds_ok_def ids_ok_def is_tank_def is_misle_def
      is_block_def is_line_def)

text \<open>\<open>init\<close> loads two lines and three blocks on a server, and nothing elsewhere.\<close>

lemma core_init_loads:
  assumes "core_ok c"
  shows "\<exists>c'. core_init m c = Some c' \<and> core_ok c' \<and> server c' = server c
    \<and> length (blocks c') = length (blocks c) + (if server c then 3 else 0)
    \<and> length (block_lines c') = length (block_lines c) + (if server c then 2 else 0)
    \<and> tanks c' = tanks c"
proof -
  let ?c = "c\<lparr>max_d := Fin 5000,
     step_time := to_float (dmul (Fin (of_int (milisecond_per_step c))) (dlit (1 / 1000)))\<rparr>"
  have 0: "core_ok ?c" using assms by (rule core_ok_sizes)
  obtain c1 where 1: "place_line m (int_point 500 500) (int_point 1000 1000) ?c = Some c1" "core_ok c1"
    "block_lines c1 = block_lines c @ [next_obj ?c]" "blocks c1 = blocks c" "tanks c1 = tanks c" "server c1 = server c"
    using place_line_ok [OF 0] by fastforce
  obtain c2 where 2: "place_block (Fin 0) (int_point 500 500) c1 = Some c2" "core_ok c2"
    "blocks c2 = blocks c1 @ [next_obj c1]" "block_lines c2 = block_lines c1" "tanks c2 = tanks c1" "server c2 = server c1"
    using place_block_ok [OF 1(2)] by blast
  obtain c3 where 3: "place_block (Fin 200) (int_point 1000 1000) c2 = Some c3" "core_ok c3"
    "blocks c3 = blocks c2 @ [next_obj c2]" "block_lines c3 = block_lines c2" "tanks c3 = tanks c2" "server c3 = server c2"
    using place_block_ok [OF 2(2)] by blast
  obtain c4 where 4: "place_line m (int_point 1000 1000) (int_point 0 2000) c3 = Some c4" "core_ok c4"
    "block_lines c4 = block_lines c3 @ [next_obj c3]" "blocks c4 = blocks c3" "tanks c4 = tanks c3" "server c4 = server c3"
    using place_line_ok [OF 3(2)] by blast
  obtain c5 where 5: "place_block (Fin 0) (int_point 0 2000) c4 = Some c5" "core_ok c5"
    "blocks c5 = blocks c4 @ [next_obj c4]" "block_lines c5 = block_lines c4" "tanks c5 = tanks c4" "server c5 = server c4"
    using place_block_ok [OF 4(2)] by blast
  show ?thesis
  proof (cases "server c")
    case True
    then have "core_init m c = Some c5" using 1(1) 2(1) 3(1) 4(1) 5(1) by (simp add: core_init_def Let_def)
    then show ?thesis using 1 2 3 4 5 True by simp
  next
    case False
    then have "core_init m c = Some ?c" by (simp add: core_init_def Let_def)
    then show ?thesis using 0 False by simp
  qed
qed

lemma core_ok_players:
  assumes "core_ok c" and "\<And>a. player_tank p = Some a \<Longrightarrow> is_tank c a"
  shows "core_ok (c\<lparr>players := set_key uid p (players c)\<rparr>)"
proof -
  have m: "ordered (players c)" using assms(1) by (simp add: core_ok_def maps_ok_def)
  have k: "kinds_ok c" using assms(1) by (simp add: core_ok_def)
  have "kinds_ok (c\<lparr>players := set_key uid p (players c)\<rparr>)"
    using k assms(2) unfolding kinds_ok_def is_tank_def is_misle_def is_block_def is_line_def
    by (intro conjI allI impI ballI) (auto simp: find_key_set_key [OF m] split: if_splits)
  then show ?thesis using assms(1) m by (simp add: core_ok_def maps_ok_def ids_ok_def ordered_set_key)
qed

lemma core_ok_flags:
  "core_ok c \<Longrightarrow> core_ok (c\<lparr>server := sv\<rparr>)" "core_ok c \<Longrightarrow> core_ok (c\<lparr>last_step_events := es\<rparr>)"
  by (simp_all add: core_ok_def maps_ok_def kinds_ok_def ids_ok_def is_tank_def is_misle_def
      is_block_def is_line_def)

lemma core_ok_tank_registered:
  assumes "core_ok c" and "ob = TankObj t" and "inps t = []"
  shows "core_ok (registered ob c\<lparr>tanks := set_key (shot_id_counter c + 1) (next_obj c) (tanks c)\<rparr>)"
    (is "core_ok ?c")
proof -
  let ?i = "shot_id_counter c + 1"
  have r: "core_ok (registered ob c)" "objects (registered ob c) (next_obj c) = Some ob"
    using core_ok_registered [OF assms(1), of ob] assms(2,3) by auto
  have m: "ordered (tanks c)" "ordered (all_objects c)" using assms(1) by (auto simp: core_ok_def maps_ok_def)
  have all: "find_key (all_objects (registered ob c)) ?i = Some (next_obj c)"
    using m(2) by (simp add: registered_def Let_def find_key_set_key)
  have same: "tanks (registered ob c) = tanks c" "shot_id_counter (registered ob c) = ?i"
    by (simp_all add: registered_def Let_def)
  have k: "kinds_ok (registered ob c)" using r(1) by (simp add: core_ok_def)
  then have "kinds_ok ?c" using r(2) [unfolded assms(2)] all [unfolded assms(2)] same [unfolded assms(2)]
    unfolding kinds_ok_def assms(2) is_tank_def is_misle_def is_block_def is_line_def
    by (intro conjI allI impI ballI) (auto simp: find_key_set_key [OF m(1)] same split: if_splits)
  moreover have "maps_ok ?c" using r(1) m(1) by (simp add: core_ok_def maps_ok_def ordered_set_key)
  moreover have "ids_ok ?c"
  proof -
    have "input_free ?c (snd ki)" if u: "objects ?c a = Some (TankObj u)" "ki \<in> set (inps u)" for a u ki
    proof -
      have "objects c a = Some (TankObj u)"
        using u assms(2,3) by (auto simp: registered_def Let_def split: if_splits)
      from core_ok_input [OF assms(1) this u(2)] show ?thesis
        by (auto simp: input_free_def shot_free_def same find_key_set_key [OF m(1)] split: Input.splits)
    qed
    moreover have "i \<le> shot_id_counter ?c" if "find_key (tanks ?c) i = Some a" for i a
      using that assms(1) by (fastforce simp: same find_key_set_key [OF m(1)] core_ok_def ids_ok_def split: if_splits)
    ultimately show ?thesis by (auto simp: ids_ok_def)
  qed
  ultimately show ?thesis by (simp add: core_ok_def)
qed

lemma set_key_same: "ordered m \<Longrightarrow> find_key m k = Some v \<Longrightarrow> set_key k v m = m"
proof (induction m)
  case (Cons x m)
  then show ?case using find_key_Some_in [of m k v]
    by (cases x) (fastforce simp: ordered_def split: if_splits)
qed simp

text \<open>A player who has a tank gets it, and nothing changes.\<close>

lemma add_player_again:
  assumes "core_ok c" and "find_key (players c) uid = Some p" and "player_tank p = Some a"
  shows "add_player_with_tank uid c = Some (c, Some a)"
proof -
  have "set_key uid p (players c) = players c"
    using assms(1,2) by (intro set_key_same) (simp_all add: core_ok_def maps_ok_def)
  then show ?thesis using assms(2,3) by (simp add: add_player_with_tank_def Let_def)
qed

lemma add_player_new:
  assumes "core_ok c" and "\<And>p. find_key (players c) uid = Some p \<Longrightarrow> player_tank p = None"
  shows "\<exists>c'. add_player_with_tank uid c = Some (c', Some (next_obj c)) \<and> core_ok c'
    \<and> get_tank c' (shot_id_counter c + 1) = Some (next_obj c)
    \<and> (\<exists>t. objects c' (next_obj c) = Some (TankObj t) \<and> unit_user_id t = uid \<and> healt t = 100)
    \<and> map_option player_tank (get_player c' uid) = Some (Some (next_obj c))
    \<and> blocks c' = blocks c \<and> block_lines c' = block_lines c \<and> core_time c' = core_time c
    \<and> start_time c' = start_time c \<and> server c' = server c
    \<and> (\<forall>v. v \<noteq> uid \<longrightarrow> get_player c' v = get_player c v)"
proof -
  define p where "p = (case find_key (players c) uid of Some p \<Rightarrow> p
    | None \<Rightarrow> \<lparr>player_user_id = uid, player_tank = None\<rparr>)"
  have pt: "player_tank p = None" using assms(2) by (auto simp: p_def split: option.splits)
  let ?i = "shot_id_counter c + 1" and ?a = "next_obj c"
  let ?c1 = "c\<lparr>players := set_key uid p (players c)\<rparr>"
  let ?p = "p\<lparr>player_tank := Some ?a\<rparr>"
  let ?t = "new_Tank c\<lparr>obj_id := ?i, unit_user_id := uid, radius := Fin 100, pos := zero_point,
     angle := to_float (ddiv GameCore_PI (Fin 2)), max_speed := Fin 400\<rparr>"
  let ?P = "set_key uid ?p (players ?c1)"
  have new: "new_Tank (c\<lparr>players := ps\<rparr>) = new_Tank c" for ps
    by (simp add: new_Tank_def new_Unit_def new_LiveBoardObject_def new_BoardObject_def)
  have inps: "inps (new_Tank c) = []" "healt (new_Tank c) = 100"
    by (simp_all add: new_Tank_def new_Unit_def new_LiveBoardObject_def Tank.fields_def Unit.extend_def
        LiveBoardObject.extend_def)
  have ordp: "ordered (players c)" using assms(1) by (simp add: core_ok_def maps_ok_def)
  obtain t' where t': "stamped c (TankObj ?t) = TankObj t'" "unit_user_id t' = uid" "inps t' = []" "healt t' = 100"
    using inps by (cases "server c") (auto simp: stamped_def)
  define c2 where "c2 = registered (TankObj t') c\<lparr>tanks := set_key ?i ?a (tanks c)\<rparr>"
  have ok2: "core_ok c2" unfolding c2_def using core_ok_tank_registered [OF assms(1) refl t'(3)] .
  have obj2: "objects c2 ?a = Some (TankObj t')" by (simp add: c2_def registered_def Let_def)
  let ?c3 = "c2\<lparr>players := ?P\<rparr>"
  have "core_ok (c2\<lparr>players := set_key uid ?p (players c2)\<rparr>)"
    using core_ok_players [OF ok2, of ?p uid] obj2 by (simp add: is_tank_def)
  moreover have "set_key uid ?p (players c2) = ?P"
    by (simp add: c2_def registered_def Let_def set_key_twice)
  ultimately have ok3: "core_ok ?c3" by simp
  obtain c' where c': "handle_new ?a ?c3 = Some c'" using handle_new_total [of ?c3 ?a] obj2 by auto
  have st: "core_ok c' \<and> evolves ?c3 c'" using stays_handle_new [OF c'] ok3 by (simp add: stays_def)
  have step: "init_tank ?a (stored (TankObj ?t) c\<lparr>players := ?P\<rparr>) = handle_new ?a ?c3"
  proof -
    have "add_object ?a (stored (TankObj ?t) c\<lparr>players := ?P\<rparr>) = Some (registered (TankObj t') c\<lparr>players := ?P\<rparr>)"
      using t'(1) by (simp add: add_object_def stored_def registered_def stamped_def Let_def put_obj_def
          BoardObject.truncate_def split: if_splits)
    moreover have "obj_id t' = ?i" using t'(1) by (auto simp: stamped_def split: if_splits)
    moreover have "(registered (TankObj t') c\<lparr>players := ?P\<rparr>)\<lparr>tanks := set_key ?i ?a (tanks c)\<rparr> = ?c3"
      by (rule GameCore.equality) (simp_all add: c2_def)
    moreover have "tanks (registered (TankObj t') c\<lparr>players := ?P\<rparr>) = tanks c"
      "objects (registered (TankObj t') c\<lparr>players := ?P\<rparr>) ?a = Some (TankObj t')"
      by (simp_all add: registered_def Let_def)
    ultimately show ?thesis by (simp add: init_tank_def)
  qed
  have made: "create_tank ?c1 = (stored (TankObj (new_Tank c\<lparr>obj_id := ?i\<rparr>)) ?c1, ?a)"
    "tank_at (stored (TankObj (new_Tank c\<lparr>obj_id := ?i\<rparr>)) ?c1) ?a = Some (new_Tank c\<lparr>obj_id := ?i\<rparr>)"
    by (simp_all add: create_stored new) (simp add: stored_def)
  have final: "put_tank ?a ?t (stored (TankObj (new_Tank c\<lparr>obj_id := ?i\<rparr>)) ?c1)\<lparr>players := ?P\<rparr>
      = stored (TankObj ?t) c\<lparr>players := ?P\<rparr>"
    by (rule GameCore.equality) (simp_all add: put_tank_def put_obj_def stored_def)
  have keep: "players (put_tank ?a ?t (stored (TankObj (new_Tank c\<lparr>obj_id := ?i\<rparr>)) ?c1)) = players ?c1"
    by (simp add: put_tank_def put_obj_def stored_def)
  have "add_player_with_tank uid c = Some (c', Some ?a)"
    using pt step [folded final] c' made keep unfolding add_player_with_tank_def p_def [symmetric]
    by (simp add: Let_def)
  moreover have "get_tank c' ?i = Some ?a"
    using st assms(1) by (simp add: evolves_def c2_def get_tank_def find_key_set_key core_ok_def maps_ok_def)
  moreover have "\<exists>t. objects c' ?a = Some (TankObj t) \<and> unit_user_id t = uid \<and> healt t = 100"
    using c' obj2 t' by (auto simp: handle_new_def Let_def put_obj_def triger_change_def split: if_splits)
  moreover have "map_option player_tank (get_player c' uid) = Some (Some ?a)"
    using st ordp by (simp add: evolves_def get_player_def find_key_set_key ordered_set_key)
  moreover have "blocks c' = blocks c \<and> block_lines c' = block_lines c \<and> core_time c' = core_time c
      \<and> start_time c' = start_time c \<and> server c' = server c"
    using st by (simp add: evolves_def c2_def registered_def Let_def)
  moreover have "\<forall>v. v \<noteq> uid \<longrightarrow> get_player c' v = get_player c v"
    using st ordp by (simp add: evolves_def get_player_def find_key_set_key ordered_set_key)
  ultimately show ?thesis using st by blast
qed
end
