(* ===== verification/GameRun.thy ===== *)
theory GameRun
  imports GameInv
begin

text \<open>
  The games a server can reach: creation, \<open>init\<close>, the clock and the bots that \<open>Room::init\<close> sets,
  joining players, actions and steps, in any order (\<open>game\<close>), and the properties of a game.
\<close>

section \<open>Reachable games\<close>

inductive game :: "libm \<Rightarrow> GameCore \<Rightarrow> bool" for m :: libm where
  start: "game m (new_GameCore\<lparr>server := sv, start_time := s, milisecond_per_step := ms\<rparr>)"
| init: "game m c \<Longrightarrow> core_init m c = Some c' \<Longrightarrow> game m c'"
| serve: "game m c \<Longrightarrow> game m (c\<lparr>server := sv\<rparr>)"
| clock: "game m c \<Longrightarrow> game m (c\<lparr>core_time := 0, milisecond_per_step := ms, start_time := s\<rparr>)"
| join: "game m c \<Longrightarrow> add_player_with_tank uid c = Some (c', p) \<Longrightarrow> game m c'"
| move: "game m c \<Longrightarrow> tank_at c a = Some t \<Longrightarrow> game m (put_tank a (fst (add_action n f s cid t)) c)"
| bot: "game m c \<Longrightarrow> tank_at c a = Some t \<Longrightarrow> game m (put_tank a (t\<lparr>ai := brain\<rparr>) c)"
| shoot: "game m c \<Longrightarrow> add_shot_action n cid a c = Some (c', i) \<Longrightarrow> game m c'"
| step: "game m c \<Longrightarrow> core_update m c = Some c' \<Longrightarrow> game m c'"
| sent: "game m c \<Longrightarrow> game m (c\<lparr>last_step_events := []\<rparr>)"

inductive_cases game_start: "game m (new_GameCore\<lparr>server := sv\<rparr>)"

lemma core_ok_join:
  assumes "core_ok c" and "add_player_with_tank uid c = Some (c', q)"
  shows "core_ok c'"
proof (cases "find_key (players c) uid")
  case None
  then show ?thesis using add_player_new [OF assms(1), of uid] assms(2) by auto
next
  case (Some p)
  then show ?thesis
    using add_player_new [OF assms(1), of uid] add_player_again [OF assms(1) Some] assms
    by (cases "player_tank p") auto
qed

lemma core_ok_move:
  assumes "core_ok c" and "objects c a = Some (TankObj t)"
  shows "core_ok (put_tank a (fst (add_action n f s cid t)) c)"
proof -
  have "tank_later t (fst (add_action n f s cid t))"
    by (auto simp: tank_later_def add_action_def Let_def set_insert_multi is_farman_def)
  then show ?thesis using stays_put_tank [OF assms(2)] assms(1) by (simp add: stays_def)
qed

lemma core_ok_bot:
  assumes "core_ok c" and "objects c a = Some (TankObj t)"
  shows "core_ok (put_tank a (t\<lparr>ai := brain\<rparr>) c)"
proof -
  have "tank_later t (t\<lparr>ai := brain\<rparr>)" by (auto simp: tank_later_def is_farman_def)
  then show ?thesis using stays_put_tank [OF assms(2)] assms(1) by (simp add: stays_def)
qed

lemma core_ok_clock:
  assumes "core_ok c"
  shows "core_ok (c\<lparr>core_time := 0, milisecond_per_step := ms, start_time := s\<rparr>)"
proof -
  have "input_free (c\<lparr>core_time := 0, milisecond_per_step := ms, start_time := s\<rparr>) i = input_free c i" for i
    by (simp add: input_free_def shot_free_def split: Input.split)
  then show ?thesis using assms
    by (simp add: core_ok_def maps_ok_def kinds_ok_def ids_ok_def is_tank_def is_misle_def is_block_def is_line_def)
qed

lemma core_ok_counter:
  assumes "core_ok c"
  shows "core_ok (c\<lparr>shot_id_counter := shot_id_counter c + 1\<rparr>)"
proof -
  have "evolves c (c\<lparr>shot_id_counter := shot_id_counter c + 1\<rparr>)" by (simp add: evolves_def)
  from core_ok_same_maps [OF assms this] show ?thesis using core_ok_fresh [OF assms] by simp
qed

lemma core_ok_more_inputs:
  assumes "core_ok c" and "objects c a = Some (TankObj t)" and "\<forall>ki \<in> set (inps t'). input_free c (snd ki)"
  shows "core_ok (put_tank a t' c)"
proof -
  let ?c = "put_tank a t' c"
  have objs: "objects ?c = (objects c)(a \<mapsto> TankObj t')"
    and same: "tanks ?c = tanks c" "shots ?c = shots c" "all_objects ?c = all_objects c"
    "zombies ?c = zombies c" "players ?c = players c" "blocks ?c = blocks c" "block_lines ?c = block_lines c"
    "next_obj ?c = next_obj c" "shot_id_counter ?c = shot_id_counter c"
    by (simp_all add: put_tank_def put_obj_def)
  have free: "input_free ?c x = input_free c x" for x
    by (simp add: input_free_def shot_free_def same split: Input.split)
  have kinds: "is_tank ?c b = is_tank c b" "is_misle ?c b = is_misle c b" "is_block ?c b = is_block c b"
    "is_line ?c b = is_line c b" "(objects ?c b = None) = (objects c b = None)" for b
    using assms(2) by (auto simp: is_tank_def is_misle_def is_block_def is_line_def objs)
  have "kinds_ok c" using assms(1) by (simp add: core_ok_def)
  then have "kinds_ok ?c" by (simp add: kinds_ok_def kinds same del: not_None_eq)
  moreover have "ids_ok ?c"
    using assms(1,3) unfolding core_ok_def ids_ok_def same free objs by auto
  ultimately show ?thesis using assms(1) by (simp add: core_ok_def maps_ok_def same)
qed

lemma core_ok_shoot:
  assumes "core_ok c" and "add_shot_action n cid a c = Some (c', i)"
  shows "core_ok c'"
proof -
  let ?c = "c\<lparr>shot_id_counter := shot_id_counter c + 1\<rparr>"
  obtain t t' where t: "objects c a = Some (TankObj t)" "c' = put_tank a t' ?c"
    "set (inps t') = insert (n, i) (set (inps t))"
    "i = InputShot \<lparr>input_id = n, client_id = cid, trigger_step = n\<rparr> (shot_id_counter c + 1) False (Fin 0)"
    using assms(2)
    by (auto simp: add_shot_action_def bind_Some_iff generate_shot_id_def Let_def set_insert_multi)
  have ok: "core_ok ?c" using core_ok_counter [OF assms(1)] .
  have "find_key (tanks c) (shot_id_counter c + 1) = None"
    using assms(1) by (cases "find_key (tanks c) (shot_id_counter c + 1)")
      (fastforce simp: core_ok_def ids_ok_def)+
  then have "input_free ?c i" using t(4) by (simp add: input_free_def shot_free_def)
  then have "core_ok (put_tank a t' ?c)"
    using core_ok_more_inputs [OF ok, of a t t'] t core_ok_input [OF ok] by auto
  then show ?thesis using t(2) by simp
qed

lemma game_core_ok: "game m c \<Longrightarrow> core_ok c"
proof (induction rule: game.induct)
  case (init c c')
  then show ?case using core_init_loads [OF init.IH, of m] by auto
next
  case (step c c')
  then show ?case using tanks_after_update(1) by blast
qed (auto simp: core_ok_new core_ok_flags intro: core_ok_join core_ok_move core_ok_bot core_ok_clock core_ok_shoot)

section \<open>Targets\<close>

lemma flt_trans: "flt x y \<Longrightarrow> flt y u \<Longrightarrow> flt x u"
  by (cases x; cases y; cases u) auto

lemma flt_irrefl: "\<not> flt x x"
  by (cases x) auto

text \<open>The tanks at the positions \<open>xs\<close> of the map that may be shot at, with their ids.\<close>

definition targets :: "GameCore \<Rightarrow> addr \<Rightarrow> Tank \<Rightarrow> (int \<times> addr) set \<Rightarrow> (int \<times> Tank) set" where
  "targets c a me xs = {(i, t). \<exists>b. (i, b) \<in> xs \<and> objects c b = Some (TankObj t) \<and> may_target a me b t}"

definition nearest :: "Tank \<Rightarrow> (int \<times> Tank) set \<Rightarrow> fl \<Rightarrow> int \<Rightarrow> bool" where
  "nearest me E best res \<longleftrightarrow>
     (\<forall>(i, t) \<in> E. \<not> flt (target_distance me t) best)
     \<and> (res = 0 \<and> best = target_range me
        \<or> flt best (target_range me) \<and> (\<exists>t. (res, t) \<in> E \<and> target_distance me t = best))"

lemma nearest_result:
  assumes "nearest me E best res"
  shows "if \<exists>(i, t) \<in> E. flt (target_distance me t) (target_range me)
     then \<exists>t. (res, t) \<in> E \<and> flt (target_distance me t) (target_range me)
       \<and> (\<forall>(j, u) \<in> E. \<not> flt (target_distance me u) (target_distance me t))
     else res = 0"
proof (cases "flt best (target_range me) \<and> (\<exists>t. (res, t) \<in> E \<and> target_distance me t = best)")
  case True
  then obtain t where t: "(res, t) \<in> E" "target_distance me t = best" "flt best (target_range me)" by blast
  then have "\<exists>(i, t) \<in> E. flt (target_distance me t) (target_range me)" by auto
  then show ?thesis using t assms unfolding nearest_def by auto
next
  case False
  then show ?thesis using assms unfolding nearest_def by auto
qed

lemma target_loop:
  assumes "\<forall>(i, b) \<in> set xs. is_tank c b" and "nearest me (targets c a me ys) best res"
  shows "\<exists>best' res'. for_each (target_step c a me) xs (best, res) = Some (best', res')
     \<and> nearest me (targets c a me (ys \<union> set xs)) best' res'"
  using assms
proof (induction xs arbitrary: ys best res)
  case (Cons x xs)
  obtain i b t where x: "x = (i, b)" "objects c b = Some (TankObj t)"
    using Cons.prems(1) by (cases x) (auto simp: is_tank_def)
  let ?d = "target_distance me t"
  let ?E = "targets c a me (insert x ys)"
  have E: "?E = (if may_target a me b t then insert (i, t) (targets c a me ys) else targets c a me ys)"
    using x by (auto simp: targets_def)
  let ?r = "if may_target a me b t \<and> flt ?d best then (?d, i) else (best, res)"
  have "target_step c a me x (best, res) = Some ?r" using x by (simp add: target_step_def)
  moreover have "nearest me ?E (fst ?r) (snd ?r)"
    using Cons.prems(2) flt_trans flt_irrefl unfolding nearest_def E by (auto split: if_splits)
  moreover have "\<forall>(i, b) \<in> set xs. is_tank c b" using Cons.prems(1) by simp
  ultimately show ?case using Cons.IH [of "insert x ys" "fst ?r" "snd ?r"] by (auto simp: insert_commute)
qed simp

lemma run_input_farman:
  assumes "objects c a = Some (TankObj t)" and "trigger_step b = my_step t"
  shows "\<exists>c' t'. run_input m (InputFarman b f s) a c = Some c' \<and> objects c' a = Some (TankObj t')
     \<and> target_angle t' = f \<and> my_step t' = my_step t \<and> inps t' = inps t \<and> core_time c' = core_time c"
proof -
  let ?t = "t\<lparr>target_angle := f, speed := s\<rparr>"
  let ?t1 = "if flt (speed ?t) (Fin 0) then ?t\<lparr>speed := Fin 0\<rparr> else ?t"
  let ?t2 = "if fgt (speed ?t1) (max_speed ?t1) then ?t1\<lparr>speed := max_speed ?t1\<rparr> else ?t1"
  have f: "target_angle ?t2 = f" "my_step ?t2 = my_step t" "inps ?t2 = inps t" by simp_all
  have "run_on_this m (InputFarman b f s) a c = Some (put_tank a ?t2 c)"
    using assms(1) by (simp only: run_on_this.simps at_objects Let_def bind.bind_lunit)
  then obtain t2 where t2: "run_on_this m (InputFarman b f s) a c = Some (put_tank a t2 c)"
    "target_angle t2 = f" "my_step t2 = my_step t" "inps t2 = inps t" using f by blast
  show ?thesis using assms t2(2-4)
    by (cases "server c") (simp_all add: run_input_def t2(1) put_tank_def put_obj_def triger_change_def Let_def
        del: run_on_this.simps)
qed

section \<open>Properties\<close>

text \<open>C11. In every reachable game the id maps are ordered and lead to allocated objects of their
  kind: every tank is also among all objects, every player's tank is a tank.\<close>

theorem game_maps:
  assumes "game m c"
  shows "ordered (tanks c) \<and> ordered (shots c) \<and> ordered (all_objects c) \<and> ordered (players c)
     \<and> (\<forall>i a. get_tank c i = Some a \<longrightarrow> get_object c i = Some a \<and> (\<exists>t. objects c a = Some (TankObj t)))
     \<and> (\<forall>i a. find_key (shots c) i = Some a \<longrightarrow> (\<exists>t. objects c a = Some (MisleObj t)))
     \<and> (\<forall>i a. get_object c i = Some a \<longrightarrow> objects c a \<noteq> None)
     \<and> (\<forall>i p a. get_player c i = Some p \<and> player_tank p = Some a \<longrightarrow> (\<exists>t. objects c a = Some (TankObj t)))"
proof -
  have "maps_ok c" "kinds_ok c" using game_core_ok [OF assms] by (simp_all add: core_ok_def)
  then show ?thesis
    unfolding maps_ok_def kinds_ok_def get_tank_def get_object_def get_player_def is_tank_def is_misle_def
    by blast
qed

definition no_trig :: libm where
  "no_trig = \<lparr>cosf = (\<lambda>x. Fin 1), sinf = (\<lambda>x. Fin 0), acosf = (\<lambda>x. Fin 0)\<rparr>"

lemma game_with_player:
  "\<exists>c. game m c \<and> get_tank c 1 = Some 0 \<and> server c
     \<and> (\<exists>t. objects c 0 = Some (TankObj t) \<and> unit_user_id t = 7 \<and> healt t = 100)
     \<and> map_option player_tank (get_player c 7) = Some (Some 0)"
proof -
  let ?c = "new_GameCore\<lparr>server := True, start_time := 0, milisecond_per_step := 20\<rparr>"
  have g: "game m ?c" by (rule game.start)
  have "find_key (players ?c) 7 = None" "next_obj ?c = 0" "shot_id_counter ?c = 0"
    by (simp_all add: new_GameCore_def)
  with add_player_new [OF game_core_ok [OF g], of 7] obtain c' where c':
    "add_player_with_tank 7 ?c = Some (c', Some 0)" "get_tank c' 1 = Some 0"
    "\<exists>t. objects c' 0 = Some (TankObj t) \<and> unit_user_id t = 7 \<and> healt t = 100"
    "map_option player_tank (get_player c' 7) = Some (Some 0)" by auto
  let ?c' = "c'\<lparr>server := True\<rparr>"
  have "game m ?c'" using game.serve [OF game.join [OF g c'(1)]] .
  moreover have "get_tank ?c' 1 = Some 0" "map_option player_tank (get_player ?c' 7) = Some (Some 0)"
    using c'(2,4) by (simp_all add: get_tank_def get_player_def)
  ultimately show ?thesis using c'(3) by (intro exI [of _ ?c']) simp
qed

theorem game_maps_witness:
  "\<exists>c a t. game no_trig c \<and> get_tank c 1 = Some a \<and> get_object c 1 = Some a \<and> objects c a = Some (TankObj t)"
proof -
  obtain c where c: "game no_trig c" "get_tank c 1 = Some 0" using game_with_player by blast
  from game_maps [OF c(1)] c show ?thesis by blast
qed

text \<open>A server's core with the tank \<open>t\<close> of user 7, for the examples.\<close>

definition one_tank_core :: "Tank \<Rightarrow> GameCore" where
  "one_tank_core t = new_GameCore\<lparr>server := True, objects := [0 \<mapsto> TankObj t], next_obj := 1,
     tanks := [(1, 0)], all_objects := [(1, 0)], zombies := [(1, 0)], shot_id_counter := 1,
     players := [(7, \<lparr>player_user_id = 7, player_tank = Some 0\<rparr>)]\<rparr>"

lemma core_ok_one_tank: "inps t = [] \<Longrightarrow> core_ok (one_tank_core t)"
  by (auto simp: one_tank_core_def core_ok_def maps_ok_def kinds_ok_def ids_ok_def new_GameCore_def
      is_tank_def is_misle_def ordered_def split: if_splits)

lemma one_tank_dies:
  assumes "healt t < 0"
  shows "\<exists>c'. core_update m (one_tank_core t) = Some c' \<and> objects c' 0 \<noteq> None"
  using assms
  by (simp add: core_update_def one_tank_core_def new_GameCore_def kill_tanks_def dead_def on_ded_def
      Let_def tank_at_def put_obj_def triger_change_def removed_ids_def BoardObject.truncate_def
      forget_object_def check_collision_def)

definition sunk :: Tank where
  "sunk = new_Tank new_GameCore\<lparr>obj_id := 1, healt := - 20\<rparr>"

lemma sunk_fields: "inps sunk = []" "healt sunk = - 20"
  by (simp_all add: sunk_def new_Tank_def Unit.extend_def Tank.fields_def)

text \<open>C22. A step advances the time by one, keeps the maps well formed and removes exactly the tanks
  that are marked for removal or, on a server, have negative health; a tank with health zero
  stays.\<close>

theorem step_removes_tanks:
  assumes "core_ok c" and "core_update m c = Some c'"
  shows "core_time c' = core_time c + 1 \<and> core_ok c'
     \<and> (\<forall>i. get_tank c' i = (case get_tank c i of None \<Rightarrow> None
          | Some a \<Rightarrow> if \<exists>t. objects c a = Some (TankObj t) \<and> (for_remove t \<or> server c \<and> healt t < 0)
                     then None else Some a))"
proof -
  note u = tanks_after_update [OF assms]
  have "doomed c = (\<lambda>a. \<exists>t. objects c a = Some (TankObj t) \<and> (for_remove t \<or> server c \<and> healt t < 0))"
    by (auto simp: doomed_def fun_eq_iff split: option.split object.split)
  note u5 = u(5) [unfolded this]
  show ?thesis using u(1,2) unfolding get_tank_def u5 by simp
qed

theorem step_removes_tanks_witness:
  "\<exists>c'. core_update no_trig (one_tank_core sunk) = Some c' \<and> core_time c' = 1 \<and> get_tank c' 1 = None"
proof -
  obtain c' where c': "core_update no_trig (one_tank_core sunk) = Some c'"
    using one_tank_dies [of sunk no_trig] sunk_fields by auto
  have "core_ok (one_tank_core sunk)" using sunk_fields core_ok_one_tank by simp
  from step_removes_tanks [OF this c'] have "core_time c' = core_time (one_tank_core sunk) + 1"
    "get_tank c' 1 = None"
    using sunk_fields by (simp_all add: one_tank_core_def get_tank_def)
  then show ?thesis using c' by (simp add: one_tank_core_def new_GameCore_def)
qed

text \<open>C37. A player whose tank dies never gets another: after the step the tank is in no map, and
  joining again returns that tank and changes nothing.\<close>

theorem no_respawn:
  assumes "core_ok c" and "get_player c uid = Some p" and "player_tank p = Some a"
    and "get_tank c i = Some a" and "objects c a = Some (TankObj t)" and "server c" and "healt t < 0"
    and "core_update m c = Some c'"
  shows "get_tank c' i = None \<and> add_player_with_tank uid c' = Some (c', Some a)"
proof -
  note u = tanks_after_update [OF assms(1,8)]
  have "get_tank c' i = None" using u(5) [of i] assms(4-7) by (simp add: get_tank_def doomed_def)
  moreover have "add_player_with_tank uid c' = Some (c', Some a)"
    using add_player_again [OF u(1), of uid p a] u(3) assms(2,3) by (simp add: get_player_def)
  ultimately show ?thesis by simp
qed

theorem no_respawn_witness:
  "\<exists>c'. core_update no_trig (one_tank_core sunk) = Some c' \<and> add_player_with_tank 7 c' = Some (c', Some 0)"
proof -
  obtain c' where c': "core_update no_trig (one_tank_core sunk) = Some c'"
    using one_tank_dies [of sunk no_trig] sunk_fields by auto
  have ok: "core_ok (one_tank_core sunk)" using sunk_fields core_ok_one_tank by simp
  have "get_player (one_tank_core sunk) 7 = Some \<lparr>player_user_id = 7, player_tank = Some 0\<rparr>"
    "player_tank \<lparr>player_user_id = 7, player_tank = Some 0\<rparr> = Some 0"
    "get_tank (one_tank_core sunk) 1 = Some 0" "objects (one_tank_core sunk) 0 = Some (TankObj sunk)"
    "server (one_tank_core sunk)" "healt sunk < 0"
    using sunk_fields by (simp_all add: one_tank_core_def get_player_def get_tank_def)
  from no_respawn [OF ok this c'] c' show ?thesis by blast
qed

text \<open>C31. \<open>sugesst_target\<close> always returns: the id of a living tank of another team (of any team for
  team 0) within range such that no other is nearer, or 0 if there is none in range.\<close>

theorem nearest_target:
  assumes "core_ok c" and "objects c a = Some (TankObj me)"
  shows "\<exists>res. sugesst_target a c = Some res
     \<and> (let E = {(i, t). \<exists>b. get_tank c i = Some b \<and> objects c b = Some (TankObj t) \<and> b \<noteq> a
               \<and> \<not> for_remove t \<and> (team_index t \<noteq> team_index me \<or> team_index me = 0)};
            d = target_distance me
        in if \<exists>(i, t) \<in> E. flt (d t) (target_range me)
           then \<exists>t. (res, t) \<in> E \<and> flt (d t) (target_range me) \<and> (\<forall>(j, u) \<in> E. \<not> flt (d u) (d t))
           else res = 0)"
proof -
  have tk: "\<forall>(i, b) \<in> set (tanks c). is_tank c b" "ordered (tanks c)"
    using assms(1) in_find_key [of "tanks c"] by (auto simp: core_ok_def maps_ok_def kinds_ok_def)
  have "nearest me (targets c a me {}) (target_range me) 0" by (simp add: nearest_def targets_def)
  from target_loop [OF tk(1) this] obtain best res where
    r: "for_each (target_step c a me) (tanks c) (target_range me, 0) = Some (best, res)"
    "nearest me (targets c a me (set (tanks c))) best res" by auto
  define E where "E = {(i, t). \<exists>b. get_tank c i = Some b \<and> objects c b = Some (TankObj t) \<and> b \<noteq> a
     \<and> \<not> for_remove t \<and> (team_index t \<noteq> team_index me \<or> team_index me = 0)}"
  have iff: "(i, b) \<in> set (tanks c) \<longleftrightarrow> get_tank c i = Some b" for i b
    unfolding get_tank_def using in_find_key [OF tk(2)] find_key_Some_in by (rule iffI)
  have "targets c a me (set (tanks c)) = E"
    unfolding E_def targets_def may_target_def iff by (simp add: conj_commute conj_left_commute)
  note near = nearest_result [OF r(2) [unfolded this]]
  have st: "sugesst_target a c = Some res" using r(1) assms(2) by (simp add: sugesst_target_def)
  show ?thesis unfolding Let_def E_def [symmetric]
    by (rule exI [of _ res], rule conjI, rule st, rule near)
qed

theorem nearest_target_witness:
  "sugesst_target 0 (one_tank_core sunk) = Some 0"
proof -
  have ok: "core_ok (one_tank_core sunk)" using sunk_fields core_ok_one_tank by simp
  have "objects (one_tank_core sunk) 0 = Some (TankObj sunk)" by (simp add: one_tank_core_def)
  from nearest_target [OF ok this] obtain res where res: "sugesst_target 0 (one_tank_core sunk) = Some res"
    "let E = {(i, t). \<exists>b. get_tank (one_tank_core sunk) i = Some b
               \<and> objects (one_tank_core sunk) b = Some (TankObj t) \<and> b \<noteq> 0
               \<and> \<not> for_remove t \<and> (team_index t \<noteq> team_index sunk \<or> team_index sunk = 0)};
         d = target_distance sunk
     in if \<exists>(i, t) \<in> E. flt (d t) (target_range sunk)
        then \<exists>t. (res, t) \<in> E \<and> flt (d t) (target_range sunk) \<and> (\<forall>(j, u) \<in> E. \<not> flt (d u) (d t))
        else res = 0" by blast
  have "get_tank (one_tank_core sunk) i = Some b \<longrightarrow> b = 0" for i b
    by (simp add: get_tank_def one_tank_core_def)
  then have "res = 0" using res(2) by (auto simp: Let_def split: if_splits)
  then show ?thesis using res(1) by simp
qed



end
