(* ===== verification/ClientSync.thy ===== *)
theory ClientSync
  imports FloatBits GameRun
begin

text \<open>
  What a client makes of the states the server sends: the \<open>set_data\<close> functions of \<open>BoardObject.cpp\<close>,
  \<open>Tank.cpp\<close>, \<open>Misle.cpp\<close> and \<open>PlatformLine.cpp\<close>, which this repository shares with the client. They
  undo \<open>get_data\<close>. \<open>last_update_from_server_time\<close> is the same memory as \<open>last_event_time\<close>.
\<close>

section \<open>Reading a state\<close>

definition bits_point :: "int \<Rightarrow> Point" where
  "bits_point n = pt (bits_float (n mod 2 ^ 32)) (bits_float (n div 2 ^ 32))"

definition set_board :: "buffer \<Rightarrow> 'a BoardObject_scheme \<Rightarrow> 'a BoardObject_scheme" where
  "set_board b t =
     (let now = field BoardObjectState ''room_time'' b
      in t\<lparr>obj_id := field BoardObjectState ''object_id'' b, pos := bits_point (field BoardObjectState ''pos'' b),
           z := bits_float (field BoardObjectState ''z'' b), angle := bits_float (field BoardObjectState ''angle'' b),
           radius := bits_float (field BoardObjectState ''r'' b), last_event_time := now, my_step := now\<rparr>)"

definition set_live :: "buffer \<Rightarrow> 'a LiveBoardObject_scheme \<Rightarrow> 'a LiveBoardObject_scheme" where
  "set_live b t =
     (set_board b t)\<lparr>speed := bits_float (field LiveBoardObjectState ''speed'' b),
        healt := field LiveBoardObjectState ''healt'' b, max_healt := field LiveBoardObjectState ''max_healt'' b,
        born_step := field LiveBoardObjectState ''born_step'' b,
        max_speed := bits_float (field LiveBoardObjectState ''max_speed'' b)\<rparr>"

text \<open>A state that is older than what the object already shows is ignored.\<close>

definition stale :: "buffer \<Rightarrow> 'a BoardObject_scheme \<Rightarrow> bool" where
  "stale b t \<longleftrightarrow> last_event_time t > field BoardObjectState ''room_time'' b"

definition set_unit :: "buffer \<Rightarrow> 'a Unit_scheme \<Rightarrow> 'a Unit_scheme" where
  "set_unit b t =
     (if stale b t then t
      else (set_live b t)\<lparr>target_angle := bits_float (field UnitState ''target_angle'' b),
             unit_user_id := field UnitState ''user_id'' b,
             angle_speed := bits_float (field UnitState ''angle_speed'' b)\<rparr>)"

definition set_tank_data :: "buffer \<Rightarrow> Tank \<Rightarrow> Tank" where
  "set_tank_data b t =
     (if stale b t then t
      else (set_unit b t)\<lparr>canon_angle := bits_float (field TankState ''canon_angle'' b),
             target_range := bits_float (field TankState ''target_range'' b),
             shot_damage := field TankState ''shot_damage'' b,
             remain_shot := bits_float (field TankState ''remain_shot'' b)\<rparr>)"

definition set_misle_data :: "buffer \<Rightarrow> Misle \<Rightarrow> Misle" where
  "set_misle_data b t =
     (if stale b t then t
      else (set_live b t)\<lparr>misle_owner := field BoardObjectState ''owner_id'' b,
             max_dis := bits_float (field MisleState ''max_dis'' b), damage := field MisleState ''damage'' b\<rparr>)"

definition set_circle_data :: "buffer \<Rightarrow> BoardObject \<Rightarrow> BoardObject" where
  "set_circle_data b t = (if stale b t then t else set_board b t)"

definition line_refresh :: "libm \<Rightarrow> PlatformLine \<Rightarrow> PlatformLine" where
  "line_refresh m t = (let l = l_refresh (seg t) in t\<lparr>seg := l, angle := find_angle m (direction l)\<rparr>)"

definition set_line_data :: "libm \<Rightarrow> buffer \<Rightarrow> PlatformLine \<Rightarrow> PlatformLine" where
  "set_line_data m b t =
     (if stale b t then t
      else let t = set_board b t
           in line_refresh m (t\<lparr>seg := (seg t)\<lparr>l_start := bits_point (field PlatformLineState ''start'' b),
                l_finish := bits_point (field PlatformLineState ''finish'' b)\<rparr>\<rparr>))"

fun set_data :: "libm \<Rightarrow> buffer \<Rightarrow> object \<Rightarrow> object" where
  "set_data m b (TankObj t) = TankObj (set_tank_data b t)"
| "set_data m b (MisleObj t) = MisleObj (set_misle_data b t)"
| "set_data m b (BlockObj t) = BlockObj (set_circle_data b t)"
| "set_data m b (LineObj t) = LineObj (set_line_data m b t)"

section \<open>What a client should see\<close>

definition mirror_board :: "GameCore \<Rightarrow> 'a BoardObject_scheme \<Rightarrow> 'b BoardObject_scheme \<Rightarrow> 'b BoardObject_scheme" where
  "mirror_board c t t0 = t0\<lparr>obj_id := obj_id t, pos := pos t, z := z t, angle := angle t, radius := radius t,
     last_event_time := core_time c, my_step := core_time c\<rparr>"

definition mirror_live :: "GameCore \<Rightarrow> 'a LiveBoardObject_scheme \<Rightarrow> 'b LiveBoardObject_scheme \<Rightarrow> 'b LiveBoardObject_scheme" where
  "mirror_live c t t0 = (mirror_board c t t0)\<lparr>speed := speed t, healt := healt t, max_healt := max_healt t,
     born_step := born_step t, max_speed := max_speed t\<rparr>"

text \<open>The object \<open>t0\<close> of a client with everything that is sent taken from the object \<open>t\<close> of the server.\<close>

fun mirror :: "libm \<Rightarrow> GameCore \<Rightarrow> object \<Rightarrow> object \<Rightarrow> object" where
  "mirror m c (TankObj t) (TankObj t0) = TankObj ((mirror_live c t t0)\<lparr>target_angle := target_angle t,
     unit_user_id := unit_user_id t, angle_speed := angle_speed t, canon_angle := canon_angle t,
     target_range := target_range t, shot_damage := shot_damage t, remain_shot := remain_shot t\<rparr>)"
| "mirror m c (MisleObj t) (MisleObj t0) = MisleObj ((mirror_live c t t0)\<lparr>misle_owner := misle_owner t,
     max_dis := max_dis t, damage := damage t\<rparr>)"
| "mirror m c (BlockObj t) (BlockObj t0) = BlockObj (mirror_board c t t0)"
| "mirror m c (LineObj t) (LineObj t0) = LineObj (line_refresh m ((mirror_board c t t0)\<lparr>seg := (seg t0)\<lparr>
     l_start := l_start (seg t), l_finish := l_finish (seg t)\<rparr>\<rparr>))"
| "mirror m c t t0 = t0"

fun same_kind :: "object \<Rightarrow> object \<Rightarrow> bool" where
  "same_kind (TankObj t) (TankObj t0) \<longleftrightarrow> True"
| "same_kind (MisleObj t) (MisleObj t0) \<longleftrightarrow> True"
| "same_kind (BlockObj t) (BlockObj t0) \<longleftrightarrow> True"
| "same_kind (LineObj t) (LineObj t0) \<longleftrightarrow> True"
| "same_kind t t0 \<longleftrightarrow> False"

text \<open>Every number fits its field.\<close>

definition is_float_point :: "Point \<Rightarrow> bool" where
  "is_float_point p \<longleftrightarrow> is_float (px p) \<and> is_float (py p)"

definition board_fits :: "GameCore \<Rightarrow> 'a BoardObject_scheme \<Rightarrow> bool" where
  "board_fits c t \<longleftrightarrow> in_i32 (core_time c) \<and> in_i64 (obj_id t) \<and> is_float_point (pos t) \<and> is_float (z t)
     \<and> is_float (angle t) \<and> is_float (radius t)"

definition live_fits :: "GameCore \<Rightarrow> 'a LiveBoardObject_scheme \<Rightarrow> bool" where
  "live_fits c t \<longleftrightarrow> board_fits c t \<and> is_float (speed t) \<and> is_float (max_speed t) \<and> in_i32 (healt t)
     \<and> in_i32 (max_healt t) \<and> in_i32 (born_step t)"

fun sendable :: "GameCore \<Rightarrow> object \<Rightarrow> bool" where
  "sendable c (TankObj t) \<longleftrightarrow> live_fits c t \<and> is_float (target_angle t) \<and> in_i64 (unit_user_id t)
     \<and> is_float (angle_speed t) \<and> is_float (canon_angle t) \<and> is_float (target_range t) \<and> in_i32 (shot_damage t)
     \<and> is_float (remain_shot t)"
| "sendable c (MisleObj t) \<longleftrightarrow> live_fits c t \<and> in_i64 (misle_owner t) \<and> is_float (max_dis t) \<and> in_i32 (damage t)"
| "sendable c (BlockObj t) \<longleftrightarrow> board_fits c t"
| "sendable c (LineObj t) \<longleftrightarrow> board_fits c t \<and> is_float_point (l_start (seg t)) \<and> is_float_point (l_finish (seg t))"

section \<open>Reading back\<close>

lemma read_back:
  assumes "\<forall>(f, v) \<in> set fvs. fits_field l f v" and "distinct (map fst fvs)"
  shows "\<forall>(f, v) \<in> set fvs. field l f (write_all l fvs (zeroed l)) = v"
  using struct.get_put_all(2) [of l "zeroed l" fvs] assms by (auto simp: write_all_def zeroed_def)

lemma bits_point_bits: "is_float_point p \<Longrightarrow> bits_point (point_bits p) = p"
  using float_bits_range [of "px p"] bits_float_bits [of "px p"] bits_float_bits [of "py p"]
  by (simp add: bits_point_def point_bits_def is_float_point_def pt_def)

lemma point_bits_range: "is_float_point p \<Longrightarrow> 0 \<le> point_bits p \<and> point_bits p < 2 ^ 64"
  using float_bits_range [of "px p"] float_bits_range [of "py p"]
  by (auto simp: point_bits_def is_float_point_def)

text \<open>Where the fields are, and that a state seen through its base class has the same ones.\<close>

definition field_type :: "layout \<Rightarrow> string \<Rightarrow> ctype option" where
  "field_type l f = map_option snd (field_at l f)"

lemma fits_via_type: "fits_field l f v \<longleftrightarrow> (case field_type l f of None \<Rightarrow> False | Some k \<Rightarrow> in_range k v)"
  by (auto simp: fits_field_def field_type_def split: option.split)

lemma tank_types:
  "map (field_type TankState) [''object_type'', ''object_id'', ''room_time'', ''pos'', ''z'', ''r'', ''angle'',
     ''speed'', ''max_healt'', ''max_speed'', ''healt'', ''born_step'', ''user_id'', ''target_angle'', ''angle_speed'',
     ''target_range'', ''canon_angle'', ''remain_shot'', ''shot_damage'']
   = map Some [CUInt, CLong, CInt, CStruct 8, CFloat, CFloat, CFloat, CFloat, CInt, CFloat, CInt, CInt, CLong, CFloat, CFloat,
     CFloat, CFloat, CFloat, CInt]"
  by code_simp

lemma board_types:
  "map (field_type BoardObjectState) [''object_type'', ''object_id'', ''room_time'', ''pos'', ''z'', ''r'', ''angle'']
   = map Some [CUInt, CLong, CInt, CStruct 8, CFloat, CFloat, CFloat]"
  by code_simp

lemma misle_types:
  "map (field_type MisleState) [''object_type'', ''object_id'', ''owner_id'', ''room_time'', ''pos'', ''z'', ''r'', ''angle'',
     ''speed'', ''max_healt'', ''max_speed'', ''healt'', ''born_step'', ''max_dis'', ''angle_speed'', ''damage'']
   = map Some [CUInt, CLong, CLong, CInt, CStruct 8, CFloat, CFloat, CFloat, CFloat, CInt, CFloat, CInt, CInt, CFloat, CFloat, CInt]"
  by code_simp

lemma line_types:
  "map (field_type PlatformLineState) [''object_type'', ''object_id'', ''room_time'', ''pos'', ''z'', ''r'', ''angle'',
     ''start'', ''finish'']
   = map Some [CUInt, CLong, CInt, CStruct 8, CFloat, CFloat, CFloat, CStruct 8, CStruct 8]"
  by code_simp

lemma seen_as_board:
  assumes "f \<in> set [''object_type'', ''event_type'', ''object_id'', ''owner_id'', ''room_time'', ''pos'', ''z'', ''r'', ''angle'']"
  shows "field BoardObjectState f b = field TankState f b" and "field BoardObjectState f b = field MisleState f b"
    and "field BoardObjectState f b = field PlatformLineState f b"
proof -
  have f: "f \<in> fst ` set BoardObjectState" using assms unfolding BoardObjectState_def by auto
  then have g: "f \<in> fst ` set LiveBoardObjectState" "f \<in> fst ` set UnitState"
    unfolding LiveBoardObjectState_def UnitState_def by auto
  have live: "field LiveBoardObjectState f b = field BoardObjectState f b"
    unfolding LiveBoardObjectState_def by (rule field_base [OF f])
  have unit: "field UnitState f b = field LiveBoardObjectState f b" unfolding UnitState_def by (rule field_base [OF g(1)])
  have "field TankState f b = field UnitState f b" unfolding TankState_def by (rule field_base [OF g(2)])
  then show "field BoardObjectState f b = field TankState f b" using unit live by simp
  have "field MisleState f b = field LiveBoardObjectState f b" unfolding MisleState_def by (rule field_base [OF g(1)])
  then show "field BoardObjectState f b = field MisleState f b" using live by simp
  show "field BoardObjectState f b = field PlatformLineState f b"
    unfolding PlatformLineState_def by (rule field_base [OF f, symmetric])
qed

lemma seen_as_live:
  assumes "f \<in> set [''speed'', ''max_healt'', ''max_speed'', ''healt'', ''born_step'']"
  shows "field LiveBoardObjectState f b = field TankState f b" and "field LiveBoardObjectState f b = field MisleState f b"
proof -
  have f: "f \<in> fst ` set LiveBoardObjectState" using assms unfolding LiveBoardObjectState_def by auto
  then have g: "f \<in> fst ` set UnitState" unfolding UnitState_def by auto
  have "field UnitState f b = field LiveBoardObjectState f b" unfolding UnitState_def by (rule field_base [OF f])
  moreover have "field TankState f b = field UnitState f b" unfolding TankState_def by (rule field_base [OF g])
  ultimately show "field LiveBoardObjectState f b = field TankState f b" by simp
  show "field LiveBoardObjectState f b = field MisleState f b" unfolding MisleState_def by (rule field_base [OF f, symmetric])
qed

lemma seen_as_unit:
  assumes "f \<in> set [''user_id'', ''target_angle'', ''angle_speed'']"
  shows "field UnitState f b = field TankState f b"
proof -
  have "f \<in> fst ` set UnitState" using assms unfolding UnitState_def by auto
  from field_base [OF this] show ?thesis unfolding TankState_def by metis
qed

lemmas object_data = tank_data_def misle_data_def circle_data_def line_data_def unit_data_def live_data_def board_data_def
lemmas fit_defs = live_fits_def board_fits_def

lemma states_read_back:
  "sendable c (TankObj t) \<Longrightarrow>
     \<forall>(f, v) \<in> set (tank_data c t). field TankState f (write_all TankState (tank_data c t) (zeroed TankState)) = v"
  "sendable c (MisleObj u) \<Longrightarrow> \<forall>(f, v) \<in> set ((''angle_speed'', float_bits (Fin 1)) # misle_data c u).
     field MisleState f (write_all MisleState ((''angle_speed'', float_bits (Fin 1)) # misle_data c u) (zeroed MisleState)) = v"
  "sendable c (BlockObj o_b) \<Longrightarrow> \<forall>(f, v) \<in> set (circle_data c o_b).
     field BoardObjectState f (write_all BoardObjectState (circle_data c o_b) (zeroed BoardObjectState)) = v"
  "sendable c (LineObj l) \<Longrightarrow> \<forall>(f, v) \<in> set (line_data c l).
     field PlatformLineState f (write_all PlatformLineState (line_data c l) (zeroed PlatformLineState)) = v"
proof -
  note range = float_bits_range point_bits_range
  have one: "is_float (Fin 1)" by code_simp
  assume "sendable c (TankObj t)"
  then have "\<forall>(f, v) \<in> set (tank_data c t). fits_field TankState f v"
    using tank_types range by (simp add: object_data fits_via_type fit_defs)
  then show "\<forall>(f, v) \<in> set (tank_data c t). field TankState f (write_all TankState (tank_data c t) (zeroed TankState)) = v"
    by (rule read_back) (simp add: object_data)
next
  have one: "is_float (Fin 1)" by code_simp
  assume "sendable c (MisleObj u)"
  then have "\<forall>(f, v) \<in> set ((''angle_speed'', float_bits (Fin 1)) # misle_data c u). fits_field MisleState f v"
    using misle_types float_bits_range point_bits_range float_bits_range [OF one]
    by (simp add: object_data fits_via_type fit_defs)
  then show "\<forall>(f, v) \<in> set ((''angle_speed'', float_bits (Fin 1)) # misle_data c u).
     field MisleState f (write_all MisleState ((''angle_speed'', float_bits (Fin 1)) # misle_data c u) (zeroed MisleState)) = v"
    by (rule read_back) (simp add: object_data)
next
  assume "sendable c (BlockObj o_b)"
  then have "\<forall>(f, v) \<in> set (circle_data c o_b). fits_field BoardObjectState f v"
    using board_types float_bits_range point_bits_range by (simp add: object_data fits_via_type fit_defs)
  then show "\<forall>(f, v) \<in> set (circle_data c o_b).
     field BoardObjectState f (write_all BoardObjectState (circle_data c o_b) (zeroed BoardObjectState)) = v"
    by (rule read_back) (simp add: object_data)
next
  assume "sendable c (LineObj l)"
  then have "\<forall>(f, v) \<in> set (line_data c l). fits_field PlatformLineState f v"
    using line_types float_bits_range point_bits_range by (simp add: object_data fits_via_type fit_defs)
  then show "\<forall>(f, v) \<in> set (line_data c l).
     field PlatformLineState f (write_all PlatformLineState (line_data c l) (zeroed PlatformLineState)) = v"
    by (rule read_back) (simp add: object_data)
qed

lemmas set_defs = set_tank_data_def set_misle_data_def set_circle_data_def set_line_data_def set_unit_def set_live_def
  set_board_def stale_def Let_def mirror_live_def mirror_board_def fit_defs object_data

lemma room_time_read:
  assumes "sendable c ob"
  shows "field BoardObjectState ''room_time'' (block_data (get_data c ob)) = core_time c"
proof (cases ob)
  case (TankObj t)
  then show ?thesis using states_read_back(1) [of c t] assms by (simp add: seen_as_board(1) object_data)
next
  case (MisleObj t)
  then show ?thesis using states_read_back(2) [of c t] assms by (simp add: seen_as_board(2) object_data)
next
  case (BlockObj t)
  then show ?thesis using states_read_back(3) [of c t] assms by (simp add: object_data)
next
  case (LineObj t)
  then show ?thesis using states_read_back(4) [of c t] assms by (simp add: seen_as_board(3) object_data)
qed

lemma truncated_time [simp]: "last_event_time (BoardObject.truncate t) = last_event_time t"
  by (simp add: BoardObject.truncate_def)

lemma set_data_stale:
  assumes "sendable c ob" and "core_time c < last_event_time (base_of ob0)"
  shows "set_data m (block_data (get_data c ob)) ob0 = ob0"
  using assms room_time_read [OF assms(1)]
  by (cases ob0) (simp_all add: set_tank_data_def set_misle_data_def set_circle_data_def set_line_data_def stale_def
      del: get_data.simps)

lemma set_data_mirror:
  assumes "sendable c ob" and "same_kind ob ob0" and "\<not> core_time c < last_event_time (base_of ob0)"
  shows "set_data m (block_data (get_data c ob)) ob0 = mirror m c ob ob0"
proof (cases ob)
  case (TankObj t)
  then obtain t0 where t0: "ob0 = TankObj t0" using assms(2) by (cases ob0) simp_all
  define b where "b = block_data (get_data c ob)"
  have "\<forall>(f, v) \<in> set (tank_data c t). field TankState f b = v"
    using states_read_back(1) [of c t] assms(1) TankObj by (simp add: b_def)
  then show ?thesis using assms(1,3) TankObj t0 unfolding b_def [symmetric]
    by (simp add: set_defs seen_as_board(1) seen_as_live(1) seen_as_unit bits_float_bits bits_point_bits)
next
  case (MisleObj t)
  then obtain t0 where t0: "ob0 = MisleObj t0" using assms(2) by (cases ob0) simp_all
  define b where "b = block_data (get_data c ob)"
  have "\<forall>(f, v) \<in> set (misle_data c t). field MisleState f b = v"
    using states_read_back(2) [of c t] assms(1) MisleObj by (simp add: b_def)
  then show ?thesis using assms(1,3) MisleObj t0 unfolding b_def [symmetric]
    by (simp add: set_defs seen_as_board(2) seen_as_live(2) bits_float_bits bits_point_bits)
next
  case (BlockObj t)
  then obtain t0 where t0: "ob0 = BlockObj t0" using assms(2) by (cases ob0) simp_all
  define b where "b = block_data (get_data c ob)"
  have "\<forall>(f, v) \<in> set (circle_data c t). field BoardObjectState f b = v"
    using states_read_back(3) [of c t] assms(1) BlockObj by (simp add: b_def)
  then show ?thesis using assms(1,3) BlockObj t0 unfolding b_def [symmetric]
    by (simp add: set_defs bits_float_bits bits_point_bits)
next
  case (LineObj t)
  then obtain t0 where t0: "ob0 = LineObj t0" using assms(2) by (cases ob0) simp_all
  define b where "b = block_data (get_data c ob)"
  have "\<forall>(f, v) \<in> set (line_data c t). field PlatformLineState f b = v"
    using states_read_back(4) [of c t] assms(1) LineObj by (simp add: b_def)
  then show ?thesis using assms(1,3) LineObj t0 unfolding b_def [symmetric]
    by (simp add: set_defs seen_as_board(3) bits_float_bits bits_point_bits)
qed

text \<open>C15. The state the server sends for an object, read by \<open>set_data\<close> into an object of the same
  kind, gives it the server's id, position, size, angle, speed, health and the fields of its class, bit
  for bit, and the time of the core; a state older than what the object shows changes nothing.\<close>

theorem object_state_roundtrip:
  assumes "sendable c ob" and "same_kind ob ob0"
  shows "set_data m (block_data (get_data c ob)) ob0
    = (if core_time c < last_event_time (base_of ob0) then ob0 else mirror m c ob ob0)"
  using set_data_stale [OF assms(1)] set_data_mirror [OF assms] by simp

lemma new_Tank_numbers:
  "z (new_Tank c) = Fin 0" "angle (new_Tank c) = Fin 0" "radius (new_Tank c) = Fin 50" "speed (new_Tank c) = Fin 0"
  "max_speed (new_Tank c) = Fin 0" "max_healt (new_Tank c) = 100" "born_step (new_Tank c) = 0"
  "unit_user_id (new_Tank c) = 0" "target_angle (new_Tank c) = Fin 0" "angle_speed (new_Tank c) = Fin 0"
  "canon_angle (new_Tank c) = Fin 0" "target_range (new_Tank c) = Fin 1000" "shot_damage (new_Tank c) = 30"
  "remain_shot (new_Tank c) = Fin 3" "last_event_time (new_Tank c) = 0"
  by (simp_all add: new_Tank_def new_Unit_def new_LiveBoardObject_def new_BoardObject_def Unit.extend_def Tank.fields_def
      LiveBoardObject.extend_def Unit.fields_def BoardObject.extend_def LiveBoardObject.fields_def)

theorem object_state_roundtrip_witness:
  "set_data no_trig (block_data (get_data (new_GameCore\<lparr>core_time := 7\<rparr>)
      (TankObj (new_Tank new_GameCore\<lparr>obj_id := 5, pos := pt (Fin (1 / 2)) (Fin (- 3)), healt := 70\<rparr>))))
      (TankObj (new_Tank new_GameCore))
    = TankObj (new_Tank new_GameCore\<lparr>obj_id := 5, pos := pt (Fin (1 / 2)) (Fin (- 3)), healt := 70,
        last_event_time := 7, my_step := 7\<rparr>)"
proof -
  let ?c = "new_GameCore\<lparr>core_time := 7\<rparr>"
  let ?t = "new_Tank new_GameCore\<lparr>obj_id := 5, pos := pt (Fin (1 / 2)) (Fin (- 3)), healt := 70\<rparr>"
  have float: "is_float (Fin (1 / 2))" "is_float (Fin (- 3))" "is_float (Fin 0)" "is_float (Fin 50)" "is_float (Fin 1000)"
    "is_float (Fin 3)" by code_simp+
  have "sendable ?c (TankObj ?t)" using float
    by (simp add: fit_defs new_Tank_numbers in_i32_def in_i64_def is_float_point_def pt_def del: is_float.simps)
  from object_state_roundtrip [OF this, of "TankObj (new_Tank new_GameCore)" no_trig] show ?thesis
    by (simp add: new_Tank_numbers mirror_live_def mirror_board_def del: get_data.simps set_data.simps)
qed

end
