(* ===== verification/Engine.thy ===== *)
theory Engine
  imports DB Messages AsyncMap
begin

text \<open>
  The message engine, \<open>Engine/BaseServer\<close> and the shared maps of \<open>Engine/SharedMemoryLoger\<close>:
  message ids, the out-box of a user with its resend jobs, sending, the hash of a message, the
  users' ports and the job loop. Messages allocated with \<open>new\<close> live in the store \<open>messages\<close>;
  messages on the stack are byte buffers passed by value. A datagram is in \<open>udp_log\<close> from the
  call on, as asio sends it when the socket is writable. \<open>rands\<close> is the sequence that \<open>rand\<close>
  returns, \<open>junk\<close> what uninitialised memory holds.
\<close>

section \<open>State\<close>

type_synonym endpoint = nat

text \<open>\<open>MsgSendHandler\<close> with its base \<open>BaseJob\<close>; nothing initialises \<open>h_length\<close> in an out-box.\<close>

record MsgSendHandler =
  job_id :: int
  job_time :: int
  is_canceled :: bool
  h_msg :: ptr
  msg_id :: int
  h_length :: int
  try_counter :: int
  max_try_counter :: int
  h_port :: ptr

record BaseJobPtr =
  job_port :: addr
  job_slot :: nat
  ptr_id :: int
  ptr_time :: int

text \<open>\<open>user_data\<close> points into the map of users: it is the key under which the user is stored.\<close>

record UserPort =
  user_data :: "int option"
  physic_engine_version :: int
  cookie :: int
  client_process_id :: int
  last_msg_id :: int
  last_got_event :: int
  events :: "addr list"
  msg_ids :: "int list"
  tcp_connection :: ptr
  udp_end_point :: endpoint
  not_first_udp_ping :: bool
  last_top_hundred_request :: int
  last_hundred_request :: int
  udp_connected :: bool
  out_box :: "MsgSendHandler list"
  head_of_out_box :: nat

record UserPortZip =
  z_cookie :: int
  z_app_version :: int
  last_pakage_time :: int
  udp_conection :: endpoint

datatype DBJob = SetBuyItemUsed int | SaveAppVersion int | LoadExtraData int | SaveUserData int
  | ChangeNameJob addr

record Engine =
  database :: DBAccess
  user_ports :: "addr \<rightharpoonup> UserPort"
  next_port :: addr
  messages :: "addr \<rightharpoonup> buffer"
  next_message :: addr
  id_sequence :: int
  resend_jobs :: "BaseJobPtr list"
  db_jobs :: "DBJob list"
  total_time :: int
  rands :: "nat \<Rightarrow> int"
  rand_pos :: nat
  junk :: "nat \<Rightarrow> byte"
  udp_log :: "(endpoint \<times> buffer) list"
  tcp_log :: "(addr \<times> buffer) list"
  udp_memory :: "(int, UserPortZip) stdmap option"

definition out_box_size :: nat where
  "out_box_size = 16"

definition uninit :: "'a Engine_scheme \<Rightarrow> nat \<Rightarrow> buffer" where
  "uninit e n = map (junk e) [0..<n]"

definition port_at :: "'a Engine_scheme \<Rightarrow> addr \<Rightarrow> UserPort option" where
  "port_at e a = user_ports e a"

definition put_port :: "addr \<Rightarrow> UserPort \<Rightarrow> 'a Engine_scheme \<Rightarrow> 'a Engine_scheme" where
  "put_port a p e = e\<lparr>user_ports := (user_ports e)(a \<mapsto> p)\<rparr>"

definition new_message :: "buffer \<Rightarrow> 'a Engine_scheme \<Rightarrow> 'a Engine_scheme \<times> addr" where
  "new_message b e =
     (e\<lparr>messages := (messages e)(next_message e \<mapsto> b), next_message := next_message e + 1\<rparr>, next_message e)"

definition rand :: "'a Engine_scheme \<Rightarrow> 'a Engine_scheme \<times> int" where
  "rand e = (e\<lparr>rand_pos := rand_pos e + 1\<rparr>, rands e (rand_pos e))"

text \<open>A slot of the out-box and a port when they are created.\<close>

definition new_slot :: "'a Engine_scheme \<Rightarrow> MsgSendHandler" where
  "new_slot e =
     (let w = to_i32 (le_value (uninit e 4)); q = to_i64 (le_value (uninit e 8))
      in \<lparr>job_id = q, job_time = q, is_canceled = False, h_msg = None, msg_id = to_u64 q,
          h_length = w, try_counter = 0, max_try_counter = 4, h_port = None\<rparr>)"

definition new_UserPort :: "'a Engine_scheme \<Rightarrow> UserPort" where
  "new_UserPort e =
     (let q = to_i64 (le_value (uninit e 8))
      in \<lparr>user_data = None, physic_engine_version = 0, cookie = q, client_process_id = q,
          last_msg_id = 0, last_got_event = 0, events = [], msg_ids = replicate 16 (to_u64 q),
          tcp_connection = None, udp_end_point = 0, not_first_udp_ping = False,
          last_top_hundred_request = - 1, last_hundred_request = - 1, udp_connected = False,
          out_box = replicate out_box_size (new_slot e), head_of_out_box = 0\<rparr>)"

definition create_port :: "'a Engine_scheme \<Rightarrow> 'a Engine_scheme \<times> addr" where
  "create_port e =
     (e\<lparr>user_ports := (user_ports e)(next_port e \<mapsto> new_UserPort e), next_port := next_port e + 1\<rparr>,
      next_port e)"

section \<open>The shared map of endpoints\<close>

definition zero_zip :: UserPortZip where
  "zero_zip = \<lparr>z_cookie = 0, z_app_version = 0, last_pakage_time = 0, udp_conection = 0\<rparr>"

definition zip_update :: "int \<Rightarrow> UserPortZip \<Rightarrow> 'a Engine_scheme \<Rightarrow> 'a Engine_scheme" where
  "zip_update i upz e = e\<lparr>udp_memory := map_option (set_key (to_i32 i) upz) (udp_memory e)\<rparr>"

definition zip_update_time :: "int \<Rightarrow> int \<Rightarrow> 'a Engine_scheme \<Rightarrow> 'a Engine_scheme" where
  "zip_update_time i t e =
     e\<lparr>udp_memory := map_option (\<lambda>m. let (m, upz) = index_key zero_zip m (to_i32 i)
        in set_key (to_i32 i) (upz\<lparr>last_pakage_time := t\<rparr>) m) (udp_memory e)\<rparr>"

definition zip_remove :: "int \<Rightarrow> 'a Engine_scheme \<Rightarrow> 'a Engine_scheme" where
  "zip_remove i e = e\<lparr>udp_memory := map_option (erase_key (to_i32 i)) (udp_memory e)\<rparr>"

definition zip_clear :: "'a Engine_scheme \<Rightarrow> 'a Engine_scheme" where
  "zip_clear e = e\<lparr>udp_memory := map_option (\<lambda>m. []) (udp_memory e)\<rparr>"

section \<open>Users and ports\<close>

definition users_with_id :: "'a Engine_scheme \<Rightarrow> int \<Rightarrow> ptr" where
  "users_with_id e uid = (case get_user_data_by_id (database e) uid of None \<Rightarrow> None | Some ud \<Rightarrow> ud_port ud)"

definition users_with_id_push :: "int \<Rightarrow> ptr \<Rightarrow> 'a Engine_scheme \<Rightarrow> 'a Engine_scheme" where
  "users_with_id_push uid p e =
     (case get_user_data_by_id (database e) uid of
        None \<Rightarrow> e
      | Some ud \<Rightarrow> e\<lparr>database := put_user (ud\<lparr>ud_port := p\<rparr>) uid (database e)\<rparr>)"

text \<open>The user data a port points to.\<close>

definition data_of :: "'a Engine_scheme \<Rightarrow> UserPort \<Rightarrow> UserData option" where
  "data_of e p = do { uid \<leftarrow> user_data p; get_user_data_by_id (database e) uid }"

definition get_zip :: "'a Engine_scheme \<Rightarrow> UserPort \<Rightarrow> UserPortZip option" where
  "get_zip e p = do {
     ud \<leftarrow> data_of e p;
     Some \<lparr>z_cookie = cookie p, z_app_version = ud_app_version ud, last_pakage_time = 0,
           udp_conection = udp_end_point p\<rparr> }"

definition udp_end_point_set :: "endpoint \<Rightarrow> addr \<Rightarrow> 'a Engine_scheme \<Rightarrow> 'a Engine_scheme option" where
  "udp_end_point_set se a e = do {
     p \<leftarrow> port_at e a;
     e \<leftarrow> (if udp_end_point p \<noteq> se then do {
             ud \<leftarrow> data_of e p;
             upz \<leftarrow> get_zip e p;
             Some (zip_update (ud_id ud) upz e) }
           else Some e);
     Some (put_port a (p\<lparr>udp_end_point := se, udp_connected := True\<rparr>) e) }"

definition tcp_disconnect :: "addr \<Rightarrow> UserPort \<Rightarrow> UserPort" where
  "tcp_disconnect c p = (if tcp_connection p = Some c then p\<lparr>tcp_connection := None\<rparr> else p)"

definition port_tcp_send :: "buffer \<Rightarrow> UserPort \<Rightarrow> 'a Engine_scheme \<Rightarrow> 'a Engine_scheme" where
  "port_tcp_send b p e = (case tcp_connection p of None \<Rightarrow> e | Some c \<Rightarrow> e\<lparr>tcp_log := tcp_log e @ [(c, b)]\<rparr>)"

definition set_app_version :: "int \<Rightarrow> int \<Rightarrow> 'a Engine_scheme \<Rightarrow> 'a Engine_scheme option" where
  "set_app_version uid ap e = do {
     ud \<leftarrow> get_user_data_by_id (database e) uid;
     if ud_app_version ud \<noteq> ap then do {
       let e = e\<lparr>database := put_user (ud\<lparr>ud_app_version := ap\<rparr>) uid (database e)\<rparr>;
       up \<leftarrow> users_with_id e uid;
       p \<leftarrow> port_at e up;
       upz \<leftarrow> get_zip e p;
       let e = zip_update uid upz e;
       Some (e\<lparr>db_jobs := db_jobs e @ [SaveAppVersion uid]\<rparr>) }
     else Some e }"

definition use_buy_item :: "int \<Rightarrow> 'a Engine_scheme \<Rightarrow> 'a Engine_scheme" where
  "use_buy_item i e = e\<lparr>db_jobs := db_jobs e @ [SetBuyItemUsed i]\<rparr>"

definition get_random_long_long :: "'a Engine_scheme \<Rightarrow> 'a Engine_scheme \<times> int" where
  "get_random_long_long e =
     (let (e, r1) = rand e; t = and r1 255 * 2 ^ 16;
          (e, r2) = rand e; t = or t (and r2 65535) * 2 ^ 16;
          (e, r3) = rand e; t = or t (and r3 65535) * 2 ^ 16;
          (e, r4) = rand e; t = or t (and r4 65535)
      in (e, if t < 0 then - t else t))"

section \<open>Message ids\<close>

text \<open>Even numbers in the low bits, a random number above them, in 64 bits.\<close>

definition next_msg_id :: "int \<Rightarrow> int" where
  "next_msg_id i = to_u64 (to_u64 (if i mod 2 \<noteq> 0 then i + 1 else i) + 2)"

definition generate_msg_id :: "addr \<Rightarrow> 'a Engine_scheme \<Rightarrow> ('a Engine_scheme \<times> int) option" where
  "generate_msg_id a e = do {
     p \<leftarrow> port_at e a;
     let i = next_msg_id (last_msg_id p);
     let (e, r) = rand (put_port a (p\<lparr>last_msg_id := i\<rparr>) e);
     Some (e, or i (to_u64 (to_u64 r * 2 ^ 31))) }"

section \<open>The out-box\<close>

fun first_canceled :: "nat \<Rightarrow> MsgSendHandler list \<Rightarrow> nat option" where
  "first_canceled i [] = None"
| "first_canceled i (h # hs) = (if is_canceled h then Some i else first_canceled (i + 1) hs)"

definition get_reserved :: "UserPort \<Rightarrow> UserPort \<times> nat" where
  "get_reserved p = (case first_canceled 0 (out_box p) of
     Some i \<Rightarrow> (p, i)
   | None \<Rightarrow> (let h = (head_of_out_box p + 1) mod out_box_size in (p\<lparr>head_of_out_box := h\<rparr>, h)))"

definition cancele :: "MsgSendHandler \<Rightarrow> MsgSendHandler" where
  "cancele h = h\<lparr>is_canceled := True\<rparr>"

definition remove_from_out_box :: "int \<Rightarrow> UserPort \<Rightarrow> UserPort" where
  "remove_from_out_box i p =
     p\<lparr>out_box := map (\<lambda>h. if msg_id h = i then cancele h else h) (out_box p)\<rparr>"

text \<open>\<open>init\<close>: the parameter \<open>length\<close> is not stored.\<close>

definition slot_init :: "addr \<Rightarrow> addr \<Rightarrow> MsgSendHandler \<Rightarrow> 'a Engine_scheme
    \<Rightarrow> ('a Engine_scheme \<times> MsgSendHandler) option" where
  "slot_init a m h e = do {
     b \<leftarrow> messages e m;
     Some (e\<lparr>id_sequence := id_sequence e + 1\<rparr>,
           h\<lparr>job_id := id_sequence e, h_msg := Some m, h_port := Some a,
             msg_id := field BaseMessage ''id'' b, is_canceled := False\<rparr>) }"

definition put_slot :: "addr \<Rightarrow> nat \<Rightarrow> MsgSendHandler \<Rightarrow> 'a Engine_scheme \<Rightarrow> 'a Engine_scheme option" where
  "put_slot a i h e = do {
     p \<leftarrow> port_at e a;
     Some (put_port a (p\<lparr>out_box := (out_box p)[i := h]\<rparr>) e) }"

definition job_at :: "'a Engine_scheme \<Rightarrow> addr \<Rightarrow> nat \<Rightarrow> MsgSendHandler option" where
  "job_at e a i = do { p \<leftarrow> port_at e a; if i < length (out_box p) then Some (out_box p ! i) else None }"

definition push_send_lost_packet_job :: "addr \<Rightarrow> nat \<Rightarrow> 'a Engine_scheme \<Rightarrow> 'a Engine_scheme option" where
  "push_send_lost_packet_job a i e = do {
     h \<leftarrow> job_at e a i;
     Some (e\<lparr>resend_jobs := spq_push (resend_jobs e)
       \<lparr>job_port = a, job_slot = i, ptr_id = to_i32 (job_id h), ptr_time = job_time h\<rparr>\<rparr>) }"

section \<open>Sending\<close>

text \<open>A send of more bytes than the block has reads beyond it.\<close>

definition send_bytes :: "endpoint \<Rightarrow> buffer \<Rightarrow> nat \<Rightarrow> 'a Engine_scheme \<Rightarrow> 'a Engine_scheme option" where
  "send_bytes se b n e =
     (if n \<le> length b then Some (e\<lparr>udp_log := udp_log e @ [(se, take n b)]\<rparr>) else None)"

text \<open>A message without an id gets one, in place.\<close>

definition assign_id :: "addr \<Rightarrow> buffer \<Rightarrow> 'a Engine_scheme \<Rightarrow> ('a Engine_scheme \<times> buffer) option" where
  "assign_id a b e =
     (if field BaseMessage ''id'' b = 0 then do {
        (e, i) \<leftarrow> generate_msg_id a e;
        Some (e, put_field BaseMessage ''id'' i b) }
      else Some (e, b))"

definition udp_send :: "addr \<Rightarrow> buffer \<Rightarrow> nat \<Rightarrow> 'a Engine_scheme \<Rightarrow> ('a Engine_scheme \<times> buffer) option" where
  "udp_send a b n e = do {
     (e, b) \<leftarrow> assign_id a b e;
     p \<leftarrow> port_at e a;
     e \<leftarrow> send_bytes (udp_end_point p) b n e;
     Some (e, b) }"

definition send_stored :: "addr \<Rightarrow> addr \<Rightarrow> nat \<Rightarrow> 'a Engine_scheme \<Rightarrow> 'a Engine_scheme option" where
  "send_stored a m n e = do {
     b \<leftarrow> messages e m;
     (e, b) \<leftarrow> udp_send a b n e;
     Some (e\<lparr>messages := (messages e)(m \<mapsto> b)\<rparr>) }"

text \<open>Resending after 200 milliseconds, until an acknowledgement cancels the slot.\<close>

definition MsgSendHandler_do_job :: "addr \<Rightarrow> nat \<Rightarrow> 'a Engine_scheme \<Rightarrow> 'a Engine_scheme option" where
  "MsgSendHandler_do_job a i e = do {
     h \<leftarrow> job_at e a i;
     s \<leftarrow> h_port h;
     m \<leftarrow> h_msg h;
     e \<leftarrow> send_stored s m (nat (to_u64 (h_length h))) e;
     if try_counter h < max_try_counter h then do {
       e \<leftarrow> put_slot a i (h\<lparr>try_counter := try_counter h + 1, job_time := total_time e + 200\<rparr>) e;
       push_send_lost_packet_job a i e }
     else put_slot a i (h\<lparr>h_msg := None\<rparr>) (e\<lparr>messages := (messages e)(m := None)\<rparr>) }"

definition send_with_ack :: "addr \<Rightarrow> addr \<Rightarrow> nat \<Rightarrow> int \<Rightarrow> 'a Engine_scheme \<Rightarrow> 'a Engine_scheme option" where
  "send_with_ack a m n max_try e = do {
     b \<leftarrow> messages e m;
     (e, b) \<leftarrow> assign_id a b e;
     let e = e\<lparr>messages := (messages e)(m \<mapsto> put_field BaseMessage ''ack_required'' 1 b)\<rparr>;
     e \<leftarrow> send_stored a m n e;
     p \<leftarrow> port_at e a;
     let (p, i) = get_reserved p;
     let e = put_port a p e;
     h \<leftarrow> job_at e a i;
     (e, h) \<leftarrow> slot_init a m h e;
     e \<leftarrow> put_slot a i (h\<lparr>job_time := total_time e + 200, try_counter := 1, max_try_counter := max_try\<rparr>) e;
     push_send_lost_packet_job a i e }"

definition udp_send_and_push_out_box_to_handle_ACK ::
    "ptr \<Rightarrow> ptr \<Rightarrow> nat \<Rightarrow> 'a Engine_scheme \<Rightarrow> 'a Engine_scheme option" where
  "udp_send_and_push_out_box_to_handle_ACK user_port msg n e =
     (case (user_port, msg) of
        (Some a, Some m) \<Rightarrow> send_with_ack a m n 4 e
      | _ \<Rightarrow> Some e)"

section \<open>The job loop\<close>

definition is_changed :: "BaseJobPtr \<Rightarrow> MsgSendHandler \<Rightarrow> bool" where
  "is_changed j h \<longleftrightarrow> ptr_id j \<noteq> job_id h"

text \<open>Take the jobs that are due from the queue, keep those that still stand.\<close>

fun due_jobs :: "int \<Rightarrow> 'a Engine_scheme \<Rightarrow> BaseJobPtr list \<Rightarrow> (BaseJobPtr list \<times> BaseJobPtr list) option" where
  "due_jobs now e [] = Some ([], [])"
| "due_jobs now e (j # js) =
     (if ptr_time j \<le> now then do {
        h \<leftarrow> job_at e (job_port j) (job_slot j);
        (due, rest) \<leftarrow> due_jobs now e js;
        Some (if \<not> is_canceled h \<and> \<not> is_changed j h then j # due else due, rest) }
      else Some ([], j # js))"

definition engine_update :: "int \<Rightarrow> 'a Engine_scheme \<Rightarrow> 'a Engine_scheme option" where
  "engine_update now e = do {
     let e = e\<lparr>total_time := now\<rparr>;
     (due, rest) \<leftarrow> due_jobs now e (resend_jobs e);
     for_each (\<lambda>j. MsgSendHandler_do_job (job_port j) (job_slot j)) due (e\<lparr>resend_jobs := rest\<rparr>) }"

section \<open>The hash of a message\<close>

text \<open>One round: \<open>s\<close> is a \<open>long long\<close> that starts as the next 32-bit word.\<close>

definition hash_round :: "int \<Rightarrow> int \<Rightarrow> int" where
  "hash_round s0 w =
     (let s = xor w s0; s = s + 124; s = xor s 12578; s = s * s in c_mod s 775477)"

fun hash_words :: "int \<Rightarrow> int \<Rightarrow> int list \<Rightarrow> int" where
  "hash_words s0 h [] = h"
| "hash_words s0 h (w # ws) = (let s = hash_round s0 w in hash_words s (h + s) ws)"

fun int_words :: "nat \<Rightarrow> buffer \<Rightarrow> int list" where
  "int_words 0 b = []"
| "int_words (Suc k) b = to_i32 (le_value (take 4 b)) # int_words k (drop 4 b)"

definition msg_hash :: "buffer \<Rightarrow> nat \<Rightarrow> int" where
  "msg_hash b n = hash_words 148576 0 (int_words (n div 4) b)"

text \<open>The check clears the hash of the message.\<close>

definition check_msg :: "buffer \<Rightarrow> nat \<Rightarrow> buffer \<times> bool" where
  "check_msg b n =
     (let given = field BaseMessage ''hash'' b; b = put_field BaseMessage ''hash'' 0 b
      in (b, msg_hash b n = given))"

section \<open>The registry of ports\<close>

text \<open>The contract of \<open>users_with_id\<close> and \<open>users_with_id_push\<close>: a map from known users to ports.\<close>

locale registry =
  fixes look :: "'e \<Rightarrow> int \<Rightarrow> ptr"
    and bind_port :: "int \<Rightarrow> ptr \<Rightarrow> 'e \<Rightarrow> 'e"
    and known :: "'e \<Rightarrow> int \<Rightarrow> bool"
    and valid :: "'e \<Rightarrow> bool"
  assumes bind_valid: "valid e \<Longrightarrow> valid (bind_port u p e)"
    and bind_known: "valid e \<Longrightarrow> known (bind_port u p e) v = known e v"
    and look_bind: "valid e \<Longrightarrow> known e u \<Longrightarrow> look (bind_port u p e) v = (if v = u then p else look e v)"
    and bind_unknown: "\<not> known e u \<Longrightarrow> bind_port u p e = e"
    and look_unknown: "\<not> known e u \<Longrightarrow> look e u = None"
begin

lemma look_bind_any:
  "valid e \<Longrightarrow> look (bind_port u p e) v = (if v = u \<and> known e u then p else look e v)"
  by (cases "known e u") (auto simp: look_bind bind_unknown)

lemma bind_all:
  "valid e \<Longrightarrow> u \<notin> fst ` set ups \<Longrightarrow> look (fold (\<lambda>(u, p). bind_port u p) ups e) u = look e u"
  by (induction ups arbitrary: e) (auto simp: look_bind_any bind_valid)

lemma rebind:
  "valid e \<Longrightarrow> look (bind_port u q (bind_port u p e)) v = look (bind_port u q e) v"
  by (simp add: look_bind_any bind_valid bind_known)

end

lemma push_database:
  "database (users_with_id_push u p e) = (case find_key (users (database e)) u of None \<Rightarrow> database e
     | Some ud \<Rightarrow> put_user (ud\<lparr>ud_port := p\<rparr>) u (database e))"
  by (simp add: users_with_id_push_def get_user_data_by_id_def split: option.split)

interpretation ports: registry users_with_id users_with_id_push
  "\<lambda>e u. find_key (users (database e)) u \<noteq> None" "\<lambda>e. ordered (users (database e))"
proof (unfold_locales, goal_cases)
  case (1 e u p)
  then show ?case by (auto simp: push_database put_user_def ordered_set_key split: option.split)
next
  case (2 e u p v)
  then show ?case by (auto simp: push_database put_user_def find_key_set_key split: option.split)
next
  case (3 e u p v)
  then show ?case
    by (auto simp: users_with_id_def get_user_data_by_id_def push_database put_user_def
        find_key_set_key split: option.split)
next
  case (4 e u p)
  then show ?case by (simp add: users_with_id_push_def get_user_data_by_id_def)
next
  case (5 e u)
  then show ?case by (simp add: users_with_id_def get_user_data_by_id_def)
qed

section \<open>Message ids differ\<close>

fun generate_ids :: "nat \<Rightarrow> addr \<Rightarrow> 'a Engine_scheme \<Rightarrow> ('a Engine_scheme \<times> int list) option" where
  "generate_ids 0 a e = Some (e, [])"
| "generate_ids (Suc k) a e = do {
     (e, i) \<leftarrow> generate_msg_id a e;
     (e, is) \<leftarrow> generate_ids k a e;
     Some (e, i # is) }"

lemma or_disjoint_add:
  fixes x y :: int
  assumes "0 \<le> x" and "x < 2 ^ k"
  shows "or x (y * 2 ^ k) = x + y * 2 ^ k"
proof -
  have "and x (y * 2 ^ k) = 0"
  proof (rule bit_eqI)
    fix n
    have "\<not> bit x n" if "k \<le> n"
    proof -
      have "x < 2 ^ n" using assms(2) by (rule less_le_trans) (rule power_increasing [OF that], simp)
      then show ?thesis using assms(1) by (simp add: bit_iff_odd)
    qed
    moreover have "bit (y * 2 ^ k) n \<Longrightarrow> k \<le> n"
      by (simp add: push_bit_eq_mult [symmetric] bit_push_bit_iff)
    ultimately show "bit (and x (y * 2 ^ k)) n \<longleftrightarrow> bit 0 n" by (auto simp: bit_and_iff)
  qed
  then show ?thesis using plus_and_or [of x "y * 2 ^ k"] by simp
qed

text \<open>The id keeps the counter in its low 31 bits.\<close>

lemma generate_msg_id_value:
  assumes "port_at e a = Some p" and "even (last_msg_id p)" and "0 \<le> last_msg_id p"
    and "last_msg_id p + 2 < 2 ^ 31" and "0 \<le> rands e (rand_pos e)" and "rands e (rand_pos e) < 2 ^ 31"
  shows "\<exists>e' i. generate_msg_id a e = Some (e', i)
     \<and> i = last_msg_id p + 2 + rands e (rand_pos e) * 2 ^ 31
     \<and> e' = put_port a (p\<lparr>last_msg_id := last_msg_id p + 2\<rparr>) e\<lparr>rand_pos := rand_pos e + 1\<rparr>"
proof -
  let ?r = "rands e (rand_pos e)"
  have n: "next_msg_id (last_msg_id p) = last_msg_id p + 2"
    using assms(2-4) by (simp add: next_msg_id_def to_u64_def even_iff_mod_2_eq_zero)
  have "?r * 2 ^ 31 < 2 ^ 31 * 2 ^ 31" using assms(6) by simp
  then have r: "to_u64 (to_u64 ?r * 2 ^ 31) = ?r * 2 ^ 31" using assms(5,6) by (simp add: to_u64_def)
  have "or (last_msg_id p + 2) (?r * 2 ^ 31) = last_msg_id p + 2 + ?r * 2 ^ 31"
    using assms(3,4) by (intro or_disjoint_add) simp_all
  then show ?thesis using assms(1) n r
    by (simp add: generate_msg_id_def rand_def Let_def) (simp add: put_port_def)
qed

lemma generate_ids_value:
  assumes "port_at e a = Some p" and "even (last_msg_id p)" and "0 \<le> last_msg_id p"
    and "last_msg_id p + 2 * int k < 2 ^ 31" and "\<And>n. 0 \<le> rands e n \<and> rands e n < 2 ^ 31"
  shows "\<exists>e' is. generate_ids k a e = Some (e', is) \<and> length is = k
     \<and> (\<forall>j < k. is ! j mod 2 ^ 31 = last_msg_id p + 2 * int (j + 1))"
  using assms
proof (induction k arbitrary: e p)
  case (Suc k)
  have "last_msg_id p + 2 < 2 ^ 31" using Suc.prems(4) by simp
  from generate_msg_id_value [OF Suc.prems(1-3) this] Suc.prems(5)
  obtain e1 i where 1: "generate_msg_id a e = Some (e1, i)"
    "i = last_msg_id p + 2 + rands e (rand_pos e) * 2 ^ 31"
    "e1 = put_port a (p\<lparr>last_msg_id := last_msg_id p + 2\<rparr>) e\<lparr>rand_pos := rand_pos e + 1\<rparr>" by auto
  let ?p = "p\<lparr>last_msg_id := last_msg_id p + 2\<rparr>"
  have "port_at e1 a = Some ?p" "\<And>n. rands e1 n = rands e n"
    by (simp_all add: 1(3) port_at_def put_port_def)
  with Suc.IH [of e1 ?p] Suc.prems obtain e' "is" where r: "generate_ids k a e1 = Some (e', is)"
    "length is = k" "\<forall>j < k. is ! j mod 2 ^ 31 = last_msg_id p + 2 + 2 * int (j + 1)" by auto
  have "i mod 2 ^ 31 = last_msg_id p + 2" using Suc.prems(3,4) by (simp add: 1(2))
  then show ?case using 1(1) r by (auto simp: nth_Cons split: nat.split)
qed simp

section \<open>The out-box\<close>

lemma first_canceled_Some:
  "first_canceled k hs = Some i \<Longrightarrow> k \<le> i \<and> i < k + length hs \<and> is_canceled (hs ! (i - k))"
proof (induction k hs rule: first_canceled.induct)
  case (2 k h hs)
  then show ?case by (cases "is_canceled h") (auto simp: nth_Cons')
qed simp

lemma first_canceled_None: "first_canceled k hs = None \<longleftrightarrow> (\<forall>h \<in> set hs. \<not> is_canceled h)"
  by (induction k hs rule: first_canceled.induct) auto

lemma get_reserved_slot:
  assumes "get_reserved p = (p', i)" and "length (out_box p) = out_box_size"
  shows "i < out_box_size" and "out_box p' = out_box p" and "udp_end_point p' = udp_end_point p"
    and "last_msg_id p' = last_msg_id p"
    and "(\<exists>h \<in> set (out_box p). is_canceled h) \<Longrightarrow> is_canceled (out_box p ! i)"
    and "(\<forall>h \<in> set (out_box p). \<not> is_canceled h) \<Longrightarrow>
      i = (head_of_out_box p + 1) mod out_box_size \<and> head_of_out_box p' = i"
  using assms first_canceled_Some [of 0 "out_box p" i] first_canceled_None [of 0 "out_box p"]
  by (auto simp: get_reserved_def Let_def out_box_size_def split: option.splits)

lemma BaseMessage_fields:
  "field_at BaseMessage ''id'' = Some (12, CULong)"
  "field_at BaseMessage ''ack_required'' = Some (68, CBool)"
  by code_simp+

lemma ack_required_keeps_id:
  "69 \<le> length b \<Longrightarrow> field BaseMessage ''id'' (put_field BaseMessage ''ack_required'' v b)
     = field BaseMessage ''id'' b"
  using struct.get_put_other [of BaseMessage b "''id''" "''ack_required''" v] by (simp add: layout_sizes)

lemma length_put_field: "struct_size l \<le> length b \<Longrightarrow> length (put_field l f v b) = length b"
proof (cases "field_at l f")
  case (Some x)
  assume "struct_size l \<le> length b"
  with Some field_at_bound [of l f "fst x" "snd x"] show ?thesis
    by (cases x) (simp add: put_field_def length_overwrite)
qed (simp add: put_field_def)

text \<open>A slot holds a message that waits for its acknowledgement, with one job in the queue.\<close>

definition waiting :: "'a Engine_scheme \<Rightarrow> addr \<Rightarrow> nat \<Rightarrow> addr \<Rightarrow> buffer \<Rightarrow> endpoint \<Rightarrow> nat \<Rightarrow> int \<Rightarrow> int \<Rightarrow> int \<Rightarrow> bool" where
  "waiting e a i m b se n t k mx \<longleftrightarrow>
     (\<exists>p h. port_at e a = Some p \<and> udp_end_point p = se \<and> i < length (out_box p) \<and> out_box p ! i = h
       \<and> messages e m = Some b \<and> field BaseMessage ''id'' b \<noteq> 0
       \<and> \<not> is_canceled h \<and> h_msg h = Some m \<and> h_port h = Some a \<and> nat (to_u64 (h_length h)) = n
       \<and> msg_id h = field BaseMessage ''id'' b
       \<and> in_i32 (job_id h) \<and> job_time h = t \<and> try_counter h = k \<and> max_try_counter h = mx
       \<and> resend_jobs e = [\<lparr>job_port = a, job_slot = i, ptr_id = job_id h, ptr_time = t\<rparr>])"

lemma send_stored_plain:
  assumes "messages e m = Some b" and "field BaseMessage ''id'' b \<noteq> 0" and "port_at e a = Some p"
    and "n \<le> length b"
  shows "send_stored a m n e = Some (e\<lparr>udp_log := udp_log e @ [(udp_end_point p, take n b)]\<rparr>)"
  using assms by (simp add: send_stored_def udp_send_def assign_id_def send_bytes_def port_at_def)
    (simp add: fun_upd_idem)

text \<open>One update when the job is due: one datagram, and the next try or the end.\<close>

lemma waiting_update:
  assumes "waiting e a i m b se n t k mx" and "t \<le> now" and "n \<le> length b"
  shows "\<exists>e'. engine_update now e = Some e' \<and> udp_log e' = udp_log e @ [(se, take n b)]
     \<and> (if k < mx then waiting e' a i m b se n (now + 200) (k + 1) mx
        else resend_jobs e' = [] \<and> messages e' m = None)"
proof -
  obtain p h where w: "port_at e a = Some p" "udp_end_point p = se" "i < length (out_box p)" "out_box p ! i = h"
    "messages e m = Some b" "field BaseMessage ''id'' b \<noteq> 0" "n \<le> length b"
    "\<not> is_canceled h" "h_msg h = Some m" "h_port h = Some a" "nat (to_u64 (h_length h)) = n"
    "msg_id h = field BaseMessage ''id'' b" "in_i32 (job_id h)" "job_time h = t" "try_counter h = k"
    "max_try_counter h = mx"
    "resend_jobs e = [\<lparr>job_port = a, job_slot = i, ptr_id = job_id h, ptr_time = t\<rparr>]"
    using assms(1,3) by (auto simp: waiting_def)
  let ?e = "e\<lparr>total_time := now, resend_jobs := []\<rparr>"
  have job: "job_at (e\<lparr>total_time := now\<rparr>) a i = Some h" "job_at ?e a i = Some h"
    using w(1,3,4) by (simp_all add: job_at_def port_at_def)
  have upd: "engine_update now e = MsgSendHandler_do_job a i ?e"
    using w(8,17) assms(2) job(1)
    by (simp add: engine_update_def is_changed_def)
  let ?e1 = "?e\<lparr>udp_log := udp_log e @ [(se, take n b)]\<rparr>"
  have st: "send_stored a m n ?e = Some ?e1"
    using send_stored_plain [of ?e m b a p n] w by (simp add: port_at_def)
  have p1: "port_at ?e1 a = Some p" using w(1) by (simp add: port_at_def)
  show ?thesis
  proof (cases "k < mx")
    case True
    let ?h = "h\<lparr>try_counter := k + 1, job_time := now + 200\<rparr>"
    let ?p = "p\<lparr>out_box := (out_box p)[i := ?h]\<rparr>"
    let ?e2 = "put_port a ?p ?e1"
    let ?e3 = "?e2\<lparr>resend_jobs := [\<lparr>job_port = a, job_slot = i, ptr_id = to_i32 (job_id h), ptr_time = now + 200\<rparr>]\<rparr>"
    have "MsgSendHandler_do_job a i ?e = Some ?e3"
      using job(2) w st p1 True
      by (simp add: MsgSendHandler_do_job_def put_slot_def push_send_lost_packet_job_def job_at_def
          port_at_def put_port_def spq_push_def)
    moreover have "waiting ?e3 a i m b se n (now + 200) (k + 1) mx"
      using w by (simp add: waiting_def port_at_def put_port_def to_i32_id)
    ultimately show ?thesis using upd True by (simp add: put_port_def)
  next
    case False
    then show ?thesis
      using upd job(2) w st p1
      by (simp add: MsgSendHandler_do_job_def put_slot_def port_at_def put_port_def)
  qed
qed

text \<open>A length beyond the message makes the update undefined.\<close>

lemma waiting_too_long:
  assumes "waiting e a i m b se n t k mx" and "t \<le> now" and "length b < n"
  shows "engine_update now e = None"
proof -
  obtain p h where w: "port_at e a = Some p" "udp_end_point p = se" "i < length (out_box p)" "out_box p ! i = h"
    "messages e m = Some b" "field BaseMessage ''id'' b \<noteq> 0"
    "\<not> is_canceled h" "h_msg h = Some m" "h_port h = Some a" "nat (to_u64 (h_length h)) = n" "job_time h = t"
    "resend_jobs e = [\<lparr>job_port = a, job_slot = i, ptr_id = job_id h, ptr_time = t\<rparr>]"
    using assms(1) by (auto simp: waiting_def)
  let ?e = "e\<lparr>total_time := now, resend_jobs := []\<rparr>"
  have job: "job_at (e\<lparr>total_time := now\<rparr>) a i = Some h" "job_at ?e a i = Some h"
    using w(1,3,4) by (simp_all add: job_at_def port_at_def)
  have upd: "engine_update now e = MsgSendHandler_do_job a i ?e"
    using w(7,11,12) assms(2) job(1) by (simp add: engine_update_def is_changed_def)
  have "send_stored a m n ?e = None"
    using w(1,5,6) assms(3) by (simp add: send_stored_def udp_send_def assign_id_def send_bytes_def port_at_def)
  then show ?thesis using upd job(2) w by (simp add: MsgSendHandler_do_job_def)
qed

text \<open>The updates at the times \<open>ts\<close>.\<close>

lemma waiting_updates:
  assumes "waiting e a i m b se n t k mx" and "int (length ts) = mx - k + 1" and "k \<le> mx"
    and "sorted_wrt (\<lambda>x y. x + 200 \<le> y) ((t - 200) # ts)" and "n \<le> length b"
  shows "\<exists>e'. for_each engine_update ts e = Some e'
     \<and> udp_log e' = udp_log e @ replicate (length ts) (se, take n b)
     \<and> resend_jobs e' = [] \<and> messages e' m = None"
  using assms
proof (induction ts arbitrary: e t k)
  case (Cons now ts)
  have "t \<le> now" using Cons.prems(4) by simp
  from waiting_update [OF Cons.prems(1) this Cons.prems(5)] obtain e1 where 1: "engine_update now e = Some e1"
    "udp_log e1 = udp_log e @ [(se, take n b)]"
    "if k < mx then waiting e1 a i m b se n (now + 200) (k + 1) mx
        else resend_jobs e1 = [] \<and> messages e1 m = None" by blast
  show ?case
  proof (cases "k < mx")
    case True
    then have "waiting e1 a i m b se n (now + 200) (k + 1) mx" using 1(3) by simp
    from Cons.IH [OF this] Cons.prems True obtain e' where "for_each engine_update ts e1 = Some e'"
      "udp_log e' = udp_log e1 @ replicate (length ts) (se, take n b)" "resend_jobs e' = []"
      "messages e' m = None" by auto
    then show ?thesis using 1 by simp
  next
    case False
    then have "ts = []" using Cons.prems(2,3) by simp
    then show ?thesis using 1 False by simp
  qed
qed simp

lemma send_with_ack_waiting:
  assumes "port_at e a = Some p" and "length (out_box p) = out_box_size" and "resend_jobs e = []"
    and "messages e m = Some b" and "69 \<le> length b" and "field BaseMessage ''id'' b \<noteq> 0" and "n \<le> length b"
    and "in_i32 (id_sequence e)" and "nat (to_u64 (h_length (out_box p ! snd (get_reserved p)))) = l"
  shows "\<exists>e' b' i. send_with_ack a m n mx e = Some e' \<and> length b' = length b
     \<and> field BaseMessage ''id'' b' = field BaseMessage ''id'' b
     \<and> udp_log e' = udp_log e @ [(udp_end_point p, take n b')]
     \<and> waiting e' a i m b' (udp_end_point p) l (total_time e + 200) 1 mx"
proof -
  define b' where "b' = put_field BaseMessage ''ack_required'' 1 b"
  have b': "length b' = length b" "field BaseMessage ''id'' b' = field BaseMessage ''id'' b"
    using assms(5) ack_required_keeps_id [of b 1] length_put_field [of BaseMessage b]
    by (simp_all add: b'_def layout_sizes)
  obtain p' i where r: "get_reserved p = (p', i)" by (cases "get_reserved p")
  note slot = get_reserved_slot [OF r assms(2)]
  let ?e1 = "e\<lparr>messages := (messages e)(m \<mapsto> b')\<rparr>"
  let ?e2 = "?e1\<lparr>udp_log := udp_log e @ [(udp_end_point p, take n b')]\<rparr>"
  have st: "send_stored a m n ?e1 = Some ?e2"
    using send_stored_plain [of ?e1 m b' a p n] assms b' by (simp add: port_at_def)
  let ?h = "out_box p ! i"
  let ?h' = "?h\<lparr>job_id := id_sequence e, h_msg := Some m, h_port := Some a,
      msg_id := field BaseMessage ''id'' b', is_canceled := False,
      job_time := total_time e + 200, try_counter := 1, max_try_counter := mx\<rparr>"
  let ?e3 = "put_port a (p'\<lparr>out_box := (out_box p')[i := ?h']\<rparr>) (?e2\<lparr>id_sequence := id_sequence e + 1\<rparr>)"
  let ?e4 = "?e3\<lparr>resend_jobs := [\<lparr>job_port = a, job_slot = i, ptr_id = to_i32 (id_sequence e),
      ptr_time = total_time e + 200\<rparr>]\<rparr>"
  have i: "i < length (out_box p)" using slot(1) assms(2) by simp
  have "send_with_ack a m n mx e = Some ?e4"
    using assms(1,3,4,6) b'_def [symmetric] st r slot(2) i
    by (simp add: send_with_ack_def assign_id_def port_at_def job_at_def put_port_def slot_init_def
        put_slot_def push_send_lost_packet_job_def spq_push_def)
  moreover have "waiting ?e4 a i m b' (udp_end_point p) l (total_time e + 200) 1 mx"
    using assms b' r slot(2,3) i
    by (simp add: waiting_def port_at_def put_port_def to_i32_id)
  ultimately show ?thesis using b' by (auto simp: put_port_def)
qed

section \<open>Properties\<close>

text \<open>C21. The ids a port generates are pairwise different and never zero, as long as fewer than
  \<open>2 ^ 30\<close> were generated, whatever \<open>rand\<close> returns.\<close>

theorem message_ids_distinct:
  assumes "port_at e a = Some p" and "last_msg_id p = 0" and "k < 2 ^ 30"
    and "\<And>n. 0 \<le> rands e n \<and> rands e n < 2 ^ 31"
  shows "\<exists>e' is. generate_ids k a e = Some (e', is) \<and> length is = k \<and> distinct is \<and> 0 \<notin> set is"
proof -
  have "2 * int k < 2 ^ 31" using assms(3) by simp
  then obtain e' "is" where r: "generate_ids k a e = Some (e', is)" "length is = k"
    "\<forall>j < k. is ! j mod 2 ^ 31 = 2 * int (j + 1)"
    using generate_ids_value [of e a p k] assms by auto
  have "i = j" if "i < k" "j < k" "is ! i = is ! j" for i j
  proof -
    have "2 * int (i + 1) = 2 * int (j + 1)" using r(3) that by metis
    then show ?thesis by simp
  qed
  then have "distinct is" using r(2) by (auto simp: distinct_conv_nth)
  moreover have "0 \<notin> set is" using r(2,3) by (fastforce simp: in_set_conv_nth)
  ultimately show ?thesis using r by blast
qed

definition idle_engine :: "buffer \<Rightarrow> Engine" where
  "idle_engine b = \<lparr>database = empty_DB, user_ports = Map.empty, next_port = 1, messages = [7 \<mapsto> b],
     next_message = 8, id_sequence = 0, resend_jobs = [], db_jobs = [], total_time = 1000,
     rands = (\<lambda>n. 5), rand_pos = 0, junk = (\<lambda>n. 0), udp_log = [], tcp_log = [], udp_memory = None\<rparr>"

definition idle_port :: UserPort where
  "idle_port = new_UserPort (idle_engine [])"

lemma idle_fields: "last_msg_id idle_port = 0" "length (out_box idle_port) = out_box_size"
  "h_length (out_box idle_port ! snd (get_reserved idle_port)) = 0" "udp_end_point idle_port = 0"
  by code_simp+

theorem message_ids_distinct_witness:
  "\<exists>e' is. generate_ids 3 0 (put_port 0 idle_port (idle_engine [])) = Some (e', is) \<and> distinct is"
  using message_ids_distinct [of "put_port 0 idle_port (idle_engine [])" 0 idle_port 3] idle_fields(1)
  by (auto simp: port_at_def put_port_def idle_engine_def)


definition sample_message :: buffer where
  "sample_message = put_field BaseMessage ''id'' 44 (replicate 69 0)"

lemma sample_message_fields: "length sample_message = 69" "field BaseMessage ''id'' sample_message = 44"
  by code_simp+




end
