(* ===== verification/Room.thy ===== *)
theory Room
  imports Engine GameRun GameData
begin

text \<open>
  A room, \<open>Classes/Room\<close>: a game core, the users in it, what each client process acknowledged, the
  steps the room runs to catch up with the server's clock, the states it sends to its users and
  the handling of a user's action. Messages are built in memory that holds \<open>junk\<close> before. What is
  printed to \<open>cerr\<close> is not modelled.
\<close>

section \<open>State\<close>

record ClientSyncState =
  lastAck :: int
  lastSend :: int

definition new_ClientSyncState :: ClientSyncState where
  "new_ClientSyncState = \<lparr>lastAck = - 1, lastSend = - 1\<rparr>"

text \<open>The view handler's \<open>last_step_events\<close> is a field of the core.\<close>

record Room =
  room_id :: int
  room_code :: int
  game_core :: GameCore
  room_lig_id :: int
  room_users :: "(int, addr) stdmap"
  last_action :: int
  room_is_close :: bool
  ackSendedEvent :: "(int, (int, ClientSyncState) stdmap) stdmap"
  last_update_time :: int

section \<open>Messages built in place\<close>

text \<open>The constructors set these fields and leave the others as they are.\<close>

definition construct_header :: "MsgType \<Rightarrow> int \<Rightarrow> buffer \<Rightarrow> buffer" where
  "construct_header t i b = write_all MsgHeader
     [(''base_type'', base_code MSG), (''client_process_id'', 0), (''id'', i), (''answer_of_msg_id'', 0),
      (''ack_required'', 1), (''type'', type_code t)] b"

definition new_GameActionMsg :: "buffer \<Rightarrow> buffer" where
  "new_GameActionMsg b =
     put_field GameActionMsg ''start_states'' (int (struct_size GameActionMsg)) (construct_header GAMEACTION_CLIENT_SEND 0 b)"

definition write_at :: "nat \<Rightarrow> layout \<Rightarrow> assignments \<Rightarrow> buffer \<Rightarrow> buffer" where
  "write_at p l fvs b = take p b @ write_all l fvs (drop p b)"

section \<open>States of the objects\<close>

text \<open>\<open>get_array\<close>: the block \<open>t\<close> is copied to where pointer \<open>i\<close> of the array leads.\<close>

definition array_pos :: nat where
  "array_pos = offset_of TankState16Msg ''array''"

definition copy_block :: "nat \<Rightarrow> MyDataBlock \<Rightarrow> buffer \<Rightarrow> buffer option" where
  "copy_block i t b =
     (let pp = MyArray_getIndex array_pos (struct_size MyPointer) i b
      in if pp + struct_size MyPointer > length b then None
         else let b = MyPointer_init pp (block_size t) b; q = MyPointer_getPtr pp b
              in if q + block_size t \<le> length b \<and> block_size t \<le> length (block_data t)
                 then Some (overwrite q (take (block_size t) (block_data t)) b) else None)"

fun copy_blocks :: "nat \<Rightarrow> MyDataBlock list \<Rightarrow> buffer \<Rightarrow> buffer option" where
  "copy_blocks i [] b = Some b"
| "copy_blocks i (t # ts) b = do { b \<leftarrow> copy_block i t b; copy_blocks (i + 1) ts b }"

definition get_array :: "MyDataBlock list \<Rightarrow> nat \<Rightarrow> nat \<Rightarrow> buffer \<Rightarrow> buffer option" where
  "get_array forSend offset sz b =
     (let b = put_field BaseMessage ''size_of_data'' (int (struct_size TankState16Msg)) b;
          n = length forSend;
          n = (if n > offset + sz then offset + sz else n);
          b = MyArray_init array_pos (struct_size MyPointer) n b
      in copy_blocks offset (drop offset (take n forSend)) b)"

text \<open>
  The objects a client has not acknowledged. Erasing the current element of the map inside its
  own loop is undefined.
\<close>

fun collect :: "GameCore \<Rightarrow> (int \<times> addr) list \<Rightarrow> (int, ClientSyncState) stdmap
    \<Rightarrow> ((int, ClientSyncState) stdmap \<times> MyDataBlock list) option" where
  "collect c [] acks = Some (acks, [])"
| "collect c ((i, a) # zs) acks = do {
     ob \<leftarrow> obj_at c a;
     let o_b = base_of ob;
     if for_remove o_b \<and> core_time c > last_event_time o_b + 60 * 3 then None
     else do {
       let (acks, cs) = index_key new_ClientSyncState acks i;
       (acks, ts) \<leftarrow> collect c zs acks;
       Some (acks, if lastAck cs \<ge> last_event_time o_b then ts
                   else (if for_remove o_b then removed_block c ob else get_data c ob) # ts) } }"

definition send_states :: "addr \<Rightarrow> MyDataBlock list \<Rightarrow> nat \<Rightarrow> 'a Engine_scheme \<Rightarrow> 'a Engine_scheme option" where
  "send_states a forSend i e = do {
     b \<leftarrow> get_array forSend i 16 (construct_header TANK_STATE_16 0 (uninit e (4 * 1024)));
     (e, b) \<leftarrow> udp_send a b (nat (field BaseMessage ''size_of_data'' b)) e;
     Some e }"

definition offsets :: "nat \<Rightarrow> nat list" where
  "offsets n = map (\<lambda>k. 16 * k) [0..<(n + 15) div 16]"

definition init_client :: "addr \<Rightarrow> Room \<times> 'a Engine_scheme \<Rightarrow> (Room \<times> 'a Engine_scheme) option" where
  "init_client a = (\<lambda>(r, e). do {
     up \<leftarrow> port_at e a;
     let (m, acks) = index_key [] (ackSendedEvent r) (client_process_id up);
     (acks, forSend) \<leftarrow> collect (game_core r) (zombies (game_core r)) acks;
     e \<leftarrow> for_each (send_states a forSend) (offsets (length forSend)) e;
     Some (r\<lparr>ackSendedEvent := set_key (client_process_id up) acks m\<rparr>, e) })"

definition update_clients :: "Room \<times> 'a Engine_scheme \<Rightarrow> (Room \<times> 'a Engine_scheme) option" where
  "update_clients re = for_each (\<lambda>(u, a). init_client a) (room_users (fst re)) re"

definition event_ack :: "int \<Rightarrow> int \<Rightarrow> int \<Rightarrow> Room \<Rightarrow> Room" where
  "event_ack pid event_id step r =
     (let (m, acks) = index_key [] (ackSendedEvent r) pid;
          (acks, cs) = index_key new_ClientSyncState acks event_id;
          acks = (if lastAck cs < step then set_key event_id (cs\<lparr>lastAck := step\<rparr>) acks else acks)
      in r\<lparr>ackSendedEvent := set_key pid acks m\<rparr>)"

section \<open>Steps\<close>

text \<open>The loop of \<open>update\<close>: steps until the core has caught up with the clock.\<close>

partial_function (option) catch_up :: "libm \<Rightarrow> int \<Rightarrow> GameCore \<Rightarrow> GameCore option" where
  "catch_up m now c =
     (if get_step_with_time c now > core_time c then core_update m c \<bind> catch_up m now else Some c)"

definition room_update :: "libm \<Rightarrow> int \<Rightarrow> Room \<Rightarrow> (Room \<times> bool) option" where
  "room_update m now r =
     (if room_is_close r then Some (r, False)
      else if last_action r + 60 * 10 < core_time (game_core r) then Some (r, False)
      else do { c \<leftarrow> catch_up m now (game_core r); Some (r\<lparr>game_core := c\<rparr>, True) })"

section \<open>Creation\<close>

definition random_point :: "'a Engine_scheme \<Rightarrow> 'a Engine_scheme \<times> Point" where
  "random_point e =
     (let (e, x) = rand e; (e, y) = rand e in (e, int_point (c_mod x 6000 - 3000) (c_mod y 6000 - 3000)))"

fun random_points :: "nat \<Rightarrow> 'a Engine_scheme \<Rightarrow> 'a Engine_scheme \<times> Point list" where
  "random_points 0 e = (e, [])"
| "random_points (Suc k) e =
     (let (e, p) = random_point e; (e, ps) = random_points k e in (e, p # ps))"

definition add_bot :: "int \<Rightarrow> GameCore \<times> 'a Engine_scheme \<Rightarrow> (GameCore \<times> 'a Engine_scheme) option" where
  "add_bot i = (\<lambda>(c, e). do {
     (c, p) \<leftarrow> add_player_with_tank (100 + i) c;
     let (e, ps) = random_points 10 e;
     a \<leftarrow> p;
     t \<leftarrow> tank_at c a;
     Some (put_tank a (t\<lparr>ai := Some \<lparr>ai_path = ps, currentTargetIndex = 0\<rparr>\<rparr>) c, e) })"

definition room_init :: "libm \<Rightarrow> Room \<times> 'a Engine_scheme \<Rightarrow> (Room \<times> 'a Engine_scheme) option" where
  "room_init m = (\<lambda>(r, e). do {
     c \<leftarrow> core_init m (game_core r);
     let c = c\<lparr>core_time := 0, milisecond_per_step := 20, start_time := total_time e, server := True\<rparr>;
     (c, e) \<leftarrow> for_each add_bot [0, 1, 2, 3, 4, 5, 6, 7, 8, 9] (c, e);
     Some (r\<lparr>game_core := c\<rparr>, e) })"

text \<open>\<open>std::make_shared\<close> value-initialises the room: what has no initialiser is zero.\<close>

definition new_Room :: Room where
  "new_Room = \<lparr>room_id = 0, room_code = 0, game_core = new_GameCore, room_lig_id = 0, room_users = [],
     last_action = 0, room_is_close = False, ackSendedEvent = [], last_update_time = 0\<rparr>"

definition room_create :: "libm \<Rightarrow> 'a Engine_scheme \<Rightarrow> (Room \<times> 'a Engine_scheme) option" where
  "room_create m e = room_init m (new_Room, e)"

record RoomData =
  rd_id :: int
  rd_code :: int
  rd_lig_id :: int
  rd_starting_time :: int
  rd_last_update_time :: int

definition init_with_room_date :: "RoomData \<Rightarrow> int \<Rightarrow> Room \<Rightarrow> Room" where
  "init_with_room_date d now r =
     r\<lparr>room_id := rd_id d, room_code := rd_code d, room_lig_id := rd_lig_id d, last_update_time := now\<rparr>"

section \<open>Actions\<close>

definition action_msg_is_ok :: "buffer \<Rightarrow> Room \<Rightarrow> bool" where
  "action_msg_is_ok b r =
     (if room_code r \<noteq> field RoomMsg ''room.code'' b then False
      else if find_key (room_users r) (field BaseMessage ''user_id'' b) = None then False
      else True)"

text \<open>The message about an input, in a block of 256 bytes on the stack.\<close>

definition action_message :: "Input \<Rightarrow> assignments \<Rightarrow> buffer \<Rightarrow> buffer" where
  "action_message inp fvs b =
     (let b = put_field GameActionMsg ''number_of_states'' 1 (new_GameActionMsg b);
          off = nat (field GameActionMsg ''start_states'' b);
          (l, own) = input_assignments inp;
          b = write_at off l (own @ fvs) b
      in put_field BaseMessage ''size_of_data''
           (int (struct_size GameActionMsg) + field InputState ''size_of_data'' (drop off b)) b)"

definition send_action :: "addr \<Rightarrow> Input \<Rightarrow> assignments \<Rightarrow> 'a Engine_scheme \<Rightarrow> 'a Engine_scheme option" where
  "send_action a inp fvs e = do {
     let b = action_message inp fvs (uninit e 256);
     (e, b) \<leftarrow> udp_send a b (nat (field BaseMessage ''size_of_data'' b)) e;
     Some e }"

definition MOVMENT :: int where
  "MOVMENT = 1"

definition new_input :: "int \<Rightarrow> buffer \<Rightarrow> addr \<Rightarrow> GameCore \<Rightarrow> (GameCore \<times> Input) option" where
  "new_input act_time action a c = do {
     t \<leftarrow> tank_at c a;
     let cid = to_i32 (field InputState ''client_id'' action);
     if field InputState ''type'' action = MOVMENT
     then (let (t, i) = add_action act_time (bits_float (field InputFarmanState ''farman'' action))
                          (bits_float (field InputFarmanState ''speed'' action)) cid t
           in Some (put_tank a t c, i))
     else add_shot_action act_time cid a c }"

text \<open>A known action is only answered again; a new one is answered and sent to the other users.\<close>

definition take_action :: "addr \<Rightarrow> buffer \<Rightarrow> addr \<Rightarrow> Room \<times> 'a Engine_scheme
    \<Rightarrow> (Room \<times> 'a Engine_scheme) option" where
  "take_action up action a = (\<lambda>(r, e). do {
     let c = game_core r;
     t \<leftarrow> tank_at c a;
     let act_time = max (field InputState ''trigger_step'' action) (core_time c + 2);
     let mine = [(''tank_id'', obj_id t)];
     case get_action_of t (to_i32 (field InputState ''client_id'' action)) of
       Some inp \<Rightarrow> do { e \<leftarrow> send_action up inp mine e; Some (r, e) }
     | None \<Rightarrow> do {
         (c, inp) \<leftarrow> new_input act_time action a c;
         e \<leftarrow> send_action up inp mine e;
         e \<leftarrow> for_each (\<lambda>(u, up2) e.
                if up2 = up then Some e
                else send_action up2 inp ((''client_id'', field InputState ''client_id'' action) # mine) e)
              (room_users r) e;
         Some (r\<lparr>game_core := c\<rparr>, e) } })"

definition room_get_msg :: "libm \<Rightarrow> addr \<Rightarrow> buffer \<Rightarrow> Room \<times> 'a Engine_scheme
    \<Rightarrow> (Room \<times> 'a Engine_scheme) option" where
  "room_get_msg m up mr = (\<lambda>(r, e).
     if \<not> action_msg_is_ok mr r then Some (r, e)
     else do {
       (r, ph) \<leftarrow> room_update m (total_time e) (r\<lparr>last_action := core_time (game_core r)\<rparr>);
       action \<leftarrow> get_action (uninit e 256) mr;
       case get_player (game_core r) (field BaseMessage ''user_id'' mr) of
         None \<Rightarrow> Some (r, e)
       | Some p \<Rightarrow> (case player_tank p of
           None \<Rightarrow> Some (r, e)
         | Some a \<Rightarrow> take_action up action a (r, e)) })"

section \<open>Catching up\<close>

fun run_steps :: "libm \<Rightarrow> nat \<Rightarrow> GameCore \<Rightarrow> GameCore option" where
  "run_steps m 0 c = Some c"
| "run_steps m (Suc k) c = core_update m c \<bind> run_steps m k"

lemma core_update_clock:
  assumes "core_ok c" and "core_update m c = Some c'"
  shows "start_time c' = start_time c" and "milisecond_per_step c' = milisecond_per_step c"
proof -
  obtain c1 ids where "evolves (c\<lparr>core_time := core_time c + 1\<rparr>) c1" "core_ok c1"
    "evolves (fold forget_object ids c1) c'"
    using core_update_parts [OF assms(2,1)] by metis
  moreover have "start_time (fold forget_object ids c) = start_time c
      \<and> milisecond_per_step (fold forget_object ids c) = milisecond_per_step c" for ids c
    by (induction ids arbitrary: c) (simp_all add: forget_object_def)
  ultimately show "start_time c' = start_time c" "milisecond_per_step c' = milisecond_per_step c"
    by (simp_all add: evolves_def)
qed

lemma run_steps_time: "core_ok c \<Longrightarrow> run_steps m k c = Some c' \<Longrightarrow> core_ok c' \<and> core_time c' = core_time c + int k"
proof (induction k arbitrary: c)
  case (Suc k)
  then obtain c1 where c1: "core_update m c = Some c1" "run_steps m k c1 = Some c'"
    by (auto simp: bind_Some_iff)
  with Suc.IH [of c1] tanks_after_update(1,2) [OF Suc.prems(1) c1(1)] show ?case by simp
qed simp

lemma catch_up_run:
  assumes "core_ok c" and "k = nat (get_step_with_time c now - core_time c)"
  shows "catch_up m now c = run_steps m k c"
  using assms
proof (induction k arbitrary: c)
  case 0
  then show ?case by (subst catch_up.simps) simp
next
  case (Suc k)
  show ?case
  proof (cases "core_update m c")
    case None
    then show ?thesis using Suc.prems(2) [symmetric] by (subst catch_up.simps) simp
  next
    case (Some c1)
    have "get_step_with_time c1 now = get_step_with_time c now"
      using core_update_clock [OF Suc.prems(1) Some] by (simp add: get_step_with_time_def)
    then have "k = nat (get_step_with_time c1 now - core_time c1)"
      using Suc.prems(2) tanks_after_update(2) [OF Suc.prems(1) Some] by simp
    with Suc.IH [OF tanks_after_update(1) [OF Suc.prems(1) Some] this] show ?thesis
      using Some Suc.prems(2) [symmetric] by (subst catch_up.simps) simp
  qed
qed

section \<open>What a client is sent\<close>

definition last_ack :: "(int, ClientSyncState) stdmap \<Rightarrow> int \<Rightarrow> int" where
  "last_ack acks i = (case find_key acks i of None \<Rightarrow> - 1 | Some cs \<Rightarrow> lastAck cs)"

lemma last_ack_index:
  "index_key new_ClientSyncState acks i = (acks', cs) \<Longrightarrow> lastAck cs = last_ack acks i"
  by (auto simp: index_key_def last_ack_def new_ClientSyncState_def split: option.splits)

lemma last_ack_index_other:
  "ordered acks \<Longrightarrow> index_key new_ClientSyncState acks i = (acks', cs) \<Longrightarrow> last_ack acks' j = last_ack acks j"
  by (auto simp: index_key_def last_ack_def new_ClientSyncState_def find_key_set_key split: option.splits if_splits)

definition pending :: "GameCore \<Rightarrow> (int, ClientSyncState) stdmap \<Rightarrow> int \<times> addr \<Rightarrow> bool" where
  "pending c acks ia \<longleftrightarrow>
     (\<exists>ob. objects c (snd ia) = Some ob \<and> last_ack acks (fst ia) < last_event_time (base_of ob))"

definition state_of :: "GameCore \<Rightarrow> int \<times> addr \<Rightarrow> MyDataBlock" where
  "state_of c ia = (case objects c (snd ia) of None \<Rightarrow> \<lparr>block_size = 0, block_data = []\<rparr> | Some ob \<Rightarrow> get_data c ob)"

lemma ordered_index: "ordered m \<Longrightarrow> index_key d m k = (m', v) \<Longrightarrow> ordered m'"
  using ordered_index_key [of m d k] by simp

lemma collect_pending:
  assumes "ordered acks" and "\<forall>ia \<in> set zs. \<exists>ob. objects c (snd ia) = Some ob \<and> \<not> for_remove (base_of ob)"
  shows "\<exists>acks'. collect c zs acks = Some (acks', map (state_of c) (filter (pending c acks) zs))
     \<and> ordered acks' \<and> (\<forall>i. last_ack acks' i = last_ack acks i)"
  using assms
proof (induction zs arbitrary: acks)
  case (Cons z zs)
  obtain i a ob where z: "z = (i, a)" "objects c a = Some ob" "\<not> for_remove (base_of ob)"
    using Cons.prems(2) by (cases z) auto
  obtain acks1 cs where k: "index_key new_ClientSyncState acks i = (acks1, cs)"
    by (cases "index_key new_ClientSyncState acks i")
  note la = last_ack_index [OF k] last_ack_index_other [OF Cons.prems(1) k]
  obtain acks' where r: "collect c zs acks1 = Some (acks', map (state_of c) (filter (pending c acks1) zs))"
    "ordered acks'" "\<forall>i. last_ack acks' i = last_ack acks1 i"
    using Cons.IH [OF ordered_index [OF Cons.prems(1) k]] Cons.prems(2) by auto
  have "pending c acks1 = pending c acks" by (rule ext) (simp add: pending_def la(2))
  moreover have "pending c acks z \<longleftrightarrow> \<not> last_event_time (base_of ob) \<le> lastAck cs" "state_of c z = get_data c ob"
    using z la(1) by (auto simp: pending_def state_of_def)
  ultimately show ?case using z(2,3) k r la(2) unfolding z(1) by simp
qed simp

section \<open>The array of states in a message\<close>

lemma bytes_at_drop: "bytes_at off n (drop p b) = bytes_at (p + off) n b"
  by (simp add: bytes_at_def add.commute)

lemma put_from_overwrite:
  assumes "field_at l f = Some (off, t)" and "p \<le> length b"
  shows "put_from p l f v b = overwrite (p + off) (le_bytes (size_of t) v) b"
proof -
  have "drop (off + size_of t) (drop p b) = drop (p + off + size_of t) b" by (simp add: ac_simps)
  then show ?thesis using assms take_add [of p off b] by (simp add: put_from_def put_field_def overwrite_def)
qed

lemma array_fields:
  "field_at MyArray ''start'' = Some (0, CUInt)" "field_at MyArray ''size'' = Some (4, CUInt)"
  "field_at MyPointer ''start'' = Some (0, CUInt)" "field_at BaseMessage ''size_of_data'' = Some (60, CUInt)"
  "array_pos = 89"
  by code_simp+

lemma array_reads:
  "field_from p MyArray ''start'' b = le_value (bytes_at p 4 b)"
  "field_from p MyPointer ''start'' b = le_value (bytes_at p 4 b)"
  "field BaseMessage ''size_of_data'' b = le_value (bytes_at 60 4 b)"
  by (simp_all add: field_from_def field_def array_fields bytes_at_drop)

lemma le_value_u32: "0 \<le> v \<Longrightarrow> v < 2 ^ 32 \<Longrightarrow> le_value (le_bytes 4 v) = v"
  by (simp add: le_value_bytes)

text \<open>A client finds block \<open>t\<close> through pointer \<open>i\<close>.\<close>

definition reads_block :: "buffer \<Rightarrow> nat \<Rightarrow> MyDataBlock \<Rightarrow> bool" where
  "reads_block b i t \<longleftrightarrow>
     (let q = MyPointer_getPtr (MyArray_getIndex array_pos (struct_size MyPointer) i b) b
      in q + block_size t \<le> nat (field BaseMessage ''size_of_data'' b)
         \<and> bytes_at q (block_size t) b = take (block_size t) (block_data t))"

lemma getIndex_at: "le_value (bytes_at 89 4 b) = 8 \<Longrightarrow> MyArray_getIndex 89 4 i b = 97 + 4 * i"
  by (simp add: MyArray_getIndex_def array_reads)

text \<open>\<open>b\<close> has its end at \<open>e\<close> and an array of \<open>n\<close> pointers; \<open>kept\<close> says what is left alone.\<close>

definition laid_out :: "nat \<Rightarrow> nat \<Rightarrow> buffer \<Rightarrow> bool" where
  "laid_out n e b \<longleftrightarrow> le_value (bytes_at 89 4 b) = 8 \<and> le_value (bytes_at 60 4 b) = int e
     \<and> 97 + 4 * n \<le> e \<and> e \<le> length b \<and> int (length b) < 2 ^ 31"

definition kept :: "nat \<Rightarrow> nat \<Rightarrow> nat \<Rightarrow> buffer \<Rightarrow> buffer \<Rightarrow> bool" where
  "kept i n e b b' \<longleftrightarrow> length b' = length b
     \<and> (\<forall>p k. 64 \<le> p \<and> p + k \<le> 97 + 4 * i \<longrightarrow> bytes_at p k b' = bytes_at p k b)
     \<and> (\<forall>p k. 97 + 4 * n \<le> p \<and> p + k \<le> e \<longrightarrow> bytes_at p k b' = bytes_at p k b)"

lemma kept_trans: "kept i n e b b1 \<Longrightarrow> kept i' n e' b1 b2 \<Longrightarrow> i \<le> i' \<Longrightarrow> e \<le> e' \<Longrightarrow> kept i n e b b2"
  by (auto simp: kept_def)

lemma copy_block_laid_out:
  assumes "laid_out n e b" and "i < n" and "e + block_size t \<le> length b" and "block_size t \<le> length (block_data t)"
  shows "\<exists>b'. copy_block i t b = Some b' \<and> laid_out n (e + block_size t) b' \<and> kept i n e b b'
     \<and> le_value (bytes_at (97 + 4 * i) 4 b') = int e - int (97 + 4 * i)
     \<and> bytes_at e (block_size t) b' = take (block_size t) (block_data t)"
proof -
  note a = assms(1) [unfolded laid_out_def]
  let ?pp = "97 + 4 * i" and ?v = "int e - int (97 + 4 * i)"
  let ?d = "take (block_size t) (block_data t)"
  have pp: "?pp + 4 \<le> e" "?pp + 4 \<le> length b" "64 \<le> ?pp" using assms(2) a by simp_all
  let ?b1 = "overwrite ?pp (le_bytes 4 ?v) b"
  let ?b2 = "overwrite 60 (le_bytes 4 (int (e + block_size t))) ?b1"
  let ?b3 = "overwrite e ?d ?b2"
  have len1: "length ?b1 = length b" using pp by (simp add: length_overwrite)
  have len: "length ?b2 = length b" using len1 pp(2,3) by (simp add: length_overwrite)
  have len3: "length ?b3 = length b" using len assms(3,4) by (simp add: length_overwrite)
  have v: "to_u32 ?v = ?v" "le_value (le_bytes 4 ?v) = ?v" using a pp by (simp_all add: to_u32_def le_value_bytes)
  have e1: "le_value (bytes_at 60 4 ?b1) = int e"
    using a pp by (simp add: bytes_at_overwrite_other)
  have end_b: "getEndData b = e" using a by (simp add: getEndData_def array_reads)
  have "MyPointer_init ?pp (block_size t) b = ?b2"
    using e1 a pp v(1) assms(3) end_b
    by (simp add: MyPointer_init_def grow_data_def put_from_overwrite [OF array_fields(3)] array_reads
        put_field_def array_fields to_u32_def)
  moreover have p2: "le_value (bytes_at ?pp 4 ?b2) = ?v"
    using pp len1 v(2) by (simp add: bytes_at_overwrite_other bytes_at_overwrite_same)
  then have "MyPointer_getPtr ?pp ?b2 = e" using pp by (simp add: MyPointer_getPtr_def array_reads)
  ultimately have c: "copy_block i t b = Some ?b3"
    using a pp len assms(3,4) by (simp add: copy_block_def getIndex_at layout_sizes array_fields Let_def)
  have keep: "bytes_at p k ?b3 = bytes_at p k b"
    if "64 \<le> p \<and> p + k \<le> ?pp \<or> 97 + 4 * n \<le> p \<and> p + k \<le> e" for p k
  proof -
    have "bytes_at p k ?b3 = bytes_at p k ?b2"
      using that pp len assms(3,4) by (intro bytes_at_overwrite_other) auto
    also have "\<dots> = bytes_at p k ?b1"
      using that pp len1 a by (intro bytes_at_overwrite_other) auto
    also have "\<dots> = bytes_at p k b"
      using that pp assms(2) by (intro bytes_at_overwrite_other) auto
    finally show ?thesis .
  qed
  have "kept i n e b ?b3" using keep len3 by (simp add: kept_def)
  moreover have "bytes_at e (block_size t) ?b3 = ?d" using len assms(3,4) by (simp add: bytes_at_overwrite_same)
  moreover have "le_value (bytes_at ?pp 4 ?b3) = ?v"
    using p2 pp len assms(3,4) by (simp add: bytes_at_overwrite_other)
  moreover have "le_value (bytes_at 60 4 ?b3) = int (e + block_size t)"
    using pp len len1 a assms(3,4)
    by (simp add: bytes_at_overwrite_other bytes_at_overwrite_same le_value_bytes)
  moreover have "bytes_at 89 4 ?b3 = bytes_at 89 4 b" by (rule keep) simp
  ultimately show ?thesis using c a len3 assms(3) by (auto simp: laid_out_def)
qed

text \<open>A block once written stays readable.\<close>

lemma reads_block_kept:
  assumes "laid_out n e b" and "laid_out n e' b'" and "kept k n e b b'" and "i < k" and "e \<le> e'"
    and "le_value (bytes_at (97 + 4 * i) 4 b) = int q - int (97 + 4 * i)"
    and "97 + 4 * n \<le> q" and "k \<le> n" and "q + block_size t \<le> e"
    and "bytes_at q (block_size t) b = take (block_size t) (block_data t)"
  shows "reads_block b' i t"
proof -
  have "bytes_at (97 + 4 * i) 4 b' = bytes_at (97 + 4 * i) 4 b" "bytes_at q (block_size t) b' = bytes_at q (block_size t) b"
    using assms(3,4,7,9) by (simp_all add: kept_def)
  moreover have "97 + 4 * i + nat (int q - int (97 + 4 * i)) = q" using assms(4,7,8) by simp
  ultimately show ?thesis using assms(2,5,6,9,10)
    by (simp add: reads_block_def laid_out_def getIndex_at MyPointer_getPtr_def array_reads layout_sizes
        array_fields Let_def)
qed

lemma bytes_at_split: "bytes_at p (m + n) b = bytes_at p m b @ bytes_at (p + m) n b"
  by (simp add: bytes_at_def take_add add.commute)

definition content :: "MyDataBlock list \<Rightarrow> buffer" where
  "content ts = concat (map (\<lambda>t. take (block_size t) (block_data t)) ts)"

lemma copy_blocks_laid_out:
  assumes "laid_out n e b" and "i + length ts \<le> n" and "e + sum_list (map block_size ts) \<le> length b"
    and "\<forall>t \<in> set ts. block_size t \<le> length (block_data t)"
  shows "\<exists>b'. copy_blocks i ts b = Some b' \<and> laid_out n (e + sum_list (map block_size ts)) b' \<and> kept i n e b b'
     \<and> (\<forall>j < length ts. reads_block b' (i + j) (ts ! j))
     \<and> bytes_at e (sum_list (map block_size ts)) b' = content ts"
  using assms
proof (induction ts arbitrary: i e b)
  case (Cons t ts)
  from copy_block_laid_out [OF Cons.prems(1), of i t] Cons.prems obtain b1 where b1:
    "copy_block i t b = Some b1" "laid_out n (e + block_size t) b1" "kept i n e b b1"
    "le_value (bytes_at (97 + 4 * i) 4 b1) = int e - int (97 + 4 * i)"
    "bytes_at e (block_size t) b1 = take (block_size t) (block_data t)" by auto
  have "length b1 = length b" using b1(3) by (simp add: kept_def)
  with Cons.IH [OF b1(2), of "i + 1"] Cons.prems obtain b' where b':
    "copy_blocks (i + 1) ts b1 = Some b'" "laid_out n (e + block_size t + sum_list (map block_size ts)) b'"
    "kept (i + 1) n (e + block_size t) b1 b'" "\<forall>j < length ts. reads_block b' (i + 1 + j) (ts ! j)"
    "bytes_at (e + block_size t) (sum_list (map block_size ts)) b' = content ts" by auto
  have "97 + 4 * n \<le> e" using Cons.prems(1) by (simp add: laid_out_def)
  then have "reads_block b' i t"
    using reads_block_kept [OF b1(2) b'(2,3), of i e t] b1(4,5) Cons.prems(2) by simp
  then have "\<forall>j < length (t # ts). reads_block b' (i + j) ((t # ts) ! j)"
    using b'(4) by (auto simp: nth_Cons split: nat.split)
  moreover have "kept i n e b b'" using kept_trans [OF b1(3) b'(3)] by simp
  moreover have "bytes_at e (block_size t) b' = bytes_at e (block_size t) b1"
    using b'(3) \<open>97 + 4 * n \<le> e\<close> by (simp add: kept_def)
  then have "bytes_at e (block_size t + sum_list (map block_size ts)) b' = content (t # ts)"
    using b1(5) b'(5) by (simp add: bytes_at_split content_def)
  ultimately show ?case using b1(1) b'(1,2) by (auto simp: add.assoc)
qed (simp add: kept_def content_def bytes_at_def)

lemma get_array_laid_out:
  assumes "offset < length ts" and "n = min (length ts) (offset + sz)" and "ds = take sz (drop offset ts)"
    and "97 + 4 * n + sum_list (map block_size ds) \<le> length b"
    and "int (length b) < 2 ^ 31" and "\<forall>t \<in> set ds. block_size t \<le> length (block_data t)"
  shows "\<exists>b'. get_array ts offset sz b = Some b' \<and> length b' = length b
     \<and> laid_out n (97 + 4 * n + sum_list (map block_size ds)) b'
     \<and> (\<forall>j < length ds. reads_block b' (offset + j) (ds ! j))
     \<and> bytes_at (97 + 4 * n) (sum_list (map block_size ds)) b' = content ds
     \<and> le_value (bytes_at 93 4 b') = int n \<and> bytes_at 69 4 b' = bytes_at 69 4 b
     \<and> bytes_at 97 (4 * offset) b' = bytes_at 97 (4 * offset) b"
proof -
  let ?b0 = "overwrite 60 (le_bytes 4 97) b"
  let ?b1 = "overwrite 89 (le_bytes 4 8) ?b0"
  let ?b2 = "overwrite 93 (le_bytes 4 (int n)) ?b1"
  let ?b3 = "overwrite 60 (le_bytes 4 (int (97 + 4 * n))) ?b2"
  have L: "97 \<le> length b" "int n < 2 ^ 31" using assms(4,5) by simp_all
  then have len: "length ?b0 = length b" "length ?b1 = length b" "length ?b2 = length b" "length ?b3 = length b"
    by (simp_all add: length_overwrite)
  have e: "le_value (bytes_at 60 4 ?b0) = 97" "le_value (bytes_at 60 4 ?b2) = 97"
    using L len by (simp_all add: bytes_at_overwrite_other bytes_at_overwrite_same le_value_bytes)
  have "MyArray_init array_pos (struct_size MyPointer) n ?b0 = ?b3"
    using e L len assms(4,5)
    by (simp add: MyArray_init_def getEndData_def grow_data_def put_from_overwrite [OF array_fields(1)]
        put_from_overwrite [OF array_fields(2)] put_field_def array_fields array_reads layout_sizes to_u32_def
        mult.commute)
  moreover have "drop offset (take n ts) = ds" using assms(1-3) by (simp add: drop_take min_def)
  ultimately have g: "get_array ts offset sz b = copy_blocks offset ds ?b3"
    using assms(2) by (simp add: get_array_def put_field_def array_fields layout_sizes Let_def min_def
        split: if_splits)
  have "laid_out n (97 + 4 * n) ?b3"
    using L len assms(4,5)
    by (simp add: laid_out_def bytes_at_overwrite_other bytes_at_overwrite_same le_value_bytes)
  moreover have "offset + length ds \<le> n" using assms(1-3) by auto
  ultimately obtain b' where "copy_blocks offset ds ?b3 = Some b'"
    "laid_out n (97 + 4 * n + sum_list (map block_size ds)) b'" "kept offset n (97 + 4 * n) ?b3 b'"
    "\<forall>j < length ds. reads_block b' (offset + j) (ds ! j)"
    "bytes_at (97 + 4 * n) (sum_list (map block_size ds)) b' = content ds"
    using copy_blocks_laid_out [of n "97 + 4 * n" ?b3 offset ds] assms(4,6) len(4) by auto
  moreover have "le_value (bytes_at 93 4 ?b3) = int n"
    using L len by (simp add: bytes_at_overwrite_other bytes_at_overwrite_same le_value_bytes)
  moreover have "bytes_at 69 4 ?b3 = bytes_at 69 4 b" "bytes_at 97 (4 * offset) ?b3 = bytes_at 97 (4 * offset) b"
    using L len by (simp_all add: bytes_at_overwrite_other)
  moreover have "bytes_at 93 4 b' = bytes_at 93 4 ?b3" "bytes_at 69 4 b' = bytes_at 69 4 ?b3"
    "bytes_at 97 (4 * offset) b' = bytes_at 97 (4 * offset) ?b3"
    using calculation(3) by (simp_all add: kept_def)
  ultimately show ?thesis using g len(4) by (auto simp: kept_def)
qed

section \<open>Datagrams\<close>

lemma length_write_all: "struct_size l \<le> length b \<Longrightarrow> length (write_all l fvs b) = length b"
  unfolding write_all_def by (induction fvs arbitrary: b) (auto simp: length_put_field)

lemma sum_list_bound: "\<forall>x \<in> set xs. f x \<le> (k::nat) \<Longrightarrow> sum_list (map f xs) \<le> length xs * k"
  by (induction xs) auto

text \<open>What a send to a port does: it appends one datagram, and the message may get an id.\<close>

definition only_sent :: "addr \<Rightarrow> UserPort \<Rightarrow> 'a Engine_scheme \<Rightarrow> 'a Engine_scheme \<Rightarrow> bool" where
  "only_sent a p e e' \<longleftrightarrow> (\<exists>p'. port_at e' a = Some p' \<and> udp_end_point p' = udp_end_point p)
     \<and> (\<forall>x. x \<noteq> a \<longrightarrow> port_at e' x = port_at e x)
     \<and> messages e' = messages e \<and> resend_jobs e' = resend_jobs e \<and> database e' = database e
     \<and> total_time e' = total_time e \<and> junk e' = junk e"

lemma only_sent_trans:
  assumes "only_sent a p e e1" and "port_at e1 a = Some p1 \<Longrightarrow> only_sent a p1 e1 e2"
    and "port_at e1 a = Some p1"
  shows "only_sent a p e e2"
  using assms by (auto simp: only_sent_def)

lemma udp_send_total:
  assumes "port_at e a = Some p" and "n \<le> length b" and "69 \<le> length b"
  shows "\<exists>e' b'. udp_send a b n e = Some (e', b') \<and> udp_log e' = udp_log e @ [(udp_end_point p, take n b')]
     \<and> length b' = length b \<and> (\<forall>k c. 20 \<le> k \<longrightarrow> bytes_at k c b' = bytes_at k c b) \<and> only_sent a p e e'"
proof (cases "field BaseMessage ''id'' b = 0")
  case True
  obtain e1 i where g: "generate_msg_id a e = Some (e1, i)"
    "e1 = put_port a (p\<lparr>last_msg_id := next_msg_id (last_msg_id p)\<rparr>) e\<lparr>rand_pos := rand_pos e + 1\<rparr>"
    using assms(1) by (simp add: generate_msg_id_def rand_def Let_def) (simp add: put_port_def)
  let ?b = "put_field BaseMessage ''id'' i b"
  have b: "?b = overwrite 12 (le_bytes 8 i) b" by (simp add: put_field_def BaseMessage_fields)
  then have "length ?b = length b" "\<forall>k c. 20 \<le> k \<longrightarrow> bytes_at k c ?b = bytes_at k c b"
    using assms(3) by (simp_all add: length_overwrite bytes_at_overwrite_other)
  moreover have "port_at e1 a = Some (p\<lparr>last_msg_id := next_msg_id (last_msg_id p)\<rparr>)"
    by (simp add: g(2) port_at_def put_port_def)
  moreover have "only_sent a p e (e1\<lparr>udp_log := l\<rparr>)" for l
    by (simp add: only_sent_def g(2) port_at_def put_port_def)
  moreover have "udp_log e1 = udp_log e" by (simp add: g(2) put_port_def)
  ultimately show ?thesis using True g(1) assms(2) by (simp add: udp_send_def assign_id_def send_bytes_def)
next
  case False
  then show ?thesis using assms
    by (simp add: udp_send_def assign_id_def send_bytes_def only_sent_def) (simp add: port_at_def)
qed

lemma laid_out_size: "laid_out n e b \<Longrightarrow> nat (field BaseMessage ''size_of_data'' b) = e"
  by (simp add: laid_out_def array_reads)

lemma reads_block_sent:
  assumes "laid_out n e b" and "reads_block b i t" and "i < n"
    and "\<forall>k c. 20 \<le> k \<longrightarrow> bytes_at k c b' = bytes_at k c b"
  shows "reads_block (take e b') i t"
proof -
  have t: "bytes_at k c (take e b') = bytes_at k c b" if "20 \<le> k" "k + c \<le> e" for k c
  proof -
    have "bytes_at k c (take e b') = bytes_at k c b'"
      using that(2) by (simp add: bytes_at_def drop_take min_def)
    then show ?thesis using assms(4) that(1) by simp
  qed
  have q: "97 + 4 * i + 4 \<le> e" "97 \<le> e" and a: "le_value (bytes_at 89 4 b) = 8"
    using assms(1,3) by (simp_all add: laid_out_def)
  have f: "bytes_at 60 4 (take e b') = bytes_at 60 4 b" "bytes_at 89 4 (take e b') = bytes_at 89 4 b"
    "bytes_at (97 + 4 * i) 4 (take e b') = bytes_at (97 + 4 * i) 4 b"
    using q by (simp_all add: t)
  let ?q = "97 + 4 * i + nat (le_value (bytes_at (97 + 4 * i) 4 b))"
  have r: "?q + block_size t \<le> e" "bytes_at ?q (block_size t) b = take (block_size t) (block_data t)"
    using assms(2) laid_out_size [OF assms(1)] a
    by (simp_all add: reads_block_def getIndex_at MyPointer_getPtr_def array_reads
        layout_sizes array_fields Let_def)
  have n: "nat (field BaseMessage ''size_of_data'' (take e b')) = e"
    using f(1) laid_out_size [OF assms(1)] by (simp add: array_reads)
  show ?thesis using f a n r t [of ?q "block_size t"]
    by (simp add: reads_block_def getIndex_at MyPointer_getPtr_def array_reads
        layout_sizes array_fields Let_def)
qed

lemma write_all_append: "write_all l (fvs @ gvs) b = write_all l gvs (write_all l fvs b)"
  by (simp add: write_all_def)

lemma field_written:
  assumes "field_at l f = Some (off, t)" and "struct_size l \<le> length b"
  shows "field l f (put_field l f v b) = decode t (le_bytes (size_of t) v)"
proof -
  have "off + size_of t \<le> length b" using field_at_bound [OF assms(1)] assms(2) by simp
  then show ?thesis using assms(1) by (simp add: field_def put_field_def bytes_at_overwrite_same)
qed

lemma field_write_all:
  assumes "field_at l f = Some (off, t)" and "struct_size l \<le> length b"
  shows "field l f (write_all l fvs b)
    = (case map_of (rev fvs) f of None \<Rightarrow> field l f b | Some v \<Rightarrow> decode t (le_bytes (size_of t) v))"
proof (induction fvs rule: rev_induct)
  case (snoc x fvs)
  obtain g v where x: "x = (g, v)" by (cases x)
  have len: "struct_size l \<le> length (write_all l fvs b)" using assms(2) by (simp add: length_write_all)
  have "field l f (write_all l (fvs @ [x]) b) = field l f (put_field l g v (write_all l fvs b))"
    unfolding write_all_append x by (simp add: write_all_def)
  then show ?case
    using snoc.IH field_written [OF assms(1) len] struct.get_put_other [OF len, of f g v] by (cases "f = g") (simp_all add: x)
qed (simp add: write_all_def)

lemma decode_written:
  "decode CInt (le_bytes 4 v) = to_i32 v" "decode CLong (le_bytes 8 v) = to_i64 v"
  "decode CUInt (le_bytes 4 v) = to_u32 v" "decode CFloat (le_bytes 4 v) = to_u32 v"
proof -
  have mods: "256 ^ 4 = (2 ^ 32 :: int)" "256 ^ 8 = (2 ^ 64 :: int)" by simp_all
  have signed: "to_i32 (v mod 2 ^ 32) = to_i32 v" "to_i64 (v mod 2 ^ 64) = to_i64 v"
    by (simp_all add: to_i32_def to_i64_def mod_add_left_eq del: power_numeral)
  show "decode CInt (le_bytes 4 v) = to_i32 v" "decode CLong (le_bytes 8 v) = to_i64 v"
    "decode CUInt (le_bytes 4 v) = to_u32 v" "decode CFloat (le_bytes 4 v) = to_u32 v"
    using signed by (simp_all only: decode.simps le_value_bytes mods to_u32_def)
qed

lemma to_u32_to_i32: "to_u32 (to_i32 v) = to_u32 v"
  by (simp add: to_u32_def to_i32_def mod_diff_left_eq)

lemma to_signed_mod: "to_i64 (v mod 18446744073709551616) = to_i64 v" "to_i32 (v mod 4294967296) = to_i32 v"
  by (simp_all add: to_i32_def to_i64_def mod_add_left_eq)

lemma told_fields:
  "field_at MsgHeader ''type'' = Some (69, CUInt)" "field_at GameActionMsg ''type'' = Some (69, CUInt)"
  "field_at GameActionMsg ''size_of_data'' = Some (60, CUInt)"
  "field_at InputState ''tank_id'' = Some (8, CLong)" "field_at InputState ''client_id'' = Some (24, CUInt)"
  "field_at InputState ''trigger_step'' = Some (16, CInt)" "field_at InputState ''type'' = Some (4, CUInt)"
  "field_at InputFarmanState ''tank_id'' = Some (8, CLong)" "field_at InputFarmanState ''client_id'' = Some (24, CUInt)"
  "field_at InputFarmanState ''trigger_step'' = Some (16, CInt)" "field_at InputFarmanState ''type'' = Some (4, CUInt)"
  "field_at InputFarmanState ''farman'' = Some (28, CFloat)" "field_at InputFarmanState ''speed'' = Some (32, CFloat)"
  "field_at InputShotState ''tank_id'' = Some (8, CLong)" "field_at InputShotState ''client_id'' = Some (24, CUInt)"
  "field_at InputShotState ''trigger_step'' = Some (16, CInt)" "field_at InputShotState ''type'' = Some (4, CUInt)"
  "field_at InputShotState ''shot_id'' = Some (32, CLong)"
  by code_simp+

text \<open>
  One datagram of states, the blocks from \<open>k\<close> on, at most 16. Its array counts all blocks up to its last. Pointer \<open>j\<close>
  leads to block \<open>j\<close> where \<open>j\<close> is not below \<open>k\<close>; the first \<open>k\<close> pointers are what the memory held before. Behind the
  pointers are these blocks one after the other, and nothing else.
\<close>

definition states_datagram :: "buffer \<Rightarrow> MyDataBlock list \<Rightarrow> nat \<Rightarrow> buffer \<Rightarrow> bool" where
  "states_datagram old ts k d \<longleftrightarrow> (let n = min (length ts) (k + 16) in
     field BaseMessage ''size_of_data'' d = int (length d)
     \<and> field MsgHeader ''type'' d = type_code TANK_STATE_16
     \<and> field MyArray ''size'' (drop array_pos d) = int n
     \<and> (\<forall>j. k \<le> j \<and> j < n \<longrightarrow> reads_block d j (ts ! j))
     \<and> bytes_at (struct_size TankState16Msg) (struct_size MyPointer * k) d = bytes_at (struct_size TankState16Msg) (struct_size MyPointer * k) old
     \<and> drop (struct_size TankState16Msg + struct_size MyPointer * n) d = content (drop k (take n ts)))"

lemma states_header:
  assumes "length b = 4096"
  shows "field MsgHeader ''type'' (construct_header TANK_STATE_16 0 b) = type_code TANK_STATE_16"
    and "bytes_at 97 k (construct_header t 0 b) = bytes_at 97 k b" and "length (construct_header t 0 b) = 4096"
proof -
  show "length (construct_header t 0 b) = 4096"
    using assms length_write_all [of MsgHeader b] by (simp add: construct_header_def layout_sizes)
  have "to_u32 (type_code TANK_STATE_16) = type_code TANK_STATE_16" by code_simp
  then show "field MsgHeader ''type'' (construct_header TANK_STATE_16 0 b) = type_code TANK_STATE_16"
    using field_write_all [OF told_fields(1), of b] assms
    by (simp add: construct_header_def layout_sizes decode_written(3) del: decode.simps)
  have "bytes_at 97 k (write_all MsgHeader fvs b) = bytes_at 97 k b" for fvs
  proof (induction fvs rule: rev_induct)
    case (snoc x fvs)
    obtain g v where x: "x = (g, v)" by (cases x)
    let ?w = "write_all MsgHeader fvs b"
    have len: "length ?w = 4096" using assms by (simp add: length_write_all layout_sizes)
    have "write_all MsgHeader (fvs @ [x]) b = put_field MsgHeader g v ?w" unfolding write_all_append x by (simp add: write_all_def)
    moreover have "bytes_at 97 k (put_field MsgHeader g v ?w) = bytes_at 97 k ?w"
    proof (cases "field_at MsgHeader g")
      case (Some y)
      then obtain off u where y: "field_at MsgHeader g = Some (off, u)" by (cases y) simp
      then show ?thesis using field_at_bound [OF y] len
        by (simp add: put_field_def layout_sizes bytes_at_overwrite_other)
    qed (simp add: put_field_def)
    ultimately show ?case using snoc.IH by simp
  qed (simp add: write_all_def)
  then show "bytes_at 97 k (construct_header t 0 b) = bytes_at 97 k b" by (simp add: construct_header_def)
qed

lemma send_states_total:
  assumes "port_at e a = Some p" and "i < length ts" and "length ts \<le> 583"
    and "\<forall>t \<in> set ts. block_size t = length (block_data t) \<and> block_size t \<le> 104"
  shows "\<exists>e' d. send_states a ts i e = Some e' \<and> udp_log e' = udp_log e @ [(udp_end_point p, d)]
     \<and> states_datagram (uninit e 4096) ts i d \<and> only_sent a p e e'"
proof -
  have "length (uninit e (4 * 1024)) = 4096" by (simp add: uninit_def)
  note head = states_header [OF this]
  let ?b = "construct_header TANK_STATE_16 0 (uninit e (4 * 1024))"
  let ?ds = "take 16 (drop i ts)" and ?n = "min (length ts) (i + 16)"
  have len: "length ?b = 4096" by (rule head)
  have "sum_list (map block_size ?ds) \<le> length ?ds * 104"
    using assms(4) by (intro sum_list_bound) (auto dest!: in_set_takeD in_set_dropD)
  also have "\<dots> \<le> 16 * 104" by simp
  finally have sum: "sum_list (map block_size ?ds) \<le> 1664" by simp
  let ?e = "97 + 4 * ?n + sum_list (map block_size ?ds)"
  have "?n \<le> 583" using assms(3) by (simp add: min_def)
  then have "?e \<le> length ?b" "int (length ?b) < 2 ^ 31" using sum len by simp_all
  moreover have "\<forall>t \<in> set ?ds. block_size t \<le> length (block_data t)"
    using assms(4) by (auto dest!: in_set_takeD in_set_dropD)
  ultimately obtain b where b: "get_array ts i 16 ?b = Some b" "length b = length ?b" "laid_out ?n ?e b"
    "\<forall>j < length ?ds. reads_block b (i + j) (?ds ! j)" "bytes_at (97 + 4 * ?n) (sum_list (map block_size ?ds)) b = content ?ds"
    "le_value (bytes_at 93 4 b) = int ?n" "bytes_at 69 4 b = bytes_at 69 4 ?b" "bytes_at 97 (4 * i) b = bytes_at 97 (4 * i) ?b"
    using get_array_laid_out [OF assms(2) refl refl, of 16 ?b] by blast
  have e: "?e \<le> length b" "69 \<le> length b" using b(2,3) len by (simp_all add: laid_out_def)
  obtain e' b' where s: "udp_send a b ?e e = Some (e', b')" "udp_log e' = udp_log e @ [(udp_end_point p, take ?e b')]"
    "length b' = length b" "\<forall>k c. 20 \<le> k \<longrightarrow> bytes_at k c b' = bytes_at k c b" "only_sent a p e e'"
    using udp_send_total [OF assms(1) e] by blast
  have reads: "reads_block (take ?e b') j (ts ! j)" if j: "i \<le> j" "j < ?n" for j
  proof (rule reads_block_sent [OF b(3) _ j(2) s(4)])
    have "j - i < length ?ds" "?ds ! (j - i) = ts ! j" "i + (j - i) = j" using j by auto
    then show "reads_block b j (ts ! j)" using b(4) by metis
  qed
  have cut: "bytes_at k c (take ?e b') = bytes_at k c b" if "20 \<le> k" "k + c \<le> ?e" for k c
  proof -
    have "bytes_at k c (take ?e b') = bytes_at k c b'" using that(2) by (simp add: bytes_at_def drop_take min_def)
    then show ?thesis using s(4) that(1) by simp
  qed
  have n: "4 * i \<le> 4 * ?n" "length (take ?e b') = ?e" using assms(2) s(3) e(1) by simp_all
  define N where "N = ?n"
  define D where "D = take ?e b'"
  have "drop (97 + 4 * ?n) (take ?e b') = bytes_at (97 + 4 * ?n) (sum_list (map block_size ?ds)) (take ?e b')"
    using n(2) by (simp add: bytes_at_def)
  then have "drop (97 + 4 * ?n) (take ?e b') = content ?ds" using cut b(5) by simp
  moreover have "?ds = drop i (take ?n ts)" using assms(2) by (simp add: drop_take min_def)
  ultimately have 1: "drop (97 + 4 * N) D = content (drop i (take N ts))" unfolding N_def D_def by (rule trans [OF _ arg_cong])
  have 2: "bytes_at 97 (4 * i) D = bytes_at 97 (4 * i) (uninit e 4096)"
    unfolding D_def using cut [of 97 "4 * i"] n(1) b(8) head(2) by simp
  have 3: "field MsgHeader ''type'' D = type_code TANK_STATE_16"
  proof -
    have "field MsgHeader ''type'' D = field MsgHeader ''type'' ?b"
      unfolding D_def using cut [of 69 4] b(7) by (simp add: field_def told_fields)
    then show ?thesis using head(1) by simp
  qed
  have 4: "field MyArray ''size'' (drop array_pos D) = int N"
    unfolding D_def N_def using cut [of 93 4] b(6) by (simp add: field_def array_fields bytes_at_drop)
  have 5: "field BaseMessage ''size_of_data'' D = int (length D)"
    unfolding D_def n(2) using cut [of 60 4] b(3) by (simp add: laid_out_def array_reads)
  have 6: "\<forall>j. i \<le> j \<and> j < N \<longrightarrow> reads_block D j (ts ! j)" using reads unfolding D_def N_def by blast
  have "states_datagram (uninit e 4096) ts i D"
    unfolding states_datagram_def Let_def layout_sizes N_def [symmetric] by (intro conjI 1 2 3 4 5 6)
  moreover have "send_states a ts i e = Some e'"
    using b(1) s(1) laid_out_size [OF b(3)] by (simp add: send_states_def)
  ultimately show ?thesis using s(2,5) unfolding D_def by blast
qed

lemma send_all_states:
  assumes "port_at e a = Some p" and "\<forall>i \<in> set is. i < length ts" and "length ts \<le> 583"
    and "\<forall>t \<in> set ts. block_size t = length (block_data t) \<and> block_size t \<le> 104"
  shows "\<exists>e' ds. for_each (send_states a ts) is e = Some e'
     \<and> udp_log e' = udp_log e @ map (Pair (udp_end_point p)) ds
     \<and> list_all2 (states_datagram (uninit e 4096) ts) is ds \<and> only_sent a p e e'"
  using assms
proof (induction "is" arbitrary: e p)
  case Nil
  then show ?case by (simp add: only_sent_def)
next
  case (Cons i "is")
  obtain e1 d where 1: "send_states a ts i e = Some e1" "udp_log e1 = udp_log e @ [(udp_end_point p, d)]"
    "states_datagram (uninit e 4096) ts i d" "only_sent a p e e1"
    using send_states_total [OF Cons.prems(1) _ Cons.prems(3,4), of i] Cons.prems(2) by auto
  then obtain p1 where p1: "port_at e1 a = Some p1" "udp_end_point p1 = udp_end_point p"
    by (auto simp: only_sent_def)
  obtain e' ds where 2: "for_each (send_states a ts) is e1 = Some e'"
    "udp_log e' = udp_log e1 @ map (Pair (udp_end_point p1)) ds" "list_all2 (states_datagram (uninit e1 4096) ts) is ds"
    "only_sent a p1 e1 e'"
    using Cons.IH [OF p1(1) _ Cons.prems(3,4)] Cons.prems(2) by auto
  have "uninit e1 4096 = uninit e 4096" using 1(4) by (simp add: only_sent_def uninit_def)
  moreover have "only_sent a p e e'" using only_sent_trans [OF 1(4) _ p1(1)] 2(4) by blast
  ultimately show ?case using 1(1,2,3) 2(1-3) p1(2)
    by (intro exI [of _ e'] exI [of _ "d # ds"]) simp
qed

lemma offsets_nth: "k < (n + 15) div 16 \<Longrightarrow> offsets n ! k = 16 * k" "length (offsets n) = (n + 15) div 16"
  by (simp_all add: offsets_def)

lemma offsets_bound: "i \<in> set (offsets n) \<Longrightarrow> i < n"
  by (auto simp: offsets_def)

lemma state_sizes: "block_size (get_data c ob) = length (block_data (get_data c ob))" "block_size (get_data c ob) \<le> 104"
proof -
  have s: "struct_size TankState = 104" "struct_size MisleState \<le> 104" "struct_size BoardObjectState \<le> 104"
    "struct_size PlatformLineState \<le> 104" by code_simp+
  show "block_size (get_data c ob) = length (block_data (get_data c ob))" "block_size (get_data c ob) \<le> 104"
    using s by (cases ob; simp add: length_write_all zeroed_def)+
qed

section \<open>Messages about an action\<close>

lemma write_all_other:
  "struct_size l \<le> length b \<Longrightarrow> f \<notin> fst ` set fvs \<Longrightarrow> field l f (write_all l fvs b) = field l f b"
  unfolding write_all_def
  by (induction fvs arbitrary: b) (auto simp: struct.get_put_other length_put_field)

lemma input_layouts:
  "struct_size InputFarmanState = 36" "struct_size InputShotState = 45"
  "field_at InputState ''size_of_data'' = Some (0, CUInt)"
  "field_at InputFarmanState ''size_of_data'' = Some (0, CUInt)"
  "field_at InputShotState ''size_of_data'' = Some (0, CUInt)"
  "field_at GameActionMsg ''start_states'' = Some (89, CUInt)"
  "field_at GameActionMsg ''number_of_states'' = Some (93, CUInt)"
  by code_simp+

text \<open>The last write of \<open>size_of_data\<close> of an input is the one that stays.\<close>

lemma input_size:
  assumes "input_assignments i = (l, own)" and "''size_of_data'' \<notin> fst ` set fvs" and "struct_size l \<le> length b"
  shows "field InputState ''size_of_data'' (write_all l (own @ fvs) b) = int (struct_size l)
     \<and> struct_size l \<le> 45 \<and> length (write_all l (own @ fvs) b) = length b"
proof -
  obtain ws where own: "own = ws @ [(''size_of_data'', int (struct_size l))]" "l \<in> {InputFarmanState, InputShotState}"
    using assms(1) by (cases i) auto
  let ?b = "write_all l ws b"
  have len: "length ?b = length b" using assms(3) by (rule length_write_all)
  have at: "field_at l ''size_of_data'' = Some (0, CUInt)" "struct_size l \<le> 45"
    using own(2) by (auto simp: input_layouts)
  have "field l ''size_of_data'' (write_all l (own @ fvs) b) = field l ''size_of_data'' (write_all l own b)"
    using assms(2,3) by (simp add: write_all_append write_all_other length_write_all)
  also have "\<dots> = field l ''size_of_data'' (put_field l ''size_of_data'' (int (struct_size l)) ?b)"
    using own(1) by (simp add: write_all_append) (simp add: write_all_def)
  also have "\<dots> = int (struct_size l)"
    using assms(3) len at by (intro struct.get_put_same) (simp_all add: fits_field_def)
  finally have "field l ''size_of_data'' (write_all l (own @ fvs) b) = int (struct_size l)" .
  moreover have "field InputState ''size_of_data'' x = field l ''size_of_data'' x" for x
    using at(1) by (simp add: field_def input_layouts)
  ultimately show ?thesis using at(2) assms(3) by (simp add: length_write_all)
qed

text \<open>A datagram about an input: what its receiver reads in it.\<close>

fun kind_told :: "Input \<Rightarrow> buffer \<Rightarrow> bool" where
  "kind_told (InputFarman b f s) d \<longleftrightarrow> field InputState ''type'' d = MOVMENT
     \<and> field InputFarmanState ''farman'' d = to_u32 (float_bits f) \<and> field InputFarmanState ''speed'' d = to_u32 (float_bits s)"
| "kind_told (InputShot b sid tg an) d \<longleftrightarrow> field InputState ''type'' d = 2 \<and> field InputShotState ''shot_id'' d = to_i64 sid"

definition tells_action :: "Input \<Rightarrow> int \<Rightarrow> int \<Rightarrow> buffer \<Rightarrow> bool" where
  "tells_action i tank cid d \<longleftrightarrow>
     length d = struct_size GameActionMsg + struct_size (fst (input_assignments i))
     \<and> field BaseMessage ''size_of_data'' d = int (length d)
     \<and> field MsgHeader ''type'' d = type_code GAMEACTION_CLIENT_SEND
     \<and> field GameActionMsg ''start_states'' d = int (struct_size GameActionMsg)
     \<and> field GameActionMsg ''number_of_states'' d = 1
     \<and> (let s = drop (struct_size GameActionMsg) d in
          field InputState ''tank_id'' s = to_i64 tank \<and> field InputState ''client_id'' s = to_u32 cid
          \<and> field InputState ''trigger_step'' s = to_i32 (trigger_step (input_base i)) \<and> kind_told i s)"

text \<open>The part of a message that a send does not change.\<close>

lemma field_sent:
  assumes "field_at l f = Some (off, t)" and "20 \<le> p + off" and "p + off + size_of t \<le> n"
    and "\<forall>k c. 20 \<le> k \<longrightarrow> bytes_at k c b' = bytes_at k c b"
  shows "field l f (drop p (take n b')) = field l f (drop p b)"
proof -
  have "bytes_at (p + off) (size_of t) (take n b') = bytes_at (p + off) (size_of t) b'"
    using assms(3) by (simp add: bytes_at_def drop_take min_def)
  then show ?thesis using assms(1,2,4) by (simp add: field_def bytes_at_drop)
qed

lemma action_message_tells:
  assumes "length b = 256" and f: "fvs = [(''tank_id'', tid)] \<and> cid = client_id (input_base i) \<or> fvs = [(''client_id'', cid), (''tank_id'', tid)]"
    and n: "n = 97 + struct_size (fst (input_assignments i))" and m: "m = action_message i fvs b"
  shows "length m = 256" and "n \<le> 256" and "field BaseMessage ''size_of_data'' m = int n"
    and "\<forall>k c. 20 \<le> k \<longrightarrow> bytes_at k c b' = bytes_at k c m \<Longrightarrow> length b' = 256 \<Longrightarrow> tells_action i tid cid (take n b')"
proof -
  obtain l own where i: "input_assignments i = (l, own)" by (cases "input_assignments i")
  let ?b0 = "construct_header GAMEACTION_CLIENT_SEND 0 b"
  let ?b1 = "put_field GameActionMsg ''number_of_states'' 1 (new_GameActionMsg b)"
  have len0: "length ?b0 = 256"
    using assms(1) length_write_all [of MsgHeader b] by (simp add: construct_header_def layout_sizes)
  then have len: "length (new_GameActionMsg b) = 256" "length ?b1 = 256"
    by (simp_all add: new_GameActionMsg_def length_put_field layout_sizes)
  have "field MsgHeader ''type'' ?b0 = type_code GAMEACTION_CLIENT_SEND"
    using field_write_all [OF told_fields(1), of b] assms(1)
    by (simp add: construct_header_def layout_sizes) code_simp
  then have "field GameActionMsg ''type'' ?b0 = type_code GAMEACTION_CLIENT_SEND" by (simp add: field_def told_fields)
  then have b1: "field GameActionMsg ''start_states'' ?b1 = 97" "field GameActionMsg ''number_of_states'' ?b1 = 1"
    "field GameActionMsg ''type'' ?b1 = type_code GAMEACTION_CLIENT_SEND"
    using len len0 unfolding new_GameActionMsg_def
    by (simp_all add: struct.get_put_other field_written [OF input_layouts(6)] field_written [OF input_layouts(7)]
        length_put_field layout_sizes decode_written(3) to_u32_def del: decode.simps)
  let ?w = "write_all l (own @ fvs) (drop 97 ?b1)"
  let ?b2 = "write_at 97 l (own @ fvs) ?b1"
  have l: "struct_size l \<le> 45" using i by (cases i) (auto simp: input_layouts)
  have nf: "''size_of_data'' \<notin> fst ` set fvs" using f by auto
  have w: "field InputState ''size_of_data'' ?w = int (struct_size l)" "length ?w = 159"
    using input_size [OF i nf, of "drop 97 ?b1"] len l by simp_all
  have b2: "length ?b2 = 256" "drop 97 ?b2 = ?w" "take 97 ?b2 = take 97 ?b1" using w(2) len(2) by (simp_all add: write_at_def)
  have n': "int n = 97 + int (struct_size l)" "n \<le> 256" "n = 97 + struct_size l" using n i l by simp_all
  have "m = put_field BaseMessage ''size_of_data'' (97 + int (struct_size l)) ?b2"
    using i b1(1) b2(2) w(1) by (simp add: m action_message_def layout_sizes Let_def)
  then have m': "m = overwrite 60 (le_bytes 4 (int n)) ?b2" using n' by (simp add: put_field_def array_fields)
  then have rest: "bytes_at k c m = bytes_at k c ?b2" if "64 \<le> k" for k c
    using that b2(1) by (simp add: bytes_at_overwrite_other)
  have size: "bytes_at 60 4 m = le_bytes 4 (int n)" using m' b2(1) by (simp add: bytes_at_overwrite_same)
  show "length m = 256" using m' b2(1) by (simp add: length_overwrite)
  show "n \<le> 256" by (rule n')
  show sz: "field BaseMessage ''size_of_data'' m = int n"
    using size n' by (simp add: array_reads le_value_bytes)
  show "tells_action i tid cid (take n b')" if b': "\<forall>k c. 20 \<le> k \<longrightarrow> bytes_at k c b' = bytes_at k c m" "length b' = 256"
  proof -
    have head: "field g x (take n b') = field g x ?b1" if "field_at g x = Some (off, t)" "64 \<le> off" "off + size_of t \<le> 97" for g x off t
    proof -
      have "bytes_at off (size_of t) (take n b') = bytes_at off (size_of t) m"
        using field_sent [OF that(1), of 0 n b' m] b'(1) that n'(3) by (simp add: bytes_at_def drop_take min_def)
      also have "\<dots> = bytes_at off (size_of t) (take 97 ?b2)" using rest [OF that(2)] that(3) by (simp add: bytes_at_def drop_take min_def)
      also have "\<dots> = bytes_at off (size_of t) ?b1" unfolding b2(3) using that(3) by (simp add: bytes_at_def drop_take min_def)
      finally show ?thesis using that(1) by (simp add: field_def)
    qed
    have body: "field g x (drop 97 (take n b')) = field g x ?w" if "field_at g x = Some (off, t)" "off + size_of t \<le> struct_size l" for g x off t
    proof -
      have "field g x (drop 97 (take n b')) = field g x (drop 97 m)"
        using that n'(3) b'(1) by (intro field_sent) simp_all
      also have "\<dots> = field g x (drop 97 ?b2)" using that(1) rest by (simp add: field_def bytes_at_drop)
      finally show ?thesis using b2(2) by simp
    qed
    have drp: "struct_size l \<le> length (drop 97 ?b1)" using len(2) l by simp
    have kind: "kind_told i (drop 97 (take n b'))
       \<and> field InputState ''tank_id'' (drop 97 (take n b')) = to_i64 tid \<and> field InputState ''client_id'' (drop 97 (take n b')) = to_u32 cid
       \<and> field InputState ''trigger_step'' (drop 97 (take n b')) = to_i32 (trigger_step (input_base i))"
    proof (cases i)
      case (InputFarman b0 x y)
      then have lo: "l = InputFarmanState" "own = snd (input_assignments i)" using i by simp_all
      have st: "field InputState g u = field InputFarmanState g u" if "g \<in> {''tank_id'', ''client_id'', ''trigger_step'', ''type''}" for g u
        using that by (auto simp: field_def told_fields)
      show ?thesis unfolding InputFarman
        using f drp InputFarman lo
        by (auto simp: body told_fields input_layouts st field_write_all [where l = InputFarmanState] input_data_def
            decode_written MOVMENT_def to_u32_def le_value_bytes to_signed_mod del: decode.simps)
    next
      case (InputShot b0 x y z)
      then have lo: "l = InputShotState" "own = snd (input_assignments i)" using i by simp_all
      have st: "field InputState g u = field InputShotState g u" if "g \<in> {''tank_id'', ''client_id'', ''trigger_step'', ''type''}" for g u
        using that by (auto simp: field_def told_fields)
      show ?thesis unfolding InputShot
        using f drp InputShot lo
        by (auto simp: body told_fields input_layouts st field_write_all [where l = InputShotState] input_data_def
            decode_written MOVMENT_def to_u32_def le_value_bytes to_signed_mod del: decode.simps)
    qed
    have "field MsgHeader ''type'' (take n b') = type_code GAMEACTION_CLIENT_SEND"
      using head [OF told_fields(2)] b1(3) by (simp add: field_def told_fields)
    moreover have "field GameActionMsg ''start_states'' (take n b') = 97" "field GameActionMsg ''number_of_states'' (take n b') = 1"
      using head [OF input_layouts(6)] head [OF input_layouts(7)] b1(1,2) by simp_all
    moreover have "field BaseMessage ''size_of_data'' (take n b') = int n"
      using field_sent [OF array_fields(4), of 0 n b' m] b'(1) n'(3) sz by simp
    moreover have "length (take n b') = n" using b'(2) n'(2) by simp
    ultimately show ?thesis using kind i n'(3) by (simp add: tells_action_def layout_sizes)
  qed
qed

lemma send_action_tells:
  assumes "port_at e a = Some p" and "fvs = [(''tank_id'', tid)] \<and> cid = client_id (input_base i) \<or> fvs = [(''client_id'', cid), (''tank_id'', tid)]"
  shows "\<exists>e' d. send_action a i fvs e = Some e' \<and> udp_log e' = udp_log e @ [(udp_end_point p, d)] \<and> only_sent a p e e'
     \<and> tells_action i tid cid d"
proof -
  let ?b = "action_message i fvs (uninit e 256)" and ?n = "97 + struct_size (fst (input_assignments i))"
  have "length (uninit e 256) = 256" by (simp add: uninit_def)
  note msg = action_message_tells [OF this assms(2) refl refl]
  obtain e' b' where s: "udp_send a ?b ?n e = Some (e', b')" "udp_log e' = udp_log e @ [(udp_end_point p, take ?n b')]"
    "length b' = length ?b" "\<forall>k c. 20 \<le> k \<longrightarrow> bytes_at k c b' = bytes_at k c ?b" "only_sent a p e e'"
    using udp_send_total [OF assms(1), of ?n ?b] msg(1,2) by auto
  have "nat (field BaseMessage ''size_of_data'' ?b) = ?n" using msg(3) by simp
  then have "send_action a i fvs e = Some e'" using s(1) by (simp add: send_action_def Let_def)
  then show ?thesis using s(2,5) msg(4) [OF s(4)] s(3) msg(1) by auto
qed

lemma only_sent_ports: "only_sent a p e e' \<Longrightarrow> port_at e a = Some p \<Longrightarrow> port_at e' x = None \<longleftrightarrow> port_at e x = None"
  by (cases "x = a") (auto simp: only_sent_def)

text \<open>Where the datagrams to a user's port go.\<close>

definition end_point_of :: "'a Engine_scheme \<Rightarrow> addr \<Rightarrow> endpoint" where
  "end_point_of e x = (case port_at e x of None \<Rightarrow> 0 | Some p \<Rightarrow> udp_end_point p)"

lemma only_sent_end_point: "only_sent a p e e' \<Longrightarrow> port_at e a = Some p \<Longrightarrow> end_point_of e' x = end_point_of e x"
  by (cases "x = a") (auto simp: only_sent_def end_point_of_def)

lemma send_to_others:
  assumes "\<forall>(u, x) \<in> set us. port_at e x \<noteq> None"
  shows "\<exists>e' ds. for_each (\<lambda>(u, up2) e. if up2 = up then Some e
        else send_action up2 i [(''client_id'', cid), (''tank_id'', tid)] e) us e = Some e'
     \<and> length ds = length (filter (\<lambda>(u, x). x \<noteq> up) us)
     \<and> udp_log e' = udp_log e @ zip (map (end_point_of e \<circ> snd) (filter (\<lambda>(u, x). x \<noteq> up) us)) ds
     \<and> (\<forall>d \<in> set ds. tells_action i tid cid d)
     \<and> (\<forall>x. port_at e' x = None \<longleftrightarrow> port_at e x = None) \<and> (\<forall>x. end_point_of e' x = end_point_of e x)"
  using assms
proof (induction us arbitrary: e)
  case (Cons ux us)
  obtain u x where ux: "ux = (u, x)" by (cases ux)
  show ?case
  proof (cases "x = up")
    case True
    then show ?thesis using Cons ux by auto
  next
    case False
    obtain p where p: "port_at e x = Some p" using Cons.prems ux by auto
    obtain e1 d where 1: "send_action x i [(''client_id'', cid), (''tank_id'', tid)] e = Some e1"
      "udp_log e1 = udp_log e @ [(udp_end_point p, d)]" "only_sent x p e e1" "tells_action i tid cid d"
      using send_action_tells [OF p] by blast
    note same = only_sent_ports [OF 1(3) p] only_sent_end_point [OF 1(3) p]
    have pre: "\<forall>(u, x) \<in> set us. port_at e1 x \<noteq> None" using Cons.prems same(1) by auto
    obtain e' ds where "for_each (\<lambda>(u, up2) e. if up2 = up then Some e
        else send_action up2 i [(''client_id'', cid), (''tank_id'', tid)] e) us e1 = Some e'"
      "length ds = length (filter (\<lambda>(u, x). x \<noteq> up) us)"
      "udp_log e' = udp_log e1 @ zip (map (end_point_of e1 \<circ> snd) (filter (\<lambda>(u, x). x \<noteq> up) us)) ds"
      "\<forall>d \<in> set ds. tells_action i tid cid d"
      "\<forall>x. port_at e' x = None \<longleftrightarrow> port_at e1 x = None" "\<forall>x. end_point_of e' x = end_point_of e1 x"
      using Cons.IH [OF pre] by blast
    moreover have "end_point_of e x = udp_end_point p" using p by (simp add: end_point_of_def)
    ultimately show ?thesis using 1 ux False same
      by (intro exI [of _ e'] exI [of _ "d # ds"]) (simp add: comp_def)
  qed
qed simp
text \<open>The input that a message asks for, at the step it is taken.\<close>

definition asked_input :: "int \<Rightarrow> buffer \<Rightarrow> Input \<Rightarrow> bool" where
  "asked_input n action i \<longleftrightarrow> trigger_step (input_base i) = n
     \<and> client_id (input_base i) = to_i32 (field InputState ''client_id'' action)
     \<and> (if field InputState ''type'' action = MOVMENT
        then i = InputFarman (input_base i) (bits_float (field InputFarmanState ''farman'' action))
                   (bits_float (field InputFarmanState ''speed'' action))
        else \<exists>sid. i = InputShot (input_base i) sid False (Fin 0))"

lemma new_input_known:
  assumes "tank_at c a = Some t" and "ordered (cinps t)"
  shows "\<exists>c' i t'. new_input n action a c = Some (c', i) \<and> tank_at c' a = Some t' \<and> obj_id t' = obj_id t
     \<and> get_action_of t' (to_i32 (field InputState ''client_id'' action)) = Some i \<and> asked_input n action i"
  using assms
  by (auto simp: new_input_def add_action_def add_shot_action_def generate_shot_id_def put_tank_def put_obj_def
      get_action_of_def find_key_set_key asked_input_def Let_def)

section \<open>Copies beyond a block\<close>

lemma copy_blocks_short: "t \<in> set ts \<Longrightarrow> length (block_data t) < block_size t \<Longrightarrow> copy_blocks i ts b = None"
proof (induction ts arbitrary: i b)
  case (Cons u ts)
  show ?case
  proof (cases "copy_block i u b")
    case (Some b')
    then have "u \<noteq> t" using Cons.prems(2) by (auto simp: copy_block_def Let_def split: if_splits)
    then show ?thesis using Cons Some by simp
  qed simp
qed simp

lemma for_each_None: "x \<in> set xs \<Longrightarrow> (\<And>s. f x s = None) \<Longrightarrow> for_each f xs s = None"
proof (induction xs arbitrary: s)
  case (Cons y xs)
  then show ?case by (cases "f y s") auto
qed simp

lemma send_states_short:
  assumes "t \<in> set ts" and "length (block_data t) < block_size t"
  shows "for_each (send_states a ts) (offsets (length ts)) e = None"
proof -
  obtain j where j: "j < length ts" "ts ! j = t" using assms(1) by (auto simp: in_set_conv_nth)
  let ?o = "16 * (j div 16)"
  have "?o \<in> set (offsets (length ts))" using j(1) by (auto simp: offsets_def)
  moreover have "send_states a ts ?o s = None" for s :: "'a Engine_scheme"
  proof -
    let ?n = "if length ts > ?o + 16 then ?o + 16 else length ts"
    have "?o \<le> j" "j < ?n" using j(1) by auto
    then have "drop ?o (take ?n ts) ! (j - ?o) = t" "j - ?o < length (drop ?o (take ?n ts))" using j by auto
    then have "t \<in> set (drop ?o (take ?n ts))" by (metis nth_mem)
    then have "copy_blocks i (drop ?o (take ?n ts)) b = None" for i b
      using assms(2) by (rule copy_blocks_short)
    then show ?thesis by (simp add: send_states_def get_array_def Let_def)
  qed
  ultimately show ?thesis by (rule for_each_None)
qed

lemma collect_removed:
  assumes "ordered acks" and "(i, b) \<in> set zs" and "objects c b = Some ob" and "for_remove (base_of ob)"
    and "last_ack acks i < last_event_time (base_of ob)"
  shows "case collect c zs acks of None \<Rightarrow> True | Some (acks', ts) \<Rightarrow> removed_block c ob \<in> set ts"
  using assms(1,2,5)
proof (induction zs arbitrary: acks)
  case (Cons z zs)
  obtain j b' where z: "z = (j, b')" by (cases z)
  obtain acks1 cs where k: "index_key new_ClientSyncState acks j = (acks1, cs)"
    by (cases "index_key new_ClientSyncState acks j")
  note la = last_ack_index [OF k] last_ack_index_other [OF Cons.prems(1) k] ordered_index [OF Cons.prems(1) k]
  show ?case
  proof (cases "(i, b) \<in> set zs")
    case True
    then have "case collect c zs acks1 of None \<Rightarrow> True | Some (acks', ts) \<Rightarrow> removed_block c ob \<in> set ts"
      using Cons.IH [OF la(3)] Cons.prems(3) la(2) by simp
    then show ?thesis using z k by (auto simp: obj_at_def Let_def split: option.splits Option.bind_splits if_splits)
  next
    case False
    then have "z = (i, b)" using Cons.prems(2) by auto
    then show ?thesis using z k assms(3,4) la(1) Cons.prems(3)
      by (auto simp: obj_at_def Let_def split: option.splits Option.bind_splits if_splits)
  qed
qed simp

lemma removed_block_short: "length (block_data (removed_block c ob)) < block_size (removed_block c ob)"
proof -
  have "struct_size TankState = 104" "struct_size BoardObjectState < 104" by code_simp+
  then show ?thesis by (simp add: removed_block_def length_write_all zeroed_def)
qed

section \<open>Properties\<close>

text \<open>C10. The loop that lets a room catch up ends: it runs exactly as many steps as the clock is
  ahead of the core, and after it the core's time is that of the clock.\<close>

theorem room_catches_up:
  assumes "core_ok c"
  shows "catch_up m now c = run_steps m (nat (get_step_with_time c now - core_time c)) c
     \<and> (\<forall>c'. catch_up m now c = Some c' \<longrightarrow>
          core_time c' = max (core_time c) (get_step_with_time c now) \<and> core_ok c')"
proof -
  note run = catch_up_run [OF assms refl, of m now]
  show ?thesis
  proof (intro conjI allI impI)
    fix c' assume "catch_up m now c = Some c'"
    then have r: "run_steps m (nat (get_step_with_time c now - core_time c)) c = Some c'" using run by simp
    show "core_time c' = max (core_time c) (get_step_with_time c now)" "core_ok c'"
      using run_steps_time [OF assms r] by (simp_all add: max_def)
  qed (rule run)
qed

lemma core_ok_server: "core_ok (new_GameCore\<lparr>server := True\<rparr>)"
proof -
  have "new_GameCore\<lparr>server := True\<rparr>
      = new_GameCore\<lparr>server := True, start_time := 0, milisecond_per_step := 20\<rparr>" by (simp add: new_GameCore_def)
  then show ?thesis using core_ok_new by metis
qed

theorem room_catches_up_witness:
  "catch_up no_trig 30 (new_GameCore\<lparr>server := True\<rparr>) = core_update no_trig (new_GameCore\<lparr>server := True\<rparr>)"
proof -
  have n: "nat (get_step_with_time (new_GameCore\<lparr>server := True\<rparr>) 30 - core_time (new_GameCore\<lparr>server := True\<rparr>)) = Suc 0"
    by (simp add: get_step_with_time_def new_GameCore_def c_div_def)
  have one: "run_steps no_trig (Suc 0) c = core_update no_trig c" for c
    by (cases "core_update no_trig c") simp_all
  show ?thesis using conjunct1 [OF room_catches_up [OF core_ok_server, of no_trig 30]] unfolding n one .
qed

definition acks_of :: "Room \<Rightarrow> int \<Rightarrow> (int, ClientSyncState) stdmap" where
  "acks_of r pid = (case find_key (ackSendedEvent r) pid of None \<Rightarrow> [] | Some acks \<Rightarrow> acks)"

text \<open>C14. A client gets the state of every object that changed after its last acknowledgement, and of no other, as
  long as no removed object is left in the room and there are at most 583 such objects (more do not fit the 4096
  bytes a datagram is built in). There is one datagram for every 16 states, to the client alone. Each holds, behind
  its pointers, its own states and nothing else, each readable through its pointer; in all but the first datagram
  the array also counts the pointers of the states before, which are whatever the memory held.\<close>

theorem unacknowledged_states_sent:
  assumes "core_ok (game_core r)" and "port_at e a = Some p" and "ordered (acks_of r (client_process_id p))"
    and "\<forall>i b ob. find_key (zombies (game_core r)) i = Some b \<and> objects (game_core r) b = Some ob
           \<longrightarrow> \<not> for_remove (base_of ob)"
    and "ts = map (state_of (game_core r)) (filter (pending (game_core r) (acks_of r (client_process_id p))) (zombies (game_core r)))"
    and "length ts \<le> 583"
  shows "\<exists>r' e' ds. init_client a (r, e) = Some (r', e') \<and> game_core r' = game_core r
     \<and> udp_log e' = udp_log e @ map (Pair (udp_end_point p)) ds \<and> length ds = (length ts + 15) div 16
     \<and> (\<forall>k < length ds. states_datagram (uninit e 4096) ts (16 * k) (ds ! k))"
proof -
  let ?c = "game_core r" and ?pid = "client_process_id p"
  have z: "ordered (zombies ?c)" "\<forall>i b. find_key (zombies ?c) i = Some b \<longrightarrow> objects ?c b \<noteq> None"
    using assms(1) by (auto simp: core_ok_def maps_ok_def kinds_ok_def)
  have live: "\<forall>ia \<in> set (zombies ?c). \<exists>ob. objects ?c (snd ia) = Some ob \<and> \<not> for_remove (base_of ob)"
  proof
    fix ia assume "ia \<in> set (zombies ?c)"
    then have "find_key (zombies ?c) (fst ia) = Some (snd ia)" using in_find_key [OF z(1)] by simp
    then show "\<exists>ob. objects ?c (snd ia) = Some ob \<and> \<not> for_remove (base_of ob)" using z(2) assms(4) by blast
  qed
  obtain mm where m: "index_key [] (ackSendedEvent r) ?pid = (mm, acks_of r ?pid)"
    by (cases "find_key (ackSendedEvent r) ?pid") (simp_all add: index_key_def acks_of_def)
  obtain acks where acks: "collect ?c (zombies ?c) (acks_of r ?pid) = Some (acks, ts)"
    using collect_pending [OF assms(3) live] assms(5) by auto
  have "\<forall>t \<in> set ts. block_size t = length (block_data t) \<and> block_size t \<le> 104"
  proof
    fix t assume "t \<in> set ts"
    then obtain ia where ia: "ia \<in> set (zombies ?c)" "t = state_of ?c ia" using assms(5) by auto
    then obtain ob where "objects ?c (snd ia) = Some ob" using live by blast
    then show "block_size t = length (block_data t) \<and> block_size t \<le> 104"
      using ia(2) state_sizes [of ?c ob] by (simp add: state_of_def)
  qed
  from send_all_states [OF assms(2) _ assms(6) this, of "offsets (length ts)"] offsets_bound obtain e' ds where
    s: "for_each (send_states a ts) (offsets (length ts)) e = Some e'" "udp_log e' = udp_log e @ map (Pair (udp_end_point p)) ds"
    "list_all2 (states_datagram (uninit e 4096) ts) (offsets (length ts)) ds" by auto
  have len: "length ds = (length ts + 15) div 16" using s(3) by (simp add: list_all2_lengthD [symmetric] offsets_nth)
  then have "\<forall>k < length ds. states_datagram (uninit e 4096) ts (16 * k) (ds ! k)"
    using s(3) by (simp add: list_all2_conv_all_nth offsets_nth)
  moreover have "init_client a (r, e) = Some (r\<lparr>ackSendedEvent := set_key ?pid acks mm\<rparr>, e')"
    using assms(2) m acks s(1) by (simp add: init_client_def)
  ultimately show ?thesis using s(2) len by auto
qed

text \<open>A room with one player's tank, and the port of that player in an engine.\<close>

definition room_of :: "GameCore \<Rightarrow> Room" where
  "room_of c = new_Room\<lparr>game_core := c, room_users := [(7, 0)]\<rparr>"

lemma new_Tank_fields: "for_remove (new_Tank c) = False" "last_event_time (new_Tank c) = 0" "view (new_Tank c) = False"
  by (simp_all add: new_Tank_def new_Unit_def new_LiveBoardObject_def new_BoardObject_def Tank.fields_def Unit.extend_def
      LiveBoardObject.extend_def BoardObject.extend_def)

lemma game_with_tank:
  "\<exists>c. game m c \<and> zombies c = [(1, 0)]
     \<and> (\<exists>t. objects c 0 = Some (TankObj t) \<and> \<not> for_remove t \<and> last_event_time t = 0)"
proof -
  let ?c = "new_GameCore\<lparr>server := True, start_time := 0, milisecond_per_step := 20\<rparr>"
  obtain c q where c: "add_player_with_tank 7 ?c = Some (c, q)" "zombies c = [(1, 0)]"
    "\<exists>t. objects c 0 = Some (TankObj t) \<and> \<not> for_remove t \<and> last_event_time t = 0"
    by (simp add: add_player_with_tank_def new_GameCore_def create_tank_def generate_shot_id_def new_obj_def
        tank_at_def put_tank_def put_obj_def init_tank_def add_object_def obj_at_def handle_new_def triger_change_def
        BoardObject.truncate_def new_Tank_fields Let_def)
  have "game m c" using game.join [OF game.start c(1)] .
  then show ?thesis using c(2,3) by blast
qed

theorem unacknowledged_states_sent_witness:
  "\<exists>c r' e' d. core_ok c \<and> init_client 0 (room_of c, put_port 0 idle_port (idle_engine [])) = Some (r', e')
     \<and> udp_log e' = [(0, d)] \<and> states_datagram (uninit (idle_engine []) 4096) [state_of c (1, 0)] 0 d"
proof -
  obtain c where c: "game no_trig c" "zombies c = [(1, 0)]"
    "\<exists>t. objects c 0 = Some (TankObj t) \<and> \<not> for_remove t \<and> last_event_time t = 0"
    using game_with_tank by blast
  let ?r = "room_of c" and ?e = "put_port 0 idle_port (idle_engine [])"
  have r: "game_core ?r = c" "acks_of ?r i = []" for i by (simp_all add: room_of_def acks_of_def new_Room_def)
  have p: "port_at ?e 0 = Some idle_port" by (simp add: port_at_def put_port_def)
  have live: "\<forall>i b ob. find_key (zombies (game_core ?r)) i = Some b \<and> objects (game_core ?r) b = Some ob
      \<longrightarrow> \<not> for_remove (base_of ob)"
    using c(2,3) r(1) by (auto simp: BoardObject.truncate_def split: if_splits)
  have ts: "[state_of c (1, 0)] = map (state_of (game_core ?r))
      (filter (pending (game_core ?r) (acks_of ?r (client_process_id idle_port))) (zombies (game_core ?r)))"
    using c(2,3) r by (auto simp: pending_def last_ack_def BoardObject.truncate_def)
  have g: "core_ok (game_core ?r)" using game_core_ok [OF c(1)] r(1) by simp
  have o: "ordered (acks_of ?r (client_process_id idle_port))" using r(2) by simp
  from unacknowledged_states_sent [OF g p o live ts] obtain r' e' ds where
    "init_client 0 (?r, ?e) = Some (r', e')" "udp_log e' = udp_log ?e @ map (Pair (udp_end_point idle_port)) ds"
    "length ds = 1" "states_datagram (uninit ?e 4096) [state_of c (1, 0)] 0 (ds ! 0)" by auto
  moreover have "udp_log ?e = []" "uninit ?e 4096 = uninit (idle_engine []) 4096"
    by (simp_all add: put_port_def idle_engine_def uninit_def)
  ultimately show ?thesis using game_core_ok [OF c(1)] idle_fields(4) by (auto simp: length_Suc_conv)
qed

text \<open>C36. A removed object that a client has not acknowledged makes the update of that client
  undefined: the copy reads a \<open>TankState\<close> from the memory of a \<open>BoardObjectState\<close>.\<close>

theorem removed_object_undefined:
  assumes "port_at e a = Some p" and "(i, b) \<in> set (zombies (game_core r))" and "objects (game_core r) b = Some ob"
    and "for_remove (base_of ob)" and "ordered (acks_of r (client_process_id p))"
    and "last_ack (acks_of r (client_process_id p)) i < last_event_time (base_of ob)"
  shows "init_client a (r, e) = None"
proof -
  let ?pid = "client_process_id p"
  obtain mm where m: "index_key [] (ackSendedEvent r) ?pid = (mm, acks_of r ?pid)"
    by (cases "find_key (ackSendedEvent r) ?pid") (simp_all add: index_key_def acks_of_def)
  show ?thesis
  proof (cases "collect (game_core r) (zombies (game_core r)) (acks_of r ?pid)")
    case None
    then show ?thesis using assms(1) m by (simp add: init_client_def)
  next
    case (Some x)
    then obtain acks ts where x: "x = (acks, ts)" "removed_block (game_core r) ob \<in> set ts"
      using collect_removed [OF assms(5,2,3,4,6)] by (cases x) auto
    have "for_each (send_states a ts) (offsets (length ts)) e = None"
      using x(2) removed_block_short by (rule send_states_short)
    then show ?thesis using assms(1) m Some x(1) by (simp add: init_client_def)
  qed
qed

theorem removed_object_undefined_witness:
  "init_client 0 (room_of (one_tank_core (sunk\<lparr>for_remove := True\<rparr>)), put_port 0 idle_port (idle_engine [])) = None"
proof -
  let ?r = "room_of (one_tank_core (sunk\<lparr>for_remove := True\<rparr>))"
  let ?ob = "TankObj (sunk\<lparr>for_remove := True\<rparr>)"
  have p: "port_at (put_port 0 idle_port (idle_engine [])) 0 = Some idle_port" by (simp add: port_at_def put_port_def)
  have z: "(1, 0) \<in> set (zombies (game_core ?r))" "objects (game_core ?r) 0 = Some ?ob"
    by (simp_all add: room_of_def one_tank_core_def)
  have o: "for_remove (base_of ?ob)" "last_event_time (base_of ?ob) = 0"
    by (simp_all add: BoardObject.truncate_def sunk_def new_Tank_fields)
  have a: "acks_of ?r k = []" for k by (simp add: room_of_def acks_of_def new_Room_def)
  have l: "last_ack (acks_of ?r (client_process_id idle_port)) 1 < last_event_time (base_of ?ob)"
    unfolding a o(2) by (simp add: last_ack_def)
  have "ordered (acks_of ?r (client_process_id idle_port))" unfolding a by simp
  from removed_object_undefined [OF p z o(1) this l] show ?thesis .
qed


text \<open>A room of two users and the ports of both.\<close>

definition two_ports :: "'a Engine_scheme \<Rightarrow> 'a Engine_scheme" where
  "two_ports e = put_port 1 (idle_port\<lparr>udp_end_point := 9\<rparr>) (put_port 0 idle_port e)"


lemma add_bot_total:
  assumes "core_ok (fst s)" and "server (fst s)"
  shows "\<exists>s'. add_bot i s = Some s' \<and> core_ok (fst s') \<and> server (fst s')
     \<and> blocks (fst s') = blocks (fst s) \<and> block_lines (fst s') = block_lines (fst s)
     \<and> core_time (fst s') = core_time (fst s) \<and> start_time (fst s') = start_time (fst s)
     \<and> (\<forall>v. get_player (fst s) v \<noteq> None \<or> v = 100 + i \<longrightarrow> get_player (fst s') v \<noteq> None)"
proof -
  obtain c e where s: "s = (c, e)" by (cases s)
  have "\<exists>c' a. add_player_with_tank (100 + i) c = Some (c', Some a) \<and> core_ok c' \<and> server c'
      \<and> blocks c' = blocks c \<and> block_lines c' = block_lines c \<and> core_time c' = core_time c
      \<and> start_time c' = start_time c \<and> is_tank c' a
      \<and> (\<forall>v. get_player c v \<noteq> None \<or> v = 100 + i \<longrightarrow> get_player c' v \<noteq> None)"
  proof (cases "\<exists>p a. find_key (players c) (100 + i) = Some p \<and> player_tank p = Some a")
    case True
    then obtain p a where p: "find_key (players c) (100 + i) = Some p" "player_tank p = Some a" by blast
    have ok: "core_ok c" "server c" using assms s by simp_all
    then have "is_tank c a" using p by (auto simp: core_ok_def kinds_ok_def)
    then show ?thesis using add_player_again [OF ok(1) p] ok p(1) by (auto simp: get_player_def)
  next
    case False
    then have none: "\<And>p. find_key (players c) (100 + i) = Some p \<Longrightarrow> player_tank p = None" by fastforce
    have ok: "core_ok c" "server c" using assms s by simp_all
    from add_player_new [OF ok(1), of "100 + i"] none obtain c' where c':
      "add_player_with_tank (100 + i) c = Some (c', Some (next_obj c))" "core_ok c'" "server c'"
      "blocks c' = blocks c" "block_lines c' = block_lines c" "core_time c' = core_time c"
      "start_time c' = start_time c" "\<exists>t. objects c' (next_obj c) = Some (TankObj t)"
      "map_option player_tank (get_player c' (100 + i)) = Some (Some (next_obj c))"
      "\<forall>v. v \<noteq> 100 + i \<longrightarrow> get_player c' v = get_player c v" using ok(2) by auto
    have "get_player c' v \<noteq> None" if "get_player c v \<noteq> None \<or> v = 100 + i" for v
      using that c'(9,10) by (cases "v = 100 + i") auto
    then show ?thesis using c' by (auto simp: is_tank_def)
  qed
  then obtain c' a t where c': "add_player_with_tank (100 + i) c = Some (c', Some a)" "core_ok c'" "server c'"
    "blocks c' = blocks c" "block_lines c' = block_lines c" "core_time c' = core_time c"
    "start_time c' = start_time c" "objects c' a = Some (TankObj t)"
    "\<forall>v. get_player c v \<noteq> None \<or> v = 100 + i \<longrightarrow> get_player c' v \<noteq> None" by (auto simp: is_tank_def)
  obtain e' ps where ps: "random_points 10 e = (e', ps)" by (cases "random_points 10 e")
  let ?t = "t\<lparr>ai := Some \<lparr>ai_path = ps, currentTargetIndex = 0\<rparr>\<rparr>"
  have "tank_later t ?t" by (simp add: tank_later_def)
  then have "core_ok (put_tank a ?t c')" using stays_put_tank [OF c'(8)] c'(2) by (simp add: stays_def)
  moreover have "add_bot i s = Some (put_tank a ?t c', e')" using s c'(1,8) ps by (simp add: add_bot_def)
  ultimately show ?thesis using s c' by (auto simp: put_tank_def put_obj_def get_player_def)
qed

text \<open>A player driven by the computer: it has a tank with a path of ten targets.\<close>

definition has_bot :: "GameCore \<Rightarrow> int \<Rightarrow> bool" where
  "has_bot c v \<longleftrightarrow> (case get_player c v of None \<Rightarrow> False | Some p \<Rightarrow>
     (case player_tank p of None \<Rightarrow> False | Some a \<Rightarrow>
     (case tank_at c a of None \<Rightarrow> False | Some t \<Rightarrow>
     (case ai t of None \<Rightarrow> False | Some b \<Rightarrow> length (ai_path b) = 10))))"

lemma has_bot_iff:
  "has_bot c v \<longleftrightarrow> (\<exists>p a t b. get_player c v = Some p \<and> player_tank p = Some a
     \<and> objects c a = Some (TankObj t) \<and> ai t = Some b \<and> length (ai_path b) = 10)"
  by (auto simp: has_bot_def tank_at_def split: option.splits object.splits)

lemma add_player_objects:
  assumes "add_player_with_tank uid c = Some (c', q)" and "b \<noteq> next_obj c"
  shows "objects c' b = objects c b"
  using assms
  by (auto simp: add_player_with_tank_def create_tank_def new_obj_def generate_shot_id_def init_tank_def
      add_object_def handle_new_def triger_change_def put_tank_def put_obj_def Let_def bind_Some_iff
      split: if_splits prod.splits)

lemma random_points_length: "random_points k e = (e', ps) \<Longrightarrow> length ps = k"
  by (induction k arbitrary: e e' ps) (auto simp: Let_def split: prod.splits)

lemma add_player_bot:
  assumes "core_ok c" and "add_player_with_tank uid c = Some (c', Some a)"
  shows "\<exists>p. get_player c' uid = Some p \<and> player_tank p = Some a"
    and "has_bot c v \<Longrightarrow> has_bot c' v"
proof -
  have fresh: "objects c (next_obj c) = None" using assms(1) by (simp add: core_ok_fresh)
  have "(\<exists>p. get_player c' uid = Some p \<and> player_tank p = Some a) \<and> (has_bot c v \<longrightarrow> has_bot c' v)"
  proof (cases "\<exists>p d. find_key (players c) uid = Some p \<and> player_tank p = Some d")
    case True
    then obtain p d where p: "find_key (players c) uid = Some p" "player_tank p = Some d" by blast
    from add_player_again [OF assms(1) p] assms(2) p show ?thesis by (auto simp: get_player_def)
  next
    case False
    then have none: "\<And>p. find_key (players c) uid = Some p \<Longrightarrow> player_tank p = None" by fastforce
    from add_player_new [OF assms(1), of uid] none assms(2)
    have new: "map_option player_tank (get_player c' uid) = Some (Some a)"
      "\<forall>v. v \<noteq> uid \<longrightarrow> get_player c' v = get_player c v" by auto
    have "has_bot c' v" if bot: "has_bot c v"
    proof -
      obtain p b t br where b: "get_player c v = Some p" "player_tank p = Some b"
        "objects c b = Some (TankObj t)" "ai t = Some br" "length (ai_path br) = 10"
        using bot by (auto simp: has_bot_iff)
      have "v \<noteq> uid" using none b(1,2) by (auto simp: get_player_def)
      moreover have "objects c' b = objects c b"
        using add_player_objects [OF assms(2)] fresh b(3) by (cases "b = next_obj c") auto
      ultimately show ?thesis using b new(2) by (auto simp: has_bot_iff)
    qed
    then show ?thesis using new(1) by auto
  qed
  then show "\<exists>p. get_player c' uid = Some p \<and> player_tank p = Some a"
    and "has_bot c v \<Longrightarrow> has_bot c' v" by auto
qed

lemma add_bot_cases:
  assumes "add_bot i s = Some s'" and "s = (c, e)"
  obtains c1 a t ps e1 where "add_player_with_tank (100 + i) c = Some (c1, Some a)"
    "objects c1 a = Some (TankObj t)" "random_points 10 e = (e1, ps)"
    "s' = (put_tank a (t\<lparr>ai := Some \<lparr>ai_path = ps, currentTargetIndex = 0\<rparr>\<rparr>) c1, e1)"
proof -
  obtain e1 ps where "random_points 10 e = (e1, ps)" by (cases "random_points 10 e")
  then show ?thesis using assms that
    by (auto simp: add_bot_def bind_Some_iff)
qed

lemma add_bot_bots:
  assumes "core_ok (fst s)" and "add_bot i s = Some s'"
  shows "has_bot (fst s') (100 + i)" and "has_bot (fst s) v \<Longrightarrow> has_bot (fst s') v"
proof -
  obtain c e where s: "s = (c, e)" by (cases s)
  obtain c1 a t ps e1 where a: "add_player_with_tank (100 + i) c = Some (c1, Some a)"
    "objects c1 a = Some (TankObj t)" "random_points 10 e = (e1, ps)"
    "s' = (put_tank a (t\<lparr>ai := Some \<lparr>ai_path = ps, currentTargetIndex = 0\<rparr>\<rparr>) c1, e1)"
    using add_bot_cases [OF assms(2) s] .
  have "length ps = 10" using random_points_length [OF a(3)] .
  then have "has_bot (fst s') u" if "get_player c1 u = Some p" "player_tank p = Some b"
    "b = a \<or> objects c1 b = Some (TankObj t') \<and> ai t' = Some br \<and> length (ai_path br) = 10" for u p b t' br
    using that a(4) by (cases "b = a") (simp_all add: has_bot_iff put_tank_def put_obj_def get_player_def)
  then have bot: "has_bot (fst s') u"
    if "has_bot c1 u \<or> (\<exists>p. get_player c1 u = Some p \<and> player_tank p = Some a)" for u
    using that unfolding has_bot_iff by blast
  note ok = add_player_bot [OF _ a(1)]
  show "has_bot (fst s') (100 + i)" using bot ok(1) assms(1) s by auto
  show "has_bot (fst s) v \<Longrightarrow> has_bot (fst s') v" using bot ok(2) assms(1) s by auto
qed

text \<open>The rooms are games: \<open>init\<close>, the clock, the server flag and the ten bots are steps of \<open>game\<close>.\<close>

lemma room_create_game:
  assumes "room_create m e = Some (r, e')"
  shows "game m (game_core r)"
proof -
  obtain c1 c2 where c1: "core_init m new_GameCore = Some c1"
    and c2: "for_each add_bot [0, 1, 2, 3, 4, 5, 6, 7, 8, 9]
      (c1\<lparr>core_time := 0, milisecond_per_step := 20, start_time := total_time e, server := True\<rparr>, e) = Some (c2, e')"
    and r: "game_core r = c2"
    using assms by (auto simp: room_create_def room_init_def new_Room_def bind_Some_iff simp del: for_each.simps)
  have "new_GameCore = new_GameCore\<lparr>server := False, start_time := 0, milisecond_per_step := 20\<rparr>"
    by (simp add: new_GameCore_def)
  then have "game m new_GameCore" using game.start by metis
  then have "game m (c1\<lparr>core_time := 0, milisecond_per_step := 20, start_time := total_time e, server := True\<rparr>)"
    using game.serve [OF game.clock [OF game.init [OF _ c1]], of True "total_time e" 20] by simp
  moreover have "game m (fst s')" if "game m (fst s)" "add_bot i s = Some s'" for i and s s' :: "GameCore \<times> 'a Engine_scheme"
  proof -
    obtain c e where s: "s = (c, e)" by (cases s)
    from add_bot_cases [OF that(2) s] show ?thesis
      using game.bot [OF game.join] that(1) s by (metis fst_conv tank_at_Some)
  qed
  ultimately have "game m (fst (c2, e'))"
    using for_each_invariant [OF c2, of "\<lambda>s. game m (fst s)"] by simp
  then show ?thesis using r by simp
qed

lemma room_create_total:
  "\<exists>r e'. room_create m e = Some (r, e') \<and> core_ok (game_core r) \<and> room_users r = []
     \<and> blocks (game_core r) = [] \<and> block_lines (game_core r) = [] \<and> server (game_core r)
     \<and> core_time (game_core r) = 0 \<and> start_time (game_core r) = total_time e
     \<and> (\<forall>v. 100 \<le> v \<and> v < 110 \<longrightarrow> has_bot (game_core r) v)"
proof -
  have "new_GameCore = new_GameCore\<lparr>server := False, start_time := 0, milisecond_per_step := 20\<rparr>"
    by (simp add: new_GameCore_def)
  then have ok: "core_ok new_GameCore" using core_ok_new by metis
  obtain c where c: "core_init m new_GameCore = Some c" "core_ok c" "blocks c = []" "block_lines c = []"
    using core_init_loads [OF ok, of m] by (auto simp: new_GameCore_def)
  let ?c = "c\<lparr>core_time := 0, milisecond_per_step := 20, start_time := total_time e, server := True\<rparr>"
  define P where "P = (\<lambda>(js :: int set) (s :: GameCore \<times> 'a Engine_scheme). core_ok (fst s) \<and> server (fst s)
     \<and> blocks (fst s) = [] \<and> block_lines (fst s) = [] \<and> core_time (fst s) = 0
     \<and> start_time (fst s) = total_time e \<and> (\<forall>j \<in> js. has_bot (fst s) (100 + j)))"
  have step: "\<exists>s'. add_bot i s = Some s' \<and> P (insert i js) s'" if "P js s" for i js s
    using add_bot_total [of s i] add_bot_bots [of s i] that unfolding P_def by auto
  have all: "\<exists>s'. for_each add_bot is s = Some s' \<and> P (js \<union> set is) s'" if "P js s" for "is" js s
    using that
  proof (induction "is" arbitrary: js s)
    case (Cons i "is")
    obtain s1 where s1: "add_bot i s = Some s1" "P (insert i js) s1" using step [OF Cons.prems] by blast
    from Cons.IH [OF s1(2)] show ?case using s1(1) by (auto simp: insert_commute)
  qed simp
  have "core_ok (c\<lparr>server := True\<rparr>)" using core_ok_flags(1) [OF c(2)] .
  moreover have "input_free (c\<lparr>core_time := 0, milisecond_per_step := 20, start_time := total_time e\<rparr>) i
      = input_free c i" for i
    by (simp add: input_free_def shot_free_def split: Input.split)
  ultimately have "core_ok ?c"
    by (simp add: core_ok_def maps_ok_def kinds_ok_def ids_ok_def is_tank_def is_misle_def is_block_def is_line_def)
  then have "P {} (?c, e)" using c(3,4) by (simp add: P_def)
  from all [OF this, of "[0, 1, 2, 3, 4, 5, 6, 7, 8, 9]"] obtain c1 e1 where
    c1: "for_each add_bot [0, 1, 2, 3, 4, 5, 6, 7, 8, 9] (?c, e) = Some (c1, e1)"
    "P {0, 1, 2, 3, 4, 5, 6, 7, 8, 9} (c1, e1)" by auto
  have "has_bot c1 v" if "100 \<le> v \<and> v < 110" for v
  proof -
    have "v - 100 = 0 \<or> v - 100 = 1 \<or> v - 100 = 2 \<or> v - 100 = 3 \<or> v - 100 = 4 \<or> v - 100 = 5
        \<or> v - 100 = 6 \<or> v - 100 = 7 \<or> v - 100 = 8 \<or> v - 100 = 9" using that by presburger
    then have "v - 100 \<in> {0, 1, 2, 3, 4, 5, 6, 7, 8, 9}" by simp
    then have "has_bot c1 (100 + (v - 100))" using c1(2) unfolding P_def by (metis fst_conv)
    then show ?thesis by simp
  qed
  moreover have "room_create m e = Some (new_Room\<lparr>game_core := c1\<rparr>, e1)"
    using c(1) c1(1) by (simp add: room_create_def room_init_def new_Room_def del: for_each.simps)
  ultimately show ?thesis using c1(2)
    by (intro exI [of _ "new_Room\<lparr>game_core := c1\<rparr>"] exI [of _ e1]) (simp add: new_Room_def P_def)
qed

text \<open>C28. Creating a room always succeeds: its core is a game (so every property of games holds for
  it), it holds ten players with the user ids 100 to 109, each with a tank driven by the computer that
  has ten targets, no user, and no map, as the core is initialised before it is marked as a
  server's.\<close>

theorem room_created:
  "\<exists>r e'. room_create m e = Some (r, e') \<and> game m (game_core r) \<and> room_users r = []
     \<and> blocks (game_core r) = [] \<and> block_lines (game_core r) = [] \<and> server (game_core r)
     \<and> core_time (game_core r) = 0 \<and> start_time (game_core r) = total_time e
     \<and> {100..<110} \<subseteq> {v. has_bot (game_core r) v}"
  using room_create_total [of m e] room_create_game [of m e] by (fastforce simp: subset_iff)

end
