(* ===== verification/ClientEvents.thy ===== *)
theory ClientEvents
  imports ClientSync Room
begin

text \<open>
  \<open>GameCore/BoardObjectEvent\<close>: the state of an object as an event, and what a core that follows a server
  does with it. The core is the one the event points to; \<open>handle_tank\<close> and its siblings are those of the
  server's view handler, the only one in this repository.
\<close>

section \<open>Making an event\<close>

fun object_writes :: "GameCore \<Rightarrow> object \<Rightarrow> layout \<times> assignments" where
  "object_writes c (TankObj t) = (TankState, tank_data c t)"
| "object_writes c (MisleObj t) = (MisleState, misle_data c t)"
| "object_writes c (BlockObj t) = (BoardObjectState, circle_data c t)"
| "object_writes c (LineObj t) = (PlatformLineState, line_data c t)"

definition ADD :: int where "ADD = 1"
definition REMOVE :: int where "REMOVE = 4"

text \<open>The event writes into the caller's buffer \<open>b\<close>; of a removed object only the id and the type.\<close>

definition event_state :: "GameCore \<Rightarrow> int \<Rightarrow> buffer \<Rightarrow> buffer option" where
  "event_state c target b = (case get_object c target of
     None \<Rightarrow> Some (write_all BoardObjectState [(''event_type'', REMOVE), (''object_id'', target)] b)
   | Some a \<Rightarrow> do {
       ob \<leftarrow> obj_at c a;
       Some (if for_remove (base_of ob)
             then write_all BoardObjectState [(''event_type'', REMOVE), (''object_id'', target)] b
             else (let (l, fvs) = object_writes c ob
                   in write_all l fvs (write_all BoardObjectState [(''event_type'', ADD)] b))) })"

definition event_block :: "GameCore \<Rightarrow> int \<Rightarrow> MyDataBlock option" where
  "event_block c target = do {
     a \<leftarrow> get_object c target;
     ob \<leftarrow> obj_at c a;
     Some (get_data c ob) }"

section \<open>Applying a state\<close>

definition set_object_data :: "libm \<Rightarrow> buffer \<Rightarrow> addr \<Rightarrow> GameCore \<Rightarrow> GameCore option" where
  "set_object_data m b a c = do { ob \<leftarrow> obj_at c a; Some (put_obj a (set_data m b ob) c) }"

fun is_live :: "object \<Rightarrow> bool" where
  "is_live (TankObj t) \<longleftrightarrow> True"
| "is_live (MisleObj t) \<longleftrightarrow> True"
| "is_live ob \<longleftrightarrow> False"

text \<open>Before it dies an object is cast to a \<open>LiveBoardObject\<close>, which blocks and lines are not.\<close>

definition remove_object :: "addr \<Rightarrow> GameCore \<Rightarrow> GameCore option" where
  "remove_object a c = do {
     ob \<leftarrow> obj_at c a;
     if is_live ob then dead a c else None }"

definition add_player_of :: "int \<Rightarrow> addr \<Rightarrow> GameCore \<Rightarrow> GameCore" where
  "add_player_of uid a c =
     (if get_player c uid = None
      then c\<lparr>players := set_key uid \<lparr>player_user_id = 0, player_tank = Some a\<rparr> (players c)\<rparr> else c)"

definition new_object :: "libm \<Rightarrow> buffer \<Rightarrow> GameCore \<Rightarrow> GameCore option" where
  "new_object m b c =
     (let kind = field BoardObjectState ''object_type'' b
      in if kind = 3 then do {
           let (c, a) = create_block c; c \<leftarrow> set_object_data m b a c; init_block a c }
         else if kind = 4 then do {
           let (c, a) = create_platform_line m zero_point zero_point c;
           c \<leftarrow> set_object_data m b a c;
           init_platform_line a c }
         else if kind = 2 then do {
           let (c, a) = create_shot c; c \<leftarrow> set_object_data m b a c; init_shot a c }
         else if kind = 1 then do {
           let (c, a) = create_tank c;
           c \<leftarrow> set_object_data m b a c;
           c \<leftarrow> init_tank a c;
           Some (add_player_of (field TankState ''user_id'' b) a c) }
         else Some c)"

definition update_live :: "libm \<Rightarrow> addr \<Rightarrow> GameCore \<Rightarrow> GameCore option" where
  "update_live m a c = do {
     ob \<leftarrow> obj_at c a;
     case ob of TankObj t \<Rightarrow> tank_update m a c | MisleObj t \<Rightarrow> misle_update m a c | _ \<Rightarrow> Some c }"

fun update_times :: "libm \<Rightarrow> addr \<Rightarrow> nat \<Rightarrow> GameCore \<Rightarrow> GameCore option" where
  "update_times m a 0 c = Some c"
| "update_times m a (Suc k) c = do { c \<leftarrow> update_live m a c; update_times m a k c }"

text \<open>The lookup in \<open>history\<close> copies an entry nobody reads.\<close>

definition run_game_core :: "libm \<Rightarrow> buffer \<Rightarrow> GameCore \<Rightarrow> GameCore option" where
  "run_game_core m b c = do {
     let target = field BoardObjectState ''object_id'' b;
     let removal = field BoardObjectState ''event_type'' b = REMOVE;
     let now = field BoardObjectState ''room_time'' b;
     c \<leftarrow> (case get_object c target of
             Some a \<Rightarrow> if removal then remove_object a c else Some c
           | None \<Rightarrow> Some c);
     c \<leftarrow> (if get_object c target = None \<and> \<not> removal then new_object m b c else Some c);
     case get_object c target of
       None \<Rightarrow> Some c
     | Some a \<Rightarrow> do {
         c \<leftarrow> set_object_data m b a c;
         ob \<leftarrow> obj_at c a;
         if is_live ob \<and> now < core_time c then update_times m a (nat (core_time c - now)) c else Some c } }"

section \<open>Reading the header of a state\<close>

lemma header_read:
  assumes "sendable c ob" and "(f, v) \<in> set (snd (object_writes c ob))"
    and "f \<in> set [''object_type'', ''object_id'', ''room_time'']"
  shows "field BoardObjectState f (block_data (get_data c ob)) = v"
proof -
  define b where "b = block_data (get_data c ob)"
  have f: "f \<in> set [''object_type'', ''event_type'', ''object_id'', ''owner_id'', ''room_time'', ''pos'', ''z'', ''r'', ''angle'']"
    using assms(3) by auto
  note seen = seen_as_board [OF f, of b]
  have "field BoardObjectState f b = v"
  proof (cases ob)
    case (TankObj t)
    then have "\<forall>(f, v) \<in> set (tank_data c t). field TankState f b = v"
      using states_read_back(1) [of c t] assms(1) by (simp add: b_def)
    moreover have "(f, v) \<in> set (tank_data c t)" using assms(2) TankObj by simp
    ultimately have "field TankState f b = v" by - (drule (1) bspec, simp)
    then show ?thesis using seen(1) by simp
  next
    case (MisleObj t)
    then have "\<forall>(f, v) \<in> set (misle_data c t). field MisleState f b = v"
      using states_read_back(2) [of c t] assms(1) by (simp add: b_def)
    moreover have "(f, v) \<in> set (misle_data c t)" using assms(2) MisleObj by simp
    ultimately have "field MisleState f b = v" by - (drule (1) bspec, simp)
    then show ?thesis using seen(2) by simp
  next
    case (BlockObj t)
    then have "\<forall>(f, v) \<in> set (circle_data c t). field BoardObjectState f b = v"
      using states_read_back(3) [of c t] assms(1) by (simp add: b_def)
    moreover have "(f, v) \<in> set (circle_data c t)" using assms(2) BlockObj by simp
    ultimately show ?thesis by - (drule (1) bspec, simp)
  next
    case (LineObj t)
    then have "\<forall>(f, v) \<in> set (line_data c t). field PlatformLineState f b = v"
      using states_read_back(4) [of c t] assms(1) by (simp add: b_def)
    moreover have "(f, v) \<in> set (line_data c t)" using assms(2) LineObj by simp
    ultimately have "field PlatformLineState f b = v" by - (drule (1) bspec, simp)
    then show ?thesis using seen(3) by simp
  qed
  then show ?thesis by (simp only: b_def)
qed

lemma le_value_zeros: "le_value (replicate k 0) = 0"
  by (induction k) simp_all

lemma field_zeroed: "field l f (zeroed l) = 0"
proof -
  have "decode ty (take n (drop off (replicate k 0))) = 0" for ty n off k
    by (cases ty) (simp_all add: le_value_zeros to_i16_def to_i32_def to_i64_def)
  then show ?thesis by (auto simp: field_def zeroed_def bytes_at_def split: option.split)
qed

lemma event_type_read: "field BoardObjectState ''event_type'' (block_data (get_data c ob)) = 0"
proof -
  have len: "struct_size l \<le> length (zeroed l)" for l by (simp add: zeroed_def)
  note seen = seen_as_board [of "''event_type''"]
  show ?thesis
  proof (cases ob)
    case (TankObj t)
    then show ?thesis using seen(1) by (simp add: write_all_other [OF len] field_zeroed object_data)
  next
    case (MisleObj t)
    then show ?thesis using seen(2) by (simp add: write_all_other [OF len] field_zeroed object_data)
  next
    case (BlockObj t)
    then show ?thesis by (simp add: write_all_other [OF len] field_zeroed object_data)
  next
    case (LineObj t)
    then show ?thesis using seen(3) by (simp add: write_all_other [OF len] field_zeroed object_data)
  qed
qed

lemma object_id_read: "sendable c ob \<Longrightarrow> field BoardObjectState ''object_id'' (block_data (get_data c ob)) = obj_id (base_of ob)"
  by (rule header_read) (cases ob; simp add: object_data BoardObject.truncate_def)+

lemma object_type_read:
  "sendable c (TankObj t) \<Longrightarrow> field BoardObjectState ''object_type'' (block_data (get_data c (TankObj t))) = 1"
  by (rule header_read) (simp_all add: object_data)

section \<open>Following a server\<close>

lemma set_object_mirror:
  assumes "sendable c ob" and "objects c' a = Some ob0" and "same_kind ob ob0" and "last_event_time (base_of ob0) \<le> core_time c"
  shows "set_object_data m (block_data (get_data c ob)) a c' = Some (put_obj a (mirror m c ob ob0) c')"
  using set_data_mirror [OF assms(1,3)] assms(2,4)
  by (simp add: set_object_data_def obj_at_def del: get_data.simps set_data.simps mirror.simps)

text \<open>An object the client has takes over what is sent, and nothing else changes.\<close>

lemma known_object_follows:
  assumes "sendable c ob" and "get_object c' (obj_id (base_of ob)) = Some a" and "objects c' a = Some ob0"
    and "same_kind ob ob0" and "last_event_time (base_of ob0) \<le> core_time c" and "core_time c' \<le> core_time c"
  shows "run_game_core m (block_data (get_data c ob)) c' = Some (put_obj a (mirror m c ob ob0) c')"
  using assms set_object_mirror [OF assms(1,3,4,5)] object_id_read [OF assms(1)] event_type_read [of c ob]
    room_time_read [OF assms(1)]
  by (simp add: run_game_core_def REMOVE_def obj_at_def put_obj_def del: get_data.simps mirror.simps)

lemma new_tank_appears:
  assumes "sendable c (TankObj t)" and "get_object c' (obj_id t) = None" and "maps_ok c'" and "\<not> server c'"
    and "0 \<le> core_time c" and "core_time c' \<le> core_time c"
  shows "\<exists>c'' a t0. run_game_core m (block_data (get_data c (TankObj t))) c' = Some c'' \<and> get_object c'' (obj_id t) = Some a
    \<and> objects c'' a = Some (mirror m c (TankObj t) (TankObj t0)) \<and> get_tank c'' (obj_id t) = Some a
    \<and> get_player c'' (unit_user_id t) \<noteq> None"
proof -
  define b where "b = block_data (get_data c (TankObj t))"
  define fresh where "fresh = new_Tank c'\<lparr>obj_id := shot_id_counter c' + 1\<rparr>"
  obtain t1 where t1: "mirror m c (TankObj t) (TankObj fresh) = TankObj t1" "obj_id t1 = obj_id t" "view t1 = view fresh"
    "last_event_time t1 = core_time c" by (simp add: mirror_live_def mirror_board_def)
  let ?a = "next_obj c'"
  have maps: "ordered (all_objects c')" "ordered (tanks c')" "ordered (players c')" using assms(3) by (simp_all add: maps_ok_def)
  have le0: "last_event_time fresh = 0" by (simp add: fresh_def new_Tank_numbers)
  have mk: "create_tank c' = (stored (TankObj fresh) c', ?a)" by (simp add: create_stored fresh_def)
  have set1: "set_object_data m b ?a (stored (TankObj fresh) c') = Some (stored (TankObj t1) c')"
    using set_object_mirror [OF assms(1), of "stored (TankObj fresh) c'" ?a "TankObj fresh" m] assms(5) le0 t1(1)
    by (simp add: b_def put_obj_stored)
  let ?ob = "TankObj t1"
  let ?c0 = "(stored ?ob c')\<lparr>zombies := set_key (obj_id t) ?a (zombies c'), all_objects := set_key (obj_id t) ?a (all_objects c')\<rparr>"
  have add: "add_object ?a (stored ?ob c') = Some ?c0"
    using assms(4) t1(2) by (simp add: add_object_def stored_def obj_at_def BoardObject.truncate_def Let_def)
  have "\<exists>c1. init_tank ?a (stored ?ob c') = Some c1 \<and> core_time c1 = core_time c' \<and> players c1 = players c'
      \<and> all_objects c1 = set_key (obj_id t) ?a (all_objects c') \<and> tanks c1 = set_key (obj_id t) ?a (tanks c')
      \<and> (\<exists>v. objects c1 ?a = Some (TankObj (t1\<lparr>view := v\<rparr>)))"
    unfolding init_tank_def add using t1(2)
    by (auto simp: tank_at_def stored_def handle_new_def obj_at_def put_obj_def triger_change_def intro: exI [of _ "view t1"])
  then obtain c1 v where c1: "init_tank ?a (stored ?ob c') = Some c1" "core_time c1 = core_time c'" "players c1 = players c'"
    "all_objects c1 = set_key (obj_id t) ?a (all_objects c')" "tanks c1 = set_key (obj_id t) ?a (tanks c')"
    "objects c1 ?a = Some (TankObj (t1\<lparr>view := v\<rparr>))" by blast
  let ?c2 = "add_player_of (field TankState ''user_id'' b) ?a c1"
  have uid: "field TankState ''user_id'' b = unit_user_id t"
    using states_read_back(1) [OF assms(1)] by (simp add: b_def object_data)
  have made: "new_object m b c' = Some ?c2"
    using object_type_read [OF assms(1)] mk set1 c1(1) by (simp add: new_object_def b_def del: get_data.simps)
  have get2: "get_object ?c2 (obj_id t) = Some ?a" "get_tank ?c2 (obj_id t) = Some ?a" "core_time ?c2 = core_time c'"
    "objects ?c2 ?a = Some (TankObj (t1\<lparr>view := v\<rparr>))"
    using c1 maps by (simp_all add: add_player_of_def get_object_def get_tank_def find_key_set_key)
  have player: "get_player ?c2 (unit_user_id t) \<noteq> None"
    using c1(3) maps(3) by (auto simp: add_player_of_def get_player_def uid find_key_set_key)
  let ?c3 = "put_obj ?a (mirror m c (TankObj t) (TankObj (t1\<lparr>view := v\<rparr>))) ?c2"
  have "set_object_data m b ?a ?c2 = Some ?c3" unfolding b_def
    by (rule set_object_mirror [OF assms(1) get2(4) [unfolded b_def]])
      (simp_all add: t1(4) BoardObject.truncate_def)
  moreover have "field BoardObjectState ''object_id'' b = obj_id t" "field BoardObjectState ''event_type'' b = 0"
    "field BoardObjectState ''room_time'' b = core_time c"
    using object_id_read [OF assms(1)] event_type_read [of c "TankObj t"] room_time_read [OF assms(1)]
    by (simp_all add: b_def BoardObject.truncate_def del: get_data.simps)
  ultimately have "run_game_core m b c' = Some ?c3"
    using made assms(2,6) get2(1,3) by (simp add: run_game_core_def REMOVE_def obj_at_def put_obj_def del: mirror.simps)
  then show ?thesis using get2 player
    by (intro exI [of _ ?c3] exI [of _ ?a] exI [of _ "t1\<lparr>view := v\<rparr>"])
      (simp add: b_def put_obj_def get_object_def get_tank_def get_player_def del: mirror.simps get_data.simps)
qed

section \<open>Late states\<close>

lemma misle_update_stays:
  assumes "misle_at c a = Some t"
  shows "\<exists>c1 t1. misle_update m a c = Some c1 \<and> misle_at c1 a = Some t1 \<and> pos t1 = pos t"
proof -
  have obj: "objects c a = Some (MisleObj t)" using assms by (simp add: misle_at_Some)
  let ?old = "fgt (fmul (step_time c) (f_of_int (core_time c - born_step t))) (max_dis t)"
  have "\<exists>c1 t1. (if ?old then miss a c else Some c) = Some c1 \<and> misle_at c1 a = Some t1 \<and> pos t1 = pos t"
    using obj assms
    by (auto simp: miss_def dead_def on_ded_def obj_at_def put_misle_def put_obj_def misle_at_def Let_def triger_change_def)
  then obtain c1 t1 where c1: "(if ?old then miss a c else Some c) = Some c1" "misle_at c1 a = Some t1" "pos t1 = pos t" by blast
  then have "misle_update m a c = Some (put_misle a (live_update m (step_time c1) t1) c1)"
    using assms by (simp add: misle_update_def Let_def)
  then show ?thesis using c1(3) by (auto simp: put_misle_def put_obj_def misle_at_def live_update_def Let_def)
qed

lemma update_times_stays:
  "misle_at c a = Some t \<Longrightarrow> \<exists>c1 t1. update_times m a k c = Some c1 \<and> misle_at c1 a = Some t1 \<and> pos t1 = pos t"
proof (induction k arbitrary: c t)
  case (Suc k)
  obtain c1 t1 where c1: "misle_update m a c = Some c1" "misle_at c1 a = Some t1" "pos t1 = pos t"
    using misle_update_stays [OF Suc.prems] by blast
  then have "update_live m a c = Some c1" using Suc.prems by (simp add: update_live_def obj_at_def misle_at_Some)
  then show ?case using Suc.IH [OF c1(2)] c1(3) by auto
qed auto

text \<open>C16. A core that follows a server shows a tank as the server sent it, field by field, whether it knew the
  tank or has to make one; the state it takes must not be older than what it shows or than its clock.\<close>

theorem client_follows_server:
  assumes "sendable c (TankObj t)" and "maps_ok c'" and "\<not> server c'" and "0 \<le> core_time c" and "core_time c' \<le> core_time c"
    and "\<forall>a. get_object c' (obj_id t) = Some a \<longrightarrow> (\<exists>t0. objects c' a = Some (TankObj t0) \<and> last_event_time t0 \<le> core_time c)"
  shows "\<exists>c'' a t0. run_game_core m (block_data (get_data c (TankObj t))) c' = Some c'' \<and> get_object c'' (obj_id t) = Some a
    \<and> objects c'' a = Some (mirror m c (TankObj t) (TankObj t0))"
proof (cases "get_object c' (obj_id t)")
  case None
  from new_tank_appears [OF assms(1) None assms(2-5), of m] show ?thesis by blast
next
  case (Some a)
  then obtain t0 where t0: "objects c' a = Some (TankObj t0)" "last_event_time t0 \<le> core_time c" using assms(6) by blast
  have "run_game_core m (block_data (get_data c (TankObj t))) c' = Some (put_obj a (mirror m c (TankObj t) (TankObj t0)) c')"
    by (rule known_object_follows [OF assms(1) _ t0(1)])
      (simp_all add: t0(2) assms(5) Some BoardObject.truncate_def)
  moreover have "get_object (put_obj a ob c') (obj_id t) = Some a" "objects (put_obj a ob c') a = Some ob" for ob
    using Some by (simp_all add: put_obj_def get_object_def)
  ultimately show ?thesis by blast
qed

text \<open>C35. A state that arrives late is not caught up with: the updates made for it leave a missile where the
  server had it, however many steps have passed.\<close>

theorem late_missile_stays:
  assumes "sendable c (MisleObj u)" and "get_object c' (obj_id u) = Some a" and "objects c' a = Some (MisleObj u0)"
    and "last_event_time u0 \<le> core_time c"
  shows "\<exists>c'' u1. run_game_core m (block_data (get_data c (MisleObj u))) c' = Some c'' \<and> objects c'' a = Some (MisleObj u1) \<and> pos u1 = pos u"
proof -
  define b where "b = block_data (get_data c (MisleObj u))"
  obtain u2 where u2: "mirror m c (MisleObj u) (MisleObj u0) = MisleObj u2" "pos u2 = pos u"
    by (simp add: mirror_live_def mirror_board_def)
  let ?c = "put_obj a (MisleObj u2) c'"
  have "set_object_data m b a c' = Some ?c"
    using set_object_mirror [OF assms(1,3), of m] assms(4) u2(1) by (simp add: b_def BoardObject.truncate_def)
  moreover have "field BoardObjectState ''object_id'' b = obj_id u" "field BoardObjectState ''event_type'' b = 0"
    using object_id_read [OF assms(1)] event_type_read [of c "MisleObj u"]
    by (simp_all add: b_def BoardObject.truncate_def del: get_data.simps)
  ultimately have run: "run_game_core m b c' = (if field BoardObjectState ''room_time'' b < core_time c'
      then update_times m a (nat (core_time c' - field BoardObjectState ''room_time'' b)) ?c else Some ?c)"
    using assms(2) by (simp add: run_game_core_def REMOVE_def obj_at_def put_obj_def)
  have at: "misle_at ?c a = Some u2" by (simp add: misle_at_def put_obj_def)
  obtain c1 u1 where "update_times m a (nat (core_time c' - field BoardObjectState ''room_time'' b)) ?c = Some c1"
    "misle_at c1 a = Some u1" "pos u1 = pos u2" using update_times_stays [OF at] by blast
  then show ?thesis using run at u2(2) unfolding b_def [symmetric] by (auto simp: misle_at_Some)
qed

text \<open>Two clients: one that knows nothing, and one that has the missile of id 3.\<close>

theorem client_follows_server_witness:
  "\<exists>c'' a t0. run_game_core no_trig (block_data (get_data (new_GameCore\<lparr>core_time := 7\<rparr>)
        (TankObj (new_Tank new_GameCore\<lparr>obj_id := 5, pos := pt (Fin (1 / 2)) (Fin (- 3)), healt := 70\<rparr>)))) new_GameCore = Some c''
     \<and> get_object c'' 5 = Some a
     \<and> objects c'' a = Some (mirror no_trig (new_GameCore\<lparr>core_time := 7\<rparr>)
        (TankObj (new_Tank new_GameCore\<lparr>obj_id := 5, pos := pt (Fin (1 / 2)) (Fin (- 3)), healt := 70\<rparr>)) (TankObj t0))"
proof -
  let ?c = "new_GameCore\<lparr>core_time := 7\<rparr>"
  let ?t = "new_Tank new_GameCore\<lparr>obj_id := 5, pos := pt (Fin (1 / 2)) (Fin (- 3)), healt := 70\<rparr>"
  have float: "is_float (Fin (1 / 2))" "is_float (Fin (- 3))" "is_float (Fin 0)" "is_float (Fin 50)" "is_float (Fin 1000)"
    "is_float (Fin 3)" by code_simp+
  have "sendable ?c (TankObj ?t)" using float
    by (simp add: fit_defs new_Tank_numbers in_i32_def in_i64_def is_float_point_def pt_def del: is_float.simps)
  from client_follows_server [OF this, of new_GameCore no_trig] show ?thesis
    by (simp add: new_GameCore_def maps_ok_def get_object_def del: get_data.simps mirror.simps)
qed

theorem late_missile_stays_witness:
  "\<exists>c'' u1. run_game_core no_trig (block_data (get_data new_GameCore (MisleObj (new_Misle new_GameCore\<lparr>obj_id := 3, pos := pt (Fin 8) (Fin 0), speed := Fin 900\<rparr>))))
      (new_GameCore\<lparr>core_time := 50, objects := [0 \<mapsto> MisleObj (new_Misle new_GameCore\<lparr>obj_id := 3\<rparr>)], all_objects := [(3, 0)]\<rparr>) = Some c''
     \<and> objects c'' 0 = Some (MisleObj u1) \<and> pos u1 = pt (Fin 8) (Fin 0)"
proof -
  let ?u = "new_Misle new_GameCore\<lparr>obj_id := 3, pos := pt (Fin 8) (Fin 0), speed := Fin 900\<rparr>"
  let ?c = "new_GameCore\<lparr>core_time := 50, objects := [0 \<mapsto> MisleObj (new_Misle new_GameCore\<lparr>obj_id := 3\<rparr>)], all_objects := [(3, 0)]\<rparr>"
  have float: "is_float (Fin 8)" "is_float (Fin 0)" "is_float (Fin 10)" "is_float (Fin 900)" by code_simp+
  have fields: "z (new_Misle c) = Fin 0" "angle (new_Misle c) = Fin 0" "radius (new_Misle c) = Fin 10" "max_speed (new_Misle c) = Fin 0"
    "max_healt (new_Misle c) = 0" "healt (new_Misle c) = 0" "born_step (new_Misle c) = 0" "misle_owner (new_Misle c) = 0"
    "max_dis (new_Misle c) = Fin 0" "damage (new_Misle c) = 0" "last_event_time (new_Misle c) = 0" for c
    by (simp_all add: new_Misle_def new_LiveBoardObject_def new_BoardObject_def Misle.fields_def LiveBoardObject.extend_def
        BoardObject.extend_def LiveBoardObject.fields_def)
  have "sendable new_GameCore (MisleObj ?u)" using float
    by (simp add: fit_defs fields in_i32_def in_i64_def is_float_point_def pt_def new_GameCore_def del: is_float.simps)
  from late_missile_stays [OF this, of ?c 0 _ no_trig] show ?thesis
    by (simp add: get_object_def fields new_GameCore_def del: get_data.simps)
qed

end
