(* ===== verification/MainServer.thy ===== *)
theory MainServer
  imports Room
begin

text \<open>
  The game server proper, \<open>Classes/MainServer\<close>: rooms and leagues, joining a room, profiles and
  lists, the handlers of client messages and the jobs of the database thread. A message is the
  receive buffer; \<open>s\<close> is the address of the port it came from. What the SQL statements answer
  is a parameter (\<open>sql_answers\<close>).
\<close>

section \<open>State\<close>

record MainServer = Engine +
  game_count :: int
  rooms :: "(int, Room option) stdmap"
  rooms_lig :: "(int, int list) stdmap"
  lvl_exp :: "int list"
  lvl_gem :: "int list"
  room_memory :: "(int, RoomData) stdmap option"
  conn_port :: "addr \<Rightarrow> ptr"
  sql_log :: "sql_update list"

definition lig_exp :: "int list" where
  "lig_exp = [0, 10, 20, 25, 30, 35, 40, 45, 50, 60, 65, 70, 75, 80, 85, 90, 100] @ replicate 83 0"

text \<open>Update the user under the key \<open>uid\<close>.\<close>

definition change_data :: "(UserData \<Rightarrow> UserData) \<Rightarrow> int \<Rightarrow> 'a Engine_scheme \<Rightarrow> 'a Engine_scheme" where
  "change_data f uid e = e\<lparr>database := (case get_user_data_by_id (database e) uid of
     None \<Rightarrow> database e | Some ud \<Rightarrow> put_user (f ud) uid (database e))\<rparr>"

text \<open>\<open>operator[]\<close> on the map of rooms: an unknown id gets an entry with a null pointer.\<close>

definition room_at :: "int \<Rightarrow> 'a MainServer_scheme \<Rightarrow> 'a MainServer_scheme \<times> Room option" where
  "room_at i e = (let (m, r) = index_key None (rooms e) i in (e\<lparr>rooms := m\<rparr>, r))"

definition put_room :: "int \<Rightarrow> Room \<Rightarrow> 'a MainServer_scheme \<Rightarrow> 'a MainServer_scheme" where
  "put_room i r e = e\<lparr>rooms := set_key i (Some r) (rooms e)\<rparr>"

definition put_chars :: "layout \<Rightarrow> string \<Rightarrow> byte list \<Rightarrow> buffer \<Rightarrow> buffer option" where
  "put_chars l f src b = do {
     bs \<leftarrow> c_strcpy src (field_bytes l f b);
     Some (overwrite (offset_of l f) bs b) }"

text \<open>\<open>new\<close> of a message with a constructor: the other fields keep what the heap holds.\<close>

definition heap_msg :: "layout \<Rightarrow> MsgType \<Rightarrow> 'a Engine_scheme \<Rightarrow> buffer" where
  "heap_msg l t e = construct_header t 0 (uninit e (struct_size l))"

definition send_new :: "ptr \<Rightarrow> layout \<Rightarrow> buffer \<Rightarrow> 'a Engine_scheme \<Rightarrow> 'a Engine_scheme option" where
  "send_new up l b e =
     (let (e, m) = new_message b e in udp_send_and_push_out_box_to_handle_ACK up (Some m) (struct_size l) e)"

section \<open>Logging in\<close>

definition new_login :: "int \<Rightarrow> addr \<Rightarrow> 'a Engine_scheme \<Rightarrow> 'a Engine_scheme option" where
  "new_login uid up e = (case users_with_id e uid of
     None \<Rightarrow> Some e
   | Some ls \<Rightarrow> do {
       l \<leftarrow> port_at e ls;
       p \<leftarrow> port_at e up;
       Some (put_port up (p\<lparr>last_msg_id := last_msg_id l\<rparr>) e) })"

definition first_udp_ping :: "addr \<Rightarrow> 'a Engine_scheme \<Rightarrow> 'a Engine_scheme option" where
  "first_udp_ping u e = do {
     p \<leftarrow> port_at e u;
     ud \<leftarrow> data_of e p;
     Some (e\<lparr>db_jobs := db_jobs e @ [LoadExtraData (ud_id ud)]\<rparr>) }"

section \<open>Profiles\<close>

text \<open>The coins a user is given whenever a profile is made; the gift message is never sent.\<close>

definition refill :: "int \<Rightarrow> UserData \<Rightarrow> UserData" where
  "refill now ud =
     (let ud = (if ud_free_coin_time ud < now \<and> ud_free_coin_time ud > 0
                then ud\<lparr>ud_free_coin_time := - 1, ud_coin := ud_coin ud + 300\<rparr> else ud);
          ud = (if ud_coin ud < 100 \<and> ud_free_coin_time ud \<le> 1000
                then ud\<lparr>ud_free_coin_time := now + 2 * 60 * 60 * 1000\<rparr> else ud)
      in if ud_coin ud < 200 then ud\<lparr>ud_coin := 200\<rparr> else ud)"

definition get_user_profile_msg :: "int \<Rightarrow> 'a Engine_scheme \<Rightarrow> ('a Engine_scheme \<times> ptr) option" where
  "get_user_profile_msg uid e = (case get_user_data_by_id (database e) uid of
     None \<Rightarrow> Some (e, None)
   | Some _ \<Rightarrow> do {
       let e = change_data (refill (total_time e)) uid e;
       ud \<leftarrow> get_user_data_by_id (database e) uid;
       b \<leftarrow> put_chars ResponseProfile ''display_name'' (ud_display_name ud) (heap_msg ResponseProfile PROFILE_RESPONSE e);
       let b = write_all ResponseProfile
         [(''target_user_id'', to_i32 uid), (''level'', ud_level ud), (''coin'', ud_coin ud),
          (''win_number'', ud_win_number ud), (''loss_number'', ud_lose_number ud),
          (''avatar_id'', ud_avatar_id ud), (''exp'', ud_exp ud), (''id'', 0)] b;
       let (e, m) = new_message b e;
       Some (e, Some m) })"

fun send_events :: "addr \<Rightarrow> addr list \<Rightarrow> 'a Engine_scheme \<Rightarrow> 'a Engine_scheme option" where
  "send_events up [] e = Some e"
| "send_events up (m # ms) e = do {
     e \<leftarrow> udp_send_and_push_out_box_to_handle_ACK (Some up) (Some m) (struct_size GemWin) e;
     send_events up ms e }"

definition update_client_profile :: "int \<Rightarrow> 'a Engine_scheme \<Rightarrow> 'a Engine_scheme option" where
  "update_client_profile uid e = do {
     (e, pr) \<leftarrow> get_user_profile_msg uid e;
     case (users_with_id e uid, pr) of
       (Some up, Some m) \<Rightarrow> do {
         e \<leftarrow> udp_send_and_push_out_box_to_handle_ACK (Some up) (Some m) (struct_size ResponseProfile) e;
         p \<leftarrow> port_at e up;
         e \<leftarrow> send_events up (events p) e;
         p \<leftarrow> port_at e up;
         Some (put_port up (p\<lparr>events := []\<rparr>) e) }
     | _ \<Rightarrow> Some e }"

text \<open>The 63 positions as the bits of one number, the first 64 levels as short numbers.\<close>

definition position_bits :: "bool list \<Rightarrow> int" where
  "position_bits bs = fold (\<lambda>i a. if bs ! i then or a (2 ^ i) else a) [0..<63] 0"

definition level_bytes :: "int list \<Rightarrow> byte list" where
  "level_bytes ls = concat (map (\<lambda>v. le_bytes 2 v) (take 64 ls))"

definition update_client_game_data :: "int \<Rightarrow> 'a Engine_scheme \<Rightarrow> 'a Engine_scheme option" where
  "update_client_game_data uid e = do {
     s \<leftarrow> users_with_id e uid;
     p \<leftarrow> port_at e s;
     ud \<leftarrow> data_of e p;
     case ud_extra ud of
       None \<Rightarrow> Some e
     | Some x \<Rightarrow> do {
         let b = heap_msg UserGameData USER_GAME_DATA e;
         let b = overwrite (offset_of UserGameData ''teams'') (level_bytes (team_level x)) b;
         let b = overwrite (offset_of UserGameData ''configs'') (le_bytes 8 (position_bits (postions x))) b;
         send_new (Some s) UserGameData b e } }"

text \<open>A profile is only made for the user who asks; the handler compares the sender's two ids.\<close>

definition profile_request :: "addr \<Rightarrow> buffer \<Rightarrow> 'a Engine_scheme \<Rightarrow> 'a Engine_scheme option" where
  "profile_request s mr e = do {
     p \<leftarrow> port_at e s;
     ud \<leftarrow> data_of e p;
     let uid = field BaseMessage ''user_id'' mr;
     if uid = ud_id ud then do {
       e \<leftarrow> update_client_profile uid e;
       update_client_game_data uid e }
     else do {
       (e, pr) \<leftarrow> get_user_profile_msg (field RequestProfile ''target_user_id'' mr) e;
       udp_send_and_push_out_box_to_handle_ACK (users_with_id e uid) pr (struct_size ResponseProfile) e } }"

section \<open>Leagues\<close>

text \<open>\<open>lvl_exp\<close> and \<open>lvl_gem\<close> are never initialised; reading past their 300 entries is undefined.\<close>

fun level_for :: "int list \<Rightarrow> nat \<Rightarrow> nat \<Rightarrow> int \<Rightarrow> int \<Rightarrow> int option" where
  "level_for ls i 0 x lvl = None"
| "level_for ls i (Suc k) x lvl =
     (if ls ! i < x then level_for ls (i + 1) k x (int i) else Some lvl)"

definition gems_between :: "int list \<Rightarrow> int \<Rightarrow> int \<Rightarrow> int option" where
  "gems_between gs a b =
     for_each (\<lambda>i n. if 0 \<le> i \<and> i < int (length gs) then Some (n + gs ! nat i) else None) [a..b - 1] 0"

definition lig_win :: "int \<Rightarrow> int \<Rightarrow> int \<Rightarrow> 'a MainServer_scheme \<Rightarrow> 'a MainServer_scheme option" where
  "lig_win uid lig coin_win e = do {
     ud \<leftarrow> get_user_data_by_id (database e) uid;
     x \<leftarrow> (if 0 \<le> lig \<and> lig < int (length lig_exp) then Some (lig_exp ! nat lig) else None);
     let xp = ud_exp ud + x;
     let gem = c_div coin_win 1000;
     let coin_win = (if gem > 0 then coin_win - gem * 30 else coin_win);
     let b_level = ud_level ud;
     lvl \<leftarrow> level_for (lvl_exp e) 0 (length (lvl_exp e)) xp 0;
     added \<leftarrow> gems_between (lvl_gem e) b_level lvl;
     let e = change_data (\<lambda>ud. ud\<lparr>ud_exp := xp, ud_coin := ud_coin ud + coin_win,
       ud_win_number := ud_win_number ud + 1, ud_level := lvl,
       ud_total_coin_winer := ud_total_coin_winer ud + coin_win\<rparr>) uid e;
     case users_with_id e uid of
       None \<Rightarrow> Some e
     | Some up \<Rightarrow>
         if added \<noteq> 0 then do {
           let b = write_all GemWin [(''win_type'', 1), (''gems'', added), (''parms1'', b_level), (''parms2'', lvl)]
                     (heap_msg GemWin GEM_WIN e);
           let (e, m) = new_message b e;
           p \<leftarrow> port_at e up;
           Some (put_port up (p\<lparr>events := events p @ [m]\<rparr>) e) }
         else Some e }"

section \<open>Rooms\<close>

definition create_room :: "libm \<Rightarrow> int \<Rightarrow> 'a MainServer_scheme \<Rightarrow> ('a MainServer_scheme \<times> int) option" where
  "create_room m lig e = do {
     (r, e) \<leftarrow> room_create m e;
     let (e, code) = get_random_long_long e;
     let i = game_count e;
     let e = put_room i (r\<lparr>room_code := code, room_id := i, room_lig_id := lig\<rparr>) (e\<lparr>game_count := i + 1\<rparr>);
     let (ligs, ids) = index_key [] (rooms_lig e) lig;
     Some (e\<lparr>rooms_lig := set_key lig (ids @ [i]) ligs\<rparr>, i) }"

text \<open>The last room of the league that still exists.\<close>

definition open_room :: "(int, Room option) stdmap \<Rightarrow> int list \<Rightarrow> int option" where
  "open_room rs ids = fold (\<lambda>i best. case find_key rs i of Some (Some r) \<Rightarrow> Some i | _ \<Rightarrow> best) ids None"

definition match_request :: "libm \<Rightarrow> addr \<Rightarrow> buffer \<Rightarrow> 'a MainServer_scheme \<Rightarrow> 'a MainServer_scheme option" where
  "match_request m s mr e = do {
     let lig = field JoinRequest ''lig_id'' mr;
     let uid = field BaseMessage ''user_id'' mr;
     let (ligs, ids) = index_key [] (rooms_lig e) lig;
     let e = e\<lparr>rooms_lig := ligs\<rparr>;
     (e, i) \<leftarrow> (case open_room (rooms e) ids of Some i \<Rightarrow> Some (e, i) | None \<Rightarrow> create_room m lig e);
     let (e, ro) = room_at i e;
     r \<leftarrow> ro;
     (c, tank) \<leftarrow> add_player_with_tank uid (game_core r);
     let r = r\<lparr>game_core := c, room_users := set_key uid s (room_users r)\<rparr>;
     let e = put_room i r e;
     (e, mid) \<leftarrow> generate_msg_id s e;
     let b = construct_header MATCH_RESPONSE mid (uninit e (struct_size JoinResponse));
     let b = write_at (offset_of JoinResponse ''room'') ROOM_DATA [(''id'', room_id r), (''code'', room_code r)] b;
     let b = write_all JoinResponse [(''lig_id'', lig), (''game_start_time'', start_time c), (''mili_second_per_step'', 20)] b;
     send_new (Some s) JoinResponse b e }"

text \<open>One room's turn; it is removed when its \<open>update\<close> says so.\<close>

definition run_room :: "libm \<Rightarrow> int \<Rightarrow> 'a MainServer_scheme \<times> int list \<Rightarrow> ('a MainServer_scheme \<times> int list) option" where
  "run_room m i = (\<lambda>(e, gone). (case find_key (rooms e) i of
     Some (Some r) \<Rightarrow> do {
       (r, ph) \<leftarrow> room_update m (total_time e) r;
       (r, e) \<leftarrow> update_clients (r, e);
       Some (put_room i r e, if ph then gone else gone @ [i]) }
   | _ \<Rightarrow> Some (e, gone)))"

definition run_rooms_step :: "libm \<Rightarrow> 'a MainServer_scheme \<Rightarrow> 'a MainServer_scheme option" where
  "run_rooms_step m e = do {
     (e, gone) \<leftarrow> for_each (run_room m) (keys (rooms e)) (e, []);
     Some (e\<lparr>rooms := fold erase_key gone (rooms e)\<rparr>) }"

definition with_room :: "int \<Rightarrow> (Room \<times> 'a MainServer_scheme \<Rightarrow> (Room \<times> 'a MainServer_scheme) option)
    \<Rightarrow> 'a MainServer_scheme \<Rightarrow> 'a MainServer_scheme option" where
  "with_room i f e = (let (e, ro) = room_at i e in
     case ro of None \<Rightarrow> Some e | Some r \<Rightarrow> do { (r, e) \<leftarrow> f (r, e); Some (put_room i r e) })"

definition game_room_msg :: "libm \<Rightarrow> addr \<Rightarrow> buffer \<Rightarrow> 'a MainServer_scheme \<Rightarrow> 'a MainServer_scheme option" where
  "game_room_msg m s mr = with_room (field RoomMsg ''room.id'' mr) (room_get_msg m s mr)"

definition room_event_ack :: "addr \<Rightarrow> buffer \<Rightarrow> 'a MainServer_scheme \<Rightarrow> 'a MainServer_scheme option" where
  "room_event_ack s mr = with_room (field RoomMsg ''room.id'' mr) (\<lambda>(r, e). do {
     p \<leftarrow> port_at e s;
     Some (event_ack (client_process_id p) (field RoomEventAck ''obj_id'' mr) (field RoomEventAck ''step'' mr) r, e) })"

definition room_state_request :: "addr \<Rightarrow> buffer \<Rightarrow> 'a MainServer_scheme \<Rightarrow> 'a MainServer_scheme option" where
  "room_state_request s mr = with_room (field RoomMsg ''room.id'' mr) (\<lambda>(r, e).
     if action_msg_is_ok mr r then do {
       p \<leftarrow> port_at e s;
       init_client s (r, put_port s (p\<lparr>last_got_event := field RoomStateRequest ''last_got_event'' mr\<rparr>) e) }
     else Some (r, e))"

section \<open>Lists of players\<close>

text \<open>The entry of a known user goes to its place in the request, but only the known are counted.\<close>

definition hundred_entry :: "buffer \<Rightarrow> nat \<Rightarrow> buffer \<times> int \<times> DBAccess \<Rightarrow> (buffer \<times> int \<times> DBAccess) option" where
  "hundred_entry mr i = (\<lambda>(b, n, d).
     (let uid = to_i64 (le_value (bytes_at (offset_of HundredStateRequest ''a'' + 8 * i) 8 mr))
      in case get_user_data_by_id d uid of
           None \<Rightarrow> Some (b, n, d)
         | Some ud \<Rightarrow> do {
             let q = offset_of HundredStateResponse ''profiles'' + i * struct_size HundredProfile;
             let b = write_at q HundredProfile
               [(''id'', to_i32 (ud_id ud)), (''avatar_id'', ud_avatar_id ud), (''level'', ud_level ud)] b;
             p \<leftarrow> put_chars HundredProfile ''name'' (ud_display_name ud) (drop q b);
             Some (take q b @ p, n + 1, d) }))"

definition hundred_state_request :: "addr \<Rightarrow> buffer \<Rightarrow> 'a Engine_scheme \<Rightarrow> 'a Engine_scheme option" where
  "hundred_state_request s mr e = do {
     p \<leftarrow> port_at e s;
     if last_hundred_request p + 1000 > total_time e then Some e
     else do {
       let e = put_port s (p\<lparr>last_hundred_request := total_time e\<rparr>) e;
       let b = put_field BaseMessage ''answer_of_msg_id'' (field BaseMessage ''id'' mr)
                 (heap_msg HundredStateResponse HUNDERD_STATE_RESPONSE e);
       let n = min (field HundredStateRequest ''n'' mr) 50;
       (b, found, d) \<leftarrow> for_each (hundred_entry mr) [0..<nat n] (b, 0, database e);
       send_new (Some s) HundredStateResponse (put_field HundredStateResponse ''n'' found b) e } }"

definition top_hundred_request :: "addr \<Rightarrow> buffer \<Rightarrow> 'a Engine_scheme \<Rightarrow> 'a Engine_scheme option" where
  "top_hundred_request s mr e = do {
     p \<leftarrow> port_at e s;
     if last_top_hundred_request p + 1000 > total_time e then Some e
     else do {
       let e = put_port s (p\<lparr>last_top_hundred_request := total_time e\<rparr>) e;
       let shift = field TopHundredRequest ''shift'' mr;
       ud \<leftarrow> data_of e p;
       (count, top) \<leftarrow> get_top_hundred (database e) shift (field TopHundredRequest ''count'' mr);
       let b = write_all TopHundredResponse [(''count'', count), (''shift'', shift)]
                 (heap_msg TopHundredResponse TOP_HUNDERD_SCORE_RESPONSE e);
       let b = overwrite (offset_of TopHundredResponse ''profiles'') (concat (map (le_bytes 8) top)) b;
       send_new (Some s) TopHundredResponse b e } }"

section \<open>Names\<close>

definition change_dispaly_name :: "addr \<Rightarrow> buffer \<Rightarrow> 'a Engine_scheme \<Rightarrow> 'a Engine_scheme option" where
  "change_dispaly_name s mr e = do {
     p \<leftarrow> port_at e s;
     uid \<leftarrow> user_data p;
     ud \<leftarrow> data_of e p;
     if ud_name_changed ud > 2 then Some e
     else do {
       nm \<leftarrow> c_strcpy (field_bytes ChangeNameRequest ''display_name'' mr) (ud_display_name ud);
       let e = change_data (\<lambda>ud. ud\<lparr>ud_name_changed := ud_name_changed ud + 1, ud_display_name := nm\<rparr>) uid e;
       Some (e\<lparr>db_jobs := db_jobs e @ [ChangeNameJob s]\<rparr>) } }"

section \<open>Dispatch\<close>

text \<open>Handlers without a body do nothing; \<open>server_data_request\<close> returns at once.\<close>

definition buge_repoart :: "addr \<Rightarrow> 'a MainServer_scheme \<Rightarrow> 'a MainServer_scheme option" where
  "buge_repoart s e = do {
     p \<leftarrow> port_at e s;
     ud \<leftarrow> data_of e p;
     Some (e\<lparr>sql_log := sql_log e @ [bug_check_point (ud_id ud)]\<rparr>) }"

definition on_type :: "buffer \<Rightarrow> MsgType \<Rightarrow> bool \<Rightarrow> ('e \<Rightarrow> 'e option) \<Rightarrow> 'e \<Rightarrow> 'e option" where
  "on_type mr t ok f e = (if field MsgHeader ''type'' mr = type_code t \<and> ok then f e else Some e)"

definition recive_msg :: "libm \<Rightarrow> addr \<Rightarrow> buffer \<Rightarrow> nat \<Rightarrow> 'a MainServer_scheme \<Rightarrow> 'a MainServer_scheme option" where
  "recive_msg m s mr n e = do {
     e \<leftarrow> on_type mr MATCH_REQUEST (JoinRequest_check mr) (match_request m s mr) e;
     e \<leftarrow> on_type mr PROFILE_REQUEST (MsgHeader_check mr) (profile_request s mr) e;
     e \<leftarrow> on_type mr BUG_CHECK_POINT (MsgHeader_check mr) (buge_repoart s) e;
     e \<leftarrow> on_type mr GAMEACTION_CLIENT_SEND (GameActionMsg_check n mr) (game_room_msg m s mr) e;
     e \<leftarrow> on_type mr CHANGE_DISPLAY_NAME_REQUEST (MsgHeader_check mr) (change_dispaly_name s mr) e;
     e \<leftarrow> on_type mr TOP_HUNDERD_SCORE_REQUEST (TopHundredRequest_check mr) (top_hundred_request s mr) e;
     e \<leftarrow> on_type mr HUNDERD_STATE_REQUEST (MsgHeader_check mr) (hundred_state_request s mr) e;
     e \<leftarrow> on_type mr ROOM_EVENT_ACK (RoomMsg_check mr) (room_event_ack s mr) e;
     on_type mr ROOM_STATE_REQUST True (room_state_request s mr) e }"

definition change_user_data :: "int \<Rightarrow> 'a Engine_scheme \<Rightarrow> 'a Engine_scheme option" where
  "change_user_data uid e = update_client_profile uid (e\<lparr>db_jobs := db_jobs e @ [SaveUserData uid]\<rparr>)"

definition update_user_db :: "int \<Rightarrow> 'a Engine_scheme \<Rightarrow> 'a Engine_scheme" where
  "update_user_db uid e = e\<lparr>db_jobs := db_jobs e @ [SaveUserData uid]\<rparr>"

definition recive_tcp_msg :: "addr \<Rightarrow> buffer \<Rightarrow> 'a Engine_scheme \<Rightarrow> 'a Engine_scheme option" where
  "recive_tcp_msg s mr e =
     (if field MsgHeader ''type'' mr = type_code PROFILE_REQUEST then do {
        p \<leftarrow> port_at e s;
        ud \<leftarrow> data_of e p;
        if field RequestProfile ''target_user_id'' mr = ud_id ud then update_client_profile (ud_id ud) e
        else profile_request s mr e }
      else Some e)"

section \<open>Jobs of the database thread\<close>

text \<open>What the database answers: the extra data of a user, and whether an update succeeded.\<close>

record sql_answers =
  extra_rows :: "int \<Rightarrow> (int \<times> int) list \<times> int list"
  name_saved :: "int \<Rightarrow> bool"

definition LoadExtraData_do_job :: "sql_answers \<Rightarrow> int \<Rightarrow> 'a Engine_scheme \<Rightarrow> 'a Engine_scheme option" where
  "LoadExtraData_do_job q uid e = do {
     let (teams, configs) = extra_rows q uid;
     d \<leftarrow> load_extra_if_not_exist teams configs uid (database e);
     update_client_game_data uid (e\<lparr>database := d\<rparr>) }"

definition ChangeNameJob_do_job :: "sql_answers \<Rightarrow> addr \<Rightarrow> 'a Engine_scheme \<Rightarrow> 'a Engine_scheme option" where
  "ChangeNameJob_do_job q s e = do {
     p \<leftarrow> port_at e s;
     ud \<leftarrow> data_of e p;
     let done = name_saved q (ud_id ud);
     b \<leftarrow> put_chars ChangeNameResponse ''display_name'' (ud_display_name ud)
            (put_field ChangeNameResponse ''done'' (if done then 1 else 0)
              (construct_header CHANGE_DISPLAY_NAME_RESPONSE 0 (uninit e (struct_size ChangeNameResponse))));
     let e = (if done then port_tcp_send b p e else e);
     update_client_profile (ud_id ud) e }"

fun do_db_job :: "sql_answers \<Rightarrow> DBJob \<Rightarrow> 'a MainServer_scheme \<Rightarrow> 'a MainServer_scheme option" where
  "do_db_job q (SetBuyItemUsed i) e =
     Some (e\<lparr>sql_log := sql_log e @ [set_buy_item_used i]\<rparr>)"
| "do_db_job q (SaveAppVersion uid) e = Some e"
| "do_db_job q (LoadExtraData uid) e = LoadExtraData_do_job q uid e"
| "do_db_job q (SaveUserData uid) e = do {
     u \<leftarrow> save_user_data uid (database e);
     Some (e\<lparr>sql_log := sql_log e @ [u]\<rparr>) }"
| "do_db_job q (ChangeNameJob s) e = ChangeNameJob_do_job q s e"

text \<open>One round of \<open>db_dun\<close>: the jobs in order; none of them adds a job.\<close>

definition db_dun_round :: "sql_answers \<Rightarrow> 'a MainServer_scheme \<Rightarrow> 'a MainServer_scheme option" where
  "db_dun_round q e = for_each (\<lambda>j e. do { e \<leftarrow> do_db_job q j e; Some (e\<lparr>db_jobs := tl (db_jobs e)\<rparr>) }) (db_jobs e) e"

end
