(* ===== verification/Identity.thy ===== *)
theory Identity
  imports Receive
begin

text \<open>
  What the handlers of client messages leave alone: which port belongs to which user, the cookies
  of the ports, and the message ids a port has seen. On it rest the properties about who may talk
  to the server and that a message is handled once.
\<close>

section \<open>The relation\<close>

definition port_kept :: "UserPort \<Rightarrow> UserPort \<Rightarrow> bool" where
  "port_kept p p' \<longleftrightarrow> user_data p' = user_data p \<and> cookie p' = cookie p \<and> msg_ids p' = msg_ids p
     \<and> udp_end_point p' = udp_end_point p \<and> client_process_id p' = client_process_id p
     \<and> udp_connected p' = udp_connected p"

definition db_ok :: "'a Engine_scheme \<Rightarrow> bool" where
  "db_ok e \<longleftrightarrow> ordered (users (database e))"

definition same_users :: "'a Engine_scheme \<Rightarrow> 'a Engine_scheme \<Rightarrow> bool" where
  "same_users e e' \<longleftrightarrow> (\<forall>u. map_option (\<lambda>d. (ud_id d, ud_port d)) (get_user_data_by_id (database e') u)
     = map_option (\<lambda>d. (ud_id d, ud_port d)) (get_user_data_by_id (database e) u))"

definition keeps :: "'a Engine_scheme \<Rightarrow> 'a Engine_scheme \<Rightarrow> bool" where
  "keeps e e' \<longleftrightarrow> (db_ok e \<longrightarrow> db_ok e' \<and> same_users e e' \<and> total_time e' = total_time e
     \<and> (\<forall>a p. port_at e a = Some p \<longrightarrow> (\<exists>p'. port_at e' a = Some p' \<and> port_kept p p')))"

lemma port_kept_refl [simp]: "port_kept p p"
  by (simp add: port_kept_def)

lemma port_kept_trans: "port_kept p q \<Longrightarrow> port_kept q r \<Longrightarrow> port_kept p r"
  by (simp add: port_kept_def)

lemma keeps_trans [trans]: "keeps x y \<Longrightarrow> keeps y u \<Longrightarrow> keeps x u"
proof -
  assume 1: "keeps x y" and 2: "keeps y u"
  have "db_ok u \<and> same_users x u \<and> total_time u = total_time x
      \<and> (\<forall>a p. port_at x a = Some p \<longrightarrow> (\<exists>p'. port_at u a = Some p' \<and> port_kept p p'))" if ok: "db_ok x"
  proof (intro conjI allI impI)
    note y = 1 [unfolded keeps_def, rule_format, OF ok]
    then have "db_ok y" by simp
    note u = 2 [unfolded keeps_def, rule_format, OF this]
    show "db_ok u" "total_time u = total_time x" "same_users x u" using y u by (simp_all add: same_users_def)
    fix a p assume "port_at x a = Some p"
    then obtain q where q: "port_at y a = Some q" "port_kept p q" using y by blast
    then obtain r where "port_at u a = Some r" "port_kept q r" using u by blast
    then show "\<exists>p'. port_at u a = Some p' \<and> port_kept p p'" using q(2) port_kept_trans by blast
  qed
  then show ?thesis by (simp add: keeps_def)
qed

lemma keeps_same:
  "user_ports e' = user_ports e \<Longrightarrow> database e' = database e \<Longrightarrow> total_time e' = total_time e \<Longrightarrow> keeps e e'"
  by (simp add: keeps_def db_ok_def same_users_def port_at_def)

lemma keeps_refl [simp]: "keeps e e"
  by (rule keeps_same) simp_all

lemma keeps_engine_fields [simp]:
  "keeps e (e'\<lparr>messages := x0\<rparr>) = keeps e e'" "keeps (e\<lparr>messages := x0\<rparr>) e' = keeps e e'"
  "keeps e (e'\<lparr>next_message := x1\<rparr>) = keeps e e'" "keeps (e\<lparr>next_message := x1\<rparr>) e' = keeps e e'"
  "keeps e (e'\<lparr>id_sequence := x2\<rparr>) = keeps e e'" "keeps (e\<lparr>id_sequence := x2\<rparr>) e' = keeps e e'"
  "keeps e (e'\<lparr>resend_jobs := x3\<rparr>) = keeps e e'" "keeps (e\<lparr>resend_jobs := x3\<rparr>) e' = keeps e e'"
  "keeps e (e'\<lparr>db_jobs := x4\<rparr>) = keeps e e'" "keeps (e\<lparr>db_jobs := x4\<rparr>) e' = keeps e e'"
  "keeps e (e'\<lparr>rand_pos := x5\<rparr>) = keeps e e'" "keeps (e\<lparr>rand_pos := x5\<rparr>) e' = keeps e e'"
  "keeps e (e'\<lparr>udp_log := x6\<rparr>) = keeps e e'" "keeps (e\<lparr>udp_log := x6\<rparr>) e' = keeps e e'"
  "keeps e (e'\<lparr>tcp_log := x7\<rparr>) = keeps e e'" "keeps (e\<lparr>tcp_log := x7\<rparr>) e' = keeps e e'"
  "keeps e (e'\<lparr>udp_memory := x8\<rparr>) = keeps e e'" "keeps (e\<lparr>udp_memory := x8\<rparr>) e' = keeps e e'"
  by (simp_all add: keeps_def db_ok_def same_users_def port_at_def)

lemma keeps_server_fields [simp]:
  "keeps e (e'\<lparr>game_count := y0\<rparr>) = keeps e e'" "keeps (e\<lparr>game_count := y0\<rparr>) e' = keeps e e'"
  "keeps e (e'\<lparr>rooms := y1\<rparr>) = keeps e e'" "keeps (e\<lparr>rooms := y1\<rparr>) e' = keeps e e'"
  "keeps e (e'\<lparr>rooms_lig := y2\<rparr>) = keeps e e'" "keeps (e\<lparr>rooms_lig := y2\<rparr>) e' = keeps e e'"
  "keeps e (e'\<lparr>room_memory := y3\<rparr>) = keeps e e'" "keeps (e\<lparr>room_memory := y3\<rparr>) e' = keeps e e'"
  "keeps e (e'\<lparr>conn_port := y4\<rparr>) = keeps e e'" "keeps (e\<lparr>conn_port := y4\<rparr>) e' = keeps e e'"
  "keeps e (e'\<lparr>sql_log := y5\<rparr>) = keeps e e'" "keeps (e\<lparr>sql_log := y5\<rparr>) e' = keeps e e'"
  by (simp_all add: keeps_def db_ok_def same_users_def port_at_def)

lemma keeps_put_port: "port_at e a = Some p \<Longrightarrow> port_kept p q \<Longrightarrow> keeps e (put_port a q e)"
  by (auto simp: keeps_def db_ok_def same_users_def port_at_def put_port_def)

lemma keeps_for_each:
  assumes "for_each f xs s = Some s'" and "\<And>x s s'. x \<in> set xs \<Longrightarrow> f x s = Some s' \<Longrightarrow> keeps (g s) (g s')"
  shows "keeps (g s) (g s')"
  using for_each_invariant [OF assms(1), of "\<lambda>t. keeps (g s) (g t)"] assms(2) keeps_trans
  by (metis keeps_refl)

lemma same_users_registry:
  assumes "same_users e e'"
  shows "users_with_id e' u = users_with_id e u"
proof -
  have "map_option (\<lambda>d. (ud_id d, ud_port d)) (get_user_data_by_id (database e') u)
     = map_option (\<lambda>d. (ud_id d, ud_port d)) (get_user_data_by_id (database e) u)"
    using assms by (simp add: same_users_def)
  then show ?thesis by (auto simp: users_with_id_def split: option.splits)
qed

section \<open>Sending\<close>

lemma keeps_rand: "rand e = (e', r) \<Longrightarrow> keeps e e'"
  by (auto simp: rand_def)

lemma keeps_generate: "generate_msg_id a e = Some (e', i) \<Longrightarrow> keeps e e'"
  by (auto simp: generate_msg_id_def bind_Some_iff rand_def Let_def port_kept_def intro!: keeps_put_port)

lemma keeps_assign: "assign_id a b e = Some (e', b') \<Longrightarrow> keeps e e'"
  by (auto simp: assign_id_def bind_Some_iff dest: keeps_generate split: if_splits)

lemma keeps_send_bytes: "send_bytes se b n e = Some e' \<Longrightarrow> keeps e e'"
  by (auto simp: send_bytes_def split: if_splits)

lemma keeps_udp_send: "udp_send a b n e = Some (e', b') \<Longrightarrow> keeps e e'"
  by (auto simp: udp_send_def bind_Some_iff dest!: keeps_assign keeps_send_bytes intro: keeps_trans)

lemma keeps_send_stored: "send_stored a m n e = Some e' \<Longrightarrow> keeps e e'"
  by (auto simp: send_stored_def bind_Some_iff dest!: keeps_udp_send)

lemma keeps_put_slot: "put_slot a i h e = Some e' \<Longrightarrow> keeps e e'"
  by (auto simp: put_slot_def bind_Some_iff port_kept_def intro!: keeps_put_port)

lemma keeps_push_job: "push_send_lost_packet_job a i e = Some e' \<Longrightarrow> keeps e e'"
  by (auto simp: push_send_lost_packet_job_def bind_Some_iff)

lemma keeps_slot_init: "slot_init a m h e = Some (e', h') \<Longrightarrow> keeps e e'"
  by (auto simp: slot_init_def bind_Some_iff)

lemma keeps_reserved: "port_kept p (fst (get_reserved p))"
  by (auto simp: get_reserved_def port_kept_def Let_def split: option.splits)

lemma keeps_send_with_ack:
  assumes "send_with_ack a m n k e = Some e'"
  shows "keeps e e'"
proof -
  obtain b e1 b1 e2 p h e3 h' e4 where u: "assign_id a b e = Some (e1, b1)"
    "send_stored a m n (e1\<lparr>messages := (messages e1)(m \<mapsto> put_field BaseMessage ''ack_required'' 1 b1)\<rparr>) = Some e2"
    "port_at e2 a = Some p" "slot_init a m h (put_port a (fst (get_reserved p)) e2) = Some (e3, h')"
    "put_slot a (snd (get_reserved p)) (h'\<lparr>job_time := total_time e3 + 200, try_counter := 1, max_try_counter := k\<rparr>) e3 = Some e4"
    "push_send_lost_packet_job a (snd (get_reserved p)) e4 = Some e'"
    using assms unfolding send_with_ack_def Let_def case_prod_beta bind_Some_iff by auto
  have "keeps e e1" using u(1) by (rule keeps_assign)
  also have "keeps e1 e2" using keeps_send_stored [OF u(2)] by simp
  also have "keeps e2 (put_port a (fst (get_reserved p)) e2)" using u(3) keeps_reserved by (rule keeps_put_port)
  also have "keeps \<dots> e3" using u(4) by (rule keeps_slot_init)
  also have "keeps e3 e4" using u(5) by (rule keeps_put_slot)
  also have "keeps e4 e'" using u(6) by (rule keeps_push_job)
  finally show ?thesis .
qed

lemma keeps_udp_send_ack: "udp_send_and_push_out_box_to_handle_ACK up m n e = Some e' \<Longrightarrow> keeps e e'"
  by (auto simp: udp_send_and_push_out_box_to_handle_ACK_def dest: keeps_send_with_ack split: option.splits)

lemma keeps_send_new: "send_new up l b e = Some e' \<Longrightarrow> keeps e e'"
  by (auto simp: send_new_def new_message_def dest: keeps_udp_send_ack)

section \<open>Rooms\<close>

lemma keeps_init_client: "init_client a (r, e) = Some (r', e') \<Longrightarrow> keeps e e'"
proof -
  assume "init_client a (r, e) = Some (r', e')"
  then obtain ts "is" where "for_each (send_states a ts) is e = Some e'"
    unfolding init_client_def Let_def case_prod_beta bind_Some_iff by auto
  from keeps_for_each [where g = "\<lambda>e. e", OF this] show ?thesis
    by (auto simp: send_states_def bind_Some_iff dest!: keeps_udp_send)
qed

lemma keeps_update_clients: "update_clients (r, e) = Some (r', e') \<Longrightarrow> keeps e e'"
proof -
  assume "update_clients (r, e) = Some (r', e')"
  then have "for_each (\<lambda>(u, a). init_client a) (room_users r) (r, e) = Some (r', e')"
    by (simp add: update_clients_def)
  then have "keeps (snd (r, e)) (snd (r', e'))"
    by (rule keeps_for_each [where g = snd]) (auto dest!: keeps_init_client)
  then show ?thesis by simp
qed

lemma keeps_send_action: "send_action a i fvs e = Some e' \<Longrightarrow> keeps e e'"
  by (auto simp: send_action_def bind_Some_iff Let_def dest: keeps_udp_send)

lemma keeps_send_others:
  "for_each (\<lambda>(u, up2) e. if up2 = up then Some e else send_action up2 i fvs e) us e = Some e' \<Longrightarrow> keeps e e'"
  by (rule keeps_for_each [where g = "\<lambda>e. e"]) (auto dest: keeps_send_action split: if_splits)

lemma keeps_take_action:
  assumes "take_action up action a (r, e) = Some (r', e')"
  shows "keeps e e'"
proof -
  obtain t where t: "tank_at (game_core r) a = Some t"
    using assms by (auto simp: take_action_def bind_Some_iff Let_def)
  show ?thesis
  proof (cases "get_action_of t (to_i32 (field InputState ''client_id'' action))")
    case None
    then obtain e1 i fvs gvs where "send_action up i fvs e = Some e1"
      "for_each (\<lambda>(u, up2) e. if up2 = up then Some e else send_action up2 i gvs e) (room_users r) e1 = Some e'"
      using assms t by (auto simp: take_action_def bind_Some_iff Let_def)
    then show ?thesis by (blast intro: keeps_trans keeps_send_action keeps_send_others)
  next
    case (Some i)
    then show ?thesis using assms t by (auto simp: take_action_def bind_Some_iff Let_def dest: keeps_send_action)
  qed
qed

lemma keeps_room_get_msg:
  assumes "room_get_msg m up mr (r, e) = Some (r', e')"
  shows "keeps e e'"
proof (cases "action_msg_is_ok mr r")
  case True
  then obtain r1 ph action where u: "room_update m (total_time e) (r\<lparr>last_action := core_time (game_core r)\<rparr>) = Some (r1, ph)"
    "get_action (uninit e 256) mr = Some action"
    using assms by (auto simp: room_get_msg_def bind_Some_iff)
  show ?thesis
  proof (cases "get_player (game_core r1) (field BaseMessage ''user_id'' mr)")
    case None
    then show ?thesis using assms u True by (simp add: room_get_msg_def)
  next
    case (Some p)
    then show ?thesis using assms u True
      by (cases "player_tank p") (auto simp: room_get_msg_def dest: keeps_take_action)
  qed
qed (use assms in \<open>simp add: room_get_msg_def\<close>)

lemma keeps_with_room:
  assumes "with_room i f e = Some e'" and "\<And>r e r' e'. f (r, e) = Some (r', e') \<Longrightarrow> keeps e e'"
  shows "keeps e e'"
  using assms(1)
  by (auto simp: with_room_def room_at_def put_room_def Let_def bind_Some_iff
      dest: assms(2) split: prod.splits option.splits)

section \<open>Handlers\<close>

lemma keeps_change_data:
  assumes "\<And>d. ud_id (f d) = ud_id d \<and> ud_port (f d) = ud_port d"
  shows "keeps e (change_data f u e)"
proof (cases "get_user_data_by_id (database e) u")
  case None
  then show ?thesis by (simp add: change_data_def)
next
  case (Some d)
  then show ?thesis using assms
    by (auto simp: change_data_def keeps_def db_ok_def same_users_def port_at_def put_user_def
        get_user_data_by_id_def ordered_set_key find_key_set_key)
qed

lemma keeps_refill [simp]: "keeps e (change_data (refill n) u e)"
  by (rule keeps_change_data) (simp add: refill_def Let_def)

lemma keeps_profile_msg: "get_user_profile_msg u e = Some (e', m) \<Longrightarrow> keeps e e'"
  by (auto simp: get_user_profile_msg_def bind_Some_iff new_message_def Let_def split: option.splits)

lemma keeps_send_events: "send_events up ms e = Some e' \<Longrightarrow> keeps e e'"
  by (induction up ms e rule: send_events.induct)
    (auto simp: bind_Some_iff dest: keeps_udp_send_ack intro: keeps_trans)

lemma keeps_update_profile:
  assumes "update_client_profile u e = Some e'"
  shows "keeps e e'"
proof -
  obtain e1 pr where 1: "get_user_profile_msg u e = Some (e1, pr)"
    using assms by (auto simp: update_client_profile_def bind_Some_iff)
  have k: "keeps e e1" using 1 by (rule keeps_profile_msg)
  show ?thesis
  proof (cases "users_with_id e1 u = None \<or> pr = None")
    case True
    then show ?thesis using assms 1 k by (auto simp: update_client_profile_def split: option.splits)
  next
    case False
    then obtain up m e2 p e3 p' where u: "udp_send_and_push_out_box_to_handle_ACK (Some up) (Some m) (struct_size ResponseProfile) e1 = Some e2"
      "port_at e2 up = Some p" "send_events up (events p) e2 = Some e3" "port_at e3 up = Some p'"
      "e' = put_port up (p'\<lparr>events := []\<rparr>) e3"
      using assms 1 by (auto simp: update_client_profile_def bind_Some_iff)
    note k
    also have "keeps e1 e2" using u(1) by (rule keeps_udp_send_ack)
    also have "keeps e2 e3" using u(3) by (rule keeps_send_events)
    also have "keeps e3 e'" unfolding u(5) using u(4) by (rule keeps_put_port) (simp add: port_kept_def)
    finally show ?thesis .
  qed
qed

lemma keeps_game_data: "update_client_game_data u e = Some e' \<Longrightarrow> keeps e e'"
  by (auto simp: update_client_game_data_def bind_Some_iff Let_def dest: keeps_send_new split: option.splits)

lemma keeps_profile_request: "profile_request s mr e = Some e' \<Longrightarrow> keeps e e'"
  by (auto simp: profile_request_def bind_Some_iff Let_def
      dest!: keeps_update_profile keeps_game_data keeps_profile_msg keeps_udp_send_ack
      intro: keeps_trans split: if_splits)

lemma keeps_random_points [simp]: "keeps e (fst (random_points k e))"
proof (induction k arbitrary: e)
  case (Suc k)
  have "keeps e (fst (random_point e))" by (simp add: random_point_def rand_def Let_def)
  also have "keeps (fst (random_point e)) (fst (random_points k (fst (random_point e))))" by (rule Suc.IH)
  finally show ?case by (simp add: Let_def case_prod_beta)
qed simp

lemma keeps_room_create: "room_create m e = Some (r, e') \<Longrightarrow> keeps e e'"
proof -
  assume "room_create m e = Some (r, e')"
  then obtain c c' where "for_each add_bot [0, 1, 2, 3, 4, 5, 6, 7, 8, 9] (c, e) = Some (c', e')"
    by (auto simp: room_create_def room_init_def bind_Some_iff Let_def simp del: for_each.simps)
  then have "keeps (snd (c, e)) (snd (c', e'))"
    by (rule keeps_for_each [where g = snd])
      (auto simp: add_bot_def bind_Some_iff Let_def case_prod_beta)
  then show ?thesis by simp
qed

lemma keeps_random_long [simp]: "keeps e (fst (get_random_long_long e))"
  by (simp add: get_random_long_long_def rand_def Let_def)

lemma keeps_create_room: "create_room m lig e = Some (e', i) \<Longrightarrow> keeps e e'"
  by (auto simp: create_room_def bind_Some_iff Let_def case_prod_beta put_room_def
      dest!: keeps_room_create intro: keeps_trans [OF _ keeps_random_long])

lemma keeps_put_room [simp]: "keeps e (put_room i r e') = keeps e e'" "keeps e (fst (room_at i e')) = keeps e e'"
  by (simp_all add: put_room_def room_at_def case_prod_beta)

lemma keeps_match_request:
  assumes "match_request m s mr e = Some e'"
  shows "keeps e e'"
proof -
  let ?l = "rooms_lig e" and ?lig = "field JoinRequest ''lig_id'' mr"
  let ?e = "e\<lparr>rooms_lig := fst (index_key [] ?l ?lig)\<rparr>"
  obtain x r xc b where u:
    "(case open_room (rooms ?e) (snd (index_key [] ?l ?lig)) of Some i \<Rightarrow> Some (?e, i) | None \<Rightarrow> create_room m ?lig ?e) = Some x"
    "generate_msg_id s (put_room (snd x) r (fst (room_at (snd x) (fst x)))) = Some xc"
    "send_new (Some s) JoinResponse b (fst xc) = Some e'"
    using assms unfolding match_request_def Let_def case_prod_beta bind_Some_iff by (elim exE conjE) blast
  have "keeps e (fst x)" using u(1) by (cases x) (auto dest!: keeps_create_room split: option.splits)
  also have "keeps (fst x) (put_room (snd x) r (fst (room_at (snd x) (fst x))))" by simp
  also have "keeps \<dots> (fst xc)" using keeps_generate [of s _ "fst xc" "snd xc"] u(2) by simp
  also have "keeps (fst xc) e'" using u(3) by (rule keeps_send_new)
  finally show ?thesis .
qed

lemma keeps_room_messages:
  "game_room_msg m s mr e = Some e' \<Longrightarrow> keeps e e'"
  "room_event_ack s mr e = Some e' \<Longrightarrow> keeps e e'"
  "room_state_request s mr e = Some e' \<Longrightarrow> keeps e e'"
proof -
  show "game_room_msg m s mr e = Some e' \<Longrightarrow> keeps e e'"
    unfolding game_room_msg_def by (erule keeps_with_room) (rule keeps_room_get_msg)
  show "room_event_ack s mr e = Some e' \<Longrightarrow> keeps e e'"
    unfolding room_event_ack_def by (erule keeps_with_room) (auto simp: bind_Some_iff)
  have "keeps e e'" if i: "init_client s (r, put_port s (p\<lparr>last_got_event := x\<rparr>) e) = Some (r', e')"
    and p: "port_at e s = Some p" for e e' :: "'a MainServer_scheme" and r r' p x
  proof -
    have "keeps e (put_port s (p\<lparr>last_got_event := x\<rparr>) e)"
      using p by (rule keeps_put_port) (simp add: port_kept_def)
    also have "keeps \<dots> e'" using i by (rule keeps_init_client)
    finally show ?thesis .
  qed
  then show "room_state_request s mr e = Some e' \<Longrightarrow> keeps e e'"
    unfolding room_state_request_def
    by (erule_tac keeps_with_room) (auto simp: bind_Some_iff split: if_splits)
qed

lemma keeps_bug: "buge_repoart s e = Some e' \<Longrightarrow> keeps e e'"
  by (auto simp: buge_repoart_def bind_Some_iff)

lemma keeps_name: "change_dispaly_name s mr e = Some e' \<Longrightarrow> keeps e e'"
  by (auto simp: change_dispaly_name_def bind_Some_iff Let_def intro!: keeps_change_data split: if_splits)

lemma keeps_lists:
  "top_hundred_request s mr e = Some e' \<Longrightarrow> keeps e e'"
  "hundred_state_request s mr e = Some e' \<Longrightarrow> keeps e e'"
proof -
  have touch: "keeps e e'" if "port_at e s = Some p" "send_new (Some s) l b (put_port s q e) = Some e'" "port_kept p q"
    for p q l b and e' :: "'a Engine_scheme"
    using keeps_trans [OF keeps_put_port [OF that(1,3)] keeps_send_new [OF that(2)]] .
  show "top_hundred_request s mr e = Some e' \<Longrightarrow> keeps e e'"
    by (auto simp: top_hundred_request_def bind_Some_iff Let_def port_kept_def elim!: touch split: if_splits)
  show "hundred_state_request s mr e = Some e' \<Longrightarrow> keeps e e'"
    by (auto simp: hundred_state_request_def bind_Some_iff Let_def port_kept_def elim!: touch split: if_splits)
qed

lemma keeps_on_type:
  "on_type mr t ok f e = Some e' \<Longrightarrow> (\<And>e e'. f e = Some e' \<Longrightarrow> keeps e e') \<Longrightarrow> keeps e e'"
  by (auto simp: on_type_def split: if_splits)

lemmas keeps_handlers = keeps_match_request keeps_profile_request keeps_bug keeps_room_messages keeps_name keeps_lists

lemma keeps_recive_msg:
  assumes "recive_msg m s mr n e = Some e'"
  shows "keeps e e'"
proof -
  obtain e1 e2 e3 e4 e5 e6 e7 e8 where u:
    "on_type mr MATCH_REQUEST (JoinRequest_check mr) (match_request m s mr) e = Some e1"
    "on_type mr PROFILE_REQUEST (MsgHeader_check mr) (profile_request s mr) e1 = Some e2"
    "on_type mr BUG_CHECK_POINT (MsgHeader_check mr) (buge_repoart s) e2 = Some e3"
    "on_type mr GAMEACTION_CLIENT_SEND (GameActionMsg_check n mr) (game_room_msg m s mr) e3 = Some e4"
    "on_type mr CHANGE_DISPLAY_NAME_REQUEST (MsgHeader_check mr) (change_dispaly_name s mr) e4 = Some e5"
    "on_type mr TOP_HUNDERD_SCORE_REQUEST (TopHundredRequest_check mr) (top_hundred_request s mr) e5 = Some e6"
    "on_type mr HUNDERD_STATE_REQUEST (MsgHeader_check mr) (hundred_state_request s mr) e6 = Some e7"
    "on_type mr ROOM_EVENT_ACK (RoomMsg_check mr) (room_event_ack s mr) e7 = Some e8"
    "on_type mr ROOM_STATE_REQUST True (room_state_request s mr) e8 = Some e'"
    using assms unfolding recive_msg_def bind_Some_iff by blast
  have "keeps e e1" by (rule keeps_on_type [OF u(1) keeps_handlers(1)])
  also have "keeps e1 e2" by (rule keeps_on_type [OF u(2) keeps_profile_request])
  also have "keeps e2 e3" by (rule keeps_on_type [OF u(3) keeps_bug])
  also have "keeps e3 e4" by (rule keeps_on_type [OF u(4) keeps_room_messages(1)])
  also have "keeps e4 e5" by (rule keeps_on_type [OF u(5) keeps_name])
  also have "keeps e5 e6" by (rule keeps_on_type [OF u(6) keeps_lists(1)])
  also have "keeps e6 e7" by (rule keeps_on_type [OF u(7) keeps_lists(2)])
  also have "keeps e7 e8" by (rule keeps_on_type [OF u(8) keeps_room_messages(2)])
  also have "keeps e8 e'" by (rule keeps_on_type [OF u(9) keeps_room_messages(3)])
  finally show ?thesis .
qed

section \<open>Datagrams\<close>

text \<open>Everything is kept but for the endpoint, the process and the seen ids of the port \<open>s\<close>.\<close>

definition keeps_but :: "addr \<Rightarrow> 'a Engine_scheme \<Rightarrow> 'a Engine_scheme \<Rightarrow> bool" where
  "keeps_but s e e' \<longleftrightarrow> (db_ok e \<longrightarrow> db_ok e' \<and> same_users e e' \<and> total_time e' = total_time e
     \<and> (\<forall>a p. port_at e a = Some p \<longrightarrow> (\<exists>p'. port_at e' a = Some p' \<and> user_data p' = user_data p
          \<and> cookie p' = cookie p \<and> (a \<noteq> s \<longrightarrow> port_kept p p'))))"

lemma keeps_keeps_but: "keeps e e' \<Longrightarrow> keeps_but s e e'"
  by (auto simp: keeps_def keeps_but_def port_kept_def)

lemma keeps_but_trans [trans]: "keeps_but s x y \<Longrightarrow> keeps_but s y u \<Longrightarrow> keeps_but s x u"
proof -
  assume 1: "keeps_but s x y" and 2: "keeps_but s y u"
  have "db_ok u \<and> same_users x u \<and> total_time u = total_time x
      \<and> (\<forall>a p. port_at x a = Some p \<longrightarrow> (\<exists>p'. port_at u a = Some p' \<and> user_data p' = user_data p
          \<and> cookie p' = cookie p \<and> (a \<noteq> s \<longrightarrow> port_kept p p')))" if ok: "db_ok x"
  proof (intro conjI allI impI)
    note y = 1 [unfolded keeps_but_def, rule_format, OF ok]
    then have "db_ok y" by simp
    note u = 2 [unfolded keeps_but_def, rule_format, OF this]
    show "db_ok u" "total_time u = total_time x" "same_users x u" using y u by (simp_all add: same_users_def)
    fix a p assume "port_at x a = Some p"
    then obtain q where q: "port_at y a = Some q" "user_data q = user_data p" "cookie q = cookie p"
      "a \<noteq> s \<longrightarrow> port_kept p q" using y by blast
    then obtain r where "port_at u a = Some r" "user_data r = user_data q" "cookie r = cookie q"
      "a \<noteq> s \<longrightarrow> port_kept q r" using u by blast
    then show "\<exists>p'. port_at u a = Some p' \<and> user_data p' = user_data p \<and> cookie p' = cookie p
        \<and> (a \<noteq> s \<longrightarrow> port_kept p p')" using q port_kept_trans by auto
  qed
  then show ?thesis by (simp add: keeps_but_def)
qed

lemma keeps_but_put_port:
  "port_at e s = Some p \<Longrightarrow> user_data q = user_data p \<Longrightarrow> cookie q = cookie p \<Longrightarrow> keeps_but s e (put_port s q e)"
  by (auto simp: keeps_but_def db_ok_def same_users_def port_at_def put_port_def)

lemma keeps_zips [simp]: "keeps e (zip_update i w e)" "keeps e (zip_update_time i t e)"
  by (simp_all add: zip_update_def zip_update_time_def)

lemma put_port_again: "port_at (zip_update i w e) a = port_at e a" "put_port a p (zip_update i w e) = zip_update i w (put_port a p e)"
  by (simp_all add: port_at_def zip_update_def put_port_def)

lemma keeps_end_point:
  assumes "udp_end_point_set se s e = Some e'" and "port_at e s = Some p"
  shows "keeps_but s e e'"
    and "\<exists>mm. e' = put_port s (p\<lparr>udp_end_point := se, udp_connected := True\<rparr>) (e\<lparr>udp_memory := mm\<rparr>)"
proof -
  obtain mm where mm: "e' = put_port s (p\<lparr>udp_end_point := se, udp_connected := True\<rparr>) (e\<lparr>udp_memory := mm\<rparr>)"
  proof (cases "udp_end_point p \<noteq> se")
    case True
    then show ?thesis using assms that by (auto simp: udp_end_point_set_def bind_Some_iff zip_update_def)
  next
    case False
    then show ?thesis using assms that [of "udp_memory e"] by (simp add: udp_end_point_set_def)
  qed
  then show "\<exists>mm. e' = put_port s (p\<lparr>udp_end_point := se, udp_connected := True\<rparr>) (e\<lparr>udp_memory := mm\<rparr>)" by blast
  have "keeps_but s e (e\<lparr>udp_memory := mm\<rparr>)" by (rule keeps_keeps_but) simp
  also have "keeps_but s \<dots> e'" unfolding mm using assms(2)
    by (intro keeps_but_put_port [where p = p]) (simp_all add: port_at_def)
  finally show "keeps_but s e e'" .
qed

end
