(* ===== verification/Protocol.thy ===== *)
theory Protocol
  imports Identity
begin

text \<open>
  Who may talk to the server, and how often a datagram is handled: the properties of
  \<open>BaseServer::udp_recive\<close>, of the registration job and of joining a room.
\<close>

section \<open>Fields of a checked datagram\<close>

lemma BaseMessage_size: "struct_size BaseMessage = 69"
  by code_simp

lemma field_check_msg:
  "69 \<le> length b \<Longrightarrow> f \<noteq> ''hash'' \<Longrightarrow> field BaseMessage f (fst (check_msg b n)) = field BaseMessage f b"
  by (simp add: check_msg_def Let_def BaseMessage_size struct.get_put_other)

lemma base_type_check_msg: "69 \<le> length b \<Longrightarrow> base_type_is (fst (check_msg b n)) t = base_type_is b t"
  by (simp add: base_type_is_def field_check_msg)

text \<open>An answer is always as long as its type.\<close>

lemma length_construct_base: "length (construct_base l t q e) = struct_size l" if "69 \<le> struct_size l"
  using that by (simp add: construct_base_def length_write_all uninit_def BaseMessage_size)

lemma answer_sizes: "struct_size ACKMSG = 73" "struct_size LoginProblem = 73"
  by code_simp+

text \<open>An answer built with its constructor keeps its base type if no later write changes it.\<close>

lemma answer_type:
  assumes "''base_type'' \<notin> fst ` set fvs"
  shows "field BaseMessage ''base_type'' (write_all (BaseMessage @ l) fvs (construct_base (BaseMessage @ l) t q e))
    = base_code t"
proof -
  let ?l = "BaseMessage @ l"
  have at: "field_at BaseMessage ''base_type'' = Some (0, CUInt)" by code_simp
  have "69 \<le> struct_size ?l" using BaseMessage_size by (simp add: struct_size_def)
  then have len: "struct_size ?l \<le> length (construct_base ?l t q e)" "69 \<le> struct_size ?l"
    by (simp_all add: length_construct_base)
  have in_base: "''base_type'' \<in> fst ` set BaseMessage" using at by (rule field_at_Some_in)
  have fits: "fits_field BaseMessage ''base_type'' (base_code t)" by (cases t) (simp_all add: fits_field_def at)
  have "field BaseMessage ''base_type'' (write_all ?l fvs (construct_base ?l t q e))
      = field ?l ''base_type'' (write_all ?l fvs (construct_base ?l t q e))" using field_base [OF in_base] by simp
  also have "\<dots> = field ?l ''base_type'' (construct_base ?l t q e)" by (rule write_all_other [OF len(1) assms])
  also have "\<dots> = field BaseMessage ''base_type'' (construct_base ?l t q e)" by (rule field_base [OF in_base])
  also have "\<dots> = base_code t"
  proof -
    let ?u = "uninit e (struct_size ?l)"
    have u: "struct_size BaseMessage \<le> length ?u" using len(2) by (simp add: uninit_def BaseMessage_size)
    have "field BaseMessage ''base_type'' (write_all BaseMessage ((''base_type'', base_code t) # ws) ?u) = base_code t"
      if "''base_type'' \<notin> fst ` set ws" for ws
      using write_all_append [of BaseMessage "[(''base_type'', base_code t)]" ws ?u]
        write_all_other [of BaseMessage "put_field BaseMessage ''base_type'' (base_code t) ?u", OF _ that]
        struct.get_put_same [OF u fits] u by (simp add: write_all_def length_put_field)
    then show ?thesis by (simp add: construct_base_def)
  qed
  finally show ?thesis .
qed

lemma answer_layouts: "ACKMSG = BaseMessage @ [(''ack_lvl'', CInt)]" "LoginProblem = BaseMessage @ [(''problem'', CUInt)]"
  by (simp_all add: ACKMSG_def LoginProblem_def)

definition ack_answer :: "buffer \<Rightarrow> 'a Engine_scheme \<Rightarrow> buffer list" where
  "ack_answer b e = (if \<not> base_type_is b ACK \<and> field BaseMessage ''ack_required'' b \<noteq> 0
     then [write_all ACKMSG
             [(''user_id'', field BaseMessage ''user_id'' b), (''answer_of_msg_id'', field BaseMessage ''id'' b),
              (''id'', field BaseMessage ''id'' b)] (construct_base ACKMSG ACK False e)]
     else [])"

definition problem_answer :: "buffer \<Rightarrow> 'a Engine_scheme \<Rightarrow> buffer list" where
  "problem_answer b e = (if \<not> base_type_is b ACK
     then [write_all LoginProblem
             [(''id'', to_u64 (field BaseMessage ''id'' b + 1000000)), (''problem'', 2)]
             (construct_base LoginProblem LOGIN_PROBLEM True e)]
     else [])"

lemma udp_ack_answer: "udp_ack se b e = Some (e\<lparr>udp_log := udp_log e @ map (Pair se) (ack_answer b e)\<rparr>)"
  by (simp add: udp_ack_def ack_answer_def send_to_def send_bytes_def length_write_all length_construct_base answer_sizes)

lemma login_problem_answer:
  "login_problem se b e = Some (e\<lparr>udp_log := udp_log e @ map (Pair se) (problem_answer b e)\<rparr>)"
  by (simp add: login_problem_def problem_answer_def send_to_def send_bytes_def length_write_all
      length_construct_base answer_sizes)

lemma udp_recive_dispatch:
  assumes "n \<noteq> 0" and "69 \<le> length b" and "\<not> base_type_is b PINGR_EQUEST" and "\<not> base_type_is b LOGIN"
    and "mr = fst (check_msg b n)"
  shows "udp_recive m now se b n e = udp_dispatch m se mr n (e\<lparr>total_time := now,
     udp_log := udp_log e @ map (Pair se) (ack_answer mr (e\<lparr>total_time := now\<rparr>))\<rparr>)"
  using assms by (simp add: udp_recive_def udp_ack_answer case_prod_beta base_type_check_msg Let_def)

section \<open>A small server\<close>

text \<open>A server with one user, 5, whose port 0 has the cookie 77.\<close>

definition small_server :: MainServer where
  "small_server = \<lparr>database = put_user (new_UserData\<lparr>ud_id := 5, ud_port := Some 0\<rparr>) 5 empty_DB,
     user_ports = [0 \<mapsto> idle_port\<lparr>cookie := 77, user_data := Some 5\<rparr>], next_port = 1, messages = Map.empty,
     next_message = 8, id_sequence = 0, resend_jobs = [], db_jobs = [], total_time = 1000,
     rands = (\<lambda>n. 5), rand_pos = 0, junk = (\<lambda>n. 0), udp_log = [], tcp_log = [], udp_memory = None,
     game_count = 10, rooms = [], rooms_lig = [], lvl_exp = [], lvl_gem = [], room_memory = None,
     conn_port = (\<lambda>c. None), sql_log = []\<rparr>"

definition small_message :: "int \<Rightarrow> buffer" where
  "small_message k = write_all MsgHeader
     [(''base_type'', base_code MSG), (''type'', type_code BUG_CHECK_POINT), (''id'', 44), (''user_id'', 5), (''cookie'', k)]
     (replicate 73 0)"

section \<open>Strangers\<close>

text \<open>The sender does not know the cookie of the port of the user it claims to be.\<close>

definition stranger :: "'a Engine_scheme \<Rightarrow> buffer \<Rightarrow> bool" where
  "stranger e b = (case users_with_id e (field BaseMessage ''user_id'' b) of
     None \<Rightarrow> True
   | Some a \<Rightarrow> (case port_at e a of None \<Rightarrow> False | Some p \<Rightarrow> cookie p \<noteq> field BaseMessage ''cookie'' b))"

lemma stranger_dispatch: "stranger e b \<Longrightarrow> udp_dispatch m se b n e = login_problem se b e"
  by (auto simp: stranger_def udp_dispatch_def split: option.splits)

text \<open>C13. A datagram that is no login and no ping and whose cookie is not that of the user it names
  changes nothing but the server's clock: its sender gets an acknowledgement, if it asks for one,
  and the request to log in again, in this order; an acknowledgement is dropped without a word.\<close>

theorem wrong_cookie_rejected:
  assumes "n \<noteq> 0" and "69 \<le> length b" and "\<not> base_type_is b PINGR_EQUEST" and "\<not> base_type_is b LOGIN"
    and "stranger e b"
  shows "\<exists>out. udp_recive m now se b n e
        = Some (e\<lparr>total_time := now, udp_log := udp_log e @ map (Pair se) out\<rparr>)
     \<and> map (\<lambda>d. field BaseMessage ''base_type'' d) out
        = (if base_type_is b ACK then []
           else (if field BaseMessage ''ack_required'' b \<noteq> 0 then [base_code ACK] else []) @ [base_code LOGIN_PROBLEM])"
proof -
  let ?b = "fst (check_msg b n)"
  let ?e = "e\<lparr>total_time := now\<rparr>"
  let ?acks = "ack_answer ?b ?e"
  let ?e1 = "?e\<lparr>udp_log := udp_log e @ map (Pair se) ?acks\<rparr>"
  have "stranger ?e1 ?b" using assms(2,5) 
    by (auto simp: stranger_def users_with_id_def port_at_def field_check_msg split: option.splits)
  then have "udp_recive m now se b n e = login_problem se ?b ?e1"
    using udp_recive_dispatch [OF assms(1-4) refl, of m now se e] stranger_dispatch by simp
  also have "\<dots> = Some (e\<lparr>total_time := now, udp_log := udp_log e @ map (Pair se) (?acks @ problem_answer ?b ?e1)\<rparr>)"
    by (simp add: login_problem_answer)
  finally have "udp_recive m now se b n e = \<dots>" .
  moreover have "map (\<lambda>d. field BaseMessage ''base_type'' d) (?acks @ problem_answer ?b ?e1)
      = (if base_type_is b ACK then []
         else (if field BaseMessage ''ack_required'' b \<noteq> 0 then [base_code ACK] else []) @ [base_code LOGIN_PROBLEM])"
    using assms(2) by (simp add: ack_answer_def problem_answer_def answer_layouts answer_type base_type_check_msg field_check_msg)
  ultimately show ?thesis by blast
qed

lemma small_message_fields:
  "length (small_message 3) = 73" "field BaseMessage ''user_id'' (small_message 3) = 5"
  "field BaseMessage ''cookie'' (small_message 3) = 3" "field BaseMessage ''ack_required'' (small_message 3) = 0"
  "base_type_is (small_message 3) MSG"
  "length (small_message 77) = 73" "field BaseMessage ''user_id'' (small_message 77) = 5"
  "field BaseMessage ''cookie'' (small_message 77) = 77" "field BaseMessage ''id'' (small_message 77) = 44"
  "base_type_is (small_message 77) MSG"
  by code_simp+

lemma small_server_port:
  "users_with_id small_server 5 = Some 0" "port_at small_server 0 = Some (idle_port\<lparr>cookie := 77, user_data := Some 5\<rparr>)"
  "db_ok small_server" "udp_log small_server = []" "sql_log small_server = []"
  by (simp_all add: small_server_def users_with_id_def get_user_data_by_id_def put_user_def empty_DB_def port_at_def
      db_ok_def ordered_def)

lemma base_type_is_other: "base_type_is b t \<Longrightarrow> base_code t \<noteq> base_code u \<Longrightarrow> \<not> base_type_is b u"
  by (simp add: base_type_is_def)

theorem wrong_cookie_rejected_witness:
  "\<exists>d. udp_recive no_trig 2000 9 (small_message 3) 73 small_server
      = Some (small_server\<lparr>total_time := 2000, udp_log := [(9, d)]\<rparr>)
     \<and> field BaseMessage ''base_type'' d = base_code LOGIN_PROBLEM"
proof -
  let ?b = "small_message 3"
  have "stranger small_server ?b" by (simp add: stranger_def small_message_fields small_server_port idle_port_def)
  moreover have "\<not> base_type_is ?b u" if "u \<in> {PINGR_EQUEST, LOGIN, ACK}" for u
    using base_type_is_other [OF small_message_fields(5)] that by auto
  ultimately show ?thesis
    using wrong_cookie_rejected [of 73 ?b small_server no_trig 2000 9]
    by (auto simp: small_message_fields small_server_port)
qed

section \<open>Repeated datagrams\<close>

lemma zip_update_time_memory:
  "zip_update_time i t (put_port s q (e\<lparr>udp_memory := mm\<rparr>))
    = put_port s q (e\<lparr>udp_memory := udp_memory (zip_update_time i t (e\<lparr>udp_memory := mm\<rparr>))\<rparr>)"
  by (rule Engine.equality) (simp_all add: zip_update_time_def put_port_def)

text \<open>What a datagram of a known user with the right cookie runs into.\<close>

lemma udp_dispatch_known:
  assumes "users_with_id e (field BaseMessage ''user_id'' b) = Some s" and "port_at e s = Some p"
    and "cookie p = field BaseMessage ''cookie'' b" and "udp_dispatch m se b n e = Some e'"
  obtains mm where "data_of e p \<noteq> None"
    and "udp_known m s b n (put_port s (p\<lparr>udp_end_point := se, udp_connected := True,
        client_process_id := field BaseMessage ''client_process_id'' b\<rparr>) (e\<lparr>udp_memory := mm\<rparr>)) = Some e'"
proof -
  obtain e1 p1 ud where u: "udp_end_point_set se s e = Some e1" "port_at e1 s = Some p1"
    "data_of (put_port s (p1\<lparr>client_process_id := field BaseMessage ''client_process_id'' b\<rparr>) e1)
       (p1\<lparr>client_process_id := field BaseMessage ''client_process_id'' b\<rparr>) = Some ud \<or>
     data_of (put_port s (p1\<lparr>client_process_id := field BaseMessage ''client_process_id'' b\<rparr>) e1) p1 = Some ud"
    "udp_known m s b n (zip_update_time (ud_id ud) (total_time e1)
       (put_port s (p1\<lparr>client_process_id := field BaseMessage ''client_process_id'' b\<rparr>) e1)) = Some e'"
    using assms by (auto simp: udp_dispatch_def bind_Some_iff Let_def put_port_def)
  obtain m1 where 1: "e1 = put_port s (p\<lparr>udp_end_point := se, udp_connected := True\<rparr>) (e\<lparr>udp_memory := m1\<rparr>)"
    using keeps_end_point(2) [OF u(1) assms(2)] by blast
  have p1: "p1 = p\<lparr>udp_end_point := se, udp_connected := True\<rparr>"
    using u(2) by (simp add: 1 put_port_def port_at_def)
  have "data_of e p \<noteq> None" using u(3) by (auto simp: data_of_def 1 put_port_def p1)
  moreover have "put_port s (p1\<lparr>client_process_id := field BaseMessage ''client_process_id'' b\<rparr>) e1
      = put_port s (p\<lparr>udp_end_point := se, udp_connected := True,
        client_process_id := field BaseMessage ''client_process_id'' b\<rparr>) (e\<lparr>udp_memory := m1\<rparr>)"
    by (simp add: 1 p1 put_port_def)
  ultimately show ?thesis using u(4) that by (simp add: zip_update_time_memory)
qed

text \<open>After a message was taken its id is in the port's ring, and the port is otherwise as before.\<close>

lemma udp_known_marks:
  assumes "udp_known m s b n e = Some e'" and "port_at e s = Some p" and "\<not> base_type_is b ACK"
    and "cookie p \<noteq> - 1" and "10 \<le> length (msg_ids p)" and "db_ok e"
  shows "same_users e e'"
    and "\<exists>p'. port_at e' s = Some p' \<and> user_data p' = user_data p \<and> cookie p' = cookie p
       \<and> udp_end_point p' = udp_end_point p \<and> client_process_id p' = client_process_id p
       \<and> udp_connected p' = udp_connected p
       \<and> msg_ids p' ! nat (field BaseMessage ''id'' b mod 10) = field BaseMessage ''id'' b"
proof -
  let ?i = "field BaseMessage ''id'' b"
  let ?k = "nat (?i mod 10)"
  have k: "?k < length (msg_ids p)" using assms(5) by (simp add: nat_less_iff)
  have "same_users e e' \<and> (\<exists>p'. port_at e' s = Some p' \<and> user_data p' = user_data p \<and> cookie p' = cookie p
       \<and> udp_end_point p' = udp_end_point p \<and> client_process_id p' = client_process_id p
       \<and> udp_connected p' = udp_connected p \<and> msg_ids p' ! ?k = ?i)"
  proof (cases "msg_ids p ! ?k = ?i")
    case True
    then show ?thesis using assms by (auto simp: udp_known_def Let_def same_users_def)
  next
    case False
    let ?p = "p\<lparr>msg_ids := (msg_ids p)[?k := ?i]\<rparr>"
    let ?e = "put_port s ?p e"
    have at: "port_at ?e s = Some ?p" by (simp add: put_port_def port_at_def)
    have stay: "adopt_cookie s ?e = Some ?e" using at assms(4) by (simp add: adopt_cookie_def)
    have "keeps ?e e'"
      using assms(1-3) False at stay
      by (auto simp: udp_known_def Let_def bind_Some_iff dest: keeps_recive_msg split: if_splits)
    moreover have "db_ok ?e" using assms(6) by (simp add: db_ok_def put_port_def)
    ultimately obtain p' where p': "port_at e' s = Some p'" "port_kept ?p p'" "same_users ?e e'"
      using at unfolding keeps_def by blast
    then have "same_users e e'" by (simp add: same_users_def put_port_def)
    then show ?thesis using p' k by (auto simp: port_kept_def)
  qed
  then show "same_users e e'" "\<exists>p'. port_at e' s = Some p' \<and> user_data p' = user_data p \<and> cookie p' = cookie p
       \<and> udp_end_point p' = udp_end_point p \<and> client_process_id p' = client_process_id p
       \<and> udp_connected p' = udp_connected p \<and> msg_ids p' ! ?k = ?i" by blast+
qed

lemma put_port_same: "port_at e s = Some p \<Longrightarrow> put_port s p e = e"
  by (simp add: put_port_def port_at_def fun_upd_idem)

lemma udp_dispatch_again:
  assumes "users_with_id e (field BaseMessage ''user_id'' b) = Some s" and "port_at e s = Some p"
    and "cookie p = field BaseMessage ''cookie'' b" and "udp_end_point p = se" and "udp_connected p"
    and "client_process_id p = field BaseMessage ''client_process_id'' b" and "data_of e p = Some ud"
    and "\<not> base_type_is b ACK" and "msg_ids p ! nat (field BaseMessage ''id'' b mod 10) = field BaseMessage ''id'' b"
  shows "udp_dispatch m se b n e = Some (zip_update_time (ud_id ud) (total_time e) e)"
proof -
  have "p\<lparr>udp_end_point := se, udp_connected := True\<rparr> = p"
    using assms(4,5) by (intro UserPort.equality) simp_all
  then have end_point: "udp_end_point_set se s e = Some e"
    using assms(2,4) by (simp add: udp_end_point_set_def put_port_same)
  have "p\<lparr>client_process_id := field BaseMessage ''client_process_id'' b\<rparr> = p"
    using assms(6) by (intro UserPort.equality) simp_all
  then have "udp_dispatch m se b n e = udp_known m s b n (zip_update_time (ud_id ud) (total_time e) e)"
    using assms(1-3,7) end_point by (simp add: udp_dispatch_def Let_def put_port_same)
  moreover have "port_at (zip_update_time i t e) s = Some p" for i t
    using assms(2) by (simp add: zip_update_time_def port_at_def)
  ultimately show ?thesis using assms(8,9) by (simp add: udp_known_def Let_def)
qed

text \<open>C7. A message whose id the server has just taken from a user is not handled again: receiving
  the same datagram from the same address a second time leaves everything as it is
  but for the clock, the shared map of endpoints and one more acknowledgement if the sender asks
  for it.\<close>

theorem datagram_handled_once:
  assumes "udp_recive m now se b n e = Some e1" and "n \<noteq> 0" and "69 \<le> length b"
    and "\<not> base_type_is b PINGR_EQUEST" and "\<not> base_type_is b LOGIN" and "\<not> base_type_is b ACK"
    and "users_with_id e (field BaseMessage ''user_id'' b) = Some s" and "port_at e s = Some p"
    and "cookie p = field BaseMessage ''cookie'' b" and "cookie p \<noteq> - 1"
    and "10 \<le> length (msg_ids p)" and "db_ok e"
  shows "\<exists>acks mm. udp_recive m now' se b n e1
       = Some (e1\<lparr>total_time := now', udp_memory := mm, udp_log := udp_log e1 @ map (Pair se) acks\<rparr>)
     \<and> length acks = (if field BaseMessage ''ack_required'' b \<noteq> 0 then 1 else 0)"
proof -
  let ?b = "fst (check_msg b n)"
  let ?e = "e\<lparr>total_time := now, udp_log := udp_log e @ map (Pair se) (ack_answer ?b (e\<lparr>total_time := now\<rparr>))\<rparr>"
  note b = field_check_msg [OF assms(3)] base_type_check_msg [OF assms(3)]
  note recive = udp_recive_dispatch [OF assms(2-5) refl]
  have "udp_dispatch m se ?b n ?e = Some e1" using assms(1) by (simp add: recive)
  then obtain mm where 1: "data_of ?e p \<noteq> None"
    "udp_known m s ?b n (put_port s (p\<lparr>udp_end_point := se, udp_connected := True,
        client_process_id := field BaseMessage ''client_process_id'' ?b\<rparr>) (?e\<lparr>udp_memory := mm\<rparr>)) = Some e1"
    using udp_dispatch_known [of ?e ?b s p m se n e1] assms(7-9) by (auto simp: b users_with_id_def port_at_def)
  let ?e2 = "put_port s (p\<lparr>udp_end_point := se, udp_connected := True,
        client_process_id := field BaseMessage ''client_process_id'' ?b\<rparr>) (?e\<lparr>udp_memory := mm\<rparr>)"
  have e2: "port_at ?e2 s = Some (p\<lparr>udp_end_point := se, udp_connected := True,
        client_process_id := field BaseMessage ''client_process_id'' ?b\<rparr>)"
    "db_ok ?e2" "\<not> base_type_is ?b ACK" using assms(12,6) by (simp_all add: put_port_def port_at_def db_ok_def b)
  note marks = udp_known_marks [OF 1(2) e2(1,3) _ _ e2(2)]
  have same: "same_users e e1" using marks(1) assms(10,11) by (simp add: same_users_def put_port_def)
  obtain q where q: "port_at e1 s = Some q" "user_data q = user_data p" "cookie q = cookie p"
    "udp_end_point q = se" "client_process_id q = field BaseMessage ''client_process_id'' ?b" "udp_connected q"
    "msg_ids q ! nat (field BaseMessage ''id'' ?b mod 10) = field BaseMessage ''id'' ?b"
    using marks(2) assms(10,11) by auto
  let ?e1 = "e1\<lparr>total_time := now', udp_log := udp_log e1 @ map (Pair se) (ack_answer ?b (e1\<lparr>total_time := now'\<rparr>))\<rparr>"
  obtain u where u: "user_data p = Some u" "get_user_data_by_id (database e) u \<noteq> None"
    using 1(1) by (auto simp: data_of_def bind_Some_iff)
  then have "get_user_data_by_id (database e1) u \<noteq> None" using same [unfolded same_users_def, rule_format, of u] by auto
  then obtain ud where ud: "data_of ?e1 q = Some ud" using q(2) u(1) by (auto simp: data_of_def)
  have "users_with_id ?e1 (field BaseMessage ''user_id'' ?b) = Some s"
    using same_users_registry [OF same] assms(7) by (simp add: b users_with_id_def)
  moreover have "port_at ?e1 s = Some q" using q(1) by (simp add: port_at_def)
  moreover have "cookie q = field BaseMessage ''cookie'' ?b" using q(3) assms(9) by (simp add: b)
  ultimately have "udp_dispatch m se ?b n ?e1 = Some (zip_update_time (ud_id ud) (total_time ?e1) ?e1)"
    using q(4-7) ud e2(3) by (intro udp_dispatch_again)
  then have "udp_recive m now' se b n e1 = Some (e1\<lparr>total_time := now',
      udp_memory := udp_memory (zip_update_time (ud_id ud) now' ?e1),
      udp_log := udp_log e1 @ map (Pair se) (ack_answer ?b (e1\<lparr>total_time := now'\<rparr>))\<rparr>)"
    by (simp add: recive zip_update_time_def)
  moreover have "length (ack_answer ?b (e1\<lparr>total_time := now'\<rparr>)) = (if field BaseMessage ''ack_required'' b \<noteq> 0 then 1 else 0)"
    using e2(3) by (simp add: ack_answer_def b)
  ultimately show ?thesis by blast
qed

lemma small_message_known:
  "fst (check_msg (small_message 77) 73) = small_message 77" "field MsgHeader ''type'' (small_message 77) = type_code BUG_CHECK_POINT"
  "field BaseMessage ''ack_required'' (small_message 77) = 0" "msg_ids idle_port = replicate 16 0"
  "\<forall>t \<in> {MATCH_REQUEST, PROFILE_REQUEST, GAMEACTION_CLIENT_SEND, CHANGE_DISPLAY_NAME_REQUEST, TOP_HUNDERD_SCORE_REQUEST,
     HUNDERD_STATE_REQUEST, ROOM_EVENT_ACK, ROOM_STATE_REQUST}. type_code BUG_CHECK_POINT \<noteq> type_code t"
  by code_simp+

lemma small_message_taken:
  "\<exists>e1. udp_recive no_trig 2000 9 (small_message 77) 73 small_server = Some e1 \<and> length (sql_log e1) = 1"
proof -
  let ?b = "small_message 77"
  have not: "\<not> base_type_is ?b u" if "u \<in> {PINGR_EQUEST, LOGIN, ACK}" for u
    using base_type_is_other [OF small_message_fields(10)] that by auto
  have "ack_answer ?b e = []" for e :: MainServer using small_message_known(3) by (simp add: ack_answer_def)
  moreover have "small_server\<lparr>total_time := 2000, udp_log := udp_log small_server\<rparr> = small_server\<lparr>total_time := 2000\<rparr>"
    by (simp add: small_server_def)
  ultimately have recive: "udp_recive no_trig 2000 9 ?b 73 small_server = udp_dispatch no_trig 9 ?b 73 (small_server\<lparr>total_time := 2000\<rparr>)"
    using udp_recive_dispatch [OF _ _ not not small_message_known(1) [symmetric], where e = small_server]
    by (simp add: small_message_fields)
  let ?ud = "new_UserData\<lparr>ud_id := 5, ud_port := Some 0\<rparr>"
  have data: "get_user_data_by_id (database small_server) 5 = Some ?ud"
    by (simp add: small_server_def get_user_data_by_id_def put_user_def empty_DB_def)
  have known: "users_with_id (small_server\<lparr>total_time := 2000\<rparr>) 5 = Some 0"
    using small_server_port(1) by (simp add: users_with_id_def)
  show ?thesis unfolding recive
    using small_message_known(4,5) small_server_port(2) idle_fields(4) not
    by (simp add: udp_dispatch_def small_message_fields known small_server_port(5) port_at_def udp_end_point_set_def data_of_def data get_zip_def
        zip_update_def zip_update_time_def put_port_def udp_known_def Let_def adopt_cookie_def recive_msg_def on_type_def
        small_message_known(2) MsgHeader_check_def BaseMessage_check_def buge_repoart_def)
qed

theorem datagram_handled_once_witness:
  "\<exists>e1 mm. udp_recive no_trig 2000 9 (small_message 77) 73 small_server = Some e1 \<and> length (sql_log e1) = 1
     \<and> udp_recive no_trig 2005 9 (small_message 77) 73 e1 = Some (e1\<lparr>total_time := 2005, udp_memory := mm\<rparr>)"
proof -
  let ?b = "small_message 77"
  obtain e1 where e1: "udp_recive no_trig 2000 9 ?b 73 small_server = Some e1" "length (sql_log e1) = 1"
    using small_message_taken by blast
  have not: "\<not> base_type_is ?b u" if "u \<in> {PINGR_EQUEST, LOGIN, ACK}" for u
    using base_type_is_other [OF small_message_fields(10)] that by auto
  obtain acks mm where "udp_recive no_trig 2005 9 ?b 73 e1
      = Some (e1\<lparr>total_time := 2005, udp_memory := mm, udp_log := udp_log e1 @ map (Pair 9) acks\<rparr>)" "acks = []"
    using datagram_handled_once [OF e1(1) _ _ not not not _ small_server_port(2), of 2005]
    by (auto simp: small_message_fields small_server_port small_message_known)
  then have "udp_recive no_trig 2005 9 ?b 73 e1 = Some (e1\<lparr>total_time := 2005, udp_memory := mm\<rparr>)" by simp
  then show ?thesis using e1 by blast
qed

section \<open>Registration\<close>

lemma udp_dispatch_enters:
  assumes "users_with_id e (field BaseMessage ''user_id'' b) = Some s" and "port_at e s = Some p"
    and "cookie p = field BaseMessage ''cookie'' b" and "data_of e p = Some ud"
  obtains mm where "udp_dispatch m se b n e = udp_known m s b n (put_port s (p\<lparr>udp_end_point := se, udp_connected := True,
        client_process_id := field BaseMessage ''client_process_id'' b\<rparr>) (e\<lparr>udp_memory := mm\<rparr>))"
proof -
  let ?p = "p\<lparr>udp_end_point := se, udp_connected := True\<rparr>"
  let ?q = "?p\<lparr>client_process_id := field BaseMessage ''client_process_id'' b\<rparr>"
  obtain m1 where 1: "udp_end_point_set se s e = Some (put_port s ?p (e\<lparr>udp_memory := m1\<rparr>))"
  proof (cases "udp_end_point p = se")
    case True
    then show ?thesis using assms(2) that [of "udp_memory e"] by (simp add: udp_end_point_set_def)
  next
    case False
    then show ?thesis using assms(2,4) that by (auto simp: udp_end_point_set_def get_zip_def zip_update_def)
  qed
  have at: "port_at (put_port s ?p (e\<lparr>udp_memory := m1\<rparr>)) s = Some ?p" by (simp add: put_port_def port_at_def)
  have data: "data_of (put_port s ?q (put_port s ?p (e\<lparr>udp_memory := m1\<rparr>))) ?q = Some ud"
    "put_port s ?q (put_port s ?p (e\<lparr>udp_memory := m1\<rparr>)) = put_port s ?q (e\<lparr>udp_memory := m1\<rparr>)"
    using assms(4) by (simp_all add: data_of_def put_port_def)
  have "udp_dispatch m se b n e = udp_known m s b n (zip_update_time (ud_id ud)
      (total_time (put_port s ?q (e\<lparr>udp_memory := m1\<rparr>))) (put_port s ?q (e\<lparr>udp_memory := m1\<rparr>)))"
    using assms(1-4) data by (auto simp: udp_dispatch_def 1 at Let_def put_port_def port_at_def data_of_def bind_Some_iff)
  then show ?thesis using that by (simp add: zip_update_time_memory)
qed

lemma registered_port:
  assumes "RegisterJob_do_job ins tcp e = Some (e1, r)" and "ordered (users (database e))"
  obtains a p ud where "users_with_id e1 (rr_userId r) = Some a" and "port_at e1 a = Some p" and "cookie p = 0"
    and "user_data p = Some (rr_userId r)" and "data_of e1 p = Some ud"
proof -
  let ?g = "get_random_long_long e"
  let ?e = "fst ?g"
  have e: "database ?e = database e" by (simp add: get_random_long_long_def rand_def Let_def)
  obtain d where d: "register_user (snd ?g) ins (database ?e) = Some (d, r)"
    using assms(1) by (auto simp: RegisterJob_do_job_def bind_Some_iff Let_def case_prod_beta split: if_splits)
  then have ok: "rr_done r" by (auto simp: register_user_def bind_Some_iff Let_def)
  obtain u k where u: "d = put_user u (rr_userId r) ((database e)\<lparr>max_user_id := k\<rparr>)"
    using d by (auto simp: register_user_def bind_Some_iff Let_def e)
  let ?c = "create_port (?e\<lparr>database := d\<rparr>)"
  obtain p where p: "port_at (fst ?c) (snd ?c) = Some p" by (simp add: create_port_def port_at_def)
  let ?p = "p\<lparr>tcp_connection := tcp, cookie := 0, user_data := Some (rr_userId r)\<rparr>"
  have e1: "e1 = users_with_id_push (rr_userId r) (Some (snd ?c)) (put_port (snd ?c) ?p (fst ?c))"
    using assms(1) d ok p by (simp add: RegisterJob_do_job_def Let_def case_prod_beta)
  have db: "database (put_port (snd ?c) ?p (fst ?c)) = d" by (simp add: put_port_def create_port_def)
  have found: "find_key (users d) (rr_userId r) = Some u" and "ordered (users d)"
    using assms(2) by (simp_all add: u put_user_def find_key_set_key ordered_set_key)
  then have "users_with_id e1 (rr_userId r) = Some (snd ?c)"
    unfolding e1 using db by (simp add: ports.look_bind)
  moreover have "port_at e1 (snd ?c) = Some ?p"
    by (simp add: e1 users_with_id_push_def put_port_def port_at_def split: option.split)
  moreover have "get_user_data_by_id (database e1) (rr_userId r) = Some (u\<lparr>ud_port := Some (snd ?c)\<rparr>)"
    using found \<open>ordered (users d)\<close> by (simp add: e1 push_database db put_user_def get_user_data_by_id_def find_key_set_key)
  ultimately show ?thesis using that by (simp add: data_of_def)
qed

text \<open>C23. A registration leaves the new user's port with the cookie zero, as the response it is
  copied from never gets one: until the user logs in, anybody who sends an acknowledgement with
  the user's id and the cookie zero becomes the address the server sends the user's messages
  to.\<close>

theorem registered_user_hijacked:
  assumes "RegisterJob_do_job ins tcp e = Some (e1, r)" and "ordered (users (database e))"
    and "n \<noteq> 0" and "69 \<le> length b" and "base_type_is b ACK"
    and "field BaseMessage ''user_id'' b = rr_userId r" and "field BaseMessage ''cookie'' b = 0"
  shows "\<exists>a e2 p2. udp_recive m now se b n e1 = Some e2 \<and> users_with_id e2 (rr_userId r) = Some a
     \<and> port_at e2 a = Some p2 \<and> udp_end_point p2 = se \<and> user_data p2 = Some (rr_userId r)"
proof -
  obtain a p ud where a: "users_with_id e1 (rr_userId r) = Some a" "port_at e1 a = Some p" "cookie p = 0"
    "user_data p = Some (rr_userId r)" "data_of e1 p = Some ud"
    using registered_port [OF assms(1,2)] by metis
  let ?b = "fst (check_msg b n)"
  let ?e = "e1\<lparr>total_time := now, udp_log := udp_log e1 @ map (Pair se) (ack_answer ?b (e1\<lparr>total_time := now\<rparr>))\<rparr>"
  note b = field_check_msg [OF assms(4)] base_type_check_msg [OF assms(4)]
  have not: "\<not> base_type_is b PINGR_EQUEST" "\<not> base_type_is b LOGIN"
    using base_type_is_other [OF assms(5)] by auto
  have "users_with_id ?e (field BaseMessage ''user_id'' ?b) = Some a" "port_at ?e a = Some p"
    "cookie p = field BaseMessage ''cookie'' ?b" "data_of ?e p = Some ud"
    using a assms(6,7) by (simp_all add: b users_with_id_def port_at_def data_of_def)
  then obtain mm where "udp_dispatch m se ?b n ?e = udp_known m a ?b n (put_port a (p\<lparr>udp_end_point := se,
      udp_connected := True, client_process_id := field BaseMessage ''client_process_id'' ?b\<rparr>) (?e\<lparr>udp_memory := mm\<rparr>))"
    by (rule udp_dispatch_enters)
  then show ?thesis using a(1,4) assms(5)
    by (simp add: udp_recive_dispatch [OF assms(3,4) not refl] udp_known_def b put_port_def port_at_def
        remove_from_out_box_def users_with_id_def)
qed

definition small_ack :: buffer where
  "small_ack = write_all BaseMessage [(''base_type'', base_code ACK), (''user_id'', 7)] (replicate 69 0)"

lemma small_ack_fields: "length small_ack = 69" "base_type_is small_ack ACK"
  "field BaseMessage ''user_id'' small_ack = 7" "field BaseMessage ''cookie'' small_ack = 0"
  by code_simp+

theorem registered_user_hijacked_witness:
  "\<exists>e1 r a e2 p2. RegisterJob_do_job (Some 7) None small_server = Some (e1, r)
     \<and> udp_recive no_trig 2000 99 small_ack 69 e1 = Some e2 \<and> users_with_id e2 7 = Some a
     \<and> port_at e2 a = Some p2 \<and> udp_end_point p2 = 99 \<and> user_data p2 = Some 7"
proof -
  let ?g = "get_random_long_long small_server"
  have "database (fst ?g) = database small_server" by (simp add: get_random_long_long_def rand_def Let_def)
  moreover have "in_i32 (max_user_id (database small_server))" "ordered (users (database small_server))"
    by (simp_all add: small_server_def put_user_def empty_DB_def in_i32_def ordered_def)
  ultimately obtain d r where d: "register_user (snd ?g) (Some 7) (database (fst ?g)) = Some (d, r)" "rr_userId r = 7"
    using register_user_total [of "database small_server" "snd ?g" "Some 7"] by auto
  let ?c = "create_port (fst ?g\<lparr>database := d\<rparr>)"
  obtain p where p: "port_at (fst ?c) (snd ?c) = Some p" by (simp add: create_port_def port_at_def)
  obtain e1 where e1: "RegisterJob_do_job (Some 7) None small_server = Some (e1, r)"
  proof (cases "rr_done r")
    case True
    then show ?thesis using that d(1) p by (simp add: RegisterJob_do_job_def Let_def case_prod_beta)
  next
    case False
    then show ?thesis using that d(1) p by (simp add: RegisterJob_do_job_def Let_def case_prod_beta)
  qed
  show ?thesis
    using registered_user_hijacked [OF e1 \<open>ordered (users (database small_server))\<close> _ _ small_ack_fields(2), of 69 no_trig 2000 99]
      e1 d(2) by (auto simp: small_ack_fields)
qed

end
