(* ===== verification/Lobby.thy ===== *)
theory Lobby
  imports Protocol
begin

text \<open>
  Joining a room: the map of rooms and the lists of the leagues, what holds of them, and that
  \<open>MainServer::match_request\<close> always puts the user into a room of the league asked for.
\<close>

section \<open>Sending touches only the network side\<close>

text \<open>Everything the derived server adds to the engine is kept, and so is the size of the out-boxes.\<close>

definition sends :: "'a Engine_scheme \<Rightarrow> 'a Engine_scheme \<Rightarrow> bool" where
  "sends e e' \<longleftrightarrow> Engine.more e' = Engine.more e
     \<and> (\<forall>a p. port_at e a = Some p \<longrightarrow> (\<exists>p'. port_at e' a = Some p' \<and> length (out_box p') = length (out_box p)))"

lemma sends_refl [simp]: "sends e e"
  by (simp add: sends_def)

lemma sends_trans: "sends x y \<Longrightarrow> sends y u \<Longrightarrow> sends x u"
  by (auto simp: sends_def) metis

lemma sends_same: "Engine.more e' = Engine.more e \<Longrightarrow> user_ports e' = user_ports e \<Longrightarrow> sends e e'"
  by (simp add: sends_def port_at_def)

lemma sends_put_port:
  "port_at e a = Some p \<Longrightarrow> length (out_box q) = length (out_box p) \<Longrightarrow> sends e (put_port a q e)"
  by (auto simp: sends_def port_at_def put_port_def)

lemma sends_port: "sends e e' \<Longrightarrow> port_at e a = Some p \<Longrightarrow>
    (\<And>p'. port_at e' a = Some p' \<Longrightarrow> length (out_box p') = length (out_box p) \<Longrightarrow> thesis) \<Longrightarrow> thesis"
  by (auto simp: sends_def)

lemma generate_total:
  assumes "port_at e a = Some p"
  obtains e' i where "generate_msg_id a e = Some (e', i)" and "sends e e'" and "messages e' = messages e"
proof -
  let ?e = "put_port a (p\<lparr>last_msg_id := next_msg_id (last_msg_id p)\<rparr>) e"
  have "sends e ?e" using assms by (intro sends_put_port) simp_all
  then have "sends e (?e\<lparr>rand_pos := rand_pos ?e + 1\<rparr>)" by (auto simp: sends_def port_at_def)
  then show ?thesis using that assms by (simp add: generate_msg_id_def rand_def Let_def put_port_def)
qed

lemma assign_total:
  assumes "port_at e a = Some p" and "69 \<le> length b"
  obtains e' b' where "assign_id a b e = Some (e', b')" and "sends e e'" and "messages e' = messages e"
    and "length b' = length b"
proof (cases "field BaseMessage ''id'' b = 0")
  case True
  obtain e' i where "generate_msg_id a e = Some (e', i)" "sends e e'" "messages e' = messages e"
    using generate_total [OF assms(1)] .
  then show ?thesis using True that [of e' "put_field BaseMessage ''id'' i b"] assms(2)
    by (simp add: assign_id_def length_put_field BaseMessage_size)
next
  case False
  then show ?thesis using that [of e b] by (simp add: assign_id_def)
qed

lemma send_stored_total:
  assumes "port_at e a = Some p" and "messages e m = Some b" and "69 \<le> length b" and "n \<le> length b"
  obtains e' b' where "send_stored a m n e = Some e'" and "sends e e'" and "messages e' m = Some b'"
proof -
  obtain e1 b1 where 1: "assign_id a b e = Some (e1, b1)" "sends e e1" "length b1 = length b"
    using assign_total [OF assms(1,3)] by metis
  obtain p1 where p1: "port_at e1 a = Some p1" using sends_port [OF 1(2) assms(1)] .
  let ?e2 = "e1\<lparr>udp_log := udp_log e1 @ [(udp_end_point p1, take n b1)]\<rparr>"
  have "send_stored a m n e = Some (?e2\<lparr>messages := (messages ?e2)(m \<mapsto> b1)\<rparr>)"
    using assms 1 p1 by (simp add: send_stored_def udp_send_def send_bytes_def)
  moreover have "sends e (?e2\<lparr>messages := (messages ?e2)(m \<mapsto> b1)\<rparr>)"
    by (rule sends_trans [OF 1(2)]) (simp add: sends_same)
  ultimately show ?thesis using that by simp
qed

lemma send_with_ack_total:
  assumes "port_at e a = Some p" and "length (out_box p) = out_box_size"
    and "messages e m = Some b" and "69 \<le> length b" and "n \<le> length b"
  obtains e' where "send_with_ack a m n k e = Some e'" and "sends e e'"
proof -
  obtain e1 b1 where 1: "assign_id a b e = Some (e1, b1)" "sends e e1" "length b1 = length b"
    using assign_total [OF assms(1,4)] by metis
  let ?b = "put_field BaseMessage ''ack_required'' 1 b1"
  let ?e1 = "e1\<lparr>messages := (messages e1)(m \<mapsto> ?b)\<rparr>"
  have s1: "sends e ?e1" by (rule sends_trans [OF 1(2)]) (simp add: sends_same)
  obtain p1 where p1: "port_at ?e1 a = Some p1" "length (out_box p1) = out_box_size"
    using sends_port [OF s1 assms(1)] assms(2) by metis
  have "length ?b = length b" using 1(3) assms(4) by (simp add: length_put_field BaseMessage_size)
  then have b: "messages ?e1 m = Some ?b" "69 \<le> length ?b" "n \<le> length ?b" using assms(4,5) by simp_all
  obtain e2 b2 where 2: "send_stored a m n ?e1 = Some e2" "sends ?e1 e2" "messages e2 m = Some b2"
    by (rule send_stored_total [OF p1(1) b])
  have s2: "sends e e2" using s1 2(2) by (rule sends_trans)
  obtain p2 where p2: "port_at e2 a = Some p2" "length (out_box p2) = out_box_size"
    using sends_port [OF 2(2) p1(1)] p1(2) by metis
  obtain p3 i where r: "get_reserved p2 = (p3, i)" by (cases "get_reserved p2")
  note slot = get_reserved_slot [OF r p2(2)]
  have len: "length (out_box p3) = out_box_size" "i < out_box_size" using slot p2(2) by simp_all
  let ?e3 = "put_port a p3 e2"
  have s3: "sends e ?e3" by (rule sends_trans [OF s2 sends_put_port [OF p2(1)]]) (simp add: len p2)
  let ?h = "(out_box p3 ! i)\<lparr>job_id := id_sequence e2, h_msg := Some m, h_port := Some a,
      msg_id := field BaseMessage ''id'' b2, is_canceled := False,
      job_time := total_time e2 + 200, try_counter := 1, max_try_counter := k\<rparr>"
  let ?e4 = "put_port a (p3\<lparr>out_box := (out_box p3)[i := ?h]\<rparr>) (?e3\<lparr>id_sequence := id_sequence e2 + 1\<rparr>)"
  have "sends (?e3\<lparr>id_sequence := id_sequence e2 + 1\<rparr>) ?e4"
    by (rule sends_put_port [where p = p3]) (simp_all add: put_port_def port_at_def)
  moreover have "sends ?e3 (?e3\<lparr>id_sequence := id_sequence e2 + 1\<rparr>)" "sends ?e4 (?e4\<lparr>resend_jobs := js\<rparr>)" for js
    by (simp_all add: sends_same)
  ultimately have "sends e (?e4\<lparr>resend_jobs := js\<rparr>)" for js using s3 sends_trans by meson
  moreover have "\<exists>js. send_with_ack a m n k e = Some (?e4\<lparr>resend_jobs := js\<rparr>)"
    using assms(3) 1(1) 2 p2(1) r len
    by (intro exI [of _ "spq_push (resend_jobs e2) \<lparr>job_port = a, job_slot = i,
        ptr_id = to_i32 (id_sequence e2), ptr_time = total_time e2 + 200\<rparr>"])
      (simp add: send_with_ack_def job_at_def port_at_def put_port_def slot_init_def put_slot_def
        push_send_lost_packet_job_def)
  ultimately show ?thesis using that by blast
qed

lemma send_new_total:
  assumes "port_at e a = Some p" and "length (out_box p) = out_box_size"
    and "69 \<le> length b" and "length b = struct_size l"
  obtains e' where "send_new (Some a) l b e = Some e'" and "sends e e'"
proof -
  let ?e = "fst (new_message b e)"
  have e: "port_at ?e a = Some p" "messages ?e (snd (new_message b e)) = Some b" "sends e ?e"
    using assms(1) by (simp_all add: new_message_def port_at_def sends_same)
  obtain e' where e': "send_with_ack a (snd (new_message b e)) (struct_size l) 4 ?e = Some e'" "sends ?e e'"
    using send_with_ack_total [OF e(1) assms(2) e(2) assms(3)] assms(4) by (metis order_refl)
  then have "send_new (Some a) l b e = Some e'"
    by (simp add: send_new_def udp_send_and_push_out_box_to_handle_ACK_def case_prod_beta)
  then show ?thesis using that sends_trans [OF e(3) e'(2)] by simp
qed

section \<open>The invariant of the rooms\<close>

definition league :: "'a MainServer_scheme \<Rightarrow> int \<Rightarrow> int list" where
  "league e lig = snd (index_key [] (rooms_lig e) lig)"

definition live_room :: "'a MainServer_scheme \<Rightarrow> int \<Rightarrow> Room option" where
  "live_room e i = (case find_key (rooms e) i of Some (Some r) \<Rightarrow> Some r | _ \<Rightarrow> None)"

text \<open>
  A room is stored under its own id, which is below the next one, and it is in the list of its
  league and of no other.
\<close>

definition lobby_ok :: "'a MainServer_scheme \<Rightarrow> bool" where
  "lobby_ok e \<longleftrightarrow> ordered (rooms e) \<and> ordered (rooms_lig e)
     \<and> (\<forall>lig. \<forall>i \<in> set (league e lig). i < game_count e)
     \<and> (\<forall>i r. live_room e i = Some r \<longrightarrow> room_id r = i \<and> i < game_count e \<and> core_ok (game_core r)
          \<and> ordered (room_users r) \<and> (\<forall>lig. i \<in> set (league e lig) \<longleftrightarrow> room_lig_id r = lig))"

lemma open_room_Some: "open_room (rooms e) is = Some i \<Longrightarrow> i \<in> set is \<and> live_room e i \<noteq> None"
  by (induction "is" rule: rev_induct)
    (auto simp: open_room_def live_room_def split: option.splits if_splits)

lemma open_room_None: "open_room (rooms e) is = None \<longleftrightarrow> (\<forall>i \<in> set is. live_room e i = None)"
  by (induction "is" rule: rev_induct)
    (auto simp: open_room_def live_room_def split: option.splits if_splits)

text \<open>What the handler leaves alone is kept by everything that only sends.\<close>

lemma sends_lobby:
  assumes "sends e e'"
  shows "rooms e' = rooms e" "rooms_lig e' = rooms_lig e" "game_count e' = game_count e"
proof -
  have "Engine.more e' = Engine.more e" using assms by (simp add: sends_def)
  then show "rooms e' = rooms e" "rooms_lig e' = rooms_lig e" "game_count e' = game_count e"
    by (cases e; cases e'; simp)+
qed

lemma sends_randoms: "sends e (fst (random_points k e))"
proof (induction k arbitrary: e)
  case (Suc k)
  have "sends e (fst (random_point e))" by (rule sends_same) (simp_all add: random_point_def rand_def Let_def)
  then show ?case using sends_trans [OF _ Suc.IH] by (simp add: Let_def case_prod_beta)
qed simp

lemma sends_room_create: "room_create m e = Some (r, e') \<Longrightarrow> sends e e'"
proof -
  assume "room_create m e = Some (r, e')"
  then obtain c c' where "for_each add_bot [0, 1, 2, 3, 4, 5, 6, 7, 8, 9] (c, e) = Some (c', e')"
    by (auto simp: room_create_def room_init_def bind_Some_iff Let_def simp del: for_each.simps)
  then have "sends e (snd (c', e'))"
  proof (rule for_each_invariant [where P = "\<lambda>s. sends e (snd s)"])
    fix i s s' assume "add_bot i s = Some s'" and s: "sends e (snd s)"
    then have "snd s' = fst (random_points 10 (snd s))"
      by (auto simp: add_bot_def bind_Some_iff Let_def case_prod_beta)
    then show "sends e (snd s')" using sends_trans [OF s sends_randoms] by simp
  qed simp
  then show ?thesis by simp
qed

section \<open>Creating and joining\<close>

lemma lobby_okD:
  assumes "lobby_ok e"
  shows "ordered (rooms e)" "ordered (rooms_lig e)"
    and "i \<in> set (league e lig) \<Longrightarrow> i < game_count e"
    and "live_room e i = Some r \<Longrightarrow> room_id r = i" "live_room e i = Some r \<Longrightarrow> i < game_count e"
    and "live_room e i = Some r \<Longrightarrow> core_ok (game_core r)" "live_room e i = Some r \<Longrightarrow> ordered (room_users r)"
    and "live_room e i = Some r \<Longrightarrow> (i \<in> set (league e lig)) = (room_lig_id r = lig)"
  using assms by (auto simp: lobby_ok_def)

lemma lobby_ok_same:
  assumes "lobby_ok e" and "rooms e' = rooms e" and "rooms_lig e' = rooms_lig e" and "game_count e' = game_count e"
  shows "lobby_ok e'"
  using assms by (simp add: lobby_ok_def live_room_def league_def)

text \<open>Looking up a league adds an empty list for it, which changes nothing else.\<close>

lemma league_looked_up:
  assumes "lobby_ok e"
  shows "lobby_ok (e\<lparr>rooms_lig := fst (index_key [] (rooms_lig e) lig)\<rparr>)"
    and "league (e\<lparr>rooms_lig := fst (index_key [] (rooms_lig e) lig)\<rparr>) l = league e l"
proof -
  note o = lobby_okD(2) [OF assms]
  show l: "league (e\<lparr>rooms_lig := fst (index_key [] (rooms_lig e) lig)\<rparr>) l = league e l" for l
    using index_key_lookup [OF o, of "[]" lig] index_key_lookup(1) [OF o, of "[]" l]
      index_key_lookup(1) [OF ordered_index_key [OF o], of "[]" "[]" lig l]
    by (simp add: league_def split: option.splits)
  show "lobby_ok (e\<lparr>rooms_lig := fst (index_key [] (rooms_lig e) lig)\<rparr>)"
    using assms o unfolding lobby_ok_def l by (simp add: live_room_def)
qed

lemma live_room_put:
  assumes "ordered (rooms e)"
  shows "live_room (put_room i r e) j = (if j = i then Some r else live_room e j)"
  using assms by (simp add: live_room_def put_room_def find_key_set_key)

lemma lobby_ok_put:
  assumes "lobby_ok e" and "live_room e i = Some r0" and "room_id r = i" and "core_ok (game_core r)"
    and "ordered (room_users r)" and "room_lig_id r = room_lig_id r0"
  shows "lobby_ok (put_room i r e)"
  unfolding lobby_ok_def live_room_put [OF lobby_okD(1) [OF assms(1)]]
  using assms lobby_okD [OF assms(1)]
  by (auto simp: put_room_def league_def ordered_set_key split: if_splits)

lemma create_room_ok:
  assumes "lobby_ok e"
  obtains e' r where "create_room m lig e = Some (e', game_count e)" and "lobby_ok e'"
    and "live_room e' (game_count e) = Some r" and "room_users r = []" and "room_lig_id r = lig"
    and "\<And>j. j \<noteq> game_count e \<Longrightarrow> live_room e' j = live_room e j" and "game_count e' = game_count e + 1"
    and "\<And>a p. port_at e a = Some p \<Longrightarrow> \<exists>p'. port_at e' a = Some p' \<and> length (out_box p') = length (out_box p)"
proof -
  obtain r1 e1 where r1: "room_create m e = Some (r1, e1)" "core_ok (game_core r1)" "room_users r1 = []"
    using room_create_total [of m e] by blast
  let ?g = "get_random_long_long e1"
  let ?e2 = "fst ?g" and ?i = "game_count e"
  have "sends e1 ?e2" by (rule sends_same) (simp_all add: get_random_long_long_def rand_def Let_def)
  then have s: "sends e ?e2" by (rule sends_trans [OF sends_room_create [OF r1(1)]])
  note same = sends_lobby [OF s]
  let ?r = "r1\<lparr>room_code := snd ?g, room_id := ?i, room_lig_id := lig\<rparr>"
  let ?ids = "index_key [] (rooms_lig ?e2) lig"
  let ?e3 = "put_room ?i ?r (?e2\<lparr>game_count := ?i + 1\<rparr>)"
  let ?e4 = "?e3\<lparr>rooms_lig := set_key lig (snd ?ids @ [?i]) (fst ?ids)\<rparr>"
  have c: "create_room m lig e = Some (?e4, ?i)"
    using r1(1) same by (simp add: create_room_def Let_def case_prod_beta put_room_def)
  note o = lobby_okD [OF assms]
  have live: "live_room ?e4 j = (if j = ?i then Some ?r else live_room e j)" for j
    using o(1) same by (simp add: live_room_def put_room_def find_key_set_key)
  have league: "league ?e4 l = (if l = lig then league e lig @ [?i] else league e l)" for l
    using o(2) same index_key_lookup [OF o(2), of "[]"] index_key_lookup(1) [OF ordered_set_key [OF ordered_index_key [OF o(2)]]]
    by (simp add: league_def put_room_def find_key_set_key split: option.split)
  have "lobby_ok ?e4" unfolding lobby_ok_def live league
    using o same r1 by (auto simp: put_room_def ordered_set_key split: if_splits dest: o(3) o(5) intro: less_trans)
  moreover have "\<exists>p'. port_at ?e4 a = Some p' \<and> length (out_box p') = length (out_box p)" if "port_at e a = Some p" for a p
    using s that by (auto simp: sends_def port_at_def put_room_def)
  moreover have "game_count ?e4 = ?i + 1" by (simp add: put_room_def)
  ultimately show ?thesis using that [OF c, of ?r] r1(3) live by simp
qed

lemma join_total:
  assumes "core_ok c"
  obtains c' q where "add_player_with_tank uid c = Some (c', q)" and "core_ok c'" and "get_player c' uid \<noteq> None"
    and "\<And>v. v \<noteq> uid \<Longrightarrow> get_player c' v = get_player c v"
proof (cases "\<exists>p a. find_key (players c) uid = Some p \<and> player_tank p = Some a")
  case True
  then show ?thesis using add_player_again [OF assms] that [of c] assms by (auto simp: get_player_def)
next
  case False
  then have "player_tank p = None" if "find_key (players c) uid = Some p" for p using that by fastforce
  from add_player_new [OF assms this] show ?thesis using that by fastforce
qed

text \<open>What follows once the room is chosen.\<close>

definition enter_room :: "int \<Rightarrow> addr \<Rightarrow> int \<Rightarrow> 'a MainServer_scheme \<times> int \<Rightarrow> 'a MainServer_scheme option" where
  "enter_room lig s uid = (\<lambda>(e, i). do {
     let (e, ro) = room_at i e;
     r \<leftarrow> ro;
     (c, tank) \<leftarrow> add_player_with_tank uid (game_core r);
     let r = r\<lparr>game_core := c, room_users := set_key uid s (room_users r)\<rparr>;
     let e = put_room i r e;
     (e, mid) \<leftarrow> generate_msg_id s e;
     let b = construct_header MATCH_RESPONSE mid (uninit e (struct_size JoinResponse));
     let b = write_at (offset_of JoinResponse ''room'') ROOM_DATA [(''id'', room_id r), (''code'', room_code r)] b;
     let b = write_all JoinResponse [(''lig_id'', lig), (''game_start_time'', start_time c), (''mili_second_per_step'', 20)] b;
     send_new (Some s) JoinResponse b e })"

lemma match_request_enter:
  "match_request m s mr e =
     (let lig = field JoinRequest ''lig_id'' mr; e = e\<lparr>rooms_lig := fst (index_key [] (rooms_lig e) lig)\<rparr>
      in (case open_room (rooms e) (league e lig) of Some i \<Rightarrow> Some (e, i) | None \<Rightarrow> create_room m lig e)
         \<bind> enter_room lig s (field BaseMessage ''user_id'' mr))" if "ordered (rooms_lig e)"
proof -
  let ?lig = "field JoinRequest ''lig_id'' mr"
  have "league (e\<lparr>rooms_lig := fst (index_key [] (rooms_lig e) ?lig)\<rparr>) ?lig = snd (index_key [] (rooms_lig e) ?lig)"
    using index_key_lookup [OF that, of "[]"] index_key_lookup(1) [OF ordered_index_key [OF that]]
    by (simp add: league_def split: option.split)
  then show ?thesis by (simp add: match_request_def enter_room_def Let_def case_prod_beta)
qed

lemma join_response_sizes: "struct_size JoinResponse = 109" "offset_of JoinResponse ''room'' = 81"
  "struct_size ROOM_DATA = 16" "struct_size MsgHeader = 73"
  by code_simp+

lemma enter_room_joins:
  assumes "lobby_ok e" and "live_room e i = Some r0" and "port_at e s = Some p" and "length (out_box p) = out_box_size"
  shows "\<exists>e' r. enter_room lig s uid (e, i) = Some e' \<and> lobby_ok e' \<and> live_room e' i = Some r
     \<and> find_key (room_users r) uid = Some s \<and> get_player (game_core r) uid \<noteq> None
     \<and> room_lig_id r = room_lig_id r0 \<and> game_count e' = game_count e
     \<and> (\<forall>v. v \<noteq> uid \<longrightarrow> find_key (room_users r) v = find_key (room_users r0) v
            \<and> get_player (game_core r) v = get_player (game_core r0) v)
     \<and> (\<forall>j. j \<noteq> i \<longrightarrow> live_room e' j = live_room e j)"
proof -
  note o = lobby_okD [OF assms(1)]
  have found: "find_key (rooms e) i = Some (Some r0)"
    using assms(2) by (auto simp: live_room_def split: option.splits)
  then have at: "room_at i e = (e, Some r0)" by (simp add: room_at_def index_key_def)
  obtain c q where c: "add_player_with_tank uid (game_core r0) = Some (c, q)" "core_ok c" "get_player c uid \<noteq> None"
    "\<And>v. v \<noteq> uid \<Longrightarrow> get_player c v = get_player (game_core r0) v"
    using join_total [OF o(6) [OF assms(2)]] by metis
  let ?r = "r0\<lparr>game_core := c, room_users := set_key uid s (room_users r0)\<rparr>"
  let ?e = "put_room i ?r e"
  have ok: "lobby_ok ?e"
    by (rule lobby_ok_put [OF assms(1,2)]) (simp_all add: c o(4,7) [OF assms(2)] ordered_set_key)
  have "port_at ?e s = Some p" using assms(3) by (simp add: put_room_def port_at_def)
  then obtain e1 mid where 1: "generate_msg_id s ?e = Some (e1, mid)" "sends ?e e1" by (rule generate_total)
  obtain p1 where p1: "port_at e1 s = Some p1" "length (out_box p1) = out_box_size"
    using sends_port [OF 1(2) \<open>port_at ?e s = Some p\<close>] assms(4) by metis
  let ?b = "construct_header MATCH_RESPONSE mid (uninit e1 (struct_size JoinResponse))"
  let ?b1 = "write_at (offset_of JoinResponse ''room'') ROOM_DATA [(''id'', room_id ?r), (''code'', room_code ?r)] ?b"
  let ?b2 = "write_all JoinResponse [(''lig_id'', lig), (''game_start_time'', start_time c), (''mili_second_per_step'', 20)] ?b1"
  have "length ?b = 109"
    by (simp add: construct_header_def length_write_all uninit_def join_response_sizes)
  then have "length ?b1 = 109"
    by (simp add: write_at_def length_write_all join_response_sizes)
  then have "length ?b2 = 109" by (simp add: length_write_all join_response_sizes)
  then obtain e2 where 2: "send_new (Some s) JoinResponse ?b2 e1 = Some e2" "sends e1 e2"
    using send_new_total [OF p1, of ?b2 JoinResponse] by (auto simp: join_response_sizes)
  have "sends ?e e2" using 1(2) 2(2) by (rule sends_trans)
  note same = sends_lobby [OF this]
  have "enter_room lig s uid (e, i) = Some e2"
    using at c(1) 1(1) 2(1) by (simp add: enter_room_def)
  moreover have "lobby_ok e2" by (rule lobby_ok_same [OF ok same])
  moreover have "live_room e2 j = (if j = i then Some ?r else live_room e j)" for j
    using live_room_put [OF o(1), of i ?r j] same by (simp add: live_room_def)
  moreover have "game_count e2 = game_count e" using same by (simp add: put_room_def)
  ultimately show ?thesis using c(3,4) o(7) [OF assms(2)]
    by (intro exI [of _ e2] exI [of _ ?r]) (simp add: find_key_set_key)
qed

section \<open>Joining always succeeds\<close>

text \<open>C18. A user who asks to play in a league is always put into a room of that league, as a user
  and as a player of the game: the last room of the league that still runs, or a new one with the
  next id exactly if none runs. All other rooms, users and players stay as they are, and the
  invariant of the rooms is kept.\<close>

theorem match_joins_room:
  assumes "lobby_ok e" and "port_at e s = Some p" and "length (out_box p) = out_box_size"
    and "field BaseMessage ''user_id'' mr = uid" and "field JoinRequest ''lig_id'' mr = lig"
  shows "\<exists>e' i r. match_request m s mr e = Some e' \<and> lobby_ok e' \<and> live_room e' i = Some r
     \<and> find_key (room_users r) uid = Some s \<and> get_player (game_core r) uid \<noteq> None \<and> room_lig_id r = lig
     \<and> (\<forall>j. j \<noteq> i \<longrightarrow> live_room e' j = live_room e j)
     \<and> (if \<exists>j r'. live_room e j = Some r' \<and> room_lig_id r' = lig
        then game_count e' = game_count e \<and> (\<exists>r0. live_room e i = Some r0 \<and> room_lig_id r0 = lig
          \<and> (\<forall>v. v \<noteq> uid \<longrightarrow> find_key (room_users r) v = find_key (room_users r0) v
                \<and> get_player (game_core r) v = get_player (game_core r0) v))
        else i = game_count e \<and> game_count e' = game_count e + 1 \<and> (\<forall>v. v \<noteq> uid \<longrightarrow> find_key (room_users r) v = None))"
proof -
  let ?e = "e\<lparr>rooms_lig := fst (index_key [] (rooms_lig e) lig)\<rparr>"
  note ok = league_looked_up(1) [OF assms(1), of lig]
  have same: "live_room ?e j = live_room e j" for j by (simp add: live_room_def)
  have port: "port_at ?e s = Some p" using assms(2) by (simp add: port_at_def)
  have run: "match_request m s mr e = (case open_room (rooms ?e) (league ?e lig) of Some i \<Rightarrow> Some (?e, i)
      | None \<Rightarrow> create_room m lig ?e) \<bind> enter_room lig s uid"
    by (simp add: match_request_enter [OF lobby_okD(2) [OF assms(1)]] assms(4,5) Let_def)
  show ?thesis
  proof (cases "open_room (rooms ?e) (league ?e lig)")
    case (Some i)
    then obtain r0 where r0: "i \<in> set (league ?e lig)" "live_room ?e i = Some r0" using open_room_Some by blast
    then have lig: "room_lig_id r0 = lig" using lobby_okD(8) [OF ok r0(2)] by simp
    obtain e' r where e': "enter_room lig s uid (?e, i) = Some e'" "lobby_ok e'" "live_room e' i = Some r"
      "find_key (room_users r) uid = Some s" "get_player (game_core r) uid \<noteq> None" "room_lig_id r = room_lig_id r0"
      "game_count e' = game_count ?e" "\<forall>v. v \<noteq> uid \<longrightarrow> find_key (room_users r) v = find_key (room_users r0) v
          \<and> get_player (game_core r) v = get_player (game_core r0) v"
      "\<forall>j. j \<noteq> i \<longrightarrow> live_room e' j = live_room ?e j"
      using enter_room_joins [OF ok r0(2) port assms(3), of lig uid] by (elim exE conjE) (rule that; assumption)
    have "match_request m s mr e = Some e'" using run Some e'(1) by simp
    moreover have "\<exists>j r'. live_room e j = Some r' \<and> room_lig_id r' = lig" using r0(2) lig same by metis
    ultimately show ?thesis using e'(2-9) r0(2) lig unfolding same
      by (intro exI [of _ e'] exI [of _ i] exI [of _ r]) simp
  next
    case None
    obtain e1 r1 where e1: "create_room m lig ?e = Some (e1, game_count ?e)" "lobby_ok e1"
      "live_room e1 (game_count ?e) = Some r1" "room_users r1 = []" "room_lig_id r1 = lig"
      "\<And>j. j \<noteq> game_count ?e \<Longrightarrow> live_room e1 j = live_room ?e j" "game_count e1 = game_count ?e + 1"
      "\<And>a p. port_at ?e a = Some p \<Longrightarrow> \<exists>p'. port_at e1 a = Some p' \<and> length (out_box p') = length (out_box p)"
      using create_room_ok [OF ok, of m lig] by blast
    obtain p1 where p1: "port_at e1 s = Some p1" "length (out_box p1) = out_box_size"
      using e1(8) [OF port] assms(3) by metis
    obtain e' r where e': "enter_room lig s uid (e1, game_count ?e) = Some e'" "lobby_ok e'"
      "live_room e' (game_count ?e) = Some r" "find_key (room_users r) uid = Some s"
      "get_player (game_core r) uid \<noteq> None" "room_lig_id r = room_lig_id r1" "game_count e' = game_count e1"
      "\<forall>v. v \<noteq> uid \<longrightarrow> find_key (room_users r) v = find_key (room_users r1) v
          \<and> get_player (game_core r) v = get_player (game_core r1) v"
      "\<forall>j. j \<noteq> game_count ?e \<longrightarrow> live_room e' j = live_room e1 j"
      using enter_room_joins [OF e1(2,3) p1, of lig uid] by (elim exE conjE) (rule that; assumption)
    have "match_request m s mr e = Some e'" using run None e1(1) e'(1) by simp
    moreover have "\<not> (\<exists>j r'. live_room e j = Some r' \<and> room_lig_id r' = lig)"
    proof
      assume "\<exists>j r'. live_room e j = Some r' \<and> room_lig_id r' = lig"
      then obtain j r' where "live_room ?e j = Some r'" "j \<in> set (league ?e lig)"
        using lobby_okD(8) [OF ok] same by metis
      then show False using None same by (auto simp: open_room_None)
    qed
    ultimately show ?thesis using e'(2-9) e1(4-7) same
      by (intro exI [of _ e'] exI [of _ "game_count e"] exI [of _ r]) simp
  qed
qed

definition join_message :: buffer where
  "join_message = write_all JoinRequest [(''user_id'', 5), (''lig_id'', 3)] (replicate (struct_size JoinRequest) 0)"

theorem match_joins_room_witness:
  "\<exists>e' r. match_request no_trig 0 join_message small_server = Some e' \<and> live_room e' 10 = Some r
     \<and> find_key (room_users r) 5 = Some 0 \<and> get_player (game_core r) 5 \<noteq> None \<and> room_lig_id r = 3 \<and> game_count e' = 11"
proof -
  have fields: "field BaseMessage ''user_id'' join_message = 5" "field JoinRequest ''lig_id'' join_message = 3"
    by code_simp+
  have "rooms small_server = []" "rooms_lig small_server = []" "game_count small_server = 10"
    by (simp_all add: small_server_def)
  then have server: "lobby_ok small_server" "live_room small_server j = None" "game_count small_server = 10" for j
    by (simp_all add: lobby_ok_def league_def live_room_def index_key_def ordered_def)
  have "length (out_box (idle_port\<lparr>cookie := 77, user_data := Some 5\<rparr>)) = out_box_size" using idle_fields(2) by simp
  from match_joins_room [OF server(1) small_server_port(2) this fields, of no_trig]
  show ?thesis unfolding server by auto
qed

end
