(* ===== verification/Served.thy ===== *)
theory Served
  imports Lobby
begin

text \<open>
  What the operations of the server do to the rooms: almost all of them leave the rooms alone, which
  is shown first, operation by operation; the others keep the invariant of the rooms.
\<close>

section \<open>What leaves the derived server alone\<close>

abbreviation same_rest :: "'a Engine_scheme \<Rightarrow> 'a Engine_scheme \<Rightarrow> bool" where
  "same_rest e e' \<equiv> total_time e' = total_time e \<and> Engine.more e' = Engine.more e"

lemma more_for_each:
  assumes "for_each f xs s = Some s'" and "\<And>x s s'. f x s = Some s' \<Longrightarrow> same_rest (g s) (g s')"
  shows "same_rest (g s) (g s')"
  using for_each_invariant [OF assms(1), of "\<lambda>t. same_rest (g s) (g t)"] assms(2) by metis

lemma more_simps [simp]:
  "Engine.more (put_port a p e) = Engine.more e" "total_time (put_port a p e) = total_time e"
  "Engine.more (fst (rand e)) = Engine.more e" "total_time (fst (rand e)) = total_time e"
  "Engine.more (fst (new_message b e)) = Engine.more e" "total_time (fst (new_message b e)) = total_time e"
  "Engine.more (fst (create_port e)) = Engine.more e" "total_time (fst (create_port e)) = total_time e"
  "Engine.more (zip_update i w e) = Engine.more e" "total_time (zip_update i w e) = total_time e"
  "Engine.more (zip_update_time i n e) = Engine.more e" "total_time (zip_update_time i n e) = total_time e"
  "Engine.more (users_with_id_push i q e) = Engine.more e" "total_time (users_with_id_push i q e) = total_time e"
  "Engine.more (fst (get_random_long_long e)) = Engine.more e"
  "total_time (fst (get_random_long_long e)) = total_time e"
  "Engine.more (change_data f u e) = Engine.more e" "total_time (change_data f u e) = total_time e"
  by (simp_all add: put_port_def rand_def new_message_def create_port_def zip_update_def zip_update_time_def
      users_with_id_push_def get_random_long_long_def change_data_def Let_def split: option.split)

lemma more_generate: "generate_msg_id a e = Some (e', i) \<Longrightarrow> same_rest e e'"
  by (auto simp: generate_msg_id_def bind_Some_iff rand_def Let_def)

lemma more_assign: "assign_id a b e = Some (e', b') \<Longrightarrow> same_rest e e'"
  by (auto simp: assign_id_def bind_Some_iff dest: more_generate split: if_splits)

lemma more_send_bytes: "send_bytes se b n e = Some e' \<Longrightarrow> same_rest e e'"
  by (auto simp: send_bytes_def split: if_splits)

lemma more_udp_send: "udp_send a b n e = Some (e', b') \<Longrightarrow> same_rest e e'"
  by (auto simp: udp_send_def bind_Some_iff dest!: more_assign more_send_bytes)

lemma more_send_stored: "send_stored a m n e = Some e' \<Longrightarrow> same_rest e e'"
  by (auto simp: send_stored_def bind_Some_iff dest!: more_udp_send)

lemma more_put_slot: "put_slot a i h e = Some e' \<Longrightarrow> same_rest e e'"
  by (auto simp: put_slot_def bind_Some_iff)

lemma more_push_job: "push_send_lost_packet_job a i e = Some e' \<Longrightarrow> same_rest e e'"
  by (auto simp: push_send_lost_packet_job_def bind_Some_iff)

lemma more_slot_init: "slot_init a m h e = Some (e', h') \<Longrightarrow> same_rest e e'"
  by (auto simp: slot_init_def bind_Some_iff)

lemma more_send_with_ack: "send_with_ack a m n k e = Some e' \<Longrightarrow> same_rest e e'"
  by (auto simp: send_with_ack_def bind_Some_iff Let_def case_prod_beta
      dest!: more_assign more_send_stored more_slot_init more_put_slot more_push_job)

lemma more_send_ack: "udp_send_and_push_out_box_to_handle_ACK up m n e = Some e' \<Longrightarrow> same_rest e e'"
  by (auto simp: udp_send_and_push_out_box_to_handle_ACK_def dest: more_send_with_ack split: option.splits)

lemma more_send_new: "send_new up l b e = Some e' \<Longrightarrow> same_rest e e'"
  by (auto simp: send_new_def new_message_def dest: more_send_ack)

lemma more_do_job: "MsgSendHandler_do_job a i e = Some e' \<Longrightarrow> same_rest e e'"
  by (auto simp: MsgSendHandler_do_job_def bind_Some_iff
      dest!: more_send_stored more_put_slot more_push_job split: if_splits)

lemma more_engine_update: "engine_update now e = Some e' \<Longrightarrow> Engine.more e' = Engine.more e"
  by (auto simp: engine_update_def bind_Some_iff Let_def dest!: more_for_each [where g = "\<lambda>e. e"] more_do_job)

lemma more_end_point: "udp_end_point_set se a e = Some e' \<Longrightarrow> same_rest e e'"
  by (auto simp: udp_end_point_set_def bind_Some_iff split: if_splits)

lemma more_app_version: "set_app_version u v e = Some e' \<Longrightarrow> same_rest e e'"
  by (auto simp: set_app_version_def bind_Some_iff Let_def zip_update_def split: option.splits if_splits)

lemma more_port_tcp_send [simp]:
  "Engine.more (port_tcp_send b p e) = Engine.more e" "total_time (port_tcp_send b p e) = total_time e"
  by (simp_all add: port_tcp_send_def split: option.split)

lemma more_profile_msg: "get_user_profile_msg u e = Some (e', m) \<Longrightarrow> same_rest e e'"
  by (auto simp: get_user_profile_msg_def bind_Some_iff new_message_def Let_def split: option.splits)

lemma more_send_events: "send_events up ms e = Some e' \<Longrightarrow> same_rest e e'"
  by (induction up ms e rule: send_events.induct) (fastforce simp: bind_Some_iff dest: more_send_ack)+

lemma more_update_profile:
  assumes "update_client_profile u e = Some e'"
  shows "same_rest e e'"
proof -
  obtain e1 pr where 1: "get_user_profile_msg u e = Some (e1, pr)"
    using assms by (auto simp: update_client_profile_def bind_Some_iff)
  show ?thesis
  proof (cases "users_with_id e1 u = None \<or> pr = None")
    case True
    then show ?thesis using assms 1 more_profile_msg [OF 1]
      by (auto simp: update_client_profile_def split: option.splits)
  next
    case False
    then show ?thesis using assms 1 more_profile_msg [OF 1]
      by (auto simp: update_client_profile_def bind_Some_iff dest!: more_send_ack more_send_events)
  qed
qed

lemma more_game_data: "update_client_game_data u e = Some e' \<Longrightarrow> same_rest e e'"
  by (auto simp: update_client_game_data_def bind_Some_iff Let_def dest!: more_send_new split: option.splits)

lemma more_profile_request: "profile_request s mr e = Some e' \<Longrightarrow> same_rest e e'"
  by (auto simp: profile_request_def bind_Some_iff Let_def
      dest!: more_update_profile more_game_data more_profile_msg more_send_ack split: if_splits)

lemma more_name: "change_dispaly_name s mr e = Some e' \<Longrightarrow> same_rest e e'"
  by (auto simp: change_dispaly_name_def bind_Some_iff Let_def split: if_splits)

lemma more_lists:
  "top_hundred_request s mr e = Some e' \<Longrightarrow> same_rest e e'"
  "hundred_state_request s mr e = Some e' \<Longrightarrow> same_rest e e'"
  by (auto simp: top_hundred_request_def hundred_state_request_def bind_Some_iff Let_def
      dest!: more_send_new split: if_splits)

lemma more_random_points [simp]:
  "Engine.more (fst (random_points k e)) = Engine.more e" "total_time (fst (random_points k e)) = total_time e"
  by (induction k arbitrary: e) (simp_all add: random_point_def rand_def Let_def case_prod_beta)

lemma more_add_bot: "add_bot i s = Some s' \<Longrightarrow> same_rest (snd s) (snd s')"
  by (auto simp: add_bot_def bind_Some_iff Let_def case_prod_beta)

lemma more_room_create:
  assumes "room_create m e = Some (r, e')"
  shows "same_rest e e'"
proof -
  obtain c c' where "for_each add_bot [0, 1, 2, 3, 4, 5, 6, 7, 8, 9] (c, e) = Some (c', e')"
    using assms by (auto simp: room_create_def room_init_def bind_Some_iff Let_def simp del: for_each.simps)
  from more_for_each [where g = snd, OF this more_add_bot] show ?thesis by simp
qed

section \<open>Rooms are kept well formed\<close>

text \<open>What a message to a room changes: the acknowledgements, the clock of the last action and the game.\<close>

definition room_same :: "Room \<Rightarrow> Room \<Rightarrow> bool" where
  "room_same r r' \<longleftrightarrow> room_id r' = room_id r \<and> room_lig_id r' = room_lig_id r \<and> room_users r' = room_users r
     \<and> (core_ok (game_core r) \<longrightarrow> core_ok (game_core r'))"

lemma room_same_refl [simp]: "room_same r r"
  by (simp add: room_same_def)

lemma room_same_trans: "room_same r r1 \<Longrightarrow> room_same r1 r2 \<Longrightarrow> room_same r r2"
  by (simp add: room_same_def)

lemma send_states_more: "send_states a ts i e = Some e' \<Longrightarrow> same_rest e e'"
  by (auto simp: send_states_def bind_Some_iff dest!: more_udp_send)

lemma init_client_same:
  assumes "init_client a (r, e) = Some (r', e')"
  shows "room_same r r' \<and> game_core r' = game_core r \<and> same_rest e e'"
proof -
  obtain ts "is" where "for_each (send_states a ts) is e = Some e'" "\<exists>m. r' = r\<lparr>ackSendedEvent := m\<rparr>"
    using assms unfolding init_client_def Let_def case_prod_beta bind_Some_iff by auto
  moreover from this(1) have "same_rest e e'"
    by (rule more_for_each [where g = "\<lambda>e. e"]) (rule send_states_more)
  ultimately show ?thesis by (auto simp: room_same_def)
qed

lemma update_clients_same:
  assumes "update_clients (r, e) = Some (r', e')"
  shows "room_same r r' \<and> game_core r' = game_core r \<and> same_rest e e'"
proof -
  have "for_each (\<lambda>(u, a). init_client a) (room_users r) (r, e) = Some (r', e')"
    using assms by (simp add: update_clients_def)
  then have "room_same r (fst (r', e')) \<and> game_core (fst (r', e')) = game_core r \<and> same_rest e (snd (r', e'))"
  proof (rule for_each_invariant [where P = "\<lambda>s. room_same r (fst s) \<and> game_core (fst s) = game_core r \<and> same_rest e (snd s)"])
    fix x s s' assume "(case x of (u, a) \<Rightarrow> init_client a) s = Some s'"
      and "room_same r (fst s) \<and> game_core (fst s) = game_core r \<and> same_rest e (snd s)"
    then show "room_same r (fst s') \<and> game_core (fst s') = game_core r \<and> same_rest e (snd s')"
      using init_client_same [of "snd x" "fst s" "snd s" "fst s'" "snd s'"] room_same_trans
      by (auto simp: case_prod_beta)
  qed (simp add: room_same_def)
  then show ?thesis by simp
qed

lemma event_ack_same: "room_same r (event_ack pid i n r)"
  by (simp add: event_ack_def room_same_def Let_def case_prod_beta)

lemma catch_up_ok:
  assumes "core_ok c" and "catch_up m now c = Some c'"
  shows "core_ok c'" and "core_time c' = max (core_time c) (get_step_with_time c now)"
proof -
  have "run_steps m (nat (get_step_with_time c now - core_time c)) c = Some c'"
    using catch_up_run [OF assms(1) refl] assms(2) by metis
  from run_steps_time [OF assms(1) this]
  show "core_ok c'" "core_time c' = max (core_time c) (get_step_with_time c now)" by (simp_all add: max_def)
qed

lemma room_update_same:
  assumes "room_update m now r = Some (r', ph)"
  shows "room_same r r'"
  using assms catch_up_ok(1)
  by (auto simp: room_update_def room_same_def bind_Some_iff split: if_splits)

lemma new_input_ok:
  assumes "core_ok c" and "new_input n b a c = Some (c', i)"
  shows "core_ok c'"
proof -
  obtain t where t: "objects c a = Some (TankObj t)"
    using assms(2) by (auto simp: new_input_def bind_Some_iff tank_at_Some)
  then have "tank_at c a = Some t" by (simp add: tank_at_def)
  then show ?thesis using assms core_ok_move [OF assms(1) t] core_ok_shoot [OF assms(1)]
    by (auto simp: new_input_def Let_def case_prod_beta split: if_splits)
qed

lemma send_action_more: "send_action a i fvs e = Some e' \<Longrightarrow> same_rest e e'"
  by (auto simp: send_action_def bind_Some_iff Let_def dest!: more_udp_send)

lemma take_action_same:
  assumes "take_action up action a (r, e) = Some (r', e')"
  shows "room_same r r' \<and> same_rest e e'"
proof -
  obtain t where t: "tank_at (game_core r) a = Some t"
    using assms by (auto simp: take_action_def bind_Some_iff Let_def)
  show ?thesis
  proof (cases "get_action_of t (to_i32 (field InputState ''client_id'' action))")
    case None
    then obtain n c i fvs gvs e1 where u: "new_input n action a (game_core r) = Some (c, i)" "send_action up i fvs e = Some e1"
      "for_each (\<lambda>(u, up2) e. if up2 = up then Some e else send_action up2 i gvs e) (room_users r) e1 = Some e'"
      "r' = r\<lparr>game_core := c\<rparr>"
      using assms t by (auto simp: take_action_def bind_Some_iff Let_def)
    have "same_rest e1 e'"
      by (rule more_for_each [where g = "\<lambda>e. e", OF u(3)]) (auto dest: send_action_more split: if_splits)
    then show ?thesis using send_action_more [OF u(2)] new_input_ok u(1,4) by (auto simp: room_same_def)
  next
    case (Some i)
    then show ?thesis using assms t
      by (auto simp: take_action_def bind_Some_iff Let_def room_same_def dest: send_action_more)
  qed
qed

lemma room_get_msg_same:
  assumes "room_get_msg m up mr (r, e) = Some (r', e')"
  shows "room_same r r' \<and> same_rest e e'"
proof (cases "action_msg_is_ok mr r")
  case True
  let ?r = "r\<lparr>last_action := core_time (game_core r)\<rparr>"
  obtain r1 ph action where u: "room_update m (total_time e) ?r = Some (r1, ph)" "get_action (uninit e 256) mr = Some action"
    using assms True by (auto simp: room_get_msg_def bind_Some_iff)
  have "room_same r ?r" by (simp add: room_same_def)
  then have same: "room_same r r1" using room_update_same [OF u(1)] by (rule room_same_trans)
  show ?thesis
  proof (cases "get_player (game_core r1) (field BaseMessage ''user_id'' mr)")
    case None
    then show ?thesis using assms u True same by (simp add: room_get_msg_def)
  next
    case (Some p)
    then show ?thesis using assms u True same
      by (cases "player_tank p") (auto simp: room_get_msg_def dest!: take_action_same intro: room_same_trans)
  qed
qed (use assms in \<open>simp add: room_get_msg_def room_same_def\<close>)

section \<open>The map of rooms\<close>

definition lobby_of :: "'a MainServer_scheme \<Rightarrow> (int, Room option) stdmap \<times> (int, int list) stdmap \<times> int" where
  "lobby_of e = (rooms e, rooms_lig e, game_count e)"

lemma lobby_more: "Engine.more e' = Engine.more e \<Longrightarrow> lobby_of e' = lobby_of e"
  by (cases e; cases e'; simp add: lobby_of_def)

lemma lobby_kept: "lobby_of e' = lobby_of e \<Longrightarrow> lobby_ok e' = lobby_ok e"
  by (simp add: lobby_of_def lobby_ok_def live_room_def league_def)

lemmas lobby_rest = lobby_kept [OF lobby_more]

lemma lobby_ok_fields [simp]:
  "lobby_ok (e\<lparr>conn_port := x0\<rparr>) = lobby_ok e" "lobby_ok (e\<lparr>sql_log := x1\<rparr>) = lobby_ok e"
  "lobby_ok (e\<lparr>room_memory := x2\<rparr>) = lobby_ok e" "lobby_ok (e\<lparr>total_time := x3\<rparr>) = lobby_ok e"
  "lobby_ok (e\<lparr>db_jobs := x4\<rparr>) = lobby_ok e" "lobby_ok (e\<lparr>database := x5\<rparr>) = lobby_ok e"
  "lobby_ok (e\<lparr>tcp_log := x6\<rparr>) = lobby_ok e" "lobby_ok (e\<lparr>udp_log := x7\<rparr>) = lobby_ok e"
  by (rule lobby_kept, simp add: lobby_of_def)+

lemma lobby_ok_engine [simp]:
  "lobby_ok (put_port a p e) = lobby_ok e" "lobby_ok (zip_update_time i n e) = lobby_ok e"
  "lobby_ok (users_with_id_push i q e) = lobby_ok e" "lobby_ok (port_tcp_send b p e) = lobby_ok e"
  "lobby_ok (fst (get_random_long_long e)) = lobby_ok e" "lobby_ok (fst (rand e)) = lobby_ok e"
  "lobby_ok (fst (create_port e)) = lobby_ok e" "lobby_ok (fst (new_message b e)) = lobby_ok e"
  by (rule lobby_rest, simp)+

text \<open>Naming a room that does not exist adds an entry without a room.\<close>

lemma room_looked_up:
  assumes "lobby_ok e"
  shows "lobby_ok (fst (room_at i e))" and "live_room (fst (room_at i e)) j = live_room e j"
    and "snd (room_at i e) = live_room e i" and "total_time (fst (room_at i e)) = total_time e"
proof -
  note o = lobby_okD(1) [OF assms]
  show live: "live_room (fst (room_at i e)) j = live_room e j" for j
    using index_key_lookup(2) [OF o, of None i j]
    by (auto simp: live_room_def room_at_def case_prod_beta split: option.splits)
  show "snd (room_at i e) = live_room e i"
    using index_key_lookup(1) [OF o, of None i]
    by (auto simp: live_room_def room_at_def case_prod_beta split: option.splits)
  show "lobby_ok (fst (room_at i e))"
    using assms unfolding lobby_ok_def live by (simp add: room_at_def case_prod_beta league_def)
qed (simp add: room_at_def case_prod_beta)

lemma put_room_same:
  assumes "lobby_ok e" and "live_room e i = Some r" and "room_same r r'"
  shows "lobby_ok (put_room i r' e)"
  using lobby_ok_put [OF assms(1,2), of r'] lobby_okD [OF assms(1)] assms(2,3) by (simp add: room_same_def)

lemma with_room_lobby:
  assumes "lobby_ok e" and "with_room i f e = Some e'"
    and "\<And>r e r' e'. f (r, e) = Some (r', e') \<Longrightarrow> room_same r r' \<and> same_rest e e'"
  shows "lobby_ok e'"
proof (cases "live_room e i")
  case None
  then show ?thesis using assms(2) room_looked_up [OF assms(1), of i]
    by (simp add: with_room_def Let_def case_prod_beta)
next
  case (Some r)
  note look = room_looked_up [OF assms(1), of i]
  obtain r' e1 where 1: "f (r, fst (room_at i e)) = Some (r', e1)" "e' = put_room i r' e1"
    using assms(2) Some look(3) by (auto simp: with_room_def Let_def case_prod_beta bind_Some_iff)
  note f = assms(3) [OF 1(1)]
  have "lobby_of e1 = lobby_of (fst (room_at i e))" using f by (intro lobby_more) simp
  then have "lobby_ok e1" "live_room e1 i = Some r"
    using look Some lobby_kept by (auto simp: lobby_of_def live_room_def)
  then show ?thesis unfolding 1(2) using conjunct1 [OF f] by (rule put_room_same)
qed

lemma match_request_lobby:
  assumes "lobby_ok e" and "match_request m s mr e = Some e'"
  shows "lobby_ok e'"
proof -
  let ?lig = "field JoinRequest ''lig_id'' mr" and ?uid = "field BaseMessage ''user_id'' mr"
  let ?e = "e\<lparr>rooms_lig := fst (index_key [] (rooms_lig e) ?lig)\<rparr>"
  note ok = league_looked_up(1) [OF assms(1), of ?lig]
  obtain e1 i where c: "(case open_room (rooms ?e) (league ?e ?lig) of Some i \<Rightarrow> Some (?e, i)
      | None \<Rightarrow> create_room m ?lig ?e) = Some (e1, i)" "enter_room ?lig s ?uid (e1, i) = Some e'"
    using assms(2) match_request_enter [OF lobby_okD(2) [OF assms(1)]] by (auto simp: Let_def bind_Some_iff)
  have 1: "lobby_ok e1"
    using c(1) ok create_room_ok [OF ok, of m ?lig] by (auto split: option.splits)
  note look = room_looked_up [OF 1, of i]
  obtain r cq b e2 mid where u: "snd (room_at i e1) = Some r" "add_player_with_tank ?uid (game_core r) = Some cq"
    "generate_msg_id s (put_room i (r\<lparr>game_core := fst cq, room_users := set_key ?uid s (room_users r)\<rparr>)
        (fst (room_at i e1))) = Some (e2, mid)"
    "send_new (Some s) JoinResponse b e2 = Some e'"
    using c(2) unfolding enter_room_def Let_def case_prod_beta bind_Some_iff by auto
  let ?r = "r\<lparr>game_core := fst cq, room_users := set_key ?uid s (room_users r)\<rparr>"
  have r: "live_room (fst (room_at i e1)) i = Some r" using u(1) look by simp
  note o = lobby_okD [OF look(1)]
  have "core_ok (fst cq)" using core_ok_join [OF o(6) [OF r], of ?uid "fst cq" "snd cq"] u(2) by simp
  then have "lobby_ok (put_room i ?r (fst (room_at i e1)))"
    using o(4,7) [OF r] by (intro lobby_ok_put [OF look(1) r]) (simp_all add: ordered_set_key)
  then show ?thesis using more_generate [OF u(3)] more_send_new [OF u(4)] lobby_rest by metis
qed

lemma typed_lobby:
  "on_type mr k ok f e = Some e' \<Longrightarrow> lobby_ok e \<Longrightarrow> (f e = Some e' \<Longrightarrow> lobby_ok e') \<Longrightarrow> lobby_ok e'"
  by (auto simp: on_type_def split: if_splits)

lemma room_messages_lobby:
  "game_room_msg m s mr e = Some e' \<Longrightarrow> lobby_ok e \<Longrightarrow> lobby_ok e'"
  "room_event_ack s mr e = Some e' \<Longrightarrow> lobby_ok e \<Longrightarrow> lobby_ok e'"
  "room_state_request s mr e = Some e' \<Longrightarrow> lobby_ok e \<Longrightarrow> lobby_ok e'"
proof -
  show "game_room_msg m s mr e = Some e' \<Longrightarrow> lobby_ok e \<Longrightarrow> lobby_ok e'"
    unfolding game_room_msg_def by (erule with_room_lobby [rotated]) (rule room_get_msg_same)
  show "room_event_ack s mr e = Some e' \<Longrightarrow> lobby_ok e \<Longrightarrow> lobby_ok e'"
    unfolding room_event_ack_def
    by (erule with_room_lobby [rotated]) (auto simp: bind_Some_iff event_ack_same)
  show "room_state_request s mr e = Some e' \<Longrightarrow> lobby_ok e \<Longrightarrow> lobby_ok e'"
    unfolding room_state_request_def
    by (erule with_room_lobby [rotated]) (auto simp: bind_Some_iff dest!: init_client_same split: if_splits)
qed

lemma bug_lobby: "buge_repoart s e = Some e' \<Longrightarrow> lobby_ok e \<Longrightarrow> lobby_ok e'"
  by (auto simp: buge_repoart_def bind_Some_iff)

lemma rest_lobby: "same_rest e e' \<Longrightarrow> lobby_ok e \<Longrightarrow> lobby_ok e'"
  using lobby_rest by blast

lemma recive_msg_lobby:
  assumes "lobby_ok e" and "recive_msg m s mr n e = Some e'"
  shows "lobby_ok e'"
proof -
  obtain e1 e2 e3 e4 e5 e6 e7 e8 where u:
    "on_type mr MATCH_REQUEST (JoinRequest_check mr) (match_request m s mr) e = Some e1"
    "on_type mr PROFILE_REQUEST (MsgHeader_check mr) (profile_request s mr) e1 = Some e2"
    "on_type mr BUG_CHECK_POINT (MsgHeader_check mr) (buge_repoart s) e2 = Some e3"
    "on_type mr GAMEACTION_CLIENT_SEND (GameActionMsg_check n mr) (game_room_msg m s mr) e3 = Some e4"
    "on_type mr CHANGE_DISPLAY_NAME_REQUEST (MsgHeader_check mr) (change_dispaly_name s mr) e4 = Some e5"
    "on_type mr TOP_HUNDERD_SCORE_REQUEST (TopHundredRequest_check mr) (top_hundred_request s mr) e5 = Some e6"
    "on_type mr HUNDERD_STATE_REQUEST (MsgHeader_check mr) (hundred_state_request s mr) e6 = Some e7"
    "on_type mr ROOM_EVENT_ACK (RoomMsg_check mr) (room_event_ack s mr) e7 = Some e8"
    "on_type mr ROOM_STATE_REQUST True (room_state_request s mr) e8 = Some e'"
    using assms(2) unfolding recive_msg_def bind_Some_iff by blast
  have 1: "lobby_ok e1" by (rule typed_lobby [OF u(1) assms(1)]) (rule match_request_lobby [OF assms(1)])
  have 2: "lobby_ok e2" by (rule typed_lobby [OF u(2) 1]) (rule rest_lobby [OF more_profile_request 1])
  have 3: "lobby_ok e3" by (rule typed_lobby [OF u(3) 2]) (rule bug_lobby [OF _ 2])
  have 4: "lobby_ok e4" by (rule typed_lobby [OF u(4) 3]) (rule room_messages_lobby(1) [OF _ 3])
  have 5: "lobby_ok e5" by (rule typed_lobby [OF u(5) 4]) (rule rest_lobby [OF more_name 4])
  have 6: "lobby_ok e6" by (rule typed_lobby [OF u(6) 5]) (rule rest_lobby [OF more_lists(1) 5])
  have 7: "lobby_ok e7" by (rule typed_lobby [OF u(7) 6]) (rule rest_lobby [OF more_lists(2) 6])
  have 8: "lobby_ok e8" by (rule typed_lobby [OF u(8) 7]) (rule room_messages_lobby(2) [OF _ 7])
  show ?thesis by (rule typed_lobby [OF u(9) 8]) (rule room_messages_lobby(3) [OF _ 8])
qed

section \<open>Datagrams and TCP messages\<close>

lemma more_send_to: "send_to se l b e = Some e' \<Longrightarrow> same_rest e e'"
  by (auto simp: send_to_def dest: more_send_bytes)

lemma more_new_login: "new_login u a e = Some e' \<Longrightarrow> same_rest e e'"
  by (auto simp: new_login_def bind_Some_iff Let_def split: option.splits)

lemma more_first_ping: "first_ping v u e = Some e' \<Longrightarrow> same_rest e e'"
  by (auto simp: first_ping_def first_udp_ping_def bind_Some_iff split: if_splits)

lemma more_ping:
  assumes "udp_ping se b e = Some e'"
  shows "same_rest e e'"
proof -
  let ?u = "field BaseMessage ''user_id'' b"
  obtain e1 where 1: "send_to se PingResponseMsg (ping_response b e) e = Some e1"
    using assms by (auto simp: udp_ping_def bind_Some_iff)
  then show ?thesis using assms
    by (cases "users_with_id e1 ?u")
      (auto simp: udp_ping_def bind_Some_iff Let_def
        dest!: more_send_to more_end_point more_app_version more_first_ping split: if_splits)
qed

lemma more_create_port: "create_port e = (e', a) \<Longrightarrow> same_rest e e'"
  using more_simps(7,8) [of e] by simp

lemma more_port_for: "port_for fresh u e = Some (e', a) \<Longrightarrow> same_rest e e'"
  by (auto simp: port_for_def bind_Some_iff Let_def case_prod_beta dest: more_create_port split: option.splits if_splits)

lemma more_login: "udp_login se b e = Some e' \<Longrightarrow> same_rest e e'"
  by (auto simp: udp_login_def bind_Some_iff Let_def case_prod_beta
      dest!: more_send_to more_end_point more_new_login more_send_new more_port_for split: option.splits if_splits)

lemma more_ack: "udp_ack se b e = Some e' \<Longrightarrow> same_rest e e'"
  by (auto simp: udp_ack_def dest: more_send_to split: if_splits)

lemma more_problem: "login_problem se b e = Some e' \<Longrightarrow> same_rest e e'"
  by (auto simp: login_problem_def dest: more_send_to split: if_splits)

lemma more_adopt: "adopt_cookie s e = Some e' \<Longrightarrow> same_rest e e'"
  by (auto simp: adopt_cookie_def bind_Some_iff split: if_splits)

lemma udp_known_lobby:
  assumes "lobby_ok e" and "udp_known m s b n e = Some e'"
  shows "lobby_ok e'"
proof -
  obtain p where p: "port_at e s = Some p" using assms(2) by (auto simp: udp_known_def bind_Some_iff)
  let ?i = "field BaseMessage ''id'' b"
  show ?thesis
  proof (cases "base_type_is b ACK \<or> msg_ids p ! nat (?i mod 10) = ?i \<or> \<not> base_type_is b MSG")
    case True
    then show ?thesis using assms p by (auto simp: udp_known_def Let_def split: if_splits)
  next
    case False
    then obtain e1 where 1: "adopt_cookie s (put_port s (p\<lparr>msg_ids := (msg_ids p)[nat (?i mod 10) := ?i]\<rparr>) e) = Some e1"
      "e' = e1 \<or> recive_msg m s b n e1 = Some e'"
      using assms(2) p by (auto simp: udp_known_def Let_def bind_Some_iff split: if_splits)
    have "lobby_ok e1" using rest_lobby [OF more_adopt [OF 1(1)]] assms(1) by simp
    then show ?thesis using 1(2) recive_msg_lobby by blast
  qed
qed

lemma udp_dispatch_lobby:
  assumes "lobby_ok e" and "udp_dispatch m se b n e = Some e'"
  shows "lobby_ok e'"
proof (cases "users_with_id e (field BaseMessage ''user_id'' b)")
  case None
  then show ?thesis using assms rest_lobby [OF more_problem] by (simp add: udp_dispatch_def)
next
  case (Some s)
  then obtain p where p: "port_at e s = Some p" using assms(2) by (auto simp: udp_dispatch_def bind_Some_iff)
  show ?thesis
  proof (cases "cookie p = field BaseMessage ''cookie'' b")
    case False
    then show ?thesis using assms Some p rest_lobby [OF more_problem] by (simp add: udp_dispatch_def)
  next
    case True
    then obtain e1 q i k where 1: "udp_end_point_set se s e = Some e1"
      "udp_known m s b n (zip_update_time i k (put_port s q e1)) = Some e'"
      using assms(2) Some p by (auto simp: udp_dispatch_def bind_Some_iff Let_def)
    have "lobby_ok e1" using rest_lobby [OF more_end_point [OF 1(1)] assms(1)] .
    then show ?thesis using udp_known_lobby [OF _ 1(2)] by simp
  qed
qed

lemma udp_recive_lobby:
  assumes "lobby_ok e" and "udp_recive m now se b n e = Some e'"
  shows "lobby_ok e'"
proof -
  have ok: "lobby_ok (e\<lparr>total_time := now\<rparr>)" using assms(1) by simp
  have dispatch: "lobby_ok e'" if "udp_ack se c (e\<lparr>total_time := now\<rparr>) = Some e1"
    "udp_login se c e1 = Some e' \<or> udp_dispatch m se c n e1 = Some e'" for c e1
    using that rest_lobby [OF more_ack [OF that(1)] ok] rest_lobby [OF more_login] udp_dispatch_lobby by blast
  show ?thesis using assms(2) ok rest_lobby [OF more_ping ok] dispatch
    by (fastforce simp: udp_recive_def Let_def bind_Some_iff case_prod_beta split: if_splits)
qed

lemma tcp_login_lobby: "tcp_login c b e = Some e' \<Longrightarrow> lobby_ok e \<Longrightarrow> lobby_ok e'"
  by (auto simp: tcp_login_def tcp_send_def bind_Some_iff Let_def case_prod_beta
      dest!: rest_lobby [OF more_new_login] rest_lobby [OF more_port_for] split: option.splits)

lemma tcp_port_lobby: "tcp_port c b e = Some (e', q) \<Longrightarrow> lobby_ok e' = lobby_ok e"
  by (auto simp: tcp_port_def bind_Some_iff split: option.splits if_splits)

lemma more_recive_tcp: "recive_tcp_msg s b e = Some e' \<Longrightarrow> same_rest e e'"
  by (auto simp: recive_tcp_msg_def bind_Some_iff dest!: more_update_profile more_profile_request split: if_splits)

lemma tcp_msg_lobby:
  assumes "tcp_msg c b e = Some e'" and "lobby_ok e"
  shows "lobby_ok e'"
proof -
  obtain e1 q where 1: "tcp_port c b e = Some (e1, q)" using assms(1) by (auto simp: tcp_msg_def bind_Some_iff)
  have ok: "lobby_ok e1" using tcp_port_lobby [OF 1] assms(2) by simp
  show ?thesis
  proof (cases q)
    case None
    then show ?thesis using assms(1) 1 ok by (simp add: tcp_msg_def)
  next
    case (Some s)
    then obtain e2 p where 2: "adopt_cookie s e1 = Some e2" "port_at e2 s = Some p"
      using assms(1) 1 by (auto simp: tcp_msg_def bind_Some_iff)
    then have "e' = e2 \<or> recive_tcp_msg s b e2 = Some e'"
      using assms(1) 1 Some by (cases "data_of e2 p") (auto simp: tcp_msg_def split: if_splits)
    moreover have "lobby_ok e2" using rest_lobby [OF more_adopt [OF 2(1)] ok] .
    ultimately show ?thesis using rest_lobby [OF more_recive_tcp] by blast
  qed
qed

lemma tcp_ping_lobby:
  assumes "tcp_ping c b e = Some e'" and "lobby_ok e"
  shows "lobby_ok e'"
proof -
  have "same_rest e e'"
  proof (cases "conn_port e c")
    case None
    then show ?thesis using assms(1) by (auto simp: tcp_ping_def tcp_send_def)
  next
    case (Some s)
    then obtain p where p: "port_at e s = Some p" using assms(1) by (auto simp: tcp_ping_def bind_Some_iff)
    show ?thesis
    proof (cases "cookie p = - 1")
      case True
      then show ?thesis using assms(1) Some p
        by (auto simp: tcp_ping_def tcp_send_def bind_Some_iff dest!: more_adopt)
    next
      case False
      then show ?thesis using assms(1) Some p by (auto simp: tcp_ping_def tcp_send_def bind_Some_iff)
    qed
  qed
  then show ?thesis using rest_lobby assms(2) by blast
qed

lemma tcp_recive_lobby: "tcp_recive c b n e = Some e' \<Longrightarrow> lobby_ok e \<Longrightarrow> lobby_ok e'"
  by (auto simp: tcp_recive_def dest: tcp_login_lobby tcp_msg_lobby tcp_ping_lobby split: if_splits)

lemma tcp_end_lobby: "TcpConnection_end c e = Some e' \<Longrightarrow> lobby_ok e \<Longrightarrow> lobby_ok e'"
  by (auto simp: TcpConnection_end_def bind_Some_iff split: option.splits)

section \<open>Jobs\<close>

lemma more_register: "RegisterJob_do_job ins tcp e = Some (e', r) \<Longrightarrow> same_rest e e'"
  by (auto simp: RegisterJob_do_job_def bind_Some_iff Let_def case_prod_beta split: if_splits)

lemma login_job_lobby: "LoginJob_do_job c b e = Some e' \<Longrightarrow> lobby_ok e \<Longrightarrow> lobby_ok e'"
  by (auto simp: LoginJob_do_job_def bind_Some_iff Let_def case_prod_beta
      dest!: rest_lobby [OF more_new_login] rest_lobby [OF more_port_for] split: option.splits)

lemma db_job_lobby: "do_db_job q j e = Some e' \<Longrightarrow> lobby_ok e \<Longrightarrow> lobby_ok e'"
  by (cases j) (auto simp: bind_Some_iff LoadExtraData_do_job_def ChangeNameJob_do_job_def Let_def case_prod_beta
      dest!: rest_lobby [OF more_game_data] rest_lobby [OF more_update_profile] split: if_splits)

lemma db_round_lobby:
  assumes "db_dun_round q e = Some e'" and "lobby_ok e"
  shows "lobby_ok e'"
  using assms(1) unfolding db_dun_round_def
  by (rule for_each_invariant [where P = lobby_ok]) (auto simp: assms(2) bind_Some_iff dest: db_job_lobby)

end
