(* ===== verification/Turns.thy ===== *)
theory Turns
  imports Served
begin

text \<open>
  Turns of the rooms, and the server as a whole: whatever datagrams, TCP messages, registrations,
  turns, resend jobs and database jobs it serves, in any order, the invariant of the rooms holds.
\<close>

section \<open>Turns of the rooms\<close>

text \<open>A room that is closed, or was last acted on more than 600 steps before, is removed by its turn.\<close>

definition finished :: "Room \<Rightarrow> bool" where
  "finished r \<longleftrightarrow> room_is_close r \<or> last_action r + 60 * 10 < core_time (game_core r)"

definition turned :: "int \<Rightarrow> Room \<Rightarrow> Room \<Rightarrow> bool" where
  "turned now r r' \<longleftrightarrow> room_same r r' \<and> (\<not> finished r \<longrightarrow>
     core_time (game_core r') = max (core_time (game_core r)) (get_step_with_time (game_core r) now))"

lemma run_room_live:
  assumes "lobby_ok e" and "live_room e i = Some r" and "run_room m i (e, gone) = Some (e', gone')"
  obtains r' where "lobby_ok e'" and "live_room e' = (live_room e)(i \<mapsto> r')" and "turned (total_time e) r r'"
    and "total_time e' = total_time e" and "gone' = (if finished r then gone @ [i] else gone)"
proof -
  have "find_key (rooms e) i = Some (Some r)" using assms(2) by (auto simp: live_room_def split: option.splits)
  then obtain r1 ph r' e1 where u: "room_update m (total_time e) r = Some (r1, ph)"
    "update_clients (r1, e) = Some (r', e1)" "e' = put_room i r' e1" "gone' = (if ph then gone else gone @ [i])"
    using assms(3) by (auto simp: run_room_def bind_Some_iff)
  note up = update_clients_same [OF u(2)]
  have same: "room_same r r'" using room_update_same [OF u(1)] up room_same_trans by blast
  have lobby: "lobby_of e1 = lobby_of e" using up by (intro lobby_more) simp
  then have e1: "lobby_ok e1" "live_room e1 = live_room e"
    using assms(1) lobby_kept by (auto simp: lobby_of_def live_room_def)
  have "ph \<longleftrightarrow> \<not> finished r" using u(1) by (auto simp: room_update_def finished_def bind_Some_iff split: if_splits)
  moreover have "core_time (game_core r1) = max (core_time (game_core r)) (get_step_with_time (game_core r) (total_time e))"
    if "\<not> finished r"
    using u(1) that catch_up_ok(2) [OF lobby_okD(6) [OF assms(1,2)]]
    by (auto simp: room_update_def finished_def bind_Some_iff split: if_splits)
  then have "turned (total_time e) r r'" using same up by (simp add: turned_def)
  moreover have "lobby_ok e'" unfolding u(3)
    using put_room_same [OF e1(1) _ same] assms(2) e1(2) by simp
  moreover have "live_room e' = (live_room e)(i \<mapsto> r')"
    using live_room_put [OF lobby_okD(1) [OF e1(1)]] e1(2) u(3) by auto
  moreover have "total_time e' = total_time e" using up u(3) by (simp add: put_room_def)
  ultimately show ?thesis using that u(4) by auto
qed

lemma run_room_none:
  assumes "live_room e i = None" and "run_room m i (e, gone) = Some (e', gone')"
  shows "e' = e" and "gone' = gone"
  using assms by (auto simp: run_room_def live_room_def split: option.splits)

lemma run_rooms_live:
  assumes "lobby_ok e" and "for_each (run_room m) is (e, gone) = Some (e', gone')" and "distinct is"
  shows "lobby_ok e' \<and> total_time e' = total_time e
    \<and> (\<forall>i. i \<notin> set is \<longrightarrow> live_room e' i = live_room e i)
    \<and> (\<forall>i \<in> set is. rel_option (turned (total_time e)) (live_room e i) (live_room e' i))
    \<and> set gone' = set gone \<union> {i \<in> set is. \<exists>r. live_room e i = Some r \<and> finished r}"
  using assms
proof (induction "is" arbitrary: e gone)
  case (Cons i "is")
  then obtain e1 gone1 where 1: "run_room m i (e, gone) = Some (e1, gone1)"
    "for_each (run_room m) is (e1, gone1) = Some (e', gone')" by (auto simp: bind_Some_iff)
  show ?case
  proof (cases "live_room e i")
    case None
    note same = run_room_none [OF None 1(1)]
    from Cons.IH [OF Cons.prems(1)] 1(2) same Cons.prems(3) None show ?thesis by auto
  next
    case (Some r)
    obtain r' where r': "lobby_ok e1" "live_room e1 = (live_room e)(i \<mapsto> r')" "turned (total_time e) r r'"
      "total_time e1 = total_time e" "gone1 = (if finished r then gone @ [i] else gone)"
      using run_room_live [OF Cons.prems(1) Some 1(1)] by blast
    have other: "live_room e1 j = live_room e j" if "j \<in> set is" for j using that Cons.prems(3) r'(2) by auto
    have gone: "{j \<in> set is. \<exists>r. live_room e1 j = Some r \<and> finished r} = {j \<in> set is. \<exists>r. live_room e j = Some r \<and> finished r}"
      using other by auto
    have "distinct is" using Cons.prems(3) by simp
    note ih = Cons.IH [OF r'(1) 1(2) this, unfolded r'(4) gone]
    have "live_room e' i = Some r'" using ih Cons.prems(3) r'(2) by simp
    then have "\<forall>j \<in> set (i # is). rel_option (turned (total_time e)) (live_room e j) (live_room e' j)"
      using ih r'(3) Some other by simp
    moreover have "\<forall>j. j \<notin> set (i # is) \<longrightarrow> live_room e' j = live_room e j" using ih r'(2) by simp
    moreover have "set gone' = set gone \<union> {j \<in> set (i # is). \<exists>r. live_room e j = Some r \<and> finished r}"
      using ih r'(5) Some by auto
    ultimately show ?thesis using ih by blast
  qed
qed simp

lemma erase_rooms:
  assumes "lobby_ok e"
  shows "lobby_ok (e\<lparr>rooms := fold erase_key gone (rooms e)\<rparr>)"
    and "live_room (e\<lparr>rooms := fold erase_key gone (rooms e)\<rparr>) i = (if i \<in> set gone then None else live_room e i)"
proof -
  note all = stdmap.delete_all [OF lobby_okD(1) [OF assms], of gone]
  show live: "live_room (e\<lparr>rooms := fold erase_key gone (rooms e)\<rparr>) i = (if i \<in> set gone then None else live_room e i)" for i
    using all by (simp add: live_room_def)
  show "lobby_ok (e\<lparr>rooms := fold erase_key gone (rooms e)\<rparr>)"
    using assms all unfolding lobby_ok_def live by (simp add: league_def)
qed

lemma rooms_turn_parts:
  assumes "lobby_ok e" and "run_rooms_step m e = Some e'"
  shows "lobby_ok e'" and "live_room e i = None \<Longrightarrow> live_room e' i = None"
    and "live_room e i = Some r \<Longrightarrow> finished r \<Longrightarrow> live_room e' i = None"
    and "live_room e i = Some r \<Longrightarrow> \<not> finished r \<Longrightarrow> \<exists>r'. live_room e' i = Some r' \<and> turned (total_time e) r r'"
proof -
  obtain e1 gone where 1: "for_each (run_room m) (keys (rooms e)) (e, []) = Some (e1, gone)"
    "e' = e1\<lparr>rooms := fold erase_key gone (rooms e1)\<rparr>"
    using assms(2) by (auto simp: run_rooms_step_def bind_Some_iff)
  note turn = run_rooms_live [OF assms(1) 1(1) stdmap.keys_distinct [OF lobby_okD(1) [OF assms(1)]]]
  note erase = erase_rooms [of e1 gone, folded 1(2)]
  have key: "i \<in> set (keys (rooms e))" if "live_room e i = Some r"
    using that by (auto simp: live_room_def keys_iff_find split: option.splits)
  show "lobby_ok e'" using turn erase by blast
  show "live_room e i = None \<Longrightarrow> live_room e' i = None"
    using turn erase(2) by (cases "i \<in> set (keys (rooms e))") (auto dest!: bspec)
  show "live_room e i = Some r \<Longrightarrow> finished r \<Longrightarrow> live_room e' i = None"
    using turn erase(2) key by auto
  show "live_room e i = Some r \<Longrightarrow> \<not> finished r \<Longrightarrow> \<exists>r'. live_room e' i = Some r' \<and> turned (total_time e) r r'"
    using turn erase(2) key by (auto simp: option_rel_Some1 dest!: bspec)
qed

section \<open>The server as a whole\<close>

text \<open>
  What the server does, one event after the other: a datagram (at time \<open>now\<close>), a TCP message, the
  end of a connection, a registration, the login job, a turn of the rooms, the resend jobs that are
  due, and a round of the database thread.
\<close>

inductive served :: "libm \<Rightarrow> sql_answers \<Rightarrow> 'a MainServer_scheme \<Rightarrow> 'a MainServer_scheme \<Rightarrow> bool" for m q e0 where
  start: "served m q e0 e0"
| datagram: "served m q e0 e \<Longrightarrow> udp_recive m now se b n e = Some e' \<Longrightarrow> served m q e0 e'"
| tcp: "served m q e0 e \<Longrightarrow> tcp_recive c b n e = Some e' \<Longrightarrow> served m q e0 e'"
| closed: "served m q e0 e \<Longrightarrow> TcpConnection_end c e = Some e' \<Longrightarrow> served m q e0 e'"
| registration: "served m q e0 e \<Longrightarrow> RegisterJob_do_job ins con e = Some (e', r) \<Longrightarrow> served m q e0 e'"
| login: "served m q e0 e \<Longrightarrow> LoginJob_do_job c b e = Some e' \<Longrightarrow> served m q e0 e'"
| turn: "served m q e0 e \<Longrightarrow> run_rooms_step m e = Some e' \<Longrightarrow> served m q e0 e'"
| resend: "served m q e0 e \<Longrightarrow> engine_update now e = Some e' \<Longrightarrow> served m q e0 e'"
| database: "served m q e0 e \<Longrightarrow> db_dun_round q e = Some e' \<Longrightarrow> served m q e0 e'"

lemma lobby_ok_start: "rooms e = [] \<Longrightarrow> rooms_lig e = [] \<Longrightarrow> lobby_ok e"
  by (simp add: lobby_ok_def league_def live_room_def index_key_def)

text \<open>C3. Whatever the server has served since it started without rooms, every room is stored under
  its own id, which is smaller than the next one, is listed in its league and in no other, has users
  ordered by id, and its game satisfies the invariant of games.\<close>

theorem rooms_invariant:
  assumes "served m q e0 e" and "rooms e0 = []" and "rooms_lig e0 = []"
  shows "lobby_ok e"
  using assms
proof (induction rule: served.induct)
  case start
  then show ?case using lobby_ok_start by blast
next
  case datagram
  then show ?case using udp_recive_lobby by blast
next
  case tcp
  then show ?case using tcp_recive_lobby by blast
next
  case closed
  then show ?case using tcp_end_lobby by blast
next
  case registration
  then show ?case using rest_lobby [OF more_register] by blast
next
  case login
  then show ?case using login_job_lobby by blast
next
  case turn
  then show ?case using rooms_turn_parts(1) by blast
next
  case resend
  then show ?case using lobby_rest [OF more_engine_update] by blast
next
  case database
  then show ?case using db_round_lobby by blast
qed

theorem rooms_invariant_witness:
  "\<exists>e. served no_trig \<lparr>extra_rows = (\<lambda>u. ([], [])), name_saved = (\<lambda>u. True)\<rparr> small_server e
     \<and> total_time e = 2000 \<and> lobby_ok e"
proof -
  let ?q = "\<lparr>extra_rows = (\<lambda>u. ([], [])), name_saved = (\<lambda>u. True)\<rparr>"
  let ?e = "small_server\<lparr>total_time := 2000\<rparr>"
  have e: "rooms small_server = []" "rooms_lig small_server = []" by (simp_all add: small_server_def)
  have "udp_recive no_trig 2000 se [] 0 small_server = Some ?e" for se by (simp add: udp_recive_def)
  then have d: "served no_trig ?q small_server ?e" by (rule served.datagram [OF served.start])
  moreover have "run_rooms_step no_trig ?e = Some ?e" using e by (simp add: run_rooms_step_def keys_def)
  ultimately have "served no_trig ?q small_server ?e" by (blast intro: served.turn)
  from rooms_invariant [OF this e] this show ?thesis by (intro exI [of _ ?e]) simp
qed

text \<open>C4. A turn of the rooms removes exactly the rooms that are closed or have been idle for 600
  steps, and brings every other room to the step of the clock, with the users it had; no room
  appears, and the invariant is kept.\<close>

theorem rooms_turn:
  assumes "lobby_ok e" and "run_rooms_step m e = Some e'"
  shows "lobby_ok e' \<and> (case live_room e i of None \<Rightarrow> live_room e' i = None
    | Some r \<Rightarrow>
        if room_is_close r \<or> last_action r + 600 < core_time (game_core r) then live_room e' i = None
        else \<exists>r'. live_room e' i = Some r' \<and> room_users r' = room_users r \<and> room_lig_id r' = room_lig_id r
          \<and> core_time (game_core r') = max (core_time (game_core r)) (get_step_with_time (game_core r) (total_time e)))"
  using rooms_turn_parts(1) [OF assms] rooms_turn_parts(2-4) [OF assms, of i]
  by (auto simp: finished_def turned_def room_same_def split: option.split)

definition small_room :: "int \<Rightarrow> bool \<Rightarrow> Room" where
  "small_room i c = new_Room\<lparr>room_id := i, room_lig_id := 3, game_core := new_GameCore\<lparr>start_time := 1000\<rparr>, room_is_close := c\<rparr>"

definition two_rooms :: MainServer where
  "two_rooms = small_server\<lparr>rooms := [(10, Some (small_room 10 False)), (11, Some (small_room 11 True))],
     rooms_lig := [(3, [10, 11])], game_count := 12\<rparr>"

theorem rooms_turn_witness:
  "\<exists>e'. run_rooms_step no_trig two_rooms = Some e' \<and> live_room e' 11 = None
     \<and> (\<exists>r'. live_room e' 10 = Some r' \<and> core_time (game_core r') = 0)"
proof -
  have core: "core_ok (new_GameCore\<lparr>start_time := 1000\<rparr>)"
    using core_ok_new [where sv = False and s = 1000 and ms = 20] by (simp add: new_GameCore_def)
  have rooms: "live_room two_rooms j = (if j = 10 then Some (small_room 10 False)
      else if j = 11 then Some (small_room 11 True) else None)" for j
    by (simp add: live_room_def two_rooms_def)
  have ok: "lobby_ok two_rooms" unfolding lobby_ok_def rooms using core
    by (auto simp: two_rooms_def league_def index_key_def ordered_def small_room_def new_Room_def split: if_splits)
  have upd: "room_update no_trig 1000 (small_room i b) = Some (small_room i b, \<not> b)" for i b
    by (simp add: room_update_def small_room_def new_Room_def new_GameCore_def get_step_with_time_def c_div_def
        catch_up.simps)
  have users: "room_users (small_room i b) = []" for i b by (simp add: small_room_def new_Room_def)
  have "total_time two_rooms = 1000" by (simp add: two_rooms_def small_server_def)
  then have "\<exists>e'. run_rooms_step no_trig two_rooms = Some e'"
    by (simp add: run_rooms_step_def two_rooms_def keys_def run_room_def upd update_clients_def put_room_def users)
  then obtain e' where e': "run_rooms_step no_trig two_rooms = Some e'" by blast
  from rooms_turn [OF ok e', of 10] rooms_turn [OF ok e', of 11] show ?thesis unfolding rooms using e'
    by (auto simp: small_room_def new_Room_def new_GameCore_def get_step_with_time_def two_rooms_def small_server_def c_div_def)
qed

end
