(* ===== verification/Http.thy ===== *)
theory Http
  imports Prelude
begin

text \<open>
  The HTTP front end, \<open>http/\<close>: the request parser, the replies, the dispatch to the handlers, one
  read of a connection and the set of connections. A string is a list of characters; a \<open>char\<close> of
  the program is signed. Undefined behaviour (overflow of the version numbers, \<open>back\<close> of an
  empty vector) and the exception of a range that ends before it starts are \<open>None\<close>. The JSON
  document of a request is made by the library rapidjson and is no part of the model; the two
  maps of handlers are parameters.
\<close>

section \<open>Requests\<close>

record header =
  name :: string
  val :: string

record request =
  req_method :: string
  uri :: string
  http_version_major :: int
  http_version_minor :: int
  headers :: "header list"
  body :: string

datatype result_type = good | bad | indeterminate

datatype parser_state = method_start | method_state | uri_state | http_version_h | http_version_t_1
  | http_version_t_2 | http_version_p | http_version_slash | http_version_major_start
  | http_version_major_state | http_version_minor_start | http_version_minor_state | expecting_newline_1
  | header_line_start | header_lws | header_name | space_before_header_value | header_value
  | expecting_newline_2 | expecting_newline_3

section \<open>Characters\<close>

definition char_value :: "char \<Rightarrow> int" where
  "char_value c = (let n = of_char c in if n < 128 then n else n - 256)"

definition is_char :: "char \<Rightarrow> bool" where
  "is_char c \<longleftrightarrow> char_value c \<ge> 0 \<and> char_value c \<le> 127"

definition is_ctl :: "char \<Rightarrow> bool" where
  "is_ctl c \<longleftrightarrow> (char_value c \<ge> 0 \<and> char_value c \<le> 31) \<or> char_value c = 127"

definition is_tspecial :: "char \<Rightarrow> bool" where
  "is_tspecial c \<longleftrightarrow> c \<in> set [CHR ''('', CHR '')'', CHR ''<'', CHR ''>'', CHR ''@'', CHR '','', CHR '';'', CHR '':'',
     CHR 0x5C, CHR 0x22, CHR ''/'', CHR ''['', CHR '']'', CHR ''?'', CHR ''='', CHR ''{'', CHR ''}'', CHR '' '', CHR 0x09]"

definition is_digit :: "char \<Rightarrow> bool" where
  "is_digit c \<longleftrightarrow> char_value c \<ge> 48 \<and> char_value c \<le> 57"

text \<open>The condition of four branches of \<open>consume\<close>.\<close>

abbreviation is_token_char :: "char \<Rightarrow> bool" where
  "is_token_char c \<equiv> is_char c \<and> \<not> is_ctl c \<and> \<not> is_tspecial c"

section \<open>The parser\<close>

definition reset :: parser_state where
  "reset = method_start"

text \<open>\<open>v * 10 + input - '0'\<close> in \<open>int\<close>.\<close>

definition next_digit :: "int \<Rightarrow> char \<Rightarrow> int option" where
  "next_digit v c =
     (if in_i32 (v * 10) \<and> in_i32 (v * 10 + char_value c) \<and> in_i32 (v * 10 + char_value c - 48)
      then Some (v * 10 + char_value c - 48) else None)"

definition major_digit :: "char \<Rightarrow> request \<Rightarrow> request option" where
  "major_digit c r = map_option (\<lambda>v. r\<lparr>http_version_major := v\<rparr>) (next_digit (http_version_major r) c)"

definition minor_digit :: "char \<Rightarrow> request \<Rightarrow> request option" where
  "minor_digit c r = map_option (\<lambda>v. r\<lparr>http_version_minor := v\<rparr>) (next_digit (http_version_minor r) c)"

definition push_method :: "char \<Rightarrow> request \<Rightarrow> request option" where
  "push_method c r = Some (r\<lparr>req_method := req_method r @ [c]\<rparr>)"

definition push_uri :: "char \<Rightarrow> request \<Rightarrow> request option" where
  "push_uri c r = Some (r\<lparr>uri := uri r @ [c]\<rparr>)"

definition back_header :: "(header \<Rightarrow> header) \<Rightarrow> request \<Rightarrow> request option" where
  "back_header f r = (if headers r = [] then None
     else Some (r\<lparr>headers := butlast (headers r) @ [f (last (headers r))]\<rparr>))"

definition push_name :: "char \<Rightarrow> request \<Rightarrow> request option" where
  "push_name c = back_header (\<lambda>h. h\<lparr>name := name h @ [c]\<rparr>)"

definition push_value :: "char \<Rightarrow> request \<Rightarrow> request option" where
  "push_value c = back_header (\<lambda>h. h\<lparr>val := val h @ [c]\<rparr>)"

definition push_header :: "char \<Rightarrow> request \<Rightarrow> request option" where
  "push_header c r = push_name c (r\<lparr>headers := headers r @ [\<lparr>name = [], val = []\<rparr>]\<rparr>)"

type_synonym step = "(result_type \<times> parser_state \<times> request) option"

text \<open>\<open>go\<close> to a state and wait for the next character, unless the update is undefined.\<close>

definition go :: "parser_state \<Rightarrow> request option \<Rightarrow> step" where
  "go st = map_option (\<lambda>r. (indeterminate, st, r))"

definition expect :: "char \<Rightarrow> char \<Rightarrow> parser_state \<Rightarrow> parser_state \<Rightarrow> request \<Rightarrow> step" where
  "expect c input st st' r = (if input = c then Some (indeterminate, st', r) else Some (bad, st, r))"

text \<open>The state machine is one \<open>switch\<close>; \<open>consume_header\<close> is its part for the header lines.\<close>

fun consume_header :: "parser_state \<Rightarrow> request \<Rightarrow> char \<Rightarrow> step" where
  "consume_header header_line_start r c =
     (if c = CHR 0x0D then Some (indeterminate, expecting_newline_3, r)
      else if headers r \<noteq> [] \<and> (c = CHR '' '' \<or> c = CHR 0x09) then Some (indeterminate, header_lws, r)
      else if \<not> is_token_char c then Some (bad, header_line_start, r)
      else go header_name (push_header c r))"
| "consume_header header_lws r c =
     (if c = CHR 0x0D then Some (indeterminate, expecting_newline_2, r)
      else if c = CHR '' '' \<or> c = CHR 0x09 then Some (indeterminate, header_lws, r)
      else if is_ctl c then Some (bad, header_lws, r) else go header_value (push_value c r))"
| "consume_header header_name r c =
     (if c = CHR '':'' then Some (indeterminate, space_before_header_value, r)
      else if \<not> is_token_char c then Some (bad, header_name, r) else go header_name (push_name c r))"
| "consume_header space_before_header_value r c = expect CHR '' '' c space_before_header_value header_value r"
| "consume_header header_value r c =
     (if c = CHR 0x0D then Some (indeterminate, expecting_newline_2, r)
      else if is_ctl c then Some (bad, header_value, r) else go header_value (push_value c r))"
| "consume_header expecting_newline_2 r c = expect CHR 0x0A c expecting_newline_2 header_line_start r"
| "consume_header expecting_newline_3 r c = Some (if c = CHR 0x0A then good else bad, expecting_newline_3, r)"
| "consume_header st r c = Some (bad, st, r)"

fun consume :: "parser_state \<Rightarrow> request \<Rightarrow> char \<Rightarrow> step" where
  "consume method_start r c =
     (if \<not> is_token_char c then Some (bad, method_start, r) else go method_state (push_method c r))"
| "consume method_state r c =
     (if c = CHR '' '' then Some (indeterminate, uri_state, r)
      else if \<not> is_token_char c then Some (bad, method_state, r) else go method_state (push_method c r))"
| "consume uri_state r c =
     (if c = CHR '' '' then Some (indeterminate, http_version_h, r)
      else if is_ctl c then Some (bad, uri_state, r) else go uri_state (push_uri c r))"
| "consume http_version_h r c = expect CHR ''H'' c http_version_h http_version_t_1 r"
| "consume http_version_t_1 r c = expect CHR ''T'' c http_version_t_1 http_version_t_2 r"
| "consume http_version_t_2 r c = expect CHR ''T'' c http_version_t_2 http_version_p r"
| "consume http_version_p r c = expect CHR ''P'' c http_version_p http_version_slash r"
| "consume http_version_slash r c =
     (if c = CHR ''/''
      then Some (indeterminate, http_version_major_start, r\<lparr>http_version_major := 0, http_version_minor := 0\<rparr>)
      else Some (bad, http_version_slash, r))"
| "consume http_version_major_start r c =
     (if is_digit c then go http_version_major_state (major_digit c r) else Some (bad, http_version_major_start, r))"
| "consume http_version_major_state r c =
     (if c = CHR ''.'' then Some (indeterminate, http_version_minor_start, r)
      else if is_digit c then go http_version_major_state (major_digit c r) else Some (bad, http_version_major_state, r))"
| "consume http_version_minor_start r c =
     (if is_digit c then go http_version_minor_state (minor_digit c r) else Some (bad, http_version_minor_start, r))"
| "consume http_version_minor_state r c =
     (if c = CHR 0x0D then Some (indeterminate, expecting_newline_1, r)
      else if is_digit c then go http_version_minor_state (minor_digit c r) else Some (bad, http_version_minor_state, r))"
| "consume expecting_newline_1 r c = expect CHR 0x0A c expecting_newline_1 header_line_start r"
| "consume st r c = consume_header st r c"

text \<open>The result, what is left of the input, the state of the parser and the request.\<close>

fun parse :: "parser_state \<Rightarrow> request \<Rightarrow> string \<Rightarrow> (result_type \<times> string \<times> parser_state \<times> request) option" where
  "parse st r [] = Some (indeterminate, [], st, r)"
| "parse st r (c # cs) = do {
     (result, st, r) \<leftarrow> consume st r c;
     if result = good \<or> result = bad then Some (result, cs, st, r) else parse st r cs }"

section \<open>Replies\<close>

datatype status_type = ok | created | accepted | no_content | multiple_choices
  | moved_permanently | moved_temporarily | not_modified | bad_request | unauthorized
  | forbidden | not_found | internal_server_error | not_implemented | bad_gateway
  | service_unavailable

fun status_code :: "status_type \<Rightarrow> int" where
  "status_code ok = 200"
| "status_code created = 201"
| "status_code accepted = 202"
| "status_code no_content = 204"
| "status_code multiple_choices = 300"
| "status_code moved_permanently = 301"
| "status_code moved_temporarily = 302"
| "status_code not_modified = 304"
| "status_code bad_request = 400"
| "status_code unauthorized = 401"
| "status_code forbidden = 403"
| "status_code not_found = 404"
| "status_code internal_server_error = 500"
| "status_code not_implemented = 501"
| "status_code bad_gateway = 502"
| "status_code service_unavailable = 503"

text \<open>The \<open>status\<close> of a reply is a number: it is whatever the memory held until it is set.\<close>

record reply =
  status :: int
  reply_headers :: "header list"
  content :: string

definition crlf :: string where
  "crlf = [CHR 0x0D, CHR 0x0A]"

fun status_line :: "status_type \<Rightarrow> string" where
  "status_line ok = ''200 OK''"
| "status_line created = ''201 Created''"
| "status_line accepted = ''202 Accepted''"
| "status_line no_content = ''204 No Content''"
| "status_line multiple_choices = ''300 Multiple Choices''"
| "status_line moved_permanently = ''301 Moved Permanently''"
| "status_line moved_temporarily = ''302 Moved Temporarily''"
| "status_line not_modified = ''304 Not Modified''"
| "status_line bad_request = ''400 Bad Request''"
| "status_line unauthorized = ''401 Unauthorized''"
| "status_line forbidden = ''403 Forbidden''"
| "status_line not_found = ''404 Not Found''"
| "status_line internal_server_error = ''500 Internal Server Error''"
| "status_line not_implemented = ''501 Not Implemented''"
| "status_line bad_gateway = ''502 Bad Gateway''"
| "status_line service_unavailable = ''503 Service Unavailable''"

definition all_status :: "status_type list" where
  "all_status = [ok, created, accepted, no_content, multiple_choices, moved_permanently, moved_temporarily,
     not_modified, bad_request, unauthorized, forbidden, not_found, internal_server_error, not_implemented,
     bad_gateway, service_unavailable]"

definition to_buffer :: "int \<Rightarrow> string" where
  "to_buffer s = ''HTTP/1.0 '' @ status_line (case List.find (\<lambda>t. status_code t = s) all_status of
     Some t \<Rightarrow> t | None \<Rightarrow> internal_server_error) @ crlf"

definition to_buffers :: "reply \<Rightarrow> string list" where
  "to_buffers r = [to_buffer (status r)]
     @ concat (map (\<lambda>h. [name h, '': '', val h, crlf]) (reply_headers r)) @ [crlf, content r]"

definition stock_page :: "string \<Rightarrow> string \<Rightarrow> string" where
  "stock_page title h1 =
     ''<html>'' @ ''<head><title>'' @ title @ ''</title></head>'' @ ''<body><h1>'' @ h1 @ ''</h1></body>'' @ ''</html>''"

fun stock_content :: "status_type \<Rightarrow> string" where
  "stock_content ok = []"
| "stock_content created = stock_page ''Created'' ''201 Created''"
| "stock_content accepted = stock_page ''Accepted'' ''202 Accepted''"
| "stock_content no_content = stock_page ''No Content'' ''204 Content''"
| "stock_content multiple_choices = stock_page ''Multiple Choices'' ''300 Multiple Choices''"
| "stock_content moved_permanently = stock_page ''Moved Permanently'' ''301 Moved Permanently''"
| "stock_content moved_temporarily = stock_page ''Moved Temporarily'' ''302 Moved Temporarily''"
| "stock_content not_modified = stock_page ''Not Modified'' ''304 Not Modified''"
| "stock_content bad_request = stock_page ''Bad Request'' ''400 Bad Request''"
| "stock_content unauthorized = stock_page ''Unauthorized'' ''401 Unauthorized''"
| "stock_content forbidden = stock_page ''Forbidden'' ''403 Forbidden''"
| "stock_content not_found = stock_page ''Not Found'' ''404 Not Found''"
| "stock_content internal_server_error = stock_page ''Internal Server Error'' ''500 Internal Server Error''"
| "stock_content not_implemented = stock_page ''Not Implemented'' ''501 Not Implemented''"
| "stock_content bad_gateway = stock_page ''Bad Gateway'' ''502 Bad Gateway''"
| "stock_content service_unavailable = stock_page ''Service Unavailable'' ''503 Service Unavailable''"

fun digits_of :: "nat \<Rightarrow> string" where
  "digits_of n = (if n < 10 then [] else digits_of (n div 10)) @ [char_of (48 + n mod 10)]"

declare digits_of.simps [simp del]

definition new_reply :: "status_type \<Rightarrow> string \<Rightarrow> string \<Rightarrow> reply" where
  "new_reply s text mime = \<lparr>status = status_code s,
     reply_headers = [\<lparr>name = ''Content-Length'', val = digits_of (length text)\<rparr>,
       \<lparr>name = ''Content-Type'', val = mime\<rparr>], content = text\<rparr>"

definition stock_reply :: "status_type \<Rightarrow> reply" where
  "stock_reply s = new_reply s (stock_content s) ''text/html''"

text \<open>\<open>s\<close> is the text rapidjson writes for the value.\<close>

definition stock_json :: "string \<Rightarrow> reply" where
  "stock_json s = new_reply ok s ''aplication/json''"

section \<open>Connections\<close>

text \<open>
  \<open>handlers2\<close> get the pointer to the connection, to answer later: they are functions on the pointer, the request
  and the state \<open>w\<close> of the program around the connection.
\<close>

record connection =
  con_request :: request
  con_parser :: parser_state
  con_reply :: reply

datatype next_step = do_write | do_read_more | wait

definition handle_request :: "(string \<Rightarrow> (request \<Rightarrow> reply) option) \<Rightarrow> (string \<Rightarrow> ('p \<Rightarrow> request \<Rightarrow> 'w \<Rightarrow> 'w) option)
    \<Rightarrow> 'p \<Rightarrow> connection \<times> 'w \<Rightarrow> bool \<times> connection \<times> 'w" where
  "handle_request handlers handlers2 c = (\<lambda>(con, w).
     let req = con_request con
     in case handlers (uri req) of
          Some f \<Rightarrow> (True, con\<lparr>con_reply := f req\<rparr>, w)
        | None \<Rightarrow> (case handlers2 (uri req) of
            Some f \<Rightarrow> (False, con, f c req w)
          | None \<Rightarrow> (True, con, w)))"

text \<open>\<open>find\<close>: the position of the first match, or -1 when the result is stored in an \<open>int\<close>.\<close>

fun find_text :: "string \<Rightarrow> string \<Rightarrow> nat \<Rightarrow> int" where
  "find_text t [] i = (if t = [] then int i else - 1)"
| "find_text t (c # cs) i = (if take (length t) (c # cs) = t then int i else find_text t cs (i + 1))"

definition body_of :: "string \<Rightarrow> string option" where
  "body_of s =
     (let x = find_text (crlf @ crlf) s 0
      in if x + 4 \<le> int (length s) then Some (drop (nat (x + 4)) s) else None)"

definition on_read :: "(string \<Rightarrow> (request \<Rightarrow> reply) option) \<Rightarrow> (string \<Rightarrow> ('p \<Rightarrow> request \<Rightarrow> 'w \<Rightarrow> 'w) option)
    \<Rightarrow> 'p \<Rightarrow> string \<Rightarrow> connection \<times> 'w \<Rightarrow> (next_step \<times> connection \<times> 'w) option" where
  "on_read handlers handlers2 c s = (\<lambda>(con, w). do {
     b \<leftarrow> body_of s;
     (result, rest, st, req) \<leftarrow> parse (con_parser con) (con_request con\<lparr>body := b\<rparr>) s;
     let con = con\<lparr>con_request := req, con_parser := st\<rparr>;
     case result of
       good \<Rightarrow> (let (answered, conw) = handle_request handlers handlers2 c (con, w)
                in Some (if answered then do_write else wait, conw))
     | bad \<Rightarrow> Some (do_write, con\<lparr>con_reply := stock_reply bad_request\<rparr>, w)
     | indeterminate \<Rightarrow> Some (do_read_more, con, w) })"

text \<open>The connections that are open, and those whose socket was closed.\<close>

record connection_manager =
  connections :: "nat list"
  closed :: "nat list"

definition start :: "nat \<Rightarrow> connection_manager \<Rightarrow> connection_manager" where
  "start c m = m\<lparr>connections := List.insert c (connections m)\<rparr>"

definition stop :: "nat \<Rightarrow> connection_manager \<Rightarrow> connection_manager" where
  "stop c m = m\<lparr>connections := removeAll c (connections m), closed := closed m @ [c]\<rparr>"

definition stop_all :: "connection_manager \<Rightarrow> connection_manager" where
  "stop_all m = m\<lparr>connections := [], closed := closed m @ connections m\<rparr>"

end
