(* ===== verification/Front.thy ===== *)
theory Front
  imports Turns Http
begin

text \<open>
  The program as \<open>main\<close> of \<open>server_delegator.cpp\<close> puts it together: the HTTP server of \<open>http/server.cpp\<close>
  with its two handlers, next to the game server, whose job queue makes the registrations. A connection
  object lives as long as the connection manager holds it; a queued registration holds a raw pointer to
  it. The texts rapidjson reads and writes are the parameters \<open>json\<close>.
\<close>

section \<open>JSON values\<close>

datatype MJsonValue = INT int | LONG int | STRING "byte list" | BOOL bool | OBJECT

type_synonym members = "(string \<times> MJsonValue) list"

text \<open>An object within an object is not added.\<close>

fun add_to :: "string \<times> MJsonValue \<Rightarrow> members \<Rightarrow> members" where
  "add_to (k, OBJECT) js = js"
| "add_to (k, v) js = js @ [(k, v)]"

definition create :: "(string \<times> MJsonValue) list \<Rightarrow> members" where
  "create vec = fold add_to vec []"

text \<open>The cookie of a response is never set: \<open>new RegisterResponse()\<close> makes it zero.\<close>

definition getJson :: "RegisterResponse \<Rightarrow> members" where
  "getJson r = create [(''done'', BOOL (rr_done r)), (''userId'', LONG (rr_userId r)), (''cookie'', LONG 0),
     (''pass'', STRING (rr_pass r))]"

definition loadFromJson :: "members \<Rightarrow> RegisterResponse option" where
  "loadFromJson js = (case (map_of js ''done'', map_of js ''userId'', map_of js ''cookie'', map_of js ''pass'') of
     (Some (BOOL d), Some (LONG i), Some (LONG c), Some (STRING p)) \<Rightarrow>
       Some \<lparr>rr_done = d, rr_userId = i, rr_pass = c_str p\<rparr>
   | _ \<Rightarrow> None)"

record json =
  json_text :: "members \<Rightarrow> string"
  json_copy :: "string \<Rightarrow> string"

section \<open>State\<close>

text \<open>What a connection waits for: a read, the job of a registration, or the end of a write.\<close>

datatype phase = Reading | Waiting | Writing

record Front =
  front_server :: MainServer
  front_manager :: connection_manager
  front_cons :: "nat \<rightharpoonup> connection"
  front_phase :: "nat \<rightharpoonup> phase"
  next_con :: nat
  front_jobs :: "nat list"
  front_sent :: "(nat \<times> reply) list"

definition new_Front :: "MainServer \<Rightarrow> Front" where
  "new_Front e = \<lparr>front_server = e, front_manager = \<lparr>connections = [], closed = []\<rparr>, front_cons = Map.empty,
     front_phase = Map.empty, next_con = 0, front_jobs = [], front_sent = []\<rparr>"

section \<open>Handlers\<close>

text \<open>The handler of \<open>/register\<close> queues a job, which keeps the pointer to the connection.\<close>

definition handlers :: "json \<Rightarrow> string \<Rightarrow> (request \<Rightarrow> reply) option" where
  "handlers js u = (if u = ''/unit-test/echo'' then Some (\<lambda>req. stock_json (json_copy js (body req))) else None)"

definition handlers2 :: "string \<Rightarrow> (nat \<Rightarrow> request \<Rightarrow> Front \<Rightarrow> Front) option" where
  "handlers2 u = (if u = ''/register'' then Some (\<lambda>c req f. f\<lparr>front_jobs := front_jobs f @ [c]\<rparr>) else None)"

section \<open>Connections\<close>

text \<open>The members without initialiser keep what the memory held: the version numbers and the reply.\<close>

definition new_connection :: "int \<Rightarrow> int \<Rightarrow> reply \<Rightarrow> connection" where
  "new_connection i j r = \<lparr>con_request = \<lparr>req_method = [], uri = [], http_version_major = i, http_version_minor = j,
     headers = [], body = []\<rparr>, con_parser = reset, con_reply = r\<rparr>"

definition do_accept :: "connection \<Rightarrow> Front \<Rightarrow> Front" where
  "do_accept con f = (let c = next_con f in
     f\<lparr>front_manager := start c (front_manager f), front_cons := (front_cons f)(c \<mapsto> con),
       front_phase := (front_phase f)(c \<mapsto> Reading), next_con := c + 1\<rparr>)"

definition stop_connection :: "nat \<Rightarrow> Front \<Rightarrow> Front" where
  "stop_connection c f = f\<lparr>front_manager := stop c (front_manager f), front_cons := (front_cons f)(c := None),
     front_phase := (front_phase f)(c := None)\<rparr>"

definition start_write :: "nat \<Rightarrow> connection \<Rightarrow> Front \<Rightarrow> Front" where
  "start_write c con f = f\<lparr>front_cons := (front_cons f)(c \<mapsto> con), front_phase := (front_phase f)(c \<mapsto> Writing),
     front_sent := front_sent f @ [(c, con_reply con)]\<rparr>"

definition do_read :: "json \<Rightarrow> string \<Rightarrow> nat \<Rightarrow> Front \<Rightarrow> Front option" where
  "do_read js s c f = do {
     con \<leftarrow> front_cons f c;
     (step, con, f) \<leftarrow> on_read (handlers js) handlers2 c s (con, f);
     Some (case step of
       do_write \<Rightarrow> start_write c con f
     | do_read_more \<Rightarrow> f\<lparr>front_cons := (front_cons f)(c \<mapsto> con)\<rparr>
     | wait \<Rightarrow> f\<lparr>front_cons := (front_cons f)(c \<mapsto> con), front_phase := (front_phase f)(c \<mapsto> Waiting)\<rparr>) }"

text \<open>The first registration in the queue is made and its callback writes to the connection.\<close>

definition run_registration :: "json \<Rightarrow> int option \<Rightarrow> ptr \<Rightarrow> Front \<Rightarrow> Front option" where
  "run_registration js ins tcp f = (case front_jobs f of
     [] \<Rightarrow> Some f
   | c # cs \<Rightarrow> do {
       (e, r) \<leftarrow> RegisterJob_do_job ins tcp (front_server f);
       con \<leftarrow> front_cons f c;
       Some (start_write c (con\<lparr>con_reply := stock_json (json_text js (getJson r))\<rparr>)
         (f\<lparr>front_server := e, front_jobs := cs\<rparr>)) })"

definition shut_down :: "Front \<Rightarrow> Front" where
  "shut_down f = f\<lparr>front_manager := stop_all (front_manager f), front_cons := Map.empty, front_phase := Map.empty\<rparr>"

section \<open>Runs\<close>

text \<open>
  The events up to the signal that shuts the program down. Only a connection that is reading is read
  from or found closed, and only one that is writing ends its write.
\<close>

inductive front_run :: "libm \<Rightarrow> sql_answers \<Rightarrow> json \<Rightarrow> MainServer \<Rightarrow> Front \<Rightarrow> bool" for m q js e0 where
  fresh: "front_run m q js e0 (new_Front e0)"
| accept: "front_run m q js e0 f \<Longrightarrow> front_run m q js e0 (do_accept (new_connection i j r) f)"
| read: "front_run m q js e0 f \<Longrightarrow> front_phase f c = Some Reading \<Longrightarrow> do_read js s c f = Some f' \<Longrightarrow> front_run m q js e0 f'"
| gone: "front_run m q js e0 f \<Longrightarrow> front_phase f c = Some Reading \<Longrightarrow> front_run m q js e0 (stop_connection c f)"
| written: "front_run m q js e0 f \<Longrightarrow> front_phase f c = Some Writing \<Longrightarrow> front_run m q js e0 (stop_connection c f)"
| job: "front_run m q js e0 f \<Longrightarrow> run_registration js ins tcp f = Some f' \<Longrightarrow> front_run m q js e0 f'"
| other: "front_run m q js e0 f \<Longrightarrow> served m q (front_server f) e \<Longrightarrow> front_run m q js e0 (f\<lparr>front_server := e\<rparr>)"

definition replies :: "nat \<Rightarrow> Front \<Rightarrow> nat" where
  "replies c f = length (filter (\<lambda>p. fst p = c) (front_sent f))"

definition front_ok :: "Front \<Rightarrow> bool" where
  "front_ok f \<longleftrightarrow> distinct (front_jobs f) \<and> (\<forall>c. c \<in> set (front_jobs f) \<longleftrightarrow> front_phase f c = Some Waiting)
     \<and> dom (front_cons f) = dom (front_phase f) \<and> set (connections (front_manager f)) = dom (front_phase f)
     \<and> (\<forall>c. front_phase f c \<noteq> None \<longrightarrow> c < next_con f)
     \<and> (\<forall>c. replies c f \<le> (if c < next_con f \<and> front_phase f c \<notin> {Some Reading, Some Waiting} then 1 else 0))"

lemma front_ok_new: "front_ok (new_Front e)"
  by (simp add: front_ok_def new_Front_def replies_def)

lemma front_ok_accept: "front_ok f \<Longrightarrow> front_ok (do_accept con f)"
  by (auto simp: front_ok_def do_accept_def Let_def start_def replies_def less_Suc_eq split: if_splits)

lemma front_ok_stop:
  "front_ok f \<Longrightarrow> front_phase f c \<in> {Some Reading, Some Writing} \<Longrightarrow> front_ok (stop_connection c f)"
  by (auto simp: front_ok_def stop_connection_def stop_def replies_def split: if_splits)

lemma front_ok_write:
  assumes "front_ok f" and "front_phase f c = Some Reading"
  shows "front_ok (start_write c con f)"
  using assms by (auto simp: front_ok_def start_write_def replies_def split: if_splits)

text \<open>The connection waits exactly if a job was queued for it.\<close>

lemma on_read_cases:
  assumes "on_read (handlers js) handlers2 c s (con, f) = Some (step, con', f')"
  shows "step = wait \<and> f' = f\<lparr>front_jobs := front_jobs f @ [c]\<rparr> \<or> step \<noteq> wait \<and> f' = f"
proof -
  obtain b res rest st req where p: "body_of s = Some b"
    "parse (con_parser con) (con_request con\<lparr>body := b\<rparr>) s = Some (res, rest, st, req)"
    using assms by (auto simp: on_read_def bind_Some_iff)
  show ?thesis
  proof (cases res)
    case good
    then show ?thesis using assms p by (auto simp: on_read_def handle_request_def handlers_def handlers2_def Let_def split: if_splits)
  qed (use assms p in \<open>auto simp: on_read_def\<close>)
qed

lemma front_ok_read:
  assumes "front_ok f" and "front_phase f c = Some Reading" and "do_read js s c f = Some f'"
  shows "front_ok f'"
proof -
  obtain con con' step f1 where r: "front_cons f c = Some con" "on_read (handlers js) handlers2 c s (con, f) = Some (step, con', f1)"
    and f': "f' = (case step of
       do_write \<Rightarrow> start_write c con' f1
     | do_read_more \<Rightarrow> f1\<lparr>front_cons := (front_cons f1)(c \<mapsto> con')\<rparr>
     | wait \<Rightarrow> f1\<lparr>front_cons := (front_cons f1)(c \<mapsto> con'), front_phase := (front_phase f1)(c \<mapsto> Waiting)\<rparr>)"
    using assms(3) by (auto simp: do_read_def bind_Some_iff)
  note f1 = on_read_cases [OF r(2)]
  show ?thesis
  proof (cases step)
    case do_write
    then show ?thesis using f' f1 front_ok_write [OF assms(1,2)] by simp
  next
    case do_read_more
    then show ?thesis using f' f1 assms(1) r(1) by (auto simp: front_ok_def replies_def)
  next
    case wait
    then show ?thesis using f' f1 assms(1,2) by (auto simp: front_ok_def replies_def split: if_splits)
  qed
qed

lemma front_ok_job:
  assumes "front_ok f" and "run_registration js ins tcp f = Some f'"
  shows "front_ok f'"
proof (cases "front_jobs f")
  case Nil
  then show ?thesis using assms by (simp add: run_registration_def)
next
  case (Cons c cs)
  then obtain e r con where "front_cons f c = Some con"
    "f' = start_write c (con\<lparr>con_reply := stock_json (json_text js (getJson r))\<rparr>) (f\<lparr>front_server := e, front_jobs := cs\<rparr>)"
    using assms(2) by (auto simp: run_registration_def bind_Some_iff)
  moreover have "front_phase f c = Some Waiting" using assms(1) Cons by (auto simp: front_ok_def)
  then have "c < next_con f" using assms(1) unfolding front_ok_def by blast
  ultimately show ?thesis using assms(1) Cons by (auto simp: front_ok_def start_write_def replies_def split: if_splits)
qed

lemma front_run_ok: "front_run m q js e0 f \<Longrightarrow> front_ok f"
proof (induction rule: front_run.induct)
  case (other f e)
  then show ?case by (simp add: front_ok_def replies_def)
qed (auto intro: front_ok_new front_ok_accept front_ok_stop front_ok_read front_ok_job)

section \<open>Registering over HTTP\<close>

lemma json_back: "c_str (rr_pass r) = rr_pass r \<Longrightarrow> loadFromJson (getJson r) = Some r"
  by (simp add: loadFromJson_def getJson_def create_def)

lemma push_login:
  assumes "ordered (users (database e))"
  shows "map_option ud_id (login (database (users_with_id_push i p e)) uid pw) = map_option ud_id (login (database e) uid pw)"
  using assms by (auto simp: users_with_id_push_def login_def get_user_data_by_id_def put_user_def find_key_set_key split: option.split)

lemma registration_logins:
  assumes "ordered (users (database e))" and "in_i32 (max_user_id (database e))"
  shows "\<exists>e' r. RegisterJob_do_job ins tcp e = Some (e', r) \<and> rr_done r \<and> c_str (rr_pass r) = rr_pass r
    \<and> map_option ud_id (login (database e') (rr_userId r) (rr_pass r)) = Some (rr_userId r)
    \<and> (\<forall>uid pw. uid \<noteq> rr_userId r \<longrightarrow> map_option ud_id (login (database e') uid pw) = map_option ud_id (login (database e) uid pw))"
proof -
  let ?g = "get_random_long_long e"
  let ?e = "fst ?g"
  have db: "database ?e = database e" by (simp add: get_random_long_long_def rand_def Let_def)
  obtain d r u where d: "register_user (snd ?g) ins (database e) = Some (d, r)"
    "d = put_user u (rr_userId r) ((database e)\<lparr>max_user_id := to_i32 (rr_userId r + 1)\<rparr>)"
    "c_str (ud_pass u) = rr_pass r" "ud_id u = rr_userId r"
    using register_user_total [OF assms(2), of "snd ?g" ins] by auto
  have ok: "rr_done r" using d(1) by (auto simp: register_user_def bind_Some_iff Let_def)
  have pass: "c_str (rr_pass r) = rr_pass r" using d(3) c_str_idem by metis
  have ordered: "ordered (users d)" using assms(1) by (simp add: d(2) put_user_def ordered_set_key)
  let ?c = "create_port (?e\<lparr>database := d\<rparr>)"
  obtain p where p: "port_at (fst ?c) (snd ?c) = Some p" by (simp add: create_port_def port_at_def)
  let ?e1 = "put_port (snd ?c) (p\<lparr>tcp_connection := tcp, cookie := 0, user_data := Some (rr_userId r)\<rparr>) (fst ?c)"
  have run: "RegisterJob_do_job ins tcp e = Some (users_with_id_push (rr_userId r) (Some (snd ?c)) ?e1, r)"
    using d(1) ok p db by (simp add: RegisterJob_do_job_def Let_def case_prod_beta)
  have db1: "database ?e1 = d" by (simp add: put_port_def create_port_def)
  have after: "map_option ud_id (login (database (users_with_id_push (rr_userId r) (Some (snd ?c)) ?e1)) uid pw)
      = map_option ud_id (login d uid pw)" for uid pw
    using push_login [of ?e1] ordered db1 by simp
  have "map_option ud_id (login d (rr_userId r) (rr_pass r)) = Some (rr_userId r)"
    and same: "uid \<noteq> rr_userId r \<Longrightarrow> login d uid pw = login (database e) uid pw" for uid pw
    using d pass assms(1) by (auto simp: login_def get_user_data_by_id_def put_user_def find_key_set_key)
  then show ?thesis using run ok pass after same by metis
qed

section \<open>Properties\<close>

text \<open>C19. Until the program is shut down every connection is given at most one reply; a registration in
  the queue belongs to one connection, which the manager still holds and which has no reply yet, so its
  pointer is valid when the job runs.\<close>

theorem one_reply:
  assumes "front_run m q js e0 f"
  shows "length (filter (\<lambda>p. fst p = c) (front_sent f)) \<le> 1 \<and> distinct (front_jobs f)
    \<and> (c \<in> set (front_jobs f) \<longrightarrow> c \<in> set (connections (front_manager f)) \<and> front_cons f c \<noteq> None
        \<and> c \<notin> fst ` set (front_sent f))"
proof -
  have ok: "front_ok f" by (rule front_run_ok [OF assms])
  then have bound: "replies c f \<le> (if c < next_con f \<and> front_phase f c \<notin> {Some Reading, Some Waiting} then 1 else 0)"
    unfolding front_ok_def by blast
  then have "replies c f \<le> 1" by (simp split: if_splits)
  moreover have "c \<notin> fst ` set (front_sent f)" if "c \<in> set (front_jobs f)"
  proof -
    have "front_phase f c = Some Waiting" using ok that by (simp add: front_ok_def)
    then have "replies c f = 0" using bound by simp
    then show ?thesis by (auto simp: replies_def filter_empty_conv)
  qed
  ultimately show ?thesis using ok by (auto simp: front_ok_def replies_def)
qed

text \<open>C5. A request for \<open>/register\<close> on an open connection is answered only when its job has run: with the
  page that holds the JSON of the response, from which a client reads the id and the password it can log
  in with; all other logins are as before.\<close>

theorem http_registration:
  assumes "front_cons f c = Some con" and "front_jobs f = []" and "body_of s = Some b"
    and "parse (con_parser con) (con_request con\<lparr>body := b\<rparr>) s = Some (good, rest, st, req)" and "uri req = ''/register''"
    and "ordered (users (database (front_server f)))" and "in_i32 (max_user_id (database (front_server f)))"
  shows "\<exists>f1 f2 r. do_read js s c f = Some f1 \<and> front_sent f1 = front_sent f \<and> run_registration js ins tcp f1 = Some f2
    \<and> front_sent f2 = front_sent f @ [(c, stock_json (json_text js (getJson r)))] \<and> loadFromJson (getJson r) = Some r
    \<and> map_option ud_id (login (database (front_server f2)) (rr_userId r) (rr_pass r)) = Some (rr_userId r)
    \<and> (\<forall>uid pw. uid \<noteq> rr_userId r \<longrightarrow> map_option ud_id (login (database (front_server f2)) uid pw)
        = map_option ud_id (login (database (front_server f)) uid pw))"
proof -
  let ?con = "con\<lparr>con_request := req, con_parser := st\<rparr>"
  let ?f1 = "f\<lparr>front_cons := (front_cons f)(c \<mapsto> ?con), front_phase := (front_phase f)(c \<mapsto> Waiting), front_jobs := front_jobs f @ [c]\<rparr>"
  have "on_read (handlers js) handlers2 c s (con, f) = Some (wait, ?con, f\<lparr>front_jobs := front_jobs f @ [c]\<rparr>)"
    using assms(3-5) by (simp add: on_read_def handle_request_def handlers_def handlers2_def Let_def)
  then have 1: "do_read js s c f = Some ?f1" using assms(1) by (simp add: do_read_def)
  obtain e' r where e': "RegisterJob_do_job ins tcp (front_server f) = Some (e', r)" "c_str (rr_pass r) = rr_pass r"
    "map_option ud_id (login (database e') (rr_userId r) (rr_pass r)) = Some (rr_userId r)"
    "\<forall>uid pw. uid \<noteq> rr_userId r \<longrightarrow> map_option ud_id (login (database e') uid pw)
      = map_option ud_id (login (database (front_server f)) uid pw)"
    using registration_logins [OF assms(6,7), of ins tcp] by blast
  let ?f2 = "start_write c (?con\<lparr>con_reply := stock_json (json_text js (getJson r))\<rparr>) (?f1\<lparr>front_server := e', front_jobs := []\<rparr>)"
  have 2: "run_registration js ins tcp ?f1 = Some ?f2" using e'(1) assms(2) by (simp add: run_registration_def)
  have "front_sent ?f2 = front_sent f @ [(c, stock_json (json_text js (getJson r)))]" "front_server ?f2 = e'"
    by (simp_all add: start_write_def)
  with 1 2 e'(3,4) json_back [OF e'(2)] show ?thesis
    by (intro exI [of _ ?f1] exI [of _ ?f2] exI [of _ r]) simp
qed

text \<open>After a shutdown the pointer of a queued registration is invalid.\<close>

lemma registration_after_shut_down:
  "front_jobs f = c # cs \<Longrightarrow> run_registration js ins tcp (shut_down f) = None"
  by (auto simp: run_registration_def shut_down_def bind_eq_None_conv)

definition small_json :: json where
  "small_json = \<lparr>json_text = (\<lambda>js. ''{}''), json_copy = (\<lambda>s. s)\<rparr>"

definition small_front :: Front where
  "small_front = do_accept (new_connection 0 0 (stock_reply ok)) (new_Front small_server)"

definition register_text :: string where
  "register_text = ''POST /register HTTP/1.1'' @ crlf @ crlf @ ''{}''"

lemma small_front:
  "front_cons small_front 0 = Some (new_connection 0 0 (stock_reply ok))" "front_jobs small_front = []"
  "front_server small_front = small_server" "front_sent small_front = []" "front_phase small_front 0 = Some Reading"
  by (simp_all add: small_front_def do_accept_def new_Front_def Let_def)

lemma small_request:
  obtains rest st req where "body_of register_text = Some ''{}''" and "uri req = ''/register''"
    and "parse (con_parser (new_connection 0 0 (stock_reply ok))) (con_request (new_connection 0 0 (stock_reply ok))\<lparr>body := ''{}''\<rparr>)
      register_text = Some (good, rest, st, req)"
proof -
  let ?con = "new_connection 0 0 (stock_reply ok)"
  have "body_of register_text = Some ''{}''"
    "map_option (\<lambda>(res, rest, st, req). (res, uri req)) (parse (con_parser ?con) (con_request ?con\<lparr>body := ''{}''\<rparr>) register_text)
       = Some (good, ''/register'')"
    by code_simp+
  then show ?thesis using that by (auto split: prod.splits)
qed

theorem one_reply_witness:
  "\<exists>f. do_read small_json register_text 0 small_front = Some f \<and> 0 \<in> set (connections (front_manager f))
     \<and> front_cons f 0 \<noteq> None \<and> 0 \<notin> fst ` set (front_sent f)"
proof -
  let ?q = "\<lparr>extra_rows = (\<lambda>i. ([], [])), name_saved = (\<lambda>i. True)\<rparr>"
  obtain f where f: "do_read small_json register_text 0 small_front = Some f" "front_jobs f = [0]"
  proof (rule small_request)
    fix rest st req
    assume r: "body_of register_text = Some ''{}''" "uri req = ''/register''"
      "parse (con_parser (new_connection 0 0 (stock_reply ok))) (con_request (new_connection 0 0 (stock_reply ok))\<lparr>body := ''{}''\<rparr>)
        register_text = Some (good, rest, st, req)"
    then show thesis using that small_front(1,2)
      by (simp add: do_read_def on_read_def handle_request_def handlers_def handlers2_def Let_def)
  qed
  have "front_run no_trig ?q small_json small_server small_front"
    unfolding small_front_def by (intro front_run.intros)
  from front_run.read [OF this small_front(5) f(1)] have "front_run no_trig ?q small_json small_server f" .
  from one_reply [OF this, of 0] f show ?thesis by auto
qed

theorem http_registration_witness:
  "\<exists>f1 f2 (r :: RegisterResponse). do_read small_json register_text 0 small_front = Some f1 \<and> run_registration small_json (Some 7) None f1 = Some f2
     \<and> front_sent f2 = [(0, stock_json ''{}'')]
     \<and> map_option ud_id (login (database (front_server f2)) (rr_userId r) (rr_pass r)) = Some (rr_userId r)"
proof -
  obtain rest st req where p: "body_of register_text = Some ''{}''" "uri req = ''/register''"
    "parse (con_parser (new_connection 0 0 (stock_reply ok))) (con_request (new_connection 0 0 (stock_reply ok))\<lparr>body := ''{}''\<rparr>)
      register_text = Some (good, rest, st, req)" by (rule small_request)
  have db: "in_i32 (max_user_id (database small_server))" "ordered (users (database small_server))"
    by (simp_all add: small_server_def put_user_def empty_DB_def in_i32_def ordered_def)
  obtain f1 f2 r where run: "do_read small_json register_text 0 small_front = Some f1" "run_registration small_json (Some 7) None f1 = Some f2"
    "front_sent f2 = front_sent small_front @ [(0, stock_json (json_text small_json (getJson r)))]"
    "map_option ud_id (login (database (front_server f2)) (rr_userId r) (rr_pass r)) = Some (rr_userId r)"
    using http_registration [OF small_front(1,2) p(1,3,2), of small_json "Some 7" None, unfolded small_front(3), OF db(2,1)] by blast
  have "front_sent f2 = [(0, stock_json ''{}'')]" using run(3) small_front(4) by (simp add: small_json_def)
  then show ?thesis using run(1,2,4) by blast
qed

end
