(* ===== verification/HttpParse.thy ===== *)
theory HttpParse
  imports Http
begin

text \<open>
  The language of the request parser: which texts \<open>request_parser::parse\<close> accepts and what request
  they give, and what holds of every request it makes, also of half-read ones.
\<close>

section \<open>Loops of the parser\<close>

text \<open>
  The contract of a state that reads characters up to a delimiter. Such a state accepts a text
  exactly if the next state accepts what follows the first delimiter.
\<close>

locale char_loop =
  fixes here after :: parser_state and delim :: char
    and keep :: "char \<Rightarrow> bool" and upd :: "char \<Rightarrow> request \<Rightarrow> request option"
  assumes leave: "consume here r delim = Some (indeterminate, after, r)"
    and stay: "keep c \<Longrightarrow> consume here r c = go here (upd c r)"
    and refuse: "c \<noteq> delim \<Longrightarrow> \<not> keep c \<Longrightarrow> consume here r c = Some (bad, here, r)"
    and delim_ends: "\<not> keep delim"
begin

lemma scan_forward:
  "\<forall>c \<in> set t. keep c \<Longrightarrow> for_each upd t r = Some r1 \<Longrightarrow> parse here r (t @ delim # cs) = parse after r1 cs"
proof (induction t arbitrary: r)
  case (Cons c t)
  then obtain r2 where "upd c r = Some r2" "for_each upd t r2 = Some r1" by (auto simp: bind_Some_iff)
  then show ?case using Cons stay [of c r] by (simp add: go_def)
qed (simp add: leave)

lemma scan_back:
  "parse here r input = Some (good, rest, st, r') \<Longrightarrow> \<exists>t cs r1. input = t @ delim # cs \<and> (\<forall>c \<in> set t. keep c)
     \<and> for_each upd t r = Some r1 \<and> parse after r1 cs = Some (good, rest, st, r')"
proof (induction input arbitrary: r)
  case (Cons c cs)
  consider "c = delim" | "keep c" | "c \<noteq> delim" "\<not> keep c" by blast
  then show ?case
  proof cases
    case 1
    then have "parse after r cs = Some (good, rest, st, r')" using Cons.prems leave by simp
    then show ?thesis using 1 by (intro exI [of _ "[]"] exI [of _ cs] exI [of _ r]) simp
  next
    case 2
    then obtain r2 where r2: "upd c r = Some r2" "parse here r2 cs = Some (good, rest, st, r')"
      using Cons.prems stay [OF 2, of r] by (auto simp: go_def bind_Some_iff)
    from Cons.IH [OF r2(2)] obtain t ds r1 where t: "cs = t @ delim # ds" "\<forall>c \<in> set t. keep c"
      "for_each upd t r2 = Some r1" "parse after r1 ds = Some (good, rest, st, r')" by blast
    then show ?thesis using 2 r2(1) by (intro exI [of _ "c # t"] exI [of _ ds] exI [of _ r1]) simp
  next
    case 3
    then show ?thesis using Cons.prems refuse by simp
  qed
qed simp

lemma scan:
  "parse here r input = Some (good, rest, st, r') \<longleftrightarrow> (\<exists>t cs r1. input = t @ delim # cs \<and> (\<forall>c \<in> set t. keep c)
     \<and> for_each upd t r = Some r1 \<and> parse after r1 cs = Some (good, rest, st, r'))"
proof (intro iffI)
  assume "\<exists>t cs r1. input = t @ delim # cs \<and> (\<forall>c \<in> set t. keep c)
     \<and> for_each upd t r = Some r1 \<and> parse after r1 cs = Some (good, rest, st, r')"
  then obtain t cs r1 where t: "input = t @ delim # cs" "\<forall>c \<in> set t. keep c" "for_each upd t r = Some r1"
    "parse after r1 cs = Some (good, rest, st, r')" by blast
  show "parse here r input = Some (good, rest, st, r')" unfolding t(1) scan_forward [OF t(2,3)] by (rule t(4))
qed (rule scan_back)

end

lemma delimiters:
  "is_tspecial CHR '' ''" "is_tspecial CHR '':''" "\<not> is_ctl CHR '' ''" "is_ctl CHR 0x0D" "\<not> is_digit CHR ''.''"
  "\<not> is_digit CHR 0x0D" "is_ctl CHR 0x0A" "is_ctl CHR 0x09" "\<not> is_digit CHR '' ''"
  by code_simp+

definition uri_char :: "char \<Rightarrow> bool" where
  "uri_char c \<longleftrightarrow> \<not> is_ctl c \<and> c \<noteq> CHR '' ''"

interpretation method_loop: char_loop method_state uri_state "CHR '' ''" is_token_char push_method
  by unfold_locales (auto simp: delimiters)

interpretation uri_loop: char_loop uri_state http_version_h "CHR '' ''" uri_char push_uri
  by unfold_locales (auto simp: uri_char_def)

interpretation major_loop: char_loop http_version_major_state http_version_minor_start "CHR ''.''" is_digit major_digit
  by unfold_locales (auto simp: delimiters)

interpretation minor_loop: char_loop http_version_minor_state expecting_newline_1 "CHR 0x0D" is_digit minor_digit
  by unfold_locales (auto simp: delimiters)

interpretation name_loop: char_loop header_name space_before_header_value "CHR '':''" is_token_char push_name
  by unfold_locales (auto simp: delimiters)

interpretation value_loop: char_loop header_value expecting_newline_2 "CHR 0x0D" "\<lambda>c. \<not> is_ctl c" push_value
  by unfold_locales (auto simp: delimiters)

section \<open>What the loops collect\<close>

lemma collect_method: "for_each push_method t r = Some (r\<lparr>req_method := req_method r @ t\<rparr>)"
  by (induction t arbitrary: r) (simp_all add: push_method_def)

lemma collect_uri: "for_each push_uri t r = Some (r\<lparr>uri := uri r @ t\<rparr>)"
  by (induction t arbitrary: r) (simp_all add: push_uri_def)

lemma collect_name: "headers r = hs @ [h] \<Longrightarrow> for_each push_name t r = Some (r\<lparr>headers := hs @ [h\<lparr>name := name h @ t\<rparr>]\<rparr>)"
  by (induction t arbitrary: r h) (simp_all add: push_name_def back_header_def)

lemma collect_value: "headers r = hs @ [h] \<Longrightarrow> for_each push_value t r = Some (r\<lparr>headers := hs @ [h\<lparr>val := val h @ t\<rparr>]\<rparr>)"
  by (induction t arbitrary: r h) (simp_all add: push_value_def back_header_def)

lemma collect_major:
  "for_each major_digit t r = map_option (\<lambda>v. r\<lparr>http_version_major := v\<rparr>) (for_each (\<lambda>c v. next_digit v c) t (http_version_major r))"
proof (induction t arbitrary: r)
  case (Cons c t)
  then show ?case by (cases "next_digit (http_version_major r) c") (simp_all add: major_digit_def)
qed simp

lemma collect_minor:
  "for_each minor_digit t r = map_option (\<lambda>v. r\<lparr>http_version_minor := v\<rparr>) (for_each (\<lambda>c v. next_digit v c) t (http_version_minor r))"
proof (induction t arbitrary: r)
  case (Cons c t)
  then show ?case by (cases "next_digit (http_version_minor r) c") (simp_all add: minor_digit_def)
qed simp

lemma parse_expect:
  assumes "\<And>r c. consume here r c = expect x c here after r"
  shows "parse here r input = Some (good, rest, st, r')
    \<longleftrightarrow> (\<exists>cs. input = x # cs \<and> parse after r cs = Some (good, rest, st, r'))"
  by (cases input) (auto simp: assms expect_def)

lemma header_states:
  "consume space_before_header_value r c = expect CHR '' '' c space_before_header_value header_value r"
  "consume expecting_newline_2 r c = expect CHR 0x0A c expecting_newline_2 header_line_start r"
  by simp_all

lemmas fixed_char = parse_expect [of http_version_h "CHR ''H''" http_version_t_1, OF consume.simps(4)]
  parse_expect [of http_version_t_1 "CHR ''T''" http_version_t_2, OF consume.simps(5)]
  parse_expect [of http_version_t_2 "CHR ''T''" http_version_p, OF consume.simps(6)]
  parse_expect [of http_version_p "CHR ''P''" http_version_slash, OF consume.simps(7)]
  parse_expect [of expecting_newline_1 "CHR 0x0A" header_line_start, OF consume.simps(13)]
  parse_expect [of space_before_header_value "CHR '' ''" header_value, OF header_states(1)]
  parse_expect [of expecting_newline_2 "CHR 0x0A" header_line_start, OF header_states(2)]

section \<open>The language of requests\<close>

definition token :: "string \<Rightarrow> bool" where
  "token t \<longleftrightarrow> t \<noteq> [] \<and> (\<forall>c \<in> set t. is_token_char c)"

definition printable :: "string \<Rightarrow> bool" where
  "printable t \<longleftrightarrow> (\<forall>c \<in> set t. \<not> is_ctl c)"

abbreviation blank :: "char \<Rightarrow> bool" where
  "blank c \<equiv> c = CHR '' '' \<or> c = CHR 0x09"

text \<open>Decimal numbers, as far as \<open>int\<close> can compute them.\<close>

definition number :: "string \<Rightarrow> int \<Rightarrow> bool" where
  "number t v \<longleftrightarrow> t \<noteq> [] \<and> (\<forall>c \<in> set t. is_digit c) \<and> for_each (\<lambda>c v. next_digit v c) t 0 = Some v"

text \<open>
  Header lines after the headers \<open>hs\<close>: a new header, or the continuation of the last one, whose
  leading blanks are dropped.
\<close>

inductive header_text :: "header list \<Rightarrow> string \<Rightarrow> header list \<Rightarrow> bool" where
  none: "header_text hs [] hs"
| line: "token n \<Longrightarrow> printable v \<Longrightarrow> header_text (hs @ [\<lparr>name = n, val = v\<rparr>]) t hs'
    \<Longrightarrow> header_text hs (n @ '': '' @ v @ crlf @ t) hs'"
| continuation: "w \<noteq> [] \<Longrightarrow> \<forall>c \<in> set w. blank c \<Longrightarrow> printable v \<Longrightarrow> v = [] \<or> \<not> blank (hd v)
    \<Longrightarrow> header_text (hs @ [h\<lparr>val := val h @ v\<rparr>]) t hs' \<Longrightarrow> header_text (hs @ [h]) (w @ v @ crlf @ t) hs'"

inductive_cases header_text_last: "header_text hs [] hs'"

definition request_text :: "request \<Rightarrow> string \<Rightarrow> request \<Rightarrow> bool" where
  "request_text r text r' \<longleftrightarrow> (\<exists>m u ma mi va vi t hs. token m \<and> (\<forall>c \<in> set u. uri_char c)
     \<and> number ma va \<and> number mi vi \<and> header_text (headers r) t hs
     \<and> text = m @ '' '' @ u @ '' HTTP/'' @ ma @ ''.'' @ mi @ crlf @ t @ crlf
     \<and> r' = r\<lparr>req_method := req_method r @ m, uri := uri r @ u, http_version_major := va, http_version_minor := vi, headers := hs\<rparr>)"

section \<open>Header lines\<close>

lemma parse_last_newline:
  "parse expecting_newline_3 r input = Some (good, rest, st, r') \<longleftrightarrow> input = CHR 0x0A # rest \<and> st = expecting_newline_3 \<and> r' = r"
  by (cases input) auto

text \<open>Blanks, then the rest \<open>v\<close> of a value up to the end of the line, then \<open>ds\<close>.\<close>

definition continued :: "string \<Rightarrow> string \<Rightarrow> string \<Rightarrow> bool" where
  "continued input v ds \<longleftrightarrow> (\<exists>w. input = w @ v @ crlf @ ds \<and> (\<forall>c \<in> set w. blank c) \<and> printable v
     \<and> (v = [] \<or> \<not> blank (hd v)))"

lemma continued_Nil: "\<not> continued [] v ds"
  by (simp add: continued_def crlf_def)

lemma continued_cr: "continued (CHR 0x0D # cs) v ds \<longleftrightarrow> v = [] \<and> cs = CHR 0x0A # ds"
proof
  assume "continued (CHR 0x0D # cs) v ds"
  then obtain w where w: "CHR 0x0D # cs = w @ v @ crlf @ ds" "\<forall>c \<in> set w. blank c" "printable v"
    by (auto simp: continued_def)
  have "w = []" using w(1,2) by (cases w) auto
  moreover have "v = []" using w(1,3) \<open>w = []\<close> by (cases v) (auto simp: printable_def delimiters)
  ultimately show "v = [] \<and> cs = CHR 0x0A # ds" using w(1) by (simp add: crlf_def)
next
  assume "v = [] \<and> cs = CHR 0x0A # ds"
  then show "continued (CHR 0x0D # cs) v ds"
    unfolding continued_def by (intro exI [of _ "[]"]) (simp add: crlf_def printable_def)
qed

lemma continued_blank:
  assumes "blank c"
  shows "continued (c # cs) v ds \<longleftrightarrow> continued cs v ds"
proof
  assume "continued (c # cs) v ds"
  then obtain w where w: "c # cs = w @ v @ crlf @ ds" "\<forall>c \<in> set w. blank c" "printable v" "v = [] \<or> \<not> blank (hd v)"
    by (auto simp: continued_def)
  obtain w' where "w = c # w'" using w(1,4) assms by (cases w; cases v) (auto simp: crlf_def)
  then show "continued cs v ds" unfolding continued_def using w by (intro exI [of _ w']) simp
next
  assume "continued cs v ds"
  then obtain w where "cs = w @ v @ crlf @ ds" "\<forall>c \<in> set w. blank c" "printable v" "v = [] \<or> \<not> blank (hd v)"
    by (auto simp: continued_def)
  then show "continued (c # cs) v ds" unfolding continued_def using assms by (intro exI [of _ "c # w"]) simp
qed

lemma continued_ctl: "c \<noteq> CHR 0x0D \<Longrightarrow> \<not> blank c \<Longrightarrow> is_ctl c \<Longrightarrow> \<not> continued (c # cs) v ds"
proof
  assume c: "c \<noteq> CHR 0x0D" "\<not> blank c" "is_ctl c" and "continued (c # cs) v ds"
  then obtain w where w: "c # cs = w @ v @ crlf @ ds" "\<forall>c \<in> set w. blank c" "printable v"
    by (auto simp: continued_def)
  have "w = []" using w(1,2) c by (cases w) auto
  then show False using w(1,3) c by (cases v) (auto simp: printable_def crlf_def)
qed

lemma continued_value:
  assumes "c \<noteq> CHR 0x0D" and "\<not> blank c" and "\<not> is_ctl c"
  shows "continued (c # cs) v ds \<longleftrightarrow> (\<exists>v'. v = c # v' \<and> cs = v' @ crlf @ ds \<and> printable v')"
proof
  assume "continued (c # cs) v ds"
  then obtain w where w: "c # cs = w @ v @ crlf @ ds" "\<forall>c \<in> set w. blank c" "printable v"
    by (auto simp: continued_def)
  have "w = []" using w(1,2) assms by (cases w) auto
  then show "\<exists>v'. v = c # v' \<and> cs = v' @ crlf @ ds \<and> printable v'"
    using w(1,3) assms by (cases v) (auto simp: crlf_def printable_def)
next
  assume "\<exists>v'. v = c # v' \<and> cs = v' @ crlf @ ds \<and> printable v'"
  then show "continued (c # cs) v ds"
    unfolding continued_def using assms by (intro exI [of _ "[]"]) (auto simp: printable_def)
qed

lemma parse_blanks:
  assumes "headers r = hs @ [h]"
  shows "parse header_lws r input = Some (good, rest, st, r') \<longleftrightarrow> (\<exists>v cs. continued input v cs
     \<and> parse header_line_start (r\<lparr>headers := hs @ [h\<lparr>val := val h @ v\<rparr>]\<rparr>) cs = Some (good, rest, st, r'))"
proof (induction input)
  case (Cons c cs)
  have same: "r\<lparr>headers := hs @ [h]\<rparr> = r" using assms by simp
  consider "c = CHR 0x0D" | "blank c" | (ctl) "c \<noteq> CHR 0x0D" "\<not> blank c" "is_ctl c"
    | (val) "c \<noteq> CHR 0x0D" "\<not> blank c" "\<not> is_ctl c" by blast
  then show ?case
  proof cases
    case 1
    then show ?thesis by (simp add: fixed_char continued_cr same)
  next
    case 2
    then have "parse header_lws r (c # cs) = parse header_lws r cs" by auto
    then show ?thesis using Cons.IH by (simp add: continued_blank [OF 2])
  next
    case ctl
    then show ?thesis by (simp add: continued_ctl)
  next
    case val
    let ?r = "r\<lparr>headers := hs @ [h\<lparr>val := val h @ [c]\<rparr>]\<rparr>"
    have "push_value c r = Some ?r" using assms by (simp add: push_value_def back_header_def)
    then have "parse header_lws r (c # cs) = parse header_value ?r cs" using val by (simp add: go_def)
    moreover have "for_each push_value v ?r = Some (r\<lparr>headers := hs @ [h\<lparr>val := val h @ c # v\<rparr>]\<rparr>)" for v
      using collect_value [of ?r hs] by simp
    ultimately show ?thesis
      by (auto simp: value_loop.scan fixed_char continued_value [OF val] printable_def crlf_def)
  qed
qed (simp add: continued_Nil)

lemma parse_line:
  assumes "is_token_char c"
  shows "parse header_line_start r (c # cs) = Some (good, rest, st, r') \<longleftrightarrow> (\<exists>n v ds. cs = n @ '': '' @ v @ crlf @ ds
     \<and> (\<forall>c \<in> set n. is_token_char c) \<and> printable v
     \<and> parse header_line_start (r\<lparr>headers := headers r @ [\<lparr>name = c # n, val = v\<rparr>]\<rparr>) ds = Some (good, rest, st, r'))"
proof -
  let ?r = "r\<lparr>headers := headers r @ [\<lparr>name = [c], val = []\<rparr>]\<rparr>"
  have "push_header c r = Some ?r"
    by (simp add: push_header_def push_name_def back_header_def)
  moreover have "c \<noteq> CHR 0x0D" "c \<noteq> CHR '' ''" "c \<noteq> CHR 0x09" using assms delimiters by auto
  ultimately have "parse header_line_start r (c # cs) = parse header_name ?r cs" using assms by (simp add: go_def)
  moreover have "for_each push_name n ?r = Some (r\<lparr>headers := headers r @ [\<lparr>name = c # n, val = []\<rparr>]\<rparr>)" for n
    using collect_name [of ?r "headers r"] by simp
  moreover have "for_each push_value v (r\<lparr>headers := headers r @ [\<lparr>name = c # n, val = []\<rparr>]\<rparr>)
      = Some (r\<lparr>headers := headers r @ [\<lparr>name = c # n, val = v\<rparr>]\<rparr>)" for n v
    using collect_value [of "r\<lparr>headers := headers r @ [\<lparr>name = c # n, val = []\<rparr>]\<rparr>" "headers r"] by simp
  ultimately show ?thesis
    by (fastforce simp: name_loop.scan fixed_char value_loop.scan printable_def crlf_def)
qed

lemma parse_headers_sound:
  "parse header_line_start r input = Some (good, rest, st, r') \<Longrightarrow> st = expecting_newline_3
    \<and> (\<exists>t hs. header_text (headers r) t hs \<and> input = t @ crlf @ rest \<and> r' = r\<lparr>headers := hs\<rparr>)"
proof (induction "length input" arbitrary: input r rule: less_induct)
  case less
  obtain c cs where input: "input = c # cs" using less.prems by (cases input) auto
  consider (cr) "c = CHR 0x0D" | (blank) "blank c" "headers r \<noteq> []" | (bad) "blank c" "headers r = []"
    | (token) "is_token_char c" | (other) "c \<noteq> CHR 0x0D" "\<not> blank c" "\<not> is_token_char c" by blast
  then show ?case
  proof cases
    case cr
    then show ?thesis using less.prems input
      by (auto simp: parse_last_newline crlf_def intro!: exI [of _ "[]"] exI [of _ "headers r"] header_text.none)
  next
    case blank
    then obtain hs h where h: "headers r = hs @ [h]" by (metis append_butlast_last_id)
    have "parse header_lws r cs = Some (good, rest, st, r')" using less.prems input blank by auto
    then obtain v ds where v: "continued cs v ds"
      "parse header_line_start (r\<lparr>headers := hs @ [h\<lparr>val := val h @ v\<rparr>]\<rparr>) ds = Some (good, rest, st, r')"
      using parse_blanks [OF h] by blast
    then obtain w where w: "cs = w @ v @ crlf @ ds" "\<forall>c \<in> set w. blank c" "printable v" "v = [] \<or> \<not> blank (hd v)"
      by (auto simp: continued_def)
    obtain t gs where t: "header_text (hs @ [h\<lparr>val := val h @ v\<rparr>]) t gs" "ds = t @ crlf @ rest"
      "r' = r\<lparr>headers := gs\<rparr>" "st = expecting_newline_3"
      using less.hyps [OF _ v(2)] w(1) input by auto
    have "header_text (hs @ [h]) ((c # w) @ v @ crlf @ t) gs"
      using w t(1) blank(1) by (intro header_text.continuation) auto
    then show ?thesis using t h w(1) input by auto
  next
    case bad
    then show ?thesis using less.prems input delimiters by auto
  next
    case token
    then obtain n v ds where n: "cs = n @ '': '' @ v @ crlf @ ds" "\<forall>c \<in> set n. is_token_char c" "printable v"
      "parse header_line_start (r\<lparr>headers := headers r @ [\<lparr>name = c # n, val = v\<rparr>]\<rparr>) ds = Some (good, rest, st, r')"
      using less.prems input parse_line by blast
    obtain t gs where t: "header_text (headers r @ [\<lparr>name = c # n, val = v\<rparr>]) t gs" "ds = t @ crlf @ rest"
      "r' = r\<lparr>headers := gs\<rparr>" "st = expecting_newline_3"
      using less.hyps [OF _ n(4)] n(1) input by auto
    have "header_text (headers r) ((c # n) @ '': '' @ v @ crlf @ t) gs"
      using n t(1) token by (intro header_text.line) (auto simp: token_def)
    then show ?thesis using t n(1) input by auto
  next
    case other
    then show ?thesis using less.prems input by auto
  qed
qed

lemma parse_headers_complete:
  "header_text hs t hs' \<Longrightarrow> headers r = hs \<Longrightarrow>
     parse header_line_start r (t @ crlf @ rest) = Some (good, rest, expecting_newline_3, r\<lparr>headers := hs'\<rparr>)"
proof (induction arbitrary: r rule: header_text.induct)
  case (none hs)
  then show ?case by (auto simp: crlf_def)
next
  case (line n v hs t hs')
  obtain c n' where n: "n = c # n'" "is_token_char c" "\<forall>c \<in> set n'. is_token_char c"
    using line.hyps(1) by (cases n) (auto simp: token_def)
  have "parse header_line_start (r\<lparr>headers := headers r @ [\<lparr>name = c # n', val = v\<rparr>]\<rparr>) (t @ crlf @ rest)
      = Some (good, rest, expecting_newline_3, r\<lparr>headers := hs'\<rparr>)"
    using line.IH [of "r\<lparr>headers := headers r @ [\<lparr>name = c # n', val = v\<rparr>]\<rparr>"] line.prems n(1) by simp
  then show ?case unfolding n(1) append_Cons parse_line [OF n(2)] using n(3) line.hyps(2) by auto
next
  case (continuation w v hs h t hs')
  obtain c w' where w: "w = c # w'" "blank c" using continuation.hyps(1,2) by (cases w) auto
  have c: "continued (w' @ v @ crlf @ t @ crlf @ rest) v (t @ crlf @ rest)"
    unfolding continued_def using continuation.hyps(2-4) w by (intro exI [of _ w']) auto
  have "parse header_line_start (r\<lparr>headers := hs @ [h\<lparr>val := val h @ v\<rparr>]\<rparr>) (t @ crlf @ rest)
      = Some (good, rest, expecting_newline_3, r\<lparr>headers := hs'\<rparr>)"
    using continuation.IH [of "r\<lparr>headers := hs @ [h\<lparr>val := val h @ v\<rparr>]\<rparr>"] by simp
  then have "parse header_lws r (w' @ v @ crlf @ t @ crlf @ rest)
      = Some (good, rest, expecting_newline_3, r\<lparr>headers := hs'\<rparr>)"
    unfolding parse_blanks [OF continuation.prems] using c by blast
  moreover have "parse header_line_start r (c # cs) = parse header_lws r cs" for cs
    using w(2) continuation.prems by auto
  ultimately show ?case by (simp add: w(1))
qed

section \<open>The request line\<close>

lemma parse_method:
  "parse method_start r input = Some (good, rest, st, r') \<longleftrightarrow> (\<exists>m cs. input = m @ '' '' @ cs \<and> token m
     \<and> parse uri_state (r\<lparr>req_method := req_method r @ m\<rparr>) cs = Some (good, rest, st, r'))"
proof (cases input)
  case (Cons c cs)
  show ?thesis
  proof (cases "is_token_char c")
    case True
    have run: "parse method_start r input = Some (good, rest, st, r') \<longleftrightarrow> (\<exists>n ds. cs = n @ CHR '' '' # ds
       \<and> (\<forall>c \<in> set n. is_token_char c) \<and> parse uri_state (r\<lparr>req_method := req_method r @ c # n\<rparr>) ds = Some (good, rest, st, r'))"
      using True Cons by (simp add: push_method_def go_def method_loop.scan collect_method)
    show ?thesis unfolding run
    proof
      assume "\<exists>n ds. cs = n @ CHR '' '' # ds \<and> (\<forall>c \<in> set n. is_token_char c)
        \<and> parse uri_state (r\<lparr>req_method := req_method r @ c # n\<rparr>) ds = Some (good, rest, st, r')"
      then obtain n ds where "cs = n @ CHR '' '' # ds" "\<forall>c \<in> set n. is_token_char c"
        "parse uri_state (r\<lparr>req_method := req_method r @ c # n\<rparr>) ds = Some (good, rest, st, r')" by blast
      then show "\<exists>m cs. input = m @ '' '' @ cs \<and> token m
        \<and> parse uri_state (r\<lparr>req_method := req_method r @ m\<rparr>) cs = Some (good, rest, st, r')"
        using True Cons by (intro exI [of _ "c # n"] exI [of _ ds]) (simp add: token_def)
    next
      assume "\<exists>m cs. input = m @ '' '' @ cs \<and> token m
        \<and> parse uri_state (r\<lparr>req_method := req_method r @ m\<rparr>) cs = Some (good, rest, st, r')"
      then obtain m ds where m: "input = m @ '' '' @ ds" "token m"
        "parse uri_state (r\<lparr>req_method := req_method r @ m\<rparr>) ds = Some (good, rest, st, r')" by blast
      then obtain n where "m = c # n" using Cons by (cases m) (auto simp: token_def)
      then show "\<exists>n ds. cs = n @ CHR '' '' # ds \<and> (\<forall>c \<in> set n. is_token_char c)
        \<and> parse uri_state (r\<lparr>req_method := req_method r @ c # n\<rparr>) ds = Some (good, rest, st, r')"
        using m Cons by (intro exI [of _ n] exI [of _ ds]) (simp add: token_def)
    qed
  next
    case False
    moreover have "\<not> (input = m @ '' '' @ ds \<and> token m)" for m ds
      using False Cons by (cases m) (auto simp: token_def)
    ultimately show ?thesis using Cons by auto
  qed
qed (auto simp: token_def)

lemma parse_uri:
  "parse uri_state r input = Some (good, rest, st, r') \<longleftrightarrow> (\<exists>u cs. input = u @ '' HTTP/'' @ cs \<and> (\<forall>c \<in> set u. uri_char c)
     \<and> parse http_version_major_start (r\<lparr>uri := uri r @ u, http_version_major := 0, http_version_minor := 0\<rparr>) cs
         = Some (good, rest, st, r'))"
proof -
  have "parse http_version_slash q input = Some (good, rest, st, r') \<longleftrightarrow> (\<exists>cs. input = CHR ''/'' # cs
      \<and> parse http_version_major_start (q\<lparr>http_version_major := 0, http_version_minor := 0\<rparr>) cs = Some (good, rest, st, r'))"
    for q input by (cases input) auto
  note run = uri_loop.scan collect_uri fixed_char this
  show ?thesis
  proof
    assume "parse uri_state r input = Some (good, rest, st, r')"
    then show "\<exists>u cs. input = u @ '' HTTP/'' @ cs \<and> (\<forall>c \<in> set u. uri_char c)
       \<and> parse http_version_major_start (r\<lparr>uri := uri r @ u, http_version_major := 0, http_version_minor := 0\<rparr>) cs
         = Some (good, rest, st, r')" by (auto simp: run)
  next
    assume "\<exists>u cs. input = u @ '' HTTP/'' @ cs \<and> (\<forall>c \<in> set u. uri_char c)
       \<and> parse http_version_major_start (r\<lparr>uri := uri r @ u, http_version_major := 0, http_version_minor := 0\<rparr>) cs
         = Some (good, rest, st, r')"
    then obtain u cs where u: "input = u @ CHR '' '' # (''HTTP/'' @ cs)" "\<forall>c \<in> set u. uri_char c"
      "parse http_version_major_start (r\<lparr>uri := uri r @ u, http_version_major := 0, http_version_minor := 0\<rparr>) cs
         = Some (good, rest, st, r')" by auto
    then show "parse uri_state r input = Some (good, rest, st, r')"
      using uri_loop.scan_forward [OF u(2) collect_uri, of r "''HTTP/'' @ cs"] by (simp add: expect_def)
  qed
qed

text \<open>
  A version number: the first digit has its own state. \<open>sel\<close> and \<open>upd\<close> stand for the member that
  holds the number.
\<close>

locale number_reader = loop: char_loop here after delim is_digit digit
  for here after :: parser_state and delim :: char and digit :: "char \<Rightarrow> request \<Rightarrow> request option" +
  fixes first :: parser_state and sel :: "request \<Rightarrow> int" and upd :: "int \<Rightarrow> request \<Rightarrow> request"
  assumes start: "consume first r c = (if is_digit c then go here (digit c r) else Some (bad, first, r))"
    and digits: "for_each digit t r = map_option (\<lambda>v. upd v r) (for_each (\<lambda>c v. next_digit v c) t (sel r))"
begin

lemma read_number:
  assumes "sel r = 0"
  shows "parse first r input = Some (good, rest, st, r') \<longleftrightarrow> (\<exists>t v cs. input = t @ delim # cs \<and> number t v
     \<and> parse after (upd v r) cs = Some (good, rest, st, r'))"
proof
  assume p: "parse first r input = Some (good, rest, st, r')"
  then obtain c cs r1 where c: "input = c # cs" "is_digit c" "digit c r = Some r1"
    "parse here r1 cs = Some (good, rest, st, r')"
    by (cases input) (auto simp: start go_def bind_Some_iff split: if_splits)
  from loop.scan_back [OF c(4)] obtain n ds r2 where n: "cs = n @ delim # ds" "\<forall>c \<in> set n. is_digit c"
    "for_each digit n r1 = Some r2" "parse after r2 ds = Some (good, rest, st, r')" by blast
  have "for_each digit (c # n) r = Some r2" using c(3) n(3) by simp
  then have "map_option (\<lambda>v. upd v r) (for_each (\<lambda>c v. next_digit v c) (c # n) 0) = Some r2"
    using digits [of "c # n" r] assms by simp
  then obtain v where "number (c # n) v" "r2 = upd v r"
    unfolding map_option_eq_Some using c(2) n(2) by (auto simp: number_def)
  then show "\<exists>t v cs. input = t @ delim # cs \<and> number t v \<and> parse after (upd v r) cs = Some (good, rest, st, r')"
    using c(1) n(1,4) by (intro exI [of _ "c # n"] exI [of _ v] exI [of _ ds]) simp
next
  assume "\<exists>t v cs. input = t @ delim # cs \<and> number t v \<and> parse after (upd v r) cs = Some (good, rest, st, r')"
  then obtain t v cs where t: "input = t @ delim # cs" "number t v" "parse after (upd v r) cs = Some (good, rest, st, r')"
    by blast
  obtain c n where c: "t = c # n" "is_digit c" "\<forall>c \<in> set n. is_digit c"
    using t(2) by (cases t) (auto simp: number_def)
  have "for_each digit (c # n) r = Some (upd v r)" using digits [of "c # n" r] t(2) c(1) assms by (simp add: number_def)
  then obtain r1 where r1: "digit c r = Some r1" "for_each digit n r1 = Some (upd v r)" by (auto simp: bind_Some_iff)
  have "parse first r input = parse here r1 (n @ delim # cs)" using c r1(1) t(1) by (simp add: start go_def)
  also have "\<dots> = parse after (upd v r) cs" by (rule loop.scan_forward [OF c(3) r1(2)])
  finally show "parse first r input = Some (good, rest, st, r')" using t(3) by simp
qed

end

interpretation major: number_reader http_version_major_state http_version_minor_start "CHR ''.''" major_digit
  http_version_major_start http_version_major "\<lambda>v r. r\<lparr>http_version_major := v\<rparr>"
  by unfold_locales (simp_all add: collect_major)

interpretation minor: number_reader http_version_minor_state expecting_newline_1 "CHR 0x0D" minor_digit
  http_version_minor_start http_version_minor "\<lambda>v r. r\<lparr>http_version_minor := v\<rparr>"
  by unfold_locales (simp_all add: collect_minor)

lemma parse_version:
  assumes "http_version_major r = 0" and "http_version_minor r = 0"
  shows "parse http_version_major_start r input = Some (good, rest, st, r') \<longleftrightarrow> (\<exists>ma va mi vi cs.
     input = ma @ ''.'' @ mi @ crlf @ cs \<and> number ma va \<and> number mi vi
     \<and> parse header_line_start (r\<lparr>http_version_major := va, http_version_minor := vi\<rparr>) cs = Some (good, rest, st, r'))"
proof -
  have "http_version_minor (r\<lparr>http_version_major := va\<rparr>) = 0" for va using assms(2) by simp
  note run = major.read_number [OF assms(1)] minor.read_number [OF this] fixed_char
  show ?thesis
  proof
    assume "parse http_version_major_start r input = Some (good, rest, st, r')"
    then obtain ma va cs mi vi ds where "input = ma @ CHR ''.'' # cs" "number ma va" "cs = mi @ CHR 0x0D # CHR 0x0A # ds"
      "number mi vi" "parse header_line_start (r\<lparr>http_version_major := va, http_version_minor := vi\<rparr>) ds = Some (good, rest, st, r')"
      unfolding run by auto
    then show "\<exists>ma va mi vi cs. input = ma @ ''.'' @ mi @ crlf @ cs \<and> number ma va \<and> number mi vi
       \<and> parse header_line_start (r\<lparr>http_version_major := va, http_version_minor := vi\<rparr>) cs = Some (good, rest, st, r')"
      by (intro exI [of _ ma] exI [of _ va] exI [of _ mi] exI [of _ vi] exI [of _ ds]) (simp add: crlf_def)
  next
    assume "\<exists>ma va mi vi cs. input = ma @ ''.'' @ mi @ crlf @ cs \<and> number ma va \<and> number mi vi
       \<and> parse header_line_start (r\<lparr>http_version_major := va, http_version_minor := vi\<rparr>) cs = Some (good, rest, st, r')"
    then obtain ma va mi vi cs where "input = ma @ CHR ''.'' # (mi @ CHR 0x0D # CHR 0x0A # cs)" "number ma va" "number mi vi"
      "parse header_line_start (r\<lparr>http_version_major := va, http_version_minor := vi\<rparr>) cs = Some (good, rest, st, r')"
      by (auto simp: crlf_def)
    then show "parse http_version_major_start r input = Some (good, rest, st, r')" unfolding run by blast
  qed
qed

lemma version_reset: "http_version_major (r\<lparr>uri := u, http_version_major := 0, http_version_minor := 0\<rparr>) = 0"
  "http_version_minor (r\<lparr>uri := u, http_version_major := 0, http_version_minor := 0\<rparr>) = 0"
  by simp_all

section \<open>What every request made by the parser satisfies\<close>

definition request_clean :: "request \<Rightarrow> bool" where
  "request_clean r \<longleftrightarrow> (\<forall>c \<in> set (req_method r). is_token_char c) \<and> (\<forall>c \<in> set (uri r). uri_char c)
     \<and> (\<forall>h \<in> set (headers r). token (name h) \<and> printable (val h))"

text \<open>States in which \<open>headers.back()\<close> may be used need a header.\<close>

definition parser_ok :: "parser_state \<Rightarrow> request \<Rightarrow> bool" where
  "parser_ok st r \<longleftrightarrow> request_clean r \<and> (st \<noteq> method_start \<longrightarrow> req_method r \<noteq> [])
     \<and> (st \<in> {header_lws, header_name, space_before_header_value, header_value, expecting_newline_2} \<longrightarrow> headers r \<noteq> [])"

lemma clean_push:
  "request_clean r \<Longrightarrow> is_char c \<Longrightarrow> \<not> is_ctl c \<Longrightarrow> \<not> is_tspecial c \<Longrightarrow> push_method c r = Some q \<Longrightarrow> request_clean q \<and> req_method q \<noteq> [] \<and> headers q = headers r"
  "request_clean r \<Longrightarrow> \<not> is_ctl c \<Longrightarrow> c \<noteq> CHR '' '' \<Longrightarrow> push_uri c r = Some q \<Longrightarrow> request_clean q \<and> req_method q = req_method r \<and> headers q = headers r"
proof -
  show "request_clean r \<Longrightarrow> is_char c \<Longrightarrow> \<not> is_ctl c \<Longrightarrow> \<not> is_tspecial c \<Longrightarrow> push_method c r = Some q
      \<Longrightarrow> request_clean q \<and> req_method q \<noteq> [] \<and> headers q = headers r"
    by (clarsimp simp: request_clean_def push_method_def)
  show "request_clean r \<Longrightarrow> \<not> is_ctl c \<Longrightarrow> c \<noteq> CHR '' '' \<Longrightarrow> push_uri c r = Some q
      \<Longrightarrow> request_clean q \<and> req_method q = req_method r \<and> headers q = headers r"
    by (clarsimp simp: request_clean_def push_uri_def uri_char_def)
qed

lemma back_header_clean:
  assumes "request_clean r" and "back_header f r = Some q"
    and "\<And>h. token (name h) \<Longrightarrow> printable (val h) \<Longrightarrow> token (name (f h)) \<and> printable (val (f h))"
  shows "request_clean q \<and> req_method q = req_method r \<and> headers q \<noteq> []"
proof -
  have "headers r \<noteq> []" "q = r\<lparr>headers := butlast (headers r) @ [f (last (headers r))]\<rparr>"
    using assms(2) by (auto simp: back_header_def split: if_splits)
  then show ?thesis using assms(1,3) by (auto simp: request_clean_def dest: in_set_butlastD)
qed

lemma push_name_clean:
  "request_clean r \<Longrightarrow> is_char c \<Longrightarrow> \<not> is_ctl c \<Longrightarrow> \<not> is_tspecial c \<Longrightarrow> push_name c r = Some q \<Longrightarrow> request_clean q \<and> req_method q = req_method r \<and> headers q \<noteq> []"
  unfolding push_name_def
  using back_header_clean [of r "\<lambda>h. h\<lparr>name := name h @ [c]\<rparr>" q] by (simp add: token_def)

lemma push_value_clean:
  "request_clean r \<Longrightarrow> \<not> is_ctl c \<Longrightarrow> push_value c r = Some q \<Longrightarrow> request_clean q \<and> req_method q = req_method r \<and> headers q \<noteq> []"
  unfolding push_value_def
  using back_header_clean [of r "\<lambda>h. h\<lparr>val := val h @ [c]\<rparr>" q] by (simp add: printable_def)

lemma new_header_clean:
  "request_clean r \<Longrightarrow> is_char c \<Longrightarrow> \<not> is_ctl c \<Longrightarrow> \<not> is_tspecial c \<Longrightarrow> push_header c r = Some q \<Longrightarrow> request_clean q \<and> req_method q = req_method r \<and> headers q \<noteq> []"
  by (auto simp: push_header_def push_name_def back_header_def request_clean_def token_def printable_def)

lemma digit_clean:
  "request_clean r \<Longrightarrow> major_digit c r = Some q \<Longrightarrow> request_clean q \<and> req_method q = req_method r \<and> headers q = headers r"
  "request_clean r \<Longrightarrow> minor_digit c r = Some q \<Longrightarrow> request_clean q \<and> req_method q = req_method r \<and> headers q = headers r"
  by (auto simp: major_digit_def minor_digit_def request_clean_def)

lemma go_Some: "go st x = Some (res, st', q) \<longleftrightarrow> res = indeterminate \<and> st' = st \<and> x = Some q"
  by (auto simp: go_def)

lemma consume_ok:
  assumes "parser_ok st r" and "consume st r c = Some (res, st', r')"
  shows "parser_ok st' r'"
proof -
  have clean: "request_clean r" using assms(1) by (simp add: parser_ok_def)
  have version: "request_clean (r\<lparr>http_version_major := 0, http_version_minor := 0\<rparr>)"
    using clean by (simp add: request_clean_def)
  note pushed = clean_push [OF clean, of c r'] push_name_clean [OF clean, of c r'] push_value_clean [OF clean, of c r']
    new_header_clean [OF clean, of c r'] digit_clean [OF clean, of c r']
  show ?thesis using assms clean version
    by (cases st) (auto simp: parser_ok_def expect_def go_Some split: if_splits dest: pushed)
qed

lemma consume_undefined:
  assumes "parser_ok st r" and "consume st r c = None"
  shows "is_digit c \<and> (next_digit (http_version_major r) c = None \<or> next_digit (http_version_minor r) c = None)"
  using assms
  by (cases st) (auto simp: parser_ok_def expect_def go_def push_method_def push_uri_def push_header_def push_name_def
      push_value_def back_header_def major_digit_def minor_digit_def split: if_splits)

section \<open>Short reads\<close>

lemma find_text_short: "length s < length t \<Longrightarrow> find_text t s i = - 1"
  by (induction t s i rule: find_text.induct) auto

text \<open>
  A read of fewer than three bytes makes the construction of the body throw, which nothing
  catches before \<open>main\<close>: the server ends.
\<close>

lemma short_read_throws: "length s < 3 \<Longrightarrow> on_read handlers handlers2 c s conw = None"
  by (cases conw) (simp add: on_read_def body_of_def find_text_short crlf_def)

section \<open>Properties\<close>

text \<open>C6. The parser accepts exactly the texts of the reference grammar, with exactly the request the
  grammar gives, stops right after the text, and leaves the rest of the input alone.\<close>

theorem parse_accepts_requests:
  "parse method_start r input = Some (good, rest, st, r')
    \<longleftrightarrow> st = expecting_newline_3 \<and> (\<exists>t. input = t @ rest \<and> request_text r t r')"
proof
  assume "parse method_start r input = Some (good, rest, st, r')"
  then obtain m u ma va mi vi cs where p: "input = m @ '' '' @ u @ '' HTTP/'' @ ma @ ''.'' @ mi @ crlf @ cs" "token m"
    "\<forall>c \<in> set u. uri_char c" "number ma va" "number mi vi"
    "parse header_line_start (r\<lparr>req_method := req_method r @ m, uri := uri r @ u, http_version_major := va, http_version_minor := vi\<rparr>) cs
      = Some (good, rest, st, r')"
    unfolding parse_method parse_uri parse_version [OF version_reset] by auto
  from parse_headers_sound [OF p(6)] obtain t hs where "st = expecting_newline_3" "header_text (headers r) t hs"
    "cs = t @ crlf @ rest"
    "r' = r\<lparr>req_method := req_method r @ m, uri := uri r @ u, http_version_major := va, http_version_minor := vi, headers := hs\<rparr>"
    by auto
  moreover from this have "request_text r (m @ '' '' @ u @ '' HTTP/'' @ ma @ ''.'' @ mi @ crlf @ t @ crlf) r'"
    unfolding request_text_def using p(2-5) by blast
  ultimately show "st = expecting_newline_3 \<and> (\<exists>t. input = t @ rest \<and> request_text r t r')"
    using p(1) by (intro conjI exI [of _ "m @ '' '' @ u @ '' HTTP/'' @ ma @ ''.'' @ mi @ crlf @ t @ crlf"]) simp_all
next
  assume "st = expecting_newline_3 \<and> (\<exists>t. input = t @ rest \<and> request_text r t r')"
  then obtain m u ma mi va vi t hs where p: "token m" "\<forall>c \<in> set u. uri_char c" "number ma va" "number mi vi"
    "header_text (headers r) t hs" "input = m @ '' '' @ u @ '' HTTP/'' @ ma @ ''.'' @ mi @ crlf @ t @ crlf @ rest"
    "r' = r\<lparr>req_method := req_method r @ m, uri := uri r @ u, http_version_major := va, http_version_minor := vi, headers := hs\<rparr>"
    "st = expecting_newline_3" by (auto simp: request_text_def)
  let ?r = "r\<lparr>req_method := req_method r @ m, uri := uri r @ u, http_version_major := va, http_version_minor := vi\<rparr>"
  have "parse header_line_start ?r (t @ crlf @ rest) = Some (good, rest, st, r')"
    using parse_headers_complete [OF p(5), of ?r rest] p(7,8) by simp
  then show "parse method_start r input = Some (good, rest, st, r')"
    unfolding parse_method parse_uri parse_version [OF version_reset] p(6) using p(1-4) by fastforce
qed

text \<open>C20. However the input is cut into reads, the parser never uses \<open>back\<close> of an empty vector, and in
  every request it makes, complete or not, the method and the names of the headers are tokens and
  the URI and the values contain no control character, so no line break; the only undefined
  behaviour is the overflow of a version number.\<close>

theorem parser_keeps_requests_clean:
  assumes "parser_ok st r"
  shows "case parse st r input of
      Some (res, rest, st', r') \<Rightarrow> parser_ok st' r'
    | None \<Rightarrow> \<exists>pre c post st1 r1. input = pre @ c # post \<and> parse st r pre = Some (indeterminate, [], st1, r1)
        \<and> is_digit c \<and> (next_digit (http_version_major r1) c = None \<or> next_digit (http_version_minor r1) c = None)"
  using assms
proof (induction input arbitrary: st r)
  case (Cons c cs)
  show ?case
  proof (cases "consume st r c")
    case None
    have "\<exists>pre d post st1 r1. c # cs = pre @ d # post \<and> parse st r pre = Some (indeterminate, [], st1, r1)
        \<and> is_digit d \<and> (next_digit (http_version_major r1) d = None \<or> next_digit (http_version_minor r1) d = None)"
      using consume_undefined [OF Cons.prems None]
      by (intro exI [of _ "[]"] exI [of _ c] exI [of _ cs] exI [of _ st] exI [of _ r]) simp
    moreover have "parse st r (c # cs) = None" using None by simp
    ultimately show ?thesis by (simp del: parse.simps)
  next
    case (Some x)
    obtain res st1 r1 where x: "x = (res, st1, r1)" by (cases x)
    have ok: "parser_ok st1 r1" using consume_ok [OF Cons.prems] Some x by simp
    show ?thesis
    proof (cases "res = indeterminate")
      case True
      have step: "parse st r (c # ds) = parse st1 r1 ds" for ds using Some x True by simp
      show ?thesis
      proof (cases "parse st1 r1 cs")
        case None
        then obtain pre d post st2 r2 where "cs = pre @ d # post" "parse st1 r1 pre = Some (indeterminate, [], st2, r2)"
          "is_digit d \<and> (next_digit (http_version_major r2) d = None \<or> next_digit (http_version_minor r2) d = None)"
          using Cons.IH [OF ok] by auto
        then have "\<exists>pre d post st1 r1. c # cs = pre @ d # post \<and> parse st r pre = Some (indeterminate, [], st1, r1)
          \<and> is_digit d \<and> (next_digit (http_version_major r1) d = None \<or> next_digit (http_version_minor r1) d = None)"
          by (intro exI [of _ "c # pre"] exI [of _ d] exI [of _ post] exI [of _ st2] exI [of _ r2]) (simp add: step del: parse.simps)
        then show ?thesis using None by (simp add: step del: parse.simps)
      next
        case (Some y)
        then show ?thesis using Cons.IH [OF ok] unfolding step by simp
      qed
    next
      case False
      then have "res = good \<or> res = bad" by (cases res) auto
      then show ?thesis using Some x ok by simp
    qed
  qed
qed simp

definition empty_request :: request where
  "empty_request = \<lparr>req_method = [], uri = [], http_version_major = 0, http_version_minor = 0, headers = [], body = []\<rparr>"

theorem parser_keeps_requests_clean_witness:
  "\<exists>st r. parse method_start empty_request ''GET /x HTTP/1.1'' = Some (indeterminate, [], st, r) \<and> parser_ok st r"
proof -
  have "parser_ok method_start empty_request" by (simp add: parser_ok_def request_clean_def empty_request_def)
  note keep = parser_keeps_requests_clean [OF this, of "''GET /x HTTP/1.1''"]
  have "case parse method_start empty_request ''GET /x HTTP/1.1'' of
      Some (res, rest, st, r) \<Rightarrow> res = indeterminate \<and> rest = [] | None \<Rightarrow> False"
    by code_simp
  then obtain st r where "parse method_start empty_request ''GET /x HTTP/1.1'' = Some (indeterminate, [], st, r)"
    by (auto split: option.splits prod.splits simp del: parse.simps)
  then show ?thesis using keep by (simp del: parse.simps)
qed

end
