(* ===== verification/Url.thy ===== *)
theory Url
  imports Http
begin

text \<open>
  \<open>url_decode\<close> of \<open>http/request_handler.cpp\<close> and \<open>extension_to_type\<close> of \<open>http/mime_types.cpp\<close>. The two
  characters after a percent sign are read by \<open>istringstream >> hex\<close>: white space is skipped, a sign is
  accepted, digits are taken as far as they go, and \<open>0x\<close> without a digit after it fails.
\<close>

section \<open>Decoding\<close>

definition is_space :: "char \<Rightarrow> bool" where
  "is_space c \<longleftrightarrow> char_value c = 32 \<or> (9 \<le> char_value c \<and> char_value c \<le> 13)"

definition hex_digit :: "char \<Rightarrow> int option" where
  "hex_digit c =
     (let n = char_value c
      in if 48 \<le> n \<and> n \<le> 57 then Some (n - 48)
         else if 65 \<le> n \<and> n \<le> 70 then Some (n - 55)
         else if 97 \<le> n \<and> n \<le> 102 then Some (n - 87) else None)"

fun hex_digits :: "string \<Rightarrow> int \<Rightarrow> int" where
  "hex_digits [] v = v"
| "hex_digits (c # s) v = (case hex_digit c of None \<Rightarrow> v | Some d \<Rightarrow> hex_digits s (16 * v + d))"

definition hex_number :: "string \<Rightarrow> int option" where
  "hex_number s = (case s of [] \<Rightarrow> None
     | c # r \<Rightarrow> if hex_digit c = None \<or> (c = CHR ''0'' \<and> r \<noteq> [] \<and> hd r \<in> {CHR ''x'', CHR ''X''}) then None
               else Some (hex_digits s 0))"

definition read_hex :: "string \<Rightarrow> int option" where
  "read_hex s = (case dropWhile is_space s of [] \<Rightarrow> None
     | c # r \<Rightarrow> if c = CHR ''-'' then map_option uminus (hex_number r)
               else if c = CHR ''+'' then hex_number r else hex_number (c # r))"

fun url_decode :: "string \<Rightarrow> string option" where
  "url_decode [] = Some []"
| "url_decode (c # s) =
     (if c = CHR 0x25 then
        (case s of a # b # r \<Rightarrow> (case read_hex [a, b] of None \<Rightarrow> None
             | Some v \<Rightarrow> map_option ((#) (char_of (v mod 256))) (url_decode r))
         | _ \<Rightarrow> None)
      else if c = CHR ''+'' then map_option ((#) (CHR '' '')) (url_decode s)
      else map_option ((#) c) (url_decode s))"

definition mappings :: "(string \<times> string) list" where
  "mappings = [(''gif'', ''image/gif''), (''htm'', ''text/html''), (''html'', ''text/html''),
     (''jpg'', ''image/jpeg''), (''png'', ''image/png'')]"

definition extension_to_type :: "string \<Rightarrow> string" where
  "extension_to_type e = (case find (\<lambda>(k, v). k = e) mappings of Some (k, v) \<Rightarrow> v | None \<Rightarrow> ''text/plain'')"

section \<open>Encoding\<close>

text \<open>The reference: every character that is not a letter or digit becomes a percent sign and two digits.\<close>

definition hex_char :: "int \<Rightarrow> char" where
  "hex_char d = char_of (if d < 10 then 48 + d else 55 + d)"

definition unreserved :: "char \<Rightarrow> bool" where
  "unreserved c \<longleftrightarrow> (let n = char_value c in (48 \<le> n \<and> n \<le> 57) \<or> (65 \<le> n \<and> n \<le> 90) \<or> (97 \<le> n \<and> n \<le> 122))"

fun url_encode :: "string \<Rightarrow> string" where
  "url_encode [] = []"
| "url_encode (c # s) =
     (if unreserved c then c # url_encode s
      else CHR 0x25 # hex_char (of_char c div 16) # hex_char (of_char c mod 16) # url_encode s)"

lemma hex_char_digit:
  assumes "0 \<le> d" and "d < 16"
  shows "hex_digit (hex_char d) = Some d" and "hex_char d \<notin> {CHR ''x'', CHR ''X'', CHR ''-'', CHR ''+''}"
    and "\<not> is_space (hex_char d)"
proof -
  have "d \<in> set [0..15]" using assms by simp
  moreover have "\<forall>d \<in> set [0..15]. hex_digit (hex_char d) = Some d \<and> hex_char d \<notin> {CHR ''x'', CHR ''X'', CHR ''-'', CHR ''+''}
      \<and> \<not> is_space (hex_char d)" by code_simp
  ultimately show "hex_digit (hex_char d) = Some d" and "hex_char d \<notin> {CHR ''x'', CHR ''X'', CHR ''-'', CHR ''+''}"
    and "\<not> is_space (hex_char d)" by blast+
qed

lemma read_hex_byte:
  assumes "0 \<le> n" and "n < 256"
  shows "read_hex [hex_char (n div 16), hex_char (n mod 16)] = Some n"
proof -
  have d: "0 \<le> n div 16" "n div 16 < 16" "0 \<le> n mod 16" "n mod 16 < 16" using assms by auto
  note hi = hex_char_digit [OF d(1,2)] and lo = hex_char_digit [OF d(3,4)]
  show ?thesis using hi lo by (simp add: read_hex_def hex_number_def)
qed

lemma url_decode_encode: "url_decode (url_encode s) = Some s"
proof (induction s)
  case (Cons c s)
  show ?case
  proof (cases "unreserved c")
    case True
    then have "c \<noteq> CHR 0x25" "c \<noteq> CHR ''+''" by (auto simp: unreserved_def char_value_def)
    then show ?thesis using Cons True by simp
  next
    case False
    have "(of_char c :: int) < 256" "0 \<le> (of_char c :: int)"
      using nat_of_char_less_256 [of c] of_nat_of_char [of c, where 'a = int] by linarith+
    then have "read_hex [hex_char (of_char c div 16), hex_char (of_char c mod 16)] = Some (of_char c)"
      by (intro read_hex_byte)
    then show ?thesis using Cons False by simp
  qed
qed simp

lemma url_decode_swallows: "url_decode ''%4g'' = Some [CHR 0x04]" "url_decode ''% 4'' = Some [CHR 0x04]"
  "url_decode ''%-1'' = Some [CHR 0xFF]"
  by code_simp+

end
