(* ===== verification/PathFinding.thy ===== *)
theory PathFinding
  imports FloatBits GameStep
begin

text \<open>
  Path finding: \<open>GameCore/Ai/tools/MapGraph\<close> and \<open>Ai/ConstantPathFinderTankAi\<close>. The nodes of the map are a
  vector, an edge is a checked straight line between two of them, \<open>belMan\<close> fills the matrix of shortest
  paths and \<open>findPath\<close> walks it. The matrix is read and written with a bounds check; an entry whose
  \<open>nextV\<close> was never assigned is \<open>None\<close>. The sets of blocks and lines are those of the core.
\<close>

section \<open>The graph\<close>

record Edge =
  edge_v :: nat
  edge_l :: SegmentLine
  minBlockDistance :: "fl option"

record Node =
  node_id :: nat
  node_pos :: Point
  neighbors :: "Edge list"

record shortPath =
  nextV :: "nat option"
  pathDistance :: fl

record MapGraph =
  graph_nodes :: "Node list"
  belman :: "shortPath list"

definition new_MapGraph :: MapGraph where
  "new_MapGraph = \<lparr>graph_nodes = [], belman = []\<rparr>"

definition pushNode :: "Point \<Rightarrow> MapGraph \<Rightarrow> MapGraph" where
  "pushNode p g = g\<lparr>graph_nodes := graph_nodes g
     @ [\<lparr>node_id = length (graph_nodes g), node_pos = p, neighbors = []\<rparr>]\<rparr>"

definition init3_3 :: "Point \<Rightarrow> fl \<Rightarrow> fl \<Rightarrow> int \<Rightarrow> int \<Rightarrow> MapGraph \<Rightarrow> MapGraph" where
  "init3_3 center w h xn yn g =
     fold (\<lambda>i. fold (\<lambda>j. pushNode (p_add center
              (pt (fdiv (fmul w (f_of_int i)) (f_of_int xn)) (fdiv (fmul h (f_of_int j)) (f_of_int yn)))))
            [c_div (- yn) 2 .. c_div yn 2 - 1])
       [c_div (- xn) 2 .. c_div xn 2 - 1] g"

text \<open>The rings around obstacles are computed with the \<open>double\<close> functions \<open>cos\<close> and \<open>sin\<close>.\<close>

record libm_double =
  cos_double :: "fl \<Rightarrow> fl"
  sin_double :: "fl \<Rightarrow> fl"

definition ring_radius :: "libm_double \<Rightarrow> fl \<Rightarrow> fl" where
  "ring_radius m r = to_float (dmul r (ddiv (Fin 1) (cos_double m (ddiv (dlit (31415 / 10000)) (Fin 12)))))"

definition ring_point :: "libm_double \<Rightarrow> fl \<Rightarrow> int \<Rightarrow> Point" where
  "ring_point m r i =
     (let a = ddiv (dmul (dmul (Fin (of_int i)) (dlit (31415 / 10000))) (Fin 2)) (Fin 12)
      in p_scale (pt (to_float (cos_double m a)) (to_float (sin_double m a))) r)"

definition ring_block :: "libm_double \<Rightarrow> fl \<Rightarrow> BoardObject \<Rightarrow> MapGraph \<Rightarrow> MapGraph" where
  "ring_block m tank_r t =
     (let r = ring_radius m (fadd (radius t) tank_r)
      in fold (\<lambda>i. pushNode (p_add (pos t) (ring_point m r i))) [0..11])"

definition ring_line :: "libm_double \<Rightarrow> fl \<Rightarrow> PlatformLine \<Rightarrow> MapGraph \<Rightarrow> MapGraph" where
  "ring_line m tank_r t =
     (let r = ring_radius m tank_r
      in fold (\<lambda>i g. pushNode (p_add (p_add (pos t) (l_finish (seg t))) (ring_point m r i))
                 (pushNode (p_add (p_add (pos t) (l_start (seg t))) (ring_point m r i)) g)) [0..11])"

definition add_nodes :: "libm_double \<Rightarrow> GameCore \<Rightarrow> fl \<Rightarrow> MapGraph \<Rightarrow> MapGraph option" where
  "add_nodes m c tank_r g = do {
     g \<leftarrow> for_each (\<lambda>a g. do { t \<leftarrow> block_at c a; Some (ring_block m tank_r t g) }) (blocks c) g;
     for_each (\<lambda>a g. do { t \<leftarrow> line_at c a; Some (ring_line m tank_r t g) }) (block_lines c) g }"

section \<open>Edges\<close>

fun clear_of_blocks :: "GameCore \<Rightarrow> SegmentLine \<Rightarrow> fl \<Rightarrow> addr list \<Rightarrow> bool option" where
  "clear_of_blocks c l r [] = Some True"
| "clear_of_blocks c l r (a # as) = do {
     t \<leftarrow> block_at c a;
     let d = get_distance l (pos t);
     let d = (if flt d (fadd (fadd r (radius t)) (Fin 20)) \<and> fgt d (fadd r (radius t))
              then fadd d (get_distance l (pos t)) else d);
     if flt d (fadd r (radius t)) then Some False else clear_of_blocks c l r as }"

fun clear_of_lines :: "GameCore \<Rightarrow> Point \<Rightarrow> Point \<Rightarrow> fl \<Rightarrow> addr list \<Rightarrow> bool option" where
  "clear_of_lines c s f r [] = Some True"
| "clear_of_lines c s f r (a # as) = do {
     t \<leftarrow> line_at c a;
     if have_intersec (seg t) s f r then Some False else clear_of_lines c s f r as }"

definition checkLine :: "GameCore \<Rightarrow> Point \<Rightarrow> Point \<Rightarrow> fl \<Rightarrow> bool option" where
  "checkLine c s f r = do {
     ok \<leftarrow> clear_of_blocks c (l_refresh (segment_of s f)) r (blocks c);
     if ok then clear_of_lines c s f r (block_lines c) else Some False }"

definition node_at :: "MapGraph \<Rightarrow> nat \<Rightarrow> Node option" where
  "node_at g i = (if i < length (graph_nodes g) then Some (graph_nodes g ! i) else None)"

definition put_node :: "nat \<Rightarrow> Node \<Rightarrow> MapGraph \<Rightarrow> MapGraph" where
  "put_node i v g = g\<lparr>graph_nodes := (graph_nodes g)[i := v]\<rparr>"

text \<open>\<open>minBlockDistance\<close> is never given a value, and the assignment the loop means is a comparison.\<close>

definition refreshEdge :: "GameCore \<Rightarrow> nat \<Rightarrow> nat \<Rightarrow> MapGraph \<Rightarrow> MapGraph option" where
  "refreshEdge c v k g = do {
     n \<leftarrow> node_at g v;
     e \<leftarrow> (if k < length (neighbors n) then Some (neighbors n ! k) else None);
     let e = e\<lparr>edge_l := l_refresh (edge_l e)\<rparr>;
     for_each (\<lambda>a g. do { t \<leftarrow> block_at c a; d \<leftarrow> minBlockDistance e; Some g }) (blocks c)
       (put_node v (n\<lparr>neighbors := (neighbors n)[k := e]\<rparr>) g) }"

definition link_nodes :: "GameCore \<Rightarrow> fl \<Rightarrow> fl \<Rightarrow> nat \<Rightarrow> nat \<Rightarrow> MapGraph \<Rightarrow> MapGraph option" where
  "link_nodes c reach tank_r i j g =
     (if i = j then Some g
      else do {
        u \<leftarrow> node_at g i;
        v \<leftarrow> node_at g j;
        if flt (p_length (p_sub (node_pos u) (node_pos v))) reach then do {
          ok \<leftarrow> checkLine c (node_pos u) (node_pos v) tank_r;
          Some (if ok then put_node i (u\<lparr>neighbors := neighbors u
                  @ [\<lparr>edge_v = j, edge_l = segment_of (node_pos u) (node_pos v), minBlockDistance = None\<rparr>]\<rparr>) g
                else g) }
        else Some g })"

definition createEdges :: "GameCore \<Rightarrow> fl \<Rightarrow> fl \<Rightarrow> MapGraph \<Rightarrow> MapGraph option" where
  "createEdges c reach tank_r g =
     (let n = length (graph_nodes g)
      in for_each (\<lambda>i. for_each (link_nodes c reach tank_r i) [0..<n]) [0..<n] g)"

section \<open>The matrix of shortest paths\<close>

definition far_away :: fl where
  "far_away = f_of_int 1000000"

definition entry :: "MapGraph \<Rightarrow> nat \<Rightarrow> nat \<Rightarrow> shortPath option" where
  "entry g i j =
     (let k = i * length (graph_nodes g) + j in if k < length (belman g) then Some (belman g ! k) else None)"

definition put_entry :: "nat \<Rightarrow> nat \<Rightarrow> shortPath \<Rightarrow> MapGraph \<Rightarrow> MapGraph option" where
  "put_entry i j e g =
     (let k = i * length (graph_nodes g) + j
      in if k < length (belman g) then Some (g\<lparr>belman := (belman g)[k := e]\<rparr>) else None)"

definition edge_length :: "Edge \<Rightarrow> fl" where
  "edge_length e = fmul (h_d (edge_l e)) (Fin 2)"

definition set_edges :: "Node \<Rightarrow> MapGraph \<Rightarrow> MapGraph option" where
  "set_edges v = for_each (\<lambda>e. put_entry (node_id v) (edge_v e)
     \<lparr>nextV = Some (edge_v e), pathDistance = edge_length e\<rparr>) (neighbors v)"

definition relax :: "nat \<Rightarrow> nat \<Rightarrow> nat \<Rightarrow> MapGraph \<Rightarrow> MapGraph option" where
  "relax k i j g = do {
     ij \<leftarrow> entry g i j;
     ik \<leftarrow> entry g i k;
     kj \<leftarrow> entry g k j;
     let d = fadd (pathDistance ik) (pathDistance kj);
     if fgt (pathDistance ij) d then put_entry i j \<lparr>nextV = nextV ik, pathDistance = d\<rparr> g else Some g }"

definition relax_all :: "nat \<Rightarrow> nat \<Rightarrow> MapGraph \<Rightarrow> MapGraph option" where
  "relax_all n k = for_each (\<lambda>i. for_each (relax k i) [0..<n]) [0..<n]"

definition belMan :: "MapGraph \<Rightarrow> MapGraph option" where
  "belMan g =
     (let n = length (graph_nodes g)
      in do {
        g \<leftarrow> for_each set_edges (graph_nodes g)
               (g\<lparr>belman := replicate (n * n) \<lparr>nextV = None, pathDistance = far_away\<rparr>\<rparr>);
        for_each (relax_all n) [0..<n] g })"

section \<open>Looking for a path\<close>

definition visible_node :: "GameCore \<Rightarrow> Point \<Rightarrow> fl \<Rightarrow> fl \<Rightarrow> Node \<Rightarrow> nat list \<Rightarrow> nat list option" where
  "visible_node c center reach tank_r v res =
     (if flt (p_length (p_sub center (node_pos v))) reach then do {
        ok \<leftarrow> checkLine c center (node_pos v) tank_r;
        Some (if ok then res @ [node_id v] else res) }
      else Some res)"

definition nearest_node :: "GameCore \<Rightarrow> Point \<Rightarrow> fl \<Rightarrow> Node \<Rightarrow> fl \<times> nat \<Rightarrow> (fl \<times> nat) option" where
  "nearest_node c center tank_r v = (\<lambda>(mind, besti). do {
     ok \<leftarrow> checkLine c center (node_pos v) tank_r;
     let d = p_length (p_sub center (node_pos v));
     Some (if ok \<and> flt d mind then (d, node_id v) else (mind, besti)) })"

definition findNodes :: "GameCore \<Rightarrow> Point \<Rightarrow> fl \<Rightarrow> fl \<Rightarrow> MapGraph \<Rightarrow> nat list option" where
  "findNodes c center reach tank_r g = do {
     res \<leftarrow> for_each (visible_node c center reach tank_r) (graph_nodes g) [];
     if res \<noteq> [] then Some res
     else do {
       (mind, besti) \<leftarrow> for_each (nearest_node c center tank_r) (graph_nodes g) (f_of_int 100000, 0);
       Some (if flt mind (f_of_int 100000) then [besti] else []) } }"

definition better_pair :: "MapGraph \<Rightarrow> Point \<Rightarrow> Point \<Rightarrow> nat \<Rightarrow> nat \<Rightarrow> fl \<times> nat \<times> nat \<Rightarrow> (fl \<times> nat \<times> nat) option" where
  "better_pair g s f i j = (\<lambda>(min_d, besti, bestj). do {
     u \<leftarrow> node_at g i;
     v \<leftarrow> node_at g j;
     e \<leftarrow> entry g i j;
     let d = fadd (fadd (fadd (Fin 0) (p_length (p_sub s (node_pos u)))) (p_length (p_sub f (node_pos v))))
               (pathDistance e);
     Some (if flt d min_d then (d, i, j) else (min_d, besti, bestj)) })"

partial_function (option) follow :: "MapGraph \<Rightarrow> nat \<Rightarrow> nat \<Rightarrow> Point list option" where
  "follow g i j =
     (if i = j then Some []
      else do {
        u \<leftarrow> node_at g i;
        e \<leftarrow> entry g i j;
        v \<leftarrow> nextV e;
        rest \<leftarrow> follow g v j;
        Some (node_pos u # rest) })"

declare follow.simps [code]

definition findPath :: "GameCore \<Rightarrow> Point \<Rightarrow> Point \<Rightarrow> fl \<Rightarrow> fl \<Rightarrow> MapGraph \<Rightarrow> (Point list \<times> fl) option" where
  "findPath c s f reach tank_r g = do {
     ss \<leftarrow> findNodes c s reach tank_r g;
     ff \<leftarrow> findNodes c f reach tank_r g;
     (min_d, besti, bestj) \<leftarrow> for_each (\<lambda>i. for_each (better_pair g s f i) ff) ss (far_away, 0, 0);
     mid \<leftarrow> follow g besti bestj;
     Some (s # mid @ [f], min_d) }"

section \<open>A tank that patrols along paths\<close>

record ConstantPathFinderTankAi =
  pf_array :: "Point list"
  pf_index :: nat

function refresh_loop :: "GameCore \<Rightarrow> MapGraph \<Rightarrow> Point list \<Rightarrow> nat \<Rightarrow> Point \<Rightarrow> Point list \<Rightarrow> Point list option" where
  "refresh_loop c g points i prv path2 =
     (if i < length points + 1 then do {
        let f = points ! (i mod length points);
        (t, d) \<leftarrow> findPath c prv f (Fin 500) (Fin 100) g;
        if fgt d (Fin 10000) then refresh_loop c g points (i + 2) prv (path2 @ [prv])
        else refresh_loop c g points (i + 1) f (path2 @ [prv] @ t) }
      else Some path2)"
  by pat_completeness auto
termination by (relation "measure (\<lambda>(c, g, points, i, prv, path2). length points + 1 - i)") auto

definition pf_refresh :: "GameCore \<Rightarrow> MapGraph \<Rightarrow> ConstantPathFinderTankAi \<Rightarrow> ConstantPathFinderTankAi option" where
  "pf_refresh c g a =
     (case pf_array a of [] \<Rightarrow> None
      | p # ps \<Rightarrow> map_option (\<lambda>path2. a\<lparr>pf_array := path2\<rparr>) (refresh_loop c g (pf_array a) 1 p []))"

definition pf_step :: "libm \<Rightarrow> int \<Rightarrow> Tank \<times> ConstantPathFinderTankAi \<Rightarrow> (Tank \<times> ConstantPathFinderTankAi) option" where
  "pf_step m now = (\<lambda>(t, a).
     if pf_index a < length (pf_array a) then
       (let p = p_sub (pf_array a ! pf_index a) (pos t);
            t = fst (add_action now (find_angle m p) (Fin 1000) 0 t);
            k = pf_index a + 1
        in Some (t, if flt (lengthSquared p) (Fin 200)
                    then a\<lparr>pf_index := (if k \<ge> length (pf_array a) then 0 else k)\<rparr> else a))
     else None)"

end
