(* ===== verification/Rounding.thy ===== *)
theory Rounding
  imports FloatBits
begin

text \<open>
  Rounding to \<open>float\<close>: it keeps the order, changes a value that is a \<open>float\<close> not at all and a sum of two
  by at most one part in \<open>2 ^ 24\<close>. Lengths are values that are not negative; \<open>PInf\<close> and \<open>NaN\<close> are lengths too.
\<close>

section \<open>Rounding to an integer\<close>

lemma round_even_int [simp]: "round_even (of_int m) = m"
  by (simp add: round_even_def Let_def)

lemma round_even_cases: "round_even x = \<lfloor>x\<rfloor> \<and> x - of_int \<lfloor>x\<rfloor> \<le> 1 / 2 \<or> round_even x = \<lfloor>x\<rfloor> + 1 \<and> 1 / 2 \<le> x - of_int \<lfloor>x\<rfloor>"
  by (auto simp: round_even_def Let_def)

lemma round_even_error: "\<bar>of_int (round_even x) - x\<bar> \<le> 1 / 2"
  using round_even_cases [of x] of_int_floor_le [of x] floor_correct [of x] by auto

lemma round_even_mono:
  assumes "x \<le> y"
  shows "round_even x \<le> round_even y"
proof (cases "\<lfloor>x\<rfloor> = \<lfloor>y\<rfloor>")
  case True
  then show ?thesis using assms by (auto simp: round_even_def Let_def)
next
  case False
  then have "\<lfloor>x\<rfloor> + 1 \<le> \<lfloor>y\<rfloor>" using floor_mono [OF assms] by simp
  moreover have "round_even x \<le> \<lfloor>x\<rfloor> + 1" "\<lfloor>y\<rfloor> \<le> round_even y" using round_even_cases [of x] round_even_cases [of y] by auto
  ultimately show ?thesis by simp
qed

lemma round_even_ge: "of_int n \<le> x \<Longrightarrow> n \<le> round_even x"
  using round_even_mono [of "of_int n" x] by simp

lemma round_even_le: "x \<le> of_int n \<Longrightarrow> round_even x \<le> n"
  using round_even_mono [of x "of_int n"] by simp

lemma pow2_nonneg [simp]: "0 \<le> pow2 e"
  by (rule less_imp_le) simp

section \<open>Rounding to a float\<close>

text \<open>The exponent of the last bit, and the rounded value, of a positive number.\<close>

definition last_bit :: "rat \<Rightarrow> int" where
  "last_bit x = max (log2_floor x - 23) (- 149)"

definition rnd :: "rat \<Rightarrow> rat" where
  "rnd x = of_int (round_even (x / pow2 (last_bit x))) * pow2 (last_bit x)"

lemma round32_rnd: "0 < x \<Longrightarrow> round32 x = (if pow2 128 \<le> rnd x then PInf else Fin (rnd x))"
  by (simp add: round32_def round_fmt_def rnd_def last_bit_def Let_def)

lemma log2_floor_mono:
  assumes "0 < x" and "x \<le> y"
  shows "log2_floor x \<le> log2_floor y"
proof -
  have "pow2 (log2_floor x) < pow2 (log2_floor y + 1)"
    using log2_floor_bounds(1) [OF assms(1)] log2_floor_bounds(2) [of y] assms by linarith
  then show ?thesis using pow2_less by fastforce
qed

lemma below_last_bit:
  assumes "0 < x"
  shows "x / pow2 (last_bit x) < 2 ^ 24"
proof -
  have "x < pow2 (log2_floor x + 1)" by (rule log2_floor_bounds(2) [OF assms])
  also have "\<dots> \<le> pow2 (24 + last_bit x)" by (rule pow2_le) (simp add: last_bit_def)
  also have "\<dots> = 2 ^ 24 * pow2 (last_bit x)" unfolding pow2_add by (simp add: pow2_def [of 24])
  finally show ?thesis by (simp add: divide_less_eq)
qed

lemma rnd_error: "\<bar>rnd x - x\<bar> \<le> pow2 (last_bit x) / 2"
proof -
  let ?p = "pow2 (last_bit x)"
  have "rnd x - x = (of_int (round_even (x / ?p)) - x / ?p) * ?p"
    using pow2_pos [of "last_bit x"] by (simp add: rnd_def left_diff_distrib del: pow2_pos)
  then have "\<bar>rnd x - x\<bar> = \<bar>of_int (round_even (x / ?p)) - x / ?p\<bar> * ?p" by (simp add: abs_mult)
  also have "\<dots> \<le> 1 / 2 * ?p" by (rule mult_right_mono [OF round_even_error]) simp
  finally show ?thesis by simp
qed

lemma rnd_mono:
  assumes "0 < x" and "x \<le> y"
  shows "rnd x \<le> rnd y"
proof -
  have le: "last_bit x \<le> last_bit y" using log2_floor_mono [OF assms] by (simp add: last_bit_def)
  show ?thesis
  proof (cases "last_bit x = last_bit y")
    case True
    then show ?thesis unfolding rnd_def using assms(2)
      by (auto intro!: mult_right_mono round_even_mono divide_right_mono)
  next
    case False
    define e where "e = last_bit y - 1"
    have e: "last_bit x \<le> e" "log2_floor y = e + 24" using False le by (auto simp: last_bit_def e_def max_def split: if_splits)
    have "of_int (round_even (x / pow2 (last_bit x))) \<le> (2 ^ 24 :: rat)"
      using round_even_le [of "x / pow2 (last_bit x)" "2 ^ 24"] below_last_bit [OF assms(1)]
      by simp
    then have "rnd x \<le> 2 ^ 24 * pow2 (last_bit x)" unfolding rnd_def by (rule mult_right_mono) simp
    also have "\<dots> = pow2 (24 + last_bit x)" unfolding pow2_add by (simp add: pow2_def [of 24])
    also have "\<dots> \<le> pow2 (23 + last_bit y)" using e by (intro pow2_le) (simp add: e_def)
    also have "\<dots> = 2 ^ 23 * pow2 (last_bit y)" unfolding pow2_add by (simp add: pow2_def [of 23])
    also have "\<dots> \<le> rnd y"
    proof -
      have "pow2 (23 + last_bit y) \<le> y"
        using log2_floor_bounds(1) [of y] assms e by (simp add: e_def)
      then have "of_int (2 ^ 23) \<le> y / pow2 (last_bit y)" unfolding pow2_add by (simp add: pow2_def [of 23] le_divide_eq)
      then have "2 ^ 23 \<le> round_even (y / pow2 (last_bit y))" by (rule round_even_ge)
      then have "(2 ^ 23 :: rat) \<le> of_int (round_even (y / pow2 (last_bit y)))" by (metis of_int_le_iff of_int_numeral of_int_power)
      then show ?thesis unfolding rnd_def by (rule mult_right_mono) simp
    qed
    finally show ?thesis .
  qed
qed

lemma rnd_exact:
  assumes "0 < x" and "x = of_int m * pow2 e" and "last_bit x \<le> e"
  shows "rnd x = x"
proof -
  let ?l = "last_bit x"
  have "x / pow2 ?l = of_int m * (pow2 (e - ?l) * pow2 ?l) / pow2 ?l"
    by (subst assms(2)) (simp add: pow2_add [symmetric])
  also have "\<dots> = of_int (m * 2 ^ nat (e - ?l))"
    using assms(3) pow2_pos [of ?l] by (simp add: pow2_of_int del: pow2_pos)
  finally show ?thesis using pow2_pos [of ?l]
    by (simp add: rnd_def del: pow2_pos of_int_mult) (metis nonzero_eq_divide_eq order_less_irrefl)
qed

lemma rnd_24_bits:
  assumes "0 < x" and "x = of_int m * pow2 e" and "m < 2 ^ 24" and "- 149 \<le> e"
  shows "rnd x = x"
proof (rule rnd_exact [OF assms(1,2)])
  have "(of_int m :: rat) < 2 ^ 24" using assms(3) by (metis of_int_less_iff of_int_numeral of_int_power)
  then have "x < 2 ^ 24 * pow2 e" unfolding assms(2) by (rule mult_strict_right_mono) simp
  also have "\<dots> = pow2 (24 + e)" unfolding pow2_add by (simp add: pow2_def [of 24])
  finally have "log2_floor x < 24 + e" using log2_floor_bounds(1) [OF assms(1)] by (intro pow2_less) simp
  then show "last_bit x \<le> e" using assms(4) by (simp add: last_bit_def)
qed

lemma rnd_idem [simp]:
  assumes "0 < x" and "0 < rnd x"
  shows "rnd (rnd x) = rnd x"
proof -
  define m where "m = round_even (x / pow2 (last_bit x))"
  have m: "rnd x = of_int m * pow2 (last_bit x)" "- 149 \<le> last_bit x" by (simp_all add: rnd_def m_def last_bit_def)
  have "m \<le> 2 ^ 24" unfolding m_def using below_last_bit [OF assms(1)] by (intro round_even_le) simp
  then consider "m < 2 ^ 24" | "m = 2 ^ 24" by linarith
  then show ?thesis
  proof cases
    case 1
    then show ?thesis using rnd_24_bits [OF assms(2) m(1)] m(2) by simp
  next
    case 2
    have "rnd x = of_int (2 ^ 23) * pow2 (1 + last_bit x)" unfolding m(1) 2 pow2_add by (simp add: pow2_def [of 1])
    from rnd_24_bits [OF assms(2) this] show ?thesis using m(2) by simp
  qed
qed

lemma is_float_rnd: "0 < x \<Longrightarrow> is_float (Fin x) \<longleftrightarrow> rnd x = x \<and> x < pow2 128"
  by (auto simp: round32_rnd)

section \<open>Lengths\<close>

fun nonneg :: "fl \<Rightarrow> bool" where
  "nonneg (Fin x) \<longleftrightarrow> 0 \<le> x"
| "nonneg MInf \<longleftrightarrow> False"
| "nonneg x \<longleftrightarrow> True"

definition is_length :: "fl \<Rightarrow> bool" where
  "is_length x \<longleftrightarrow> nonneg x \<and> is_float x"

lemma round32_0 [simp]: "round32 0 = Fin 0"
  by (simp add: round32_def round_fmt_def)

lemma rnd_nonneg: "0 < x \<Longrightarrow> 0 \<le> rnd x"
  using round_even_ge [of 0 "x / pow2 (last_bit x)"] by (simp add: rnd_def)

lemma is_length_round32: "0 \<le> x \<Longrightarrow> is_length (round32 x)"
proof (cases "x = 0")
  case False
  assume "0 \<le> x"
  then have x: "0 < x" "0 \<le> rnd x" using False rnd_nonneg by simp_all
  show ?thesis
  proof (cases "rnd x = 0")
    case True
    then show ?thesis using x by (simp add: is_length_def round32_rnd)
  next
    case False
    then show ?thesis using x by (simp add: is_length_def round32_rnd)
  qed
qed (simp add: is_length_def)

lemma is_length_Fin: "is_length (Fin x) \<longleftrightarrow> 0 \<le> x \<and> (x = 0 \<or> rnd x = x \<and> x < pow2 128)"
  by (cases "x = 0") (auto simp: is_length_def is_float_rnd [simplified] order_less_le)

lemma is_length_cases:
  assumes "is_length x"
  obtains "x = NaN" | "x = PInf" | a where "x = Fin a" and "0 \<le> a"
  using assms by (cases x) (auto simp: is_length_def)

lemma is_length_fadd: "is_length x \<Longrightarrow> is_length y \<Longrightarrow> is_length (fadd x y)"
  by (elim is_length_cases) (auto simp: fadd_def is_length_round32, auto simp: is_length_def)

lemma fadd_not_NaN: "is_length x \<Longrightarrow> is_length y \<Longrightarrow> x \<noteq> NaN \<Longrightarrow> y \<noteq> NaN \<Longrightarrow> fadd x y \<noteq> NaN"
  by (elim is_length_cases) (auto simp: fadd_def round32_def round_fmt_def Let_def)

lemma rnd_add_ge:
  assumes "is_length (Fin a)" and "0 \<le> b" and "0 < a + b"
  shows "a \<le> rnd (a + b)"
proof (cases "a = 0")
  case True
  then show ?thesis using rnd_nonneg [OF assms(3)] by simp
next
  case False
  then have "0 < a" "rnd a = a" using assms(1) by (auto simp: is_length_Fin)
  then show ?thesis using rnd_mono [of a "a + b"] assms(2) by simp
qed

text \<open>A sum that is below a bound has finite summands, none of them greater.\<close>

lemma fadd_below:
  assumes "is_length x" and "is_length y" and "flt (fadd x y) bnd"
  obtains a b s where "x = Fin a" and "y = Fin b" and "fadd x y = Fin s" and "0 \<le> a" and "0 \<le> b" and "a \<le> s" and "b \<le> s"
proof -
  have "\<not> flt PInf bnd" "\<not> flt NaN bnd" by (cases bnd; simp)+
  then obtain a b where ab: "x = Fin a" "y = Fin b" "0 \<le> a" "0 \<le> b" using assms
    by (elim is_length_cases) (auto simp: fadd_def)
  show ?thesis
  proof (cases "a + b = 0")
    case True
    then show ?thesis using that [OF ab(1,2) _ ab(3,4)] ab by (simp add: fadd_def)
  next
    case False
    then have pos: "0 < a + b" using ab by simp
    then have "fadd x y = Fin (rnd (a + b))" using assms(3) ab \<open>\<not> flt PInf bnd\<close> by (auto simp: fadd_def round32_rnd split: if_splits)
    moreover have "a \<le> rnd (a + b)" "b \<le> rnd (a + b)"
      using rnd_add_ge [of a b] rnd_add_ge [of b a] assms(1,2) ab pos by (simp_all add: add.commute)
    ultimately show ?thesis using that ab by blast
  qed
qed

lemma fadd_mono:
  assumes "0 \<le> a" and "a \<le> a'" and "0 \<le> b" and "b \<le> b'" and "fadd (Fin a') (Fin b') = Fin s'"
  obtains s where "fadd (Fin a) (Fin b) = Fin s" and "s \<le> s'"
proof (cases "a + b = 0")
  case True
  have "0 \<le> s'" using is_length_round32 [of "a' + b'"] assms by (simp add: fadd_def is_length_def)
  then show ?thesis using that True by (simp add: fadd_def)
next
  case False
  then have pos: "0 < a + b" "a + b \<le> a' + b'" using assms by simp_all
  then have s': "s' = rnd (a' + b')" "rnd (a' + b') < pow2 128" using assms(5) by (simp_all add: fadd_def round32_rnd split: if_splits)
  have "rnd (a + b) \<le> rnd (a' + b')" by (rule rnd_mono [OF pos])
  then show ?thesis using that [of "rnd (a + b)"] s' pos(1) by (simp add: fadd_def round32_rnd)
qed

lemma float_multiple:
  assumes "is_length (Fin a)"
  obtains m where "a = of_int m * pow2 (- 149)"
proof (cases "a = 0")
  case True
  then show ?thesis using that [of 0] by simp
next
  case False
  then have "rnd a = a" using assms by (simp add: is_length_Fin)
  moreover have "pow2 (last_bit a) = of_int (2 ^ nat (last_bit a + 149)) * pow2 (- 149)"
  proof -
    have "pow2 (last_bit a) = pow2 (last_bit a + 149) * pow2 (- 149)" unfolding pow2_add [symmetric] by simp
    then show ?thesis by (simp add: pow2_of_int last_bit_def)
  qed
  ultimately have "a = of_int (round_even (a / pow2 (last_bit a)) * 2 ^ nat (last_bit a + 149)) * pow2 (- 149)"
    unfolding rnd_def by (metis mult.assoc of_int_mult)
  then show ?thesis by (rule that)
qed

text \<open>The relative error of one addition.\<close>

definition ulp :: rat where
  "ulp = 1 / 2 ^ 24"

lemma fadd_error:
  assumes "is_length (Fin a)" and "is_length (Fin b)" and "a \<le> 1000000" and "b \<le> 1000000"
  obtains s where "fadd (Fin a) (Fin b) = Fin s" and "(1 - ulp) * (a + b) \<le> s" and "s \<le> (1 + ulp) * (a + b)"
proof (cases "a + b = 0")
  case True
  then show ?thesis using that [of 0] by (simp add: fadd_def)
next
  case False
  let ?x = "a + b"
  have pos: "0 < ?x" using False assms(1,2) by (simp add: is_length_Fin)
  have err: "\<bar>rnd ?x - ?x\<bar> \<le> ulp * ?x"
  proof (cases "log2_floor ?x \<le> - 126")
    case True
    obtain m m' where "a = of_int m * pow2 (- 149)" "b = of_int m' * pow2 (- 149)"
      using float_multiple [OF assms(1)] float_multiple [OF assms(2)] by metis
    then have "?x = of_int (m + m') * pow2 (- 149)" by (simp add: distrib_right)
    then have "rnd ?x = ?x" by (rule rnd_exact [OF pos]) (use True in \<open>simp add: last_bit_def\<close>)
    then show ?thesis using pos by (simp add: ulp_def)
  next
    case False
    then have l: "last_bit ?x = log2_floor ?x + - 23" by (simp add: last_bit_def)
    have "pow2 (last_bit ?x) / 2 = ulp * pow2 (log2_floor ?x)"
      unfolding l pow2_add by (simp add: pow2_def [of "- 23"] ulp_def)
    also have "\<dots> \<le> ulp * ?x" using log2_floor_bounds(1) [OF pos] by (simp add: ulp_def)
    finally show ?thesis using rnd_error [of ?x] by simp
  qed
  have "rnd ?x \<le> (1 + ulp) * 2000000"
  proof -
    have "ulp * ?x \<le> ulp * 2000000" using assms(3,4) by (simp add: ulp_def)
    then show ?thesis using err assms(3,4) by (simp add: algebra_simps abs_le_iff)
  qed
  moreover have "(1 + ulp) * 2000000 < pow2 128" by (simp add: ulp_def pow2_def)
  ultimately have "fadd (Fin a) (Fin b) = Fin (rnd ?x)" using pos by (simp add: fadd_def round32_rnd)
  then show ?thesis using that err by (simp add: abs_le_iff algebra_simps)
qed

section \<open>Lengths the program computes\<close>

lemma isqrt_nonneg: "0 \<le> isqrt n"
proof (cases "0 < n")
  case True
  from isqrt_root [OF this] have "n < (isqrt n + 1) * (isqrt n + 1)" "isqrt n * isqrt n \<le> n" by simp_all
  show ?thesis
  proof (rule ccontr)
    assume "\<not> 0 \<le> isqrt n"
    then have "(isqrt n + 1) * (isqrt n + 1) \<le> isqrt n * isqrt n" by (simp add: algebra_simps)
    then show False using isqrt_root [OF True] by linarith
  qed
qed (simp add: isqrt_def)

lemma is_length_special [simp]: "is_length NaN" "is_length PInf" "is_length (Fin 0)"
  by (simp_all add: is_length_def)

lemma is_length_fsqrt: "is_length (fsqrt x)"
proof (cases x)
  case (Fin y)
  then show ?thesis
    by (auto simp: fsqrt_def Let_def isqrt_nonneg intro!: is_length_round32 mult_nonneg_nonneg add_nonneg_nonneg)
qed (simp_all add: fsqrt_def)

lemma is_length_fdiv: "is_length x \<Longrightarrow> 0 < y \<Longrightarrow> is_length (fdiv x (Fin y))"
  by (elim is_length_cases) (auto simp: fdiv_def inf_of_def intro: is_length_round32)

lemma is_length_fmul: "is_length x \<Longrightarrow> 0 < y \<Longrightarrow> is_length (fmul x (Fin y))"
  by (elim is_length_cases) (auto simp: fmul_def inf_of_def intro: is_length_round32)

section \<open>Values of bounded size\<close>

fun fits :: "int \<Rightarrow> fl \<Rightarrow> bool" where
  "fits k (Fin x) \<longleftrightarrow> \<bar>x\<bar> \<le> pow2 k"
| "fits k x \<longleftrightarrow> False"

lemma fitsE:
  assumes "fits k x"
  obtains a where "x = Fin a" and "\<bar>a\<bar> \<le> pow2 k"
  using assms by (cases x) auto

lemma rnd_pow2: "- 149 \<le> k \<Longrightarrow> rnd (pow2 k) = pow2 k"
  using rnd_24_bits [of "pow2 k" 1 k] by simp

lemma round32_minus: "round32 (- x) = neg (round32 x)"
  by (simp add: round32_def round_fmt_def Let_def)

lemma fits_neg [simp]: "fits k (neg x) \<longleftrightarrow> fits k x"
  by (cases x) simp_all

lemma fits_round32:
  assumes "\<bar>x\<bar> \<le> pow2 k" and "- 149 \<le> k" and "k < 128"
  shows "fits k (round32 x)"
proof -
  have pos: "fits k (round32 y)" if "0 < y" "y \<le> pow2 k" for y
  proof -
    have "rnd y \<le> pow2 k" using rnd_mono [OF that] rnd_pow2 [OF assms(2)] by simp
    moreover have "pow2 k < pow2 128" using assms(3) unfolding pow2_powi by (rule power_int_strict_increasing) simp
    ultimately show ?thesis using that(1) rnd_nonneg [OF that(1)] by (simp add: round32_rnd)
  qed
  consider "x = 0" | "0 < x" | "0 < - x" by linarith
  then show ?thesis
  proof cases
    case 3
    then have "fits k (round32 (- x))" using assms(1) by (intro pos) simp_all
    then show ?thesis by (simp add: round32_minus)
  qed (use assms(1) pos in simp_all)
qed

lemma pow2_double: "pow2 k + pow2 k = pow2 (k + 1)"
  unfolding pow2_add by (simp add: pow2_def [of 1])

lemma fits_fadd: "fits k x \<Longrightarrow> fits k y \<Longrightarrow> - 149 \<le> k \<Longrightarrow> k < 127 \<Longrightarrow> fits (k + 1) (fadd x y)"
  by (elim fitsE) (auto simp: fadd_def pow2_double [symmetric] intro!: fits_round32)

lemma fits_fsub: "fits k x \<Longrightarrow> fits k y \<Longrightarrow> - 149 \<le> k \<Longrightarrow> k < 127 \<Longrightarrow> fits (k + 1) (fsub x y)"
  by (simp add: fsub_def fits_fadd)

lemma fits_half: "fits (k + 1) x \<Longrightarrow> - 149 \<le> k \<Longrightarrow> k < 128 \<Longrightarrow> fits k (fdiv x (Fin 2))"
  by (elim fitsE) (auto simp: fdiv_def pow2_double [symmetric] intro!: fits_round32)

lemma fits_double: "fits k x \<Longrightarrow> - 149 \<le> k \<Longrightarrow> k < 127 \<Longrightarrow> fits (k + 1) (fmul x (Fin 2))"
  by (elim fitsE) (auto simp: fmul_def pow2_double [symmetric] intro!: fits_round32)

lemma fits_square:
  assumes "fits k x" and "- 74 \<le> k" and "k < 64"
  shows "fits (k + k) (fmul x x)"
proof -
  obtain a where a: "x = Fin a" "\<bar>a\<bar> \<le> pow2 k" using assms(1) by (rule fitsE)
  have "\<bar>a * a\<bar> \<le> pow2 (k + k)" unfolding abs_mult pow2_add using a(2) by (intro mult_mono) simp_all
  then show ?thesis unfolding a(1) fmul_def mul_with.simps by (rule fits_round32) (use assms in simp_all)
qed

lemma fits_not_NaN: "fits k x \<Longrightarrow> x \<noteq> NaN \<and> x \<noteq> PInf"
  by auto

lemma fits_mono: "fits k x \<Longrightarrow> k \<le> l \<Longrightarrow> fits l x"
  using pow2_le by (cases x) force+

lemma fits_fsqrt:
  assumes "fits (k + k) (Fin x)" and "0 \<le> x" and "- 70 \<le> k" and "k < 100"
  shows "fits k (fsqrt (Fin x))"
proof (cases "x = 0")
  case True
  then show ?thesis by (simp add: fsqrt_def)
next
  case False
  then have pos: "0 < x" using assms(2) by simp
  define t where "t = 26 - log2_floor x div 2"
  define r where "r = isqrt \<lfloor>x * pow2 (t + t)\<rfloor>"
  define c where "c = (if of_int (r * r) = x * pow2 (t + t) then 0 else 1 / 2 :: rat)"
  have h: "(2 * (int 24 + 2) - log2_floor x div 2 * 2) div 2 * 2 = t + t" "(t + t) div 2 = t" by (simp_all add: t_def)
  have root: "fsqrt (Fin x) = round32 ((of_int r + c) * pow2 (- t))"
    using pos unfolding fsqrt_def sqrt_with.simps Let_def h r_def c_def by simp
  have x: "x \<le> pow2 (k + k)" using assms(1,2) by simp
  then have "pow2 (log2_floor x) < pow2 (k + k + 1)"
    using log2_floor_bounds(1) [OF pos] pow2_double [of "k + k"] pow2_pos [of "k + k"] by linarith
  then have kt: "0 \<le> k + t" using pow2_less [of "log2_floor x" "k + k + 1"] by (simp add: t_def)
  define P where "P = (2 ^ nat (k + t) :: int)"
  have P: "pow2 (k + t) = of_int P" using kt by (simp add: P_def pow2_of_int)
  have "x * pow2 (t + t) \<le> pow2 (k + k) * pow2 (t + t)" using x by (rule mult_right_mono) simp
  also have "\<dots> = pow2 (k + t) * pow2 (k + t)" unfolding pow2_add [symmetric] by (simp add: algebra_simps)
  finally have top: "x * pow2 (t + t) \<le> of_int (P * P)" using P by simp
  have rr: "of_int (r * r) \<le> x * pow2 (t + t)"
  proof (cases "0 < \<lfloor>x * pow2 (t + t)\<rfloor>")
    case True
    then show ?thesis using isqrt_root [OF True] by (simp add: r_def le_floor_iff)
  next
    case False
    then have "r = 0" by (simp add: r_def isqrt_def)
    then show ?thesis using pos by simp
  qed
  have r0: "0 \<le> r" unfolding r_def by (rule isqrt_nonneg)
  have "of_int r + c \<le> (of_int P :: rat)"
  proof (cases "of_int (r * r) = x * pow2 (t + t)")
    case True
    then have "r * r \<le> P * P" using top by (metis of_int_le_iff)
    then have "r \<le> P" using r0 by (simp add: abs_le_square_iff [symmetric] P_def power2_eq_square [symmetric] power2_le_iff_abs_le)
    then show ?thesis using True by (simp add: c_def)
  next
    case False
    then have "of_int (r * r) < (of_int (P * P) :: rat)" using rr top by linarith
    then have "r * r < P * P" by (simp only: of_int_less_iff)
    then have "r < P" using r0 mult_mono [of P r P r] by (fastforce simp: P_def)
    then have "of_int r + 1 \<le> (of_int P :: rat)" by (metis of_int_1 of_int_add of_int_le_iff zless_imp_add1_zle)
    then show ?thesis by (simp add: c_def)
  qed
  then have "(of_int r + c) * pow2 (- t) \<le> pow2 (k + t) * pow2 (- t)" unfolding P by (rule mult_right_mono) simp
  also have "\<dots> = pow2 k" unfolding pow2_add [symmetric] by simp
  finally have "\<bar>(of_int r + c) * pow2 (- t)\<bar> \<le> pow2 k" using r0 by (simp add: c_def)
  then show ?thesis unfolding root by (rule fits_round32) (use assms(3,4) in simp_all)
qed

end
