(* ===== verification/ShortestPaths.thy ===== *)
theory ShortestPaths
  imports PathFinding Rounding
begin

text \<open>
  What \<open>MapGraph::belMan\<close> computes, with the rounding of \<open>float\<close>. One phase of its loops replaces every
  entry independently of the others (\<open>relaxed\<close>). Two things are shown of the phases: for edges up to the
  \<open>1000000\<close> that stands for "no path" every entry is a shortest length up to a relative error, and for
  edges of any length, infinite ones included, following \<open>nextV\<close> from an entry below \<open>1000000\<close>
  ends. \<open>PathSearch\<close> has the properties.
\<close>

section \<open>The matrix\<close>

definition cell :: "MapGraph \<Rightarrow> nat \<Rightarrow> nat \<Rightarrow> shortPath" where
  "cell g i j = belman g ! (i * length (graph_nodes g) + j)"

definition sized :: "nat \<Rightarrow> MapGraph \<Rightarrow> bool" where
  "sized n g \<longleftrightarrow> length (graph_nodes g) = n \<and> length (belman g) = n * n"

definition lengths_ok :: "nat \<Rightarrow> (nat \<Rightarrow> nat \<Rightarrow> shortPath) \<Rightarrow> bool" where
  "lengths_ok n d \<longleftrightarrow> (\<forall>i < n. \<forall>j < n. is_length (pathDistance (d i j)) \<and> pathDistance (d i j) \<noteq> NaN)"

lemma index_less: "i < n \<Longrightarrow> j < n \<Longrightarrow> i * n + j < n * (n::nat)"
  by (metis add_less_cancel_left less_le_trans mult.commute mult_Suc_right Suc_leI mult_le_mono2 add.commute)

lemma index_eq: "j < n \<Longrightarrow> j' < n \<Longrightarrow> i * n + j = i' * n + j' \<longleftrightarrow> i = i' \<and> j = (j'::nat)"
  by (metis add_left_cancel div_mult_self3 div_less add.right_neutral not_less_zero)

lemma entry_cell: "sized n g \<Longrightarrow> i < n \<Longrightarrow> j < n \<Longrightarrow> entry g i j = Some (cell g i j)"
  by (simp add: sized_def entry_def cell_def index_less Let_def)

lemma put_entry_cell:
  assumes "sized n g" and "i < n" and "j < n"
  obtains g' where "put_entry i j e g = Some g'" and "graph_nodes g' = graph_nodes g" and "sized n g'"
    and "\<And>i' j'. i' < n \<Longrightarrow> j' < n \<Longrightarrow> cell g' i' j' = (if i' = i \<and> j' = j then e else cell g i' j')"
proof
  let ?g = "g\<lparr>belman := (belman g)[i * n + j := e]\<rparr>"
  show "put_entry i j e g = Some ?g" using assms index_less [OF assms(2,3)] by (simp add: sized_def put_entry_def)
  show "graph_nodes ?g = graph_nodes g" and "sized n ?g" using assms by (simp_all add: sized_def)
  show "cell ?g i' j' = (if i' = i \<and> j' = j then e else cell g i' j')" if "i' < n" "j' < n" for i' j'
    using assms that index_less [OF assms(2,3)] index_eq [of j' n j i' i] by (auto simp: sized_def cell_def)
qed

section \<open>One phase\<close>

definition relaxed :: "(nat \<Rightarrow> nat \<Rightarrow> shortPath) \<Rightarrow> nat \<Rightarrow> nat \<Rightarrow> nat \<Rightarrow> shortPath" where
  "relaxed d k i j =
     (let s = fadd (pathDistance (d i k)) (pathDistance (d k j))
      in if fgt (pathDistance (d i j)) s then \<lparr>nextV = nextV (d i k), pathDistance = s\<rparr> else d i j)"

text \<open>Row and column \<open>k\<close> do not change in phase \<open>k\<close>: a rounded sum is not below its summands.\<close>

lemma not_below_summand:
  assumes "is_length x" and "is_length y"
  shows "\<not> flt (fadd x y) x" and "\<not> flt (fadd x y) y"
proof -
  show "\<not> flt (fadd x y) x"
  proof
    assume b: "flt (fadd x y) x"
    show False by (rule fadd_below [OF assms b]) (use b in auto)
  qed
  show "\<not> flt (fadd x y) y"
  proof
    assume b: "flt (fadd x y) y"
    show False by (rule fadd_below [OF assms b]) (use b in auto)
  qed
qed

lemma relaxed_through:
  assumes "lengths_ok n d" and "k < n" and "i < n"
  shows "relaxed d k i k = d i k" and "relaxed d k k i = d k i"
  using assms by (auto simp: relaxed_def lengths_ok_def fgt_def not_below_summand Let_def)

lemma lengths_relaxed: "lengths_ok n d \<Longrightarrow> k < n \<Longrightarrow> lengths_ok n (relaxed d k)"
  by (auto simp: lengths_ok_def relaxed_def is_length_fadd fadd_not_NaN Let_def)

definition partly :: "nat \<Rightarrow> MapGraph \<Rightarrow> nat \<Rightarrow> (nat \<times> nat) set \<Rightarrow> MapGraph \<Rightarrow> bool" where
  "partly n g k S h \<longleftrightarrow> graph_nodes h = graph_nodes g \<and> sized n h
     \<and> (\<forall>i < n. \<forall>j < n. cell h i j = (if (i, j) \<in> S then relaxed (cell g) k i j else cell g i j))"

lemma relax_step:
  assumes l: "lengths_ok n (cell g)" and ijk: "i < n" "j < n" "k < n" and p: "partly n g k S h" and new: "(i, j) \<notin> S"
  shows "\<exists>h'. relax k i j h = Some h' \<and> partly n g k (insert (i, j) S) h'"
proof -
  have h: "sized n h" "graph_nodes h = graph_nodes g" "cell h i j = cell g i j" "cell h i k = cell g i k" "cell h k j = cell g k j"
    using p new ijk relaxed_through [OF l ijk(3)] by (auto simp: partly_def)
  let ?s = "fadd (pathDistance (cell g i k)) (pathDistance (cell g k j))"
  let ?e = "\<lparr>nextV = nextV (cell g i k), pathDistance = ?s\<rparr>"
  have run: "relax k i j h = (if fgt (pathDistance (cell g i j)) ?s then put_entry i j ?e h else Some h)"
    using h ijk by (simp add: relax_def entry_cell [OF h(1)] Let_def)
  show ?thesis
  proof (cases "fgt (pathDistance (cell g i j)) ?s")
    case True
    obtain h' where "put_entry i j ?e h = Some h'" "graph_nodes h' = graph_nodes h" "sized n h'"
      "\<And>i' j'. i' < n \<Longrightarrow> j' < n \<Longrightarrow> cell h' i' j' = (if i' = i \<and> j' = j then ?e else cell h i' j')"
      using put_entry_cell [OF h(1) ijk(1,2)] by metis
    moreover have "relaxed (cell g) k i j = ?e" using True by (simp add: relaxed_def)
    ultimately show ?thesis using run True p by (auto simp: partly_def)
  next
    case False
    then have "relaxed (cell g) k i j = cell g i j" by (simp add: relaxed_def)
    then show ?thesis using run False p by (auto simp: partly_def)
  qed
qed

lemma relax_row:
  assumes "lengths_ok n (cell g)" and "i < n" "k < n" and "set js \<subseteq> {..<n}" and "distinct js"
    and "partly n g k S h" and "\<forall>j. (i, j) \<notin> S"
  shows "\<exists>h'. for_each (relax k i) js h = Some h' \<and> partly n g k (S \<union> {i} \<times> set js) h'"
  using assms(4,5)
proof (induction js rule: rev_induct)
  case (snoc j js)
  let ?S = "S \<union> {i} \<times> set js"
  from snoc obtain h1 where h1: "for_each (relax k i) js h = Some h1" "partly n g k ?S h1" by auto
  have "(i, j) \<notin> ?S" using snoc.prems assms(7) by simp
  with relax_step [OF assms(1,2) _ assms(3) h1(2)] snoc.prems
  obtain h2 where "relax k i j h1 = Some h2" "partly n g k (insert (i, j) ?S) h2" by auto
  moreover have "insert (i, j) ?S = S \<union> {i} \<times> set (js @ [j])" by auto
  ultimately show ?case using h1(1) by (metis bind.bind_lunit for_each.simps for_each_append)
qed (use assms(6) in simp)

lemma relax_rows:
  assumes "lengths_ok n (cell g)" and "k < n" and "sized n g" and "set is \<subseteq> {..<n}" and "distinct is"
  shows "\<exists>h. for_each (\<lambda>i. for_each (relax k i) [0..<n]) is g = Some h \<and> partly n g k (set is \<times> {..<n}) h"
  using assms(4,5)
proof (induction "is" rule: rev_induct)
  case (snoc i "is")
  then obtain h1 where h1: "for_each (\<lambda>i. for_each (relax k i) [0..<n]) is g = Some h1" "partly n g k (set is \<times> {..<n}) h1" by auto
  from relax_row [OF assms(1) _ assms(2) _ _ h1(2), of i "[0..<n]"] snoc.prems
  have "\<exists>h'. for_each (relax k i) [0..<n] h1 = Some h' \<and> partly n g k (set is \<times> {..<n} \<union> {i} \<times> {..<n}) h'"
    by (auto simp: atLeast0LessThan)
  moreover have "set is \<times> {..<n} \<union> {i} \<times> {..<n} = set (is @ [i]) \<times> {..<n}" by auto
  ultimately show ?case using h1(1) by (auto simp: for_each_append)
qed (use assms(3) in \<open>simp add: partly_def\<close>)

lemma relax_phase:
  assumes "lengths_ok n (cell g)" and "k < n" and "sized n g"
  obtains g' where "relax_all n k g = Some g'" and "graph_nodes g' = graph_nodes g" and "sized n g'"
    and "\<And>i j. i < n \<Longrightarrow> j < n \<Longrightarrow> cell g' i j = relaxed (cell g) k i j"
  using relax_rows [OF assms, of "[0..<n]"] by (auto simp: relax_all_def partly_def atLeast0LessThan)

primrec phases :: "(nat \<Rightarrow> nat \<Rightarrow> shortPath) \<Rightarrow> nat \<Rightarrow> nat \<Rightarrow> nat \<Rightarrow> shortPath" where
  "phases d 0 = d"
| "phases d (Suc k) = relaxed (phases d k) k"

lemma lengths_phases: "lengths_ok n d \<Longrightarrow> k \<le> n \<Longrightarrow> lengths_ok n (phases d k)"
  by (induction k) (simp_all add: lengths_relaxed)

lemma relax_phases:
  assumes "lengths_ok n d" and "sized n g" and "\<And>i j. i < n \<Longrightarrow> j < n \<Longrightarrow> cell g i j = d i j" and "m \<le> n"
  shows "\<exists>g'. for_each (relax_all n) [0..<m] g = Some g' \<and> graph_nodes g' = graph_nodes g \<and> sized n g'
    \<and> (\<forall>i < n. \<forall>j < n. cell g' i j = phases d m i j)"
  using assms(4)
proof (induction m)
  case (Suc m)
  then obtain g1 where g1: "for_each (relax_all n) [0..<m] g = Some g1" "graph_nodes g1 = graph_nodes g" "sized n g1"
    "\<forall>i < n. \<forall>j < n. cell g1 i j = phases d m i j" by auto
  have "lengths_ok n (cell g1)" using lengths_phases [OF assms(1), of m] Suc.prems g1(4) by (simp add: lengths_ok_def)
  then obtain g2 where "relax_all n m g1 = Some g2" "graph_nodes g2 = graph_nodes g1" "sized n g2"
    "\<And>i j. i < n \<Longrightarrow> j < n \<Longrightarrow> cell g2 i j = relaxed (cell g1) m i j"
    using relax_phase [of n g1 m] g1(3) Suc.prems by auto
  moreover have "relaxed (cell g1) m i j = relaxed (phases d m) m i j" if "i < n" "j < n" for i j
    unfolding relaxed_def using that g1(4) Suc.prems by (simp add: Suc_le_eq cong: if_cong)
  ultimately show ?case using g1(1,2) by (auto simp: for_each_append)
qed (use assms in simp)

section \<open>Entering the edges\<close>

definition edges_to :: "nat \<Rightarrow> Edge list \<Rightarrow> Edge list" where
  "edges_to j es = filter (\<lambda>e. edge_v e = j) es"

text \<open>Nodes are numbered by their places, edges lead to nodes and have a length.\<close>

definition linked :: "MapGraph \<Rightarrow> bool" where
  "linked g \<longleftrightarrow> (\<forall>i < length (graph_nodes g). node_id (graph_nodes g ! i) = i
     \<and> (\<forall>e \<in> set (neighbors (graph_nodes g ! i)). edge_v e < length (graph_nodes g)
         \<and> is_length (edge_length e) \<and> edge_length e \<noteq> NaN))"

definition no_path :: shortPath where
  "no_path = \<lparr>nextV = None, pathDistance = far_away\<rparr>"

definition direct :: "Edge list \<Rightarrow> nat \<Rightarrow> shortPath \<Rightarrow> shortPath" where
  "direct es j e0 = (if edges_to j es = [] then e0 else \<lparr>nextV = Some j, pathDistance = edge_length (last (edges_to j es))\<rparr>)"

definition edge_cell :: "MapGraph \<Rightarrow> nat \<Rightarrow> nat \<Rightarrow> shortPath" where
  "edge_cell g i j = direct (neighbors (graph_nodes g ! i)) j no_path"

lemma last_edge:
  assumes "edges_to j es \<noteq> []"
  shows "last (edges_to j es) \<in> set es" and "edge_v (last (edges_to j es)) = j"
  using last_in_set [OF assms] by (simp_all add: edges_to_def)

lemma set_edges_row:
  assumes "sized n g" and "i < n" and "\<forall>e \<in> set es. edge_v e < n"
  shows "\<exists>g'. for_each (\<lambda>e. put_entry i (edge_v e) \<lparr>nextV = Some (edge_v e), pathDistance = edge_length e\<rparr>) es g = Some g'
    \<and> graph_nodes g' = graph_nodes g \<and> sized n g'
    \<and> (\<forall>i' < n. \<forall>j < n. cell g' i' j = (if i' = i then direct es j (cell g i j) else cell g i' j))"
  using assms(3)
proof (induction es rule: rev_induct)
  case Nil
  then show ?case using assms by (simp add: direct_def edges_to_def)
next
  case (snoc e es)
  let ?f = "\<lambda>e. put_entry i (edge_v e) \<lparr>nextV = Some (edge_v e), pathDistance = edge_length e\<rparr>"
  obtain g1 where g1: "for_each ?f es g = Some g1" "graph_nodes g1 = graph_nodes g" "sized n g1"
    "\<forall>i' < n. \<forall>j < n. cell g1 i' j = (if i' = i then direct es j (cell g i j) else cell g i' j)" using snoc by auto
  obtain g2 where g2: "?f e g1 = Some g2" "graph_nodes g2 = graph_nodes g1" "sized n g2"
    "\<And>i' j. i' < n \<Longrightarrow> j < n \<Longrightarrow> cell g2 i' j = (if i' = i \<and> j = edge_v e
        then \<lparr>nextV = Some (edge_v e), pathDistance = edge_length e\<rparr> else cell g1 i' j)"
    using put_entry_cell [OF g1(3) assms(2), of "edge_v e"] snoc.prems by (metis in_set_conv_decomp)
  have "cell g2 i' j = (if i' = i then direct (es @ [e]) j (cell g i j) else cell g i' j)" if "i' < n" "j < n" for i' j
    using g2(4) [OF that] g1(4) that by (auto simp: direct_def edges_to_def)
  then show ?case using g1(1,2) g2(1-3) by (auto simp: for_each_append)
qed

lemma set_edges_nodes:
  assumes g: "linked g" and n: "sized n g" and m: "m \<le> n"
  shows "\<exists>g'. for_each set_edges (take m (graph_nodes g)) g = Some g' \<and> graph_nodes g' = graph_nodes g \<and> sized n g'
    \<and> (\<forall>i < n. \<forall>j < n. cell g' i j = (if i < m then direct (neighbors (graph_nodes g ! i)) j (cell g i j) else cell g i j))"
  using m
proof (induction m)
  case 0
  then show ?case using n by simp
next
  case (Suc m)
  let ?v = "graph_nodes g ! m"
  obtain g1 where g1: "for_each set_edges (take m (graph_nodes g)) g = Some g1" "graph_nodes g1 = graph_nodes g" "sized n g1"
    "\<forall>i < n. \<forall>j < n. cell g1 i j = (if i < m then direct (neighbors (graph_nodes g ! i)) j (cell g i j) else cell g i j)"
    using Suc by auto
  have len: "length (graph_nodes g) = n" using n by (simp add: sized_def)
  have m: "m < n" using Suc.prems by simp
  then have v: "node_id ?v = m" "\<forall>e \<in> set (neighbors ?v). edge_v e < n" using g len by (simp_all add: linked_def)
  obtain g2 where g2: "set_edges ?v g1 = Some g2" "graph_nodes g2 = graph_nodes g1" "sized n g2"
    "\<forall>i' < n. \<forall>j < n. cell g2 i' j = (if i' = m then direct (neighbors ?v) j (cell g1 m j) else cell g1 i' j)"
    using set_edges_row [OF g1(3) m v(2)] v(1) by (auto simp: set_edges_def)
  have "cell g2 i j = (if i < Suc m then direct (neighbors (graph_nodes g ! i)) j (cell g i j) else cell g i j)"
    if "i < n" "j < n" for i j
    using g2(4) g1(4) that by (auto simp: less_Suc_eq)
  moreover have "take (Suc m) (graph_nodes g) = take m (graph_nodes g) @ [?v]"
    using len m by (simp add: take_Suc_conv_app_nth)
  ultimately show ?case using g1(1,2) g2(1-3) by (auto simp: for_each_append)
qed

lemma far_away_Fin: "far_away = Fin 1000000"
  by code_simp

lemma far_away_neq: "far_away \<noteq> NaN"
  by (simp add: far_away_Fin)

lemma is_length_far [simp]: "is_length far_away"
  unfolding far_away_def f_of_int_def by (rule is_length_round32) simp

lemma lengths_edges: "linked g \<Longrightarrow> lengths_ok (length (graph_nodes g)) (edge_cell g)"
  using last_edge(1) by (auto simp: lengths_ok_def edge_cell_def direct_def no_path_def linked_def far_away_neq)

lemma belMan_phases:
  assumes g: "linked g" and n: "length (graph_nodes g) = n"
  obtains g' where "belMan g = Some g'" and "graph_nodes g' = graph_nodes g" and "sized n g'"
    and "\<And>i j. i < n \<Longrightarrow> j < n \<Longrightarrow> cell g' i j = phases (edge_cell g) n i j"
proof -
  let ?g = "g\<lparr>belman := replicate (n * n) no_path\<rparr>"
  have ok: "linked ?g" "sized n ?g" using g n by (simp_all add: linked_def sized_def)
  have start: "cell ?g i j = no_path" if "i < n" "j < n" for i j using n index_less [OF that] by (simp add: cell_def)
  obtain g1 where g1: "for_each set_edges (graph_nodes g) ?g = Some g1" "graph_nodes g1 = graph_nodes g" "sized n g1"
    "\<forall>i < n. \<forall>j < n. cell g1 i j = edge_cell g i j"
    using set_edges_nodes [OF ok, of n] n start by (auto simp: edge_cell_def)
  from relax_phases [OF lengths_edges [OF g, unfolded n] g1(3) _ order_refl]
  obtain g2 where "for_each (relax_all n) [0..<n] g1 = Some g2" "graph_nodes g2 = graph_nodes g1" "sized n g2"
    "\<forall>i < n. \<forall>j < n. cell g2 i j = phases (edge_cell g) n i j" using g1(4) by auto
  then show ?thesis using that [of g2] g1(1,2) n by (simp add: belMan_def Let_def no_path_def)
qed

section \<open>Following the matrix\<close>

text \<open>Below \<open>1000000\<close> an entry has a next node, over an edge, from which it is not farther.\<close>

definition short :: "(nat \<Rightarrow> nat \<Rightarrow> shortPath) \<Rightarrow> nat \<Rightarrow> nat \<Rightarrow> bool" where
  "short d i j \<longleftrightarrow> flt (pathDistance (d i j)) far_away"

definition next_ok :: "nat \<Rightarrow> (nat \<times> nat) set \<Rightarrow> (nat \<Rightarrow> nat \<Rightarrow> shortPath) \<Rightarrow> bool" where
  "next_ok n E d \<longleftrightarrow> (\<forall>i < n. \<forall>j < n. short d i j \<longrightarrow> (\<exists>v x. nextV (d i j) = Some v \<and> pathDistance (d i j) = Fin x
     \<and> v < n \<and> (i, v) \<in> E \<and> (v = j \<or> (\<exists>y. pathDistance (d v j) = Fin y \<and> y \<le> x))))"

lemma next_okD:
  assumes "next_ok n E d" and "i < n" and "j < n" and "short d i j"
  obtains v x where "nextV (d i j) = Some v" and "pathDistance (d i j) = Fin x" and "v < n" and "(i, v) \<in> E"
    and "v = j \<or> (\<exists>y. pathDistance (d v j) = Fin y \<and> y \<le> x)"
  using assms unfolding next_ok_def by metis

lemma short_less: "short d i j \<Longrightarrow> pathDistance (d i j) = Fin x \<Longrightarrow> pathDistance (d i' j') = Fin y \<Longrightarrow> y \<le> x \<Longrightarrow> short d i' j'"
  by (simp add: short_def far_away_Fin)

text \<open>An entry either stays or becomes a smaller sum of two finite ones.\<close>

lemma relaxed_cases:
  assumes "lengths_ok n d" and "i < n" and "j < n" and "k < n" and "short (relaxed d k) i j"
  obtains (kept) "relaxed d k i j = d i j" and "short d i j"
  | (improved) a b s where "relaxed d k i j = \<lparr>nextV = nextV (d i k), pathDistance = Fin s\<rparr>" and "flt (Fin s) (pathDistance (d i j))"
    and "pathDistance (d i k) = Fin a" and "pathDistance (d k j) = Fin b" and "fadd (Fin a) (Fin b) = Fin s"
    and "0 \<le> a" and "0 \<le> b" and "a \<le> s" and "b \<le> s" and "short d i k" and "short d k j"
proof (cases "fgt (pathDistance (d i j)) (fadd (pathDistance (d i k)) (pathDistance (d k j)))")
  case True
  let ?s = "fadd (pathDistance (d i k)) (pathDistance (d k j))"
  have r: "relaxed d k i j = \<lparr>nextV = nextV (d i k), pathDistance = ?s\<rparr>" using True by (simp add: relaxed_def)
  have len: "is_length (pathDistance (d i k))" "is_length (pathDistance (d k j))" using assms(1-4) by (simp_all add: lengths_ok_def)
  have "flt ?s far_away" using assms(5) r by (simp add: short_def)
  then obtain a b s where "pathDistance (d i k) = Fin a" "pathDistance (d k j) = Fin b" "?s = Fin s" "0 \<le> a" "0 \<le> b" "a \<le> s" "b \<le> s"
    using fadd_below [OF len] by metis
  moreover from this have "s < 1000000" using \<open>flt ?s far_away\<close> by (simp add: far_away_Fin)
  ultimately show ?thesis using improved [of s a b] r True by (simp add: fgt_def short_def far_away_Fin)
next
  case False
  then have "relaxed d k i j = d i j" by (simp add: relaxed_def)
  then show ?thesis using kept assms(5) by (simp add: short_def)
qed

text \<open>An entry is never raised.\<close>

lemma relaxed_le:
  assumes "lengths_ok n d" and "i < n" and "j < n" and "k < n" and "pathDistance (d i j) = Fin y"
  obtains z where "pathDistance (relaxed d k i j) = Fin z" and "z \<le> y"
proof (cases "fgt (pathDistance (d i j)) (fadd (pathDistance (d i k)) (pathDistance (d k j)))")
  case True
  have "is_length (pathDistance (d i k))" "is_length (pathDistance (d k j))" using assms(1-4) by (simp_all add: lengths_ok_def)
  then obtain s where "fadd (pathDistance (d i k)) (pathDistance (d k j)) = Fin s"
    using fadd_below True unfolding fgt_def by metis
  then show ?thesis using that [of s] True assms(5) by (simp add: relaxed_def fgt_def)
next
  case False
  then show ?thesis using that [of y] assms(5) by (simp add: relaxed_def)
qed

lemma relaxed_le_sum:
  assumes "lengths_ok n d" and "i < n" and "j < n" and "k < n" and "fadd (pathDistance (d i k)) (pathDistance (d k j)) = Fin s"
  obtains z where "pathDistance (relaxed d k i j) = Fin z" and "z \<le> s"
proof (cases "pathDistance (d i j)")
  case (Fin x)
  then show ?thesis using that [of "min x s"] assms(5) by (auto simp: relaxed_def fgt_def Let_def min_def not_less)
next
  case MInf
  moreover have "is_length (pathDistance (d i j))" using assms(1-3) by (simp add: lengths_ok_def)
  ultimately show ?thesis by (simp add: is_length_def)
next
  case NaN
  then show ?thesis using assms(1-3) by (simp add: lengths_ok_def)
qed (use that [of s] assms(5) in \<open>simp add: relaxed_def fgt_def\<close>)

lemma next_relaxed:
  assumes l: "lengths_ok n d" and ok: "next_ok n E d" and k: "k < n"
  shows "next_ok n E (relaxed d k)"
  unfolding next_ok_def
proof (intro allI impI)
  fix i j assume ij: "i < n" "j < n" and s: "short (relaxed d k) i j"
  let ?D = "relaxed d k"
  show "\<exists>v x. nextV (?D i j) = Some v \<and> pathDistance (?D i j) = Fin x \<and> v < n \<and> (i, v) \<in> E
      \<and> (v = j \<or> (\<exists>y. pathDistance (?D v j) = Fin y \<and> y \<le> x))"
  proof (rule relaxed_cases [OF l ij k s])
    assume kept: "?D i j = d i j" "short d i j"
    obtain v x where v: "nextV (d i j) = Some v" "pathDistance (d i j) = Fin x" "v < n" "(i, v) \<in> E"
      "v = j \<or> (\<exists>y. pathDistance (d v j) = Fin y \<and> y \<le> x)" using next_okD [OF ok ij kept(2)] by metis
    then have "v = j \<or> (\<exists>y. pathDistance (?D v j) = Fin y \<and> y \<le> x)"
      using relaxed_le [OF l v(3) ij(2) k] by (metis order_trans)
    then show ?thesis using v(1-4) kept(1) by auto
  next
    fix a b x
    assume e: "?D i j = \<lparr>nextV = nextV (d i k), pathDistance = Fin x\<rparr>" and ab: "pathDistance (d i k) = Fin a" "pathDistance (d k j) = Fin b"
      "fadd (Fin a) (Fin b) = Fin x" "0 \<le> a" "0 \<le> b" "a \<le> x" "b \<le> x" and sh: "short d i k"
    obtain v where v: "nextV (d i k) = Some v" "v < n" "(i, v) \<in> E" "v = k \<or> (\<exists>y. pathDistance (d v k) = Fin y \<and> y \<le> a)"
      using next_okD [OF ok ij(1) k sh] ab(1) by (metis fl.inject)
    have "\<exists>y. pathDistance (?D v j) = Fin y \<and> y \<le> x"
    proof (cases "v = k")
      case True
      then show ?thesis using relaxed_through(2) [OF l k ij(2)] ab(2,7) by simp
    next
      case False
      then obtain y where y: "pathDistance (d v k) = Fin y" "y \<le> a" using v(4) by blast
      moreover have "is_length (pathDistance (d v k))" using l v(2) k by (simp add: lengths_ok_def)
      ultimately have "0 \<le> y" by (simp add: is_length_def)
      then obtain s where s: "fadd (Fin y) (Fin b) = Fin s" "s \<le> x" using fadd_mono [OF _ y(2) ab(5) order_refl ab(3)] by metis
      with relaxed_le_sum [OF l v(2) ij(2) k] y(1) ab(2) show ?thesis by (metis order_trans)
    qed
    then show ?thesis using e v by auto
  qed
qed

text \<open>The steps of \<open>findPath\<close> towards \<open>j\<close>.\<close>

definition steps_to :: "nat \<Rightarrow> (nat \<Rightarrow> nat \<Rightarrow> shortPath) \<Rightarrow> nat \<Rightarrow> (nat \<times> nat) set" where
  "steps_to n d j = {(v, i). i < n \<and> i \<noteq> j \<and> short d i j \<and> nextV (d i j) = Some v}"

lemma steps_toD:
  assumes "next_ok n E d" and "j < n" and "(v, i) \<in> steps_to n d j"
  shows "\<exists>x. pathDistance (d i j) = Fin x \<and> v < n \<and> (i, v) \<in> E \<and> (v = j \<or> (\<exists>y. pathDistance (d v j) = Fin y \<and> y \<le> x))"
proof -
  have i: "i < n" "short d i j" "nextV (d i j) = Some v" using assms(3) by (simp_all add: steps_to_def)
  show ?thesis by (rule next_okD [OF assms(1) i(1) assms(2) i(2)]) (use i(3) in auto)
qed

lemma wf_least: "wf R \<Longrightarrow> x \<in> Q \<Longrightarrow> \<exists>z \<in> Q. \<forall>y. (y, z) \<in> R \<longrightarrow> y \<notin> Q"
  by (simp add: wf_eq_minimal) blast

text \<open>There is no cycle among them. In a set that a step never leaves take the nodes with the least entry: a
  step from an entry kept in this phase leads to a kept one, so that if there is a kept one the cycle is old;
  otherwise all were improved in this phase, and the cycle leads towards \<open>k\<close>.\<close>

lemma steps_relaxed:
  assumes l: "lengths_ok n d" and ok: "next_ok n E d" and k: "k < n" and wf: "\<And>j. j < n \<Longrightarrow> wf (steps_to n d j)" and j: "j < n"
  shows "wf (steps_to n (relaxed d k) j)"
proof (rule wfI_min)
  fix i0 and Q :: "nat set" assume i0: "i0 \<in> Q"
  let ?D = "relaxed d k" and ?R = "steps_to n (relaxed d k) j"
  let ?len = "\<lambda>i. case pathDistance (?D i j) of Fin x \<Rightarrow> x | _ \<Rightarrow> 0"
  show "\<exists>z \<in> Q. \<forall>y. (y, z) \<in> ?R \<longrightarrow> y \<notin> Q"
  proof (rule ccontr)
    assume "\<not> ?thesis"
    then have step: "\<exists>y \<in> Q. (y, z) \<in> ?R" if "z \<in> Q" for z using that by blast
    then have Q: "i < n \<and> i \<noteq> j \<and> short ?D i j" if "i \<in> Q" for i using that by (force simp: steps_to_def)
    then have fin: "finite Q" by (meson finite_subset finite_lessThan lessThan_iff subsetI)
    have le: "?len y \<le> ?len z" if yz: "z \<in> Q" "y \<in> Q" "(y, z) \<in> ?R" for y z
    proof -
      show ?thesis using steps_toD [OF next_relaxed [OF l ok k] j yz(3)] Q [OF yz(2)] by auto
    qed
    define m where "m = Min (?len ` Q)"
    define Q1 where "Q1 = {i \<in> Q. ?len i = m}"
    have min: "m \<le> ?len i" if "i \<in> Q" for i using that fin by (simp add: m_def)
    have "m \<in> ?len ` Q" unfolding m_def by (rule Min_in) (use fin i0 in auto)
    then have Q1: "Q1 \<noteq> {}" by (auto simp: Q1_def)
    have step1: "\<exists>y \<in> Q1. (y, z) \<in> ?R" if "z \<in> Q1" for z
    proof -
      have z: "z \<in> Q" "?len z = m" using that by (simp_all add: Q1_def)
      obtain y where y: "y \<in> Q" "(y, z) \<in> ?R" using step [OF z(1)] by blast
      have "?len y = m" using order_antisym [OF le [OF z(1) y] min [OF y(1), folded z(2)]] z(2) by (rule trans)
      then have "y \<in> Q1" using y(1) by (simp add: Q1_def)
      then show ?thesis using y(2) by blast
    qed
    show False
    proof (cases "\<exists>i \<in> Q1. ?D i j = d i j")
      case True
      let ?Q2 = "{i \<in> Q1. ?D i j = d i j}"
      obtain z0 where "z0 \<in> ?Q2" using True by blast
      from wf_least [OF wf [OF j] this] obtain z where "z \<in> ?Q2" and z3: "\<forall>y. (y, z) \<in> steps_to n d j \<longrightarrow> y \<notin> ?Q2" ..
      then have z: "z \<in> Q1" "?D z j = d z j" by blast+
      obtain y where y: "y \<in> Q1" "(y, z) \<in> ?R" using step1 [OF z(1)] by blast
      then have "(y, z) \<in> steps_to n d j" using z(2) by (simp add: steps_to_def short_def)
      then have new: "?D y j \<noteq> d y j" using z3 y(1) by blast
      have zy: "z < n" "z \<noteq> j" "y < n" "y \<noteq> j" "short d z j" "short ?D y j" "nextV (d z j) = Some y"
        using Q z(1,2) y by (auto simp: Q1_def steps_to_def short_def)
      obtain x u where xu: "pathDistance (d z j) = Fin x" "pathDistance (d y j) = Fin u" "u \<le> x"
        using steps_toD [OF ok j \<open>(y, z) \<in> steps_to n d j\<close>] zy(4) by blast
      have "?len z = m" "?len y = m" using z(1) y(1) by (simp_all add: Q1_def)
      moreover obtain s where "?D y j = \<lparr>nextV = nextV (d y k), pathDistance = Fin s\<rparr>" "flt (Fin s) (pathDistance (d y j))"
        using relaxed_cases [OF l zy(3) j k zy(6)] new by metis
      ultimately show False using xu z(2) by simp
    next
      case False
      obtain z0 where "z0 \<in> Q1" using Q1 by blast
      from wf_least [OF wf [OF k] this] obtain z where z: "z \<in> Q1" "\<forall>y. (y, z) \<in> steps_to n d k \<longrightarrow> y \<notin> Q1" ..
      obtain y where y: "y \<in> Q1" "(y, z) \<in> ?R" using step1 [OF z(1)] by blast
      have zq: "z < n" "short ?D z j" "?D z j \<noteq> d z j" using Q z(1) False by (auto simp: Q1_def)
      moreover from this obtain s where "?D z j = \<lparr>nextV = nextV (d z k), pathDistance = Fin s\<rparr>" "short d z k"
        using relaxed_cases [OF l zq(1) j k zq(2)] by metis
      moreover have "z \<noteq> k" using relaxed_through(2) [OF l k j] zq(3) by auto
      ultimately have "(y, z) \<in> steps_to n d k" using y(2) by (simp add: steps_to_def)
      then show False using z(2) y(1) by blast
    qed
  qed
qed

section \<open>The loop of \<open>findPath\<close>\<close>

definition edge_set :: "MapGraph \<Rightarrow> (nat \<times> nat) set" where
  "edge_set g = {(i, v). \<exists>e \<in> set (neighbors (graph_nodes g ! i)). edge_v e = v}"

definition place :: "MapGraph \<Rightarrow> nat \<Rightarrow> Point" where
  "place g i = node_pos (graph_nodes g ! i)"

lemma edge_cell_short:
  assumes "linked g" and "i < length (graph_nodes g)" and "short (edge_cell g) i j"
  shows "nextV (edge_cell g i j) = Some j \<and> (i, j) \<in> edge_set g \<and> j < length (graph_nodes g)
    \<and> (\<exists>x. pathDistance (edge_cell g i j) = Fin x)"
proof -
  let ?es = "neighbors (graph_nodes g ! i)"
  have "\<not> flt far_away far_away" by (simp add: far_away_Fin)
  then have es: "edges_to j ?es \<noteq> []"
    using assms(3) by (auto simp: short_def edge_cell_def direct_def no_path_def)
  let ?l = "last (edges_to j ?es)"
  have c: "edge_cell g i j = \<lparr>nextV = Some j, pathDistance = edge_length ?l\<rparr>" using es by (simp add: edge_cell_def direct_def)
  have l: "is_length (edge_length ?l)" "j < length (graph_nodes g)"
    using assms(1,2) last_edge [OF es] unfolding linked_def by metis+
  moreover have "flt (edge_length ?l) far_away" using assms(3) c by (simp add: short_def)
  ultimately have "\<exists>x. edge_length ?l = Fin x" by (cases "edge_length ?l") (simp_all add: is_length_def far_away_Fin)
  moreover have "(i, j) \<in> edge_set g" using last_edge [OF es] by (auto simp: edge_set_def)
  ultimately show ?thesis using c l by simp
qed

lemma edges_start:
  assumes "linked g" and "length (graph_nodes g) = n"
  shows "next_ok n (edge_set g) (edge_cell g)" and "wf (steps_to n (edge_cell g) j)"
proof -
  show "next_ok n (edge_set g) (edge_cell g)" using edge_cell_short [OF assms(1)] assms(2) by (fastforce simp: next_ok_def)
  have "steps_to n (edge_cell g) j \<subseteq> measure (\<lambda>i. if i = j then 0 else 1)"
    using edge_cell_short [OF assms(1)] assms(2) by (auto simp: steps_to_def)
  then show "wf (steps_to n (edge_cell g) j)" using wf_subset [OF wf_measure] by blast
qed

lemma phases_steps:
  assumes "linked g" and "length (graph_nodes g) = n"
  shows "k \<le> n \<Longrightarrow> next_ok n (edge_set g) (phases (edge_cell g) k) \<and> (\<forall>j < n. wf (steps_to n (phases (edge_cell g) k) j))"
proof (induction k)
  case 0
  then show ?case using edges_start [OF assms] by simp
next
  case (Suc k)
  have l: "lengths_ok n (phases (edge_cell g) k)" using lengths_phases [OF lengths_edges [OF assms(1)]] assms(2) Suc.prems by simp
  have k: "k < n" using Suc.prems by simp
  have ok: "next_ok n (edge_set g) (phases (edge_cell g) k)" and wf: "\<And>j. j < n \<Longrightarrow> wf (steps_to n (phases (edge_cell g) k) j)"
    using Suc by auto
  show ?case using next_relaxed [OF l ok k] steps_relaxed [OF l ok k wf] by simp
qed

lemma follow_returns:
  assumes g': "sized n g'" "place g' = place g" and d: "\<And>i j. i < n \<Longrightarrow> j < n \<Longrightarrow> cell g' i j = d i j"
    and ok: "next_ok n E d" and wf: "wf (steps_to n d j)" and j: "j < n"
  shows "i < n \<Longrightarrow> i = j \<or> short d i j \<Longrightarrow> \<exists>q. follow g' i j = Some (map (place g) q) \<and> hd (q @ [j]) = i
    \<and> set q \<subseteq> {..<n} \<and> successively (\<lambda>a b. (a, b) \<in> E) (q @ [j])"
  using wf
proof (induction i rule: wf_induct_rule)
  case (less i)
  show ?case
  proof (cases "i = j")
    case True
    then show ?thesis by (intro exI [of _ "[]"]) (simp add: follow.simps)
  next
    case False
    then have sh: "short d i j" using less.prems(2) by simp
    obtain v x where v: "nextV (d i j) = Some v" "pathDistance (d i j) = Fin x" "v < n" "(i, v) \<in> E"
      "v = j \<or> (\<exists>y. pathDistance (d v j) = Fin y \<and> y \<le> x)" using next_okD [OF ok less.prems(1) j sh] by metis
    have "(v, i) \<in> steps_to n d j" using less.prems(1) False sh v(1) by (simp add: steps_to_def)
    moreover have "v = j \<or> short d v j" using v(2,5) short_less [OF sh] by blast
    ultimately obtain q where q: "follow g' v j = Some (map (place g) q)" "hd (q @ [j]) = v" "set q \<subseteq> {..<n}"
      "successively (\<lambda>a b. (a, b) \<in> E) (q @ [j])" using less.IH [of v] v(3) by blast
    have "node_at g' i = Some (graph_nodes g' ! i)" using g'(1) less.prems(1) by (simp add: node_at_def sized_def)
    moreover have "node_pos (graph_nodes g' ! i) = place g i" using g'(2) by (metis place_def)
    ultimately have "follow g' i j = Some (map (place g) (i # q))"
      using False v(1) q(1) d [OF less.prems(1) j] entry_cell [OF g'(1) less.prems(1) j] by (subst follow.simps) simp
    moreover have "successively (\<lambda>a b. (a, b) \<in> E) ((i # q) @ [j])"
      using q(2,4) v(4) by (cases q) simp_all
    ultimately show ?thesis using q(3) less.prems(1) by (intro exI [of _ "i # q"]) simp
  qed
qed

lemma belMan_follow:
  assumes g: "linked g" and n: "length (graph_nodes g) = n"
  obtains g' where "belMan g = Some g'" and "graph_nodes g' = graph_nodes g" and "sized n g'"
    and "\<And>i j. i < n \<Longrightarrow> j < n \<Longrightarrow> is_length (pathDistance (cell g' i j))"
    and "\<And>i j. i < n \<Longrightarrow> j < n \<Longrightarrow> i = j \<or> flt (pathDistance (cell g' i j)) far_away \<Longrightarrow>
      \<exists>q. follow g' i j = Some (map (place g) q) \<and> hd (q @ [j]) = i \<and> set q \<subseteq> {..<n}
        \<and> successively (\<lambda>a b. (a, b) \<in> edge_set g) (q @ [j])"
proof -
  obtain g' where g': "belMan g = Some g'" "graph_nodes g' = graph_nodes g" "sized n g'"
    "\<And>i j. i < n \<Longrightarrow> j < n \<Longrightarrow> cell g' i j = phases (edge_cell g) n i j" using belMan_phases [OF assms] by metis
  have p: "place g' = place g" using g'(2) by (auto simp: place_def)
  note ok = phases_steps [OF assms order_refl]
  have "lengths_ok n (phases (edge_cell g) n)" using lengths_phases [OF lengths_edges [OF g]] n by simp
  then have "is_length (pathDistance (cell g' i j))" if "i < n" "j < n" for i j using that g'(4) by (simp add: lengths_ok_def)
  moreover have "\<exists>q. follow g' i j = Some (map (place g) q) \<and> hd (q @ [j]) = i \<and> set q \<subseteq> {..<n}
        \<and> successively (\<lambda>a b. (a, b) \<in> edge_set g) (q @ [j])"
    if "i < n" "j < n" "i = j \<or> flt (pathDistance (cell g' i j)) far_away" for i j
    using that ok follow_returns [OF g'(3) p g'(4), of "edge_set g" j i] g'(4) by (simp add: short_def)
  ultimately show ?thesis using that g'(1-3) by blast
qed

end
