(* ===== verification/ShortestWalks.thy ===== *)
theory ShortestWalks
  imports ShortestPaths
begin

text \<open>
  The lengths \<open>MapGraph::belMan\<close> computes: for a graph of \<open>n\<close> nodes every entry is within the factors
  \<open>(1 - ulp) ^ n\<close> and \<open>(1 + ulp) ^ n\<close> of the length of a shortest walk, where \<open>ulp = 2 ^ -24\<close> is the relative error
  of one addition, or it is the \<open>1000000\<close> that stands for no path.
\<close>

section \<open>Walks\<close>

text \<open>\<open>hop g i j\<close> is the length of the edge from \<open>i\<close> to \<open>j\<close>: of the last one, if there are several.\<close>

fun fin_of :: "fl \<Rightarrow> rat option" where
  "fin_of (Fin x) = Some x"
| "fin_of x = None"

definition hop :: "MapGraph \<Rightarrow> nat \<Rightarrow> nat \<Rightarrow> rat option" where
  "hop g i j = (let es = edges_to j (neighbors (graph_nodes g ! i))
     in if es = [] then None else fin_of (edge_length (last es)))"

fun walk_length :: "(nat \<Rightarrow> nat \<Rightarrow> rat option) \<Rightarrow> nat list \<Rightarrow> rat option" where
  "walk_length w (i # j # p) = do { a \<leftarrow> w i j; b \<leftarrow> walk_length w (j # p); Some (a + b) }"
| "walk_length w [i] = Some 0"
| "walk_length w [] = None"

text \<open>Edges lead to nodes and are at most \<open>1000000\<close> long.\<close>

fun edge_ok :: "fl \<Rightarrow> bool" where
  "edge_ok (Fin x) \<longleftrightarrow> 0 \<le> x \<and> x \<le> 1000000"
| "edge_ok x \<longleftrightarrow> False"

definition graph_ok :: "MapGraph \<Rightarrow> bool" where
  "graph_ok g \<longleftrightarrow> (\<forall>i < length (graph_nodes g). node_id (graph_nodes g ! i) = i
     \<and> (\<forall>e \<in> set (neighbors (graph_nodes g ! i)). edge_v e < length (graph_nodes g) \<and> edge_ok (edge_length e)))"

lemma edge_length_float:
  assumes "edge_ok (edge_length e)"
  shows "is_length (edge_length e)"
proof -
  obtain x where x: "edge_length e = Fin x" "0 \<le> x" using assms by (cases "edge_length e") auto
  then obtain h where h: "h_d (edge_l e) = Fin h" "round32 (h * 2) = Fin x"
    by (cases "h_d (edge_l e)") (auto simp: edge_length_def fmul_def inf_of_def)
  show ?thesis
  proof (cases "0 \<le> h")
    case True
    then show ?thesis using is_length_round32 [of "h * 2"] h x by simp
  next
    case False
    then have "is_length (round32 (- (h * 2)))" by (intro is_length_round32) simp
    then have "0 \<le> - x" using h(2) by (simp add: round32_minus is_length_def)
    then have "x = 0" using x(2) by simp
    then show ?thesis using x(1) by simp
  qed
qed

lemma graph_ok_linked: "graph_ok g \<Longrightarrow> linked g"
  using edge_length_float by (fastforce simp: graph_ok_def linked_def)

lemma walk_length_append:
  "walk_length w (p @ i # q) = do { a \<leftarrow> walk_length w (p @ [i]); b \<leftarrow> walk_length w (i # q); Some (a + b) }"
proof (induction w p rule: walk_length.induct)
  case (1 w x y p)
  then show ?case by (auto simp: bind_eq_None_conv add.assoc split: Option.bind_splits)
next
  case (2 w x)
  then show ?case by (cases "w x i") (auto split: Option.bind_splits)
next
  case (3 w)
  then show ?case by (auto split: Option.bind_splits)
qed

lemma walk_through:
  "walk_length w (i # p @ k # q @ [j]) = do { a \<leftarrow> walk_length w (i # p @ [k]); b \<leftarrow> walk_length w (k # q @ [j]); Some (a + b) }"
  using walk_length_append [of w "i # p" k "q @ [j]"] by simp

definition nonnegative :: "(nat \<Rightarrow> nat \<Rightarrow> rat option) \<Rightarrow> bool" where
  "nonnegative w \<longleftrightarrow> (\<forall>a b x. w a b = Some x \<longrightarrow> 0 \<le> x)"

lemma walk_nonneg:
  assumes "nonnegative w"
  shows "walk_length w p = Some l \<Longrightarrow> 0 \<le> l"
  using assms
proof (induction w p arbitrary: l rule: walk_length.induct)
  case (1 w i j p)
  from "1.prems"(1) obtain a b where ab: "w i j = Some a" "walk_length w (j # p) = Some b" "l = a + b"
    by (auto simp: bind_eq_Some_conv)
  moreover have "0 \<le> a" using "1.prems"(2) ab(1) by (simp add: nonnegative_def)
  moreover have "0 \<le> b" using "1.IH" ab(1,2) "1.prems"(2) by fast
  ultimately show ?case by simp
qed simp_all

text \<open>A walk can be left at its first and entered at its last visit of a node.\<close>

lemma walk_from_last_visit:
  assumes "walk_length w (k # p @ [j]) = Some l" and "nonnegative w"
  shows "\<exists>q l'. walk_length w (k # q @ [j]) = Some l' \<and> l' \<le> l \<and> k \<notin> set q \<and> set q \<subseteq> set p"
proof (cases "k \<in> set p")
  case True
  then obtain r q where p: "p = r @ k # q" "k \<notin> set q" using split_list_last by fast
  then obtain a b where "walk_length w (k # r @ [k]) = Some a" "walk_length w (k # q @ [j]) = Some b" "l = a + b"
    using assms(1) walk_through [of w k r k q j] by (auto simp: bind_eq_Some_conv)
  then show ?thesis using walk_nonneg [OF assms(2)] p by fastforce
qed (use assms(1) in auto)

section \<open>The bounds of an entry\<close>

text \<open>After \<open>k\<close> phases: not longer than a walk through nodes below \<open>k\<close>, and not shorter than some walk that
  begins with \<open>nextV\<close>.\<close>

definition is_bound :: "(nat \<Rightarrow> nat \<Rightarrow> rat option) \<Rightarrow> nat \<Rightarrow> nat \<Rightarrow> nat \<Rightarrow> rat \<Rightarrow> bool" where
  "is_bound w k i j x \<longleftrightarrow> (\<forall>p l. set p \<subseteq> {..<k} \<longrightarrow> walk_length w (i # p @ [j]) = Some l \<longrightarrow> x \<le> (1 + ulp) ^ k * l)"

definition is_walk :: "(nat \<Rightarrow> nat \<Rightarrow> rat option) \<Rightarrow> nat \<Rightarrow> nat \<Rightarrow> nat \<Rightarrow> nat option \<Rightarrow> rat \<Rightarrow> bool" where
  "is_walk w k i j v x \<longleftrightarrow> (\<exists>q l. v = Some (hd (q @ [j])) \<and> walk_length w (i # q @ [j]) = Some l \<and> (1 - ulp) ^ k * l \<le> x)"

definition cell_ok :: "(nat \<Rightarrow> nat \<Rightarrow> rat option) \<Rightarrow> nat \<Rightarrow> nat \<Rightarrow> nat \<Rightarrow> shortPath \<Rightarrow> bool" where
  "cell_ok w k i j e \<longleftrightarrow> (\<exists>x. pathDistance e = Fin x \<and> is_length (Fin x) \<and> x \<le> 1000000 \<and> is_bound w k i j x
     \<and> (nextV e = None \<and> x = 1000000 \<or> is_walk w k i j (nextV e) x))"

lemma ulp_pos: "0 < ulp" "0 < 1 - ulp" "0 < 1 + ulp"
  by (simp_all add: ulp_def)

lemma is_walk_Suc:
  assumes "nonnegative w" and "is_walk w k i j v x"
  shows "is_walk w (Suc k) i j v x"
proof -
  obtain q l where q: "v = Some (hd (q @ [j]))" "walk_length w (i # q @ [j]) = Some l" "(1 - ulp) ^ k * l \<le> x"
    using assms(2) by (auto simp: is_walk_def)
  have "0 \<le> l" using walk_nonneg [OF assms(1) q(2)] .
  then have "(1 - ulp) ^ Suc k * l \<le> (1 - ulp) ^ k * l" using ulp_pos by (intro mult_right_mono power_decreasing) simp_all
  then have "(1 - ulp) ^ Suc k * l \<le> x" using q(3) by linarith
  then show ?thesis using q(1,2) unfolding is_walk_def by blast
qed

lemma is_walk_join:
  assumes a: "is_walk w k i m v a" and b: "is_walk w k m j v' b" and s: "(1 - ulp) * (a + b) \<le> s"
  shows "is_walk w (Suc k) i j v s"
proof -
  obtain q l where q: "v = Some (hd (q @ [m]))" "walk_length w (i # q @ [m]) = Some l" "(1 - ulp) ^ k * l \<le> a"
    using a by (auto simp: is_walk_def)
  obtain q' l' where q': "walk_length w (m # q' @ [j]) = Some l'" "(1 - ulp) ^ k * l' \<le> b"
    using b by (auto simp: is_walk_def)
  have "(1 - ulp) ^ Suc k * (l + l') = (1 - ulp) * ((1 - ulp) ^ k * l + (1 - ulp) ^ k * l')" by (simp add: algebra_simps)
  also have "\<dots> \<le> (1 - ulp) * (a + b)" using q(3) q'(2) ulp_pos by (intro mult_left_mono) simp_all
  finally have "(1 - ulp) ^ Suc k * (l + l') \<le> s" using s by simp
  moreover have "walk_length w (i # (q @ m # q') @ [j]) = Some (l + l')" using walk_through [of w i q m q' j] q(2) q'(1) by simp
  moreover have "hd ((q @ m # q') @ [j]) = hd (q @ [m])" by (cases q) simp_all
  ultimately show ?thesis using q(1) unfolding is_walk_def by metis
qed

lemma is_bound_Suc:
  assumes w: "nonnegative w" and d: "is_bound w k i j x" and a: "is_bound w k i k a" and b: "is_bound w k k j b"
    and y: "y \<le> x" "y \<le> (1 + ulp) * (a + b)"
  shows "is_bound w (Suc k) i j y"
  unfolding is_bound_def
proof (intro allI impI)
  fix p l assume p: "set p \<subseteq> {..<Suc k}" "walk_length w (i # p @ [j]) = Some l"
  show "y \<le> (1 + ulp) ^ Suc k * l"
  proof (cases "k \<in> set p")
    case False
    then have "set p \<subseteq> {..<k}" using p(1) less_Suc_eq by auto
    then have "x \<le> (1 + ulp) ^ k * l" using d p(2) by (simp add: is_bound_def)
    moreover have "(1 + ulp) ^ k * l \<le> (1 + ulp) ^ Suc k * l"
      using walk_nonneg [OF w p(2)] ulp_pos by (intro mult_right_mono power_increasing) simp_all
    ultimately show ?thesis using y(1) by linarith
  next
    case True
    then obtain r q where q: "p = r @ k # q" "k \<notin> set r" by (meson split_list_first)
    then obtain u v where uv: "walk_length w (i # r @ [k]) = Some u" "walk_length w (k # q @ [j]) = Some v" "l = u + v"
      using p(2) walk_through [of w i r k q j] by (auto simp: bind_eq_Some_conv)
    obtain q' v' where q': "walk_length w (k # q' @ [j]) = Some v'" "v' \<le> v" "k \<notin> set q'" "set q' \<subseteq> set q"
      using walk_from_last_visit [OF uv(2) w] by blast
    have "set r \<subseteq> {..<k}" "set q' \<subseteq> {..<k}" using p(1) q q'(3,4) less_Suc_eq by auto
    then have "a \<le> (1 + ulp) ^ k * u" "b \<le> (1 + ulp) ^ k * v'" using a b uv(1) q'(1) by (auto simp: is_bound_def)
    moreover have "(1 + ulp) ^ k * v' \<le> (1 + ulp) ^ k * v" using q'(2) ulp_pos by (intro mult_left_mono) simp_all
    ultimately have "a + b \<le> (1 + ulp) ^ k * l" using uv(3) by (simp add: algebra_simps)
    then have "(1 + ulp) * (a + b) \<le> (1 + ulp) * ((1 + ulp) ^ k * l)" using ulp_pos by (intro mult_left_mono) simp_all
    then show ?thesis using y(2) by (simp add: mult.assoc)
  qed
qed

lemma cell_relaxed:
  assumes w: "nonnegative w" and ij: "cell_ok w k i j (d i j)" and ik: "cell_ok w k i k (d i k)" and kj: "cell_ok w k k j (d k j)"
  shows "cell_ok w (Suc k) i j (relaxed d k i j)"
proof -
  obtain x where x: "pathDistance (d i j) = Fin x" "is_length (Fin x)" "x \<le> 1000000" "is_bound w k i j x"
    "nextV (d i j) = None \<and> x = 1000000 \<or> is_walk w k i j (nextV (d i j)) x" using ij by (auto simp: cell_ok_def)
  obtain a where a: "pathDistance (d i k) = Fin a" "is_length (Fin a)" "a \<le> 1000000" "is_bound w k i k a"
    "nextV (d i k) = None \<and> a = 1000000 \<or> is_walk w k i k (nextV (d i k)) a" using ik by (auto simp: cell_ok_def)
  obtain b where b: "pathDistance (d k j) = Fin b" "is_length (Fin b)" "b \<le> 1000000" "is_bound w k k j b"
    "nextV (d k j) = None \<and> b = 1000000 \<or> is_walk w k k j (nextV (d k j)) b" using kj by (auto simp: cell_ok_def)
  obtain s where s: "fadd (Fin a) (Fin b) = Fin s" "(1 - ulp) * (a + b) \<le> s" "s \<le> (1 + ulp) * (a + b)"
    using fadd_error [OF a(2) b(2) a(3) b(3)] .
  show ?thesis
  proof (cases "s < x")
    case True
    have "flt (fadd (Fin a) (Fin b)) (Fin x)" using s(1) True by simp
    from fadd_below [OF a(2) b(2) this] have "a \<le> s" "b \<le> s" using s(1) by (metis fl.inject)+
    then have "is_walk w k i k (nextV (d i k)) a" "is_walk w k k j (nextV (d k j)) b" using a(5) b(5) x(3) True by auto
    then have "is_walk w (Suc k) i j (nextV (d i k)) s" using is_walk_join s(2) by blast
    moreover have "is_bound w (Suc k) i j s" using is_bound_Suc [OF w x(4) a(4) b(4) _ s(3)] True by simp
    moreover have "relaxed d k i j = \<lparr>nextV = nextV (d i k), pathDistance = Fin s\<rparr>"
      using x(1) a(1) b(1) s(1) True by (simp add: relaxed_def fgt_def)
    moreover have "is_length (Fin s)" using is_length_fadd [OF a(2) b(2)] s(1) by simp
    ultimately show ?thesis using True x(3) by (simp add: cell_ok_def)
  next
    case False
    then have "is_bound w (Suc k) i j x" using is_bound_Suc [OF w x(4) a(4) b(4) order_refl] s(3) by simp
    moreover have "relaxed d k i j = d i j" using x(1) a(1) b(1) s(1) False by (simp add: relaxed_def fgt_def)
    ultimately show ?thesis using x is_walk_Suc [OF w] by (auto simp: cell_ok_def)
  qed
qed

section \<open>All phases\<close>

lemma hop_ok:
  assumes "graph_ok g" and "i < length (graph_nodes g)" and "hop g i j = Some l"
  shows "0 \<le> l" and "j < length (graph_nodes g)"
proof -
  have es: "edges_to j (neighbors (graph_nodes g ! i)) \<noteq> []" using assms(3) by (auto simp: hop_def)
  note e = last_edge [OF this]
  have ok: "edge_v (last (edges_to j (neighbors (graph_nodes g ! i)))) < length (graph_nodes g)"
    "edge_ok (edge_length (last (edges_to j (neighbors (graph_nodes g ! i)))))"
    using assms(1,2) e(1) unfolding graph_ok_def by blast+
  show "j < length (graph_nodes g)" using ok(1) e(2) by simp
  show "0 \<le> l" using ok(2) assms(3) es by (cases "edge_length (last (edges_to j (neighbors (graph_nodes g ! i))))") (auto simp: hop_def)
qed

text \<open>Only edges from nodes count.\<close>

definition edges_of :: "MapGraph \<Rightarrow> nat \<Rightarrow> nat \<Rightarrow> rat option" where
  "edges_of g i j = (if i < length (graph_nodes g) then hop g i j else None)"

lemma edges_of_nonnegative: "graph_ok g \<Longrightarrow> nonnegative (edges_of g)"
  using hop_ok(1) by (auto simp: nonnegative_def edges_of_def)

lemma walk_nodes:
  assumes "graph_ok g" and "walk_length (edges_of g) (i # p) = Some l"
  shows "set p \<subseteq> {..<length (graph_nodes g)}"
  using assms(2)
proof (induction p arbitrary: i l)
  case (Cons j p)
  then show ?case using hop_ok(2) [OF assms(1), of i j] by (auto simp: edges_of_def bind_eq_Some_conv split: if_splits)
qed simp

lemma cell_start:
  assumes "graph_ok g" and "i < length (graph_nodes g)"
  shows "cell_ok (edges_of g) 0 i j (edge_cell g i j)"
proof (cases "edges_to j (neighbors (graph_nodes g ! i)) = []")
  case True
  then have "hop g i j = None" "edge_cell g i j = no_path" by (simp_all add: hop_def edge_cell_def direct_def)
  then show ?thesis using is_length_far
    by (auto simp: cell_ok_def no_path_def far_away_Fin is_bound_def edges_of_def)
next
  case False
  let ?e = "edge_length (last (edges_to j (neighbors (graph_nodes g ! i))))"
  have "edge_ok ?e" "is_length ?e" using assms last_edge(1) [OF False] edge_length_float unfolding graph_ok_def by blast+
  then obtain x where x: "?e = Fin x" "is_length (Fin x)" "x \<le> 1000000" by (cases ?e) simp_all
  then have h: "edges_of g i j = Some x" using False assms(2) by (simp add: edges_of_def hop_def)
  then have "walk_length (edges_of g) (i # [] @ [j]) = Some x" by simp
  then have "is_walk (edges_of g) 0 i j (Some j) x" unfolding is_walk_def by (metis append_Nil list.sel(1) mult_1 order_refl power_0)
  moreover have "is_bound (edges_of g) 0 i j x" using h by (auto simp: is_bound_def)
  ultimately show ?thesis using x False by (simp add: cell_ok_def edge_cell_def direct_def)
qed

lemma cell_phases:
  assumes "graph_ok g" and "length (graph_nodes g) = n"
  shows "k \<le> n \<Longrightarrow> \<forall>i < n. \<forall>j < n. cell_ok (edges_of g) k i j (phases (edge_cell g) k i j)"
proof (induction k)
  case 0
  then show ?case using cell_start [OF assms(1)] assms(2) by simp
next
  case (Suc k)
  then show ?case using cell_relaxed [OF edges_of_nonnegative [OF assms(1)]] by simp
qed

lemma belMan_distances:
  assumes g: "graph_ok g" and n: "length (graph_nodes g) = n"
  obtains g' where "belMan g = Some g'"
    and "\<And>i j. i < n \<Longrightarrow> j < n \<Longrightarrow> \<exists>v x. entry g' i j = Some \<lparr>nextV = v, pathDistance = Fin x\<rparr> \<and> x \<le> 1000000
      \<and> (\<forall>p l. walk_length (edges_of g) (i # p @ [j]) = Some l \<longrightarrow> x \<le> (1 + ulp) ^ n * l)
      \<and> (v = None \<and> x = 1000000 \<or> is_walk (edges_of g) n i j v x)"
proof -
  obtain g' where g': "belMan g = Some g'" "sized n g'" "\<And>i j. i < n \<Longrightarrow> j < n \<Longrightarrow> cell g' i j = phases (edge_cell g) n i j"
    using belMan_phases [OF graph_ok_linked [OF g] n] by metis
  have "\<exists>v x. entry g' i j = Some \<lparr>nextV = v, pathDistance = Fin x\<rparr> \<and> x \<le> 1000000
      \<and> (\<forall>p l. walk_length (edges_of g) (i # p @ [j]) = Some l \<longrightarrow> x \<le> (1 + ulp) ^ n * l)
      \<and> (v = None \<and> x = 1000000 \<or> is_walk (edges_of g) n i j v x)" if ij: "i < n" "j < n" for i j
  proof -
    have "cell_ok (edges_of g) n i j (cell g' i j)" using cell_phases [OF g n order_refl] g'(3) ij by simp
    then obtain v x where e: "cell g' i j = \<lparr>nextV = v, pathDistance = Fin x\<rparr>" "x \<le> 1000000" "is_bound (edges_of g) n i j x"
      "v = None \<and> x = 1000000 \<or> is_walk (edges_of g) n i j v x"
      by (cases "cell g' i j") (auto simp: cell_ok_def)
    have "x \<le> (1 + ulp) ^ n * l" if "walk_length (edges_of g) (i # p @ [j]) = Some l" for p l
      using e(3) [unfolded is_bound_def, rule_format, of p l] that walk_nodes [OF g that] n by simp
    then show ?thesis using e entry_cell [OF g'(2) ij] by auto
  qed
  then show ?thesis using that g'(1) by blast
qed

end
