(* ===== verification/PathSearch.thy ===== *)
theory PathSearch
  imports ShortestWalks GameRun
begin

text \<open>
  \<open>MapGraph::findPath\<close> on the matrix of \<open>belMan\<close>: for a graph made by \<open>pushNode\<close> and \<open>createEdges\<close> its loop ends,
  all legs of a path but the last are checked, and the last can lead through an obstacle.
\<close>

section \<open>The obstacles of a game\<close>

lemma clear_of_blocks_total: "\<forall>a \<in> set as. is_block c a \<Longrightarrow> \<exists>ok. clear_of_blocks c l r as = Some ok"
  by (induction as) (auto simp: is_block_def block_at_def Let_def)

lemma clear_of_lines_total: "\<forall>a \<in> set as. is_line c a \<Longrightarrow> \<exists>ok. clear_of_lines c s f r as = Some ok"
  by (induction as) (auto simp: is_line_def line_at_def)

lemma checkLine_total:
  assumes "game m c"
  obtains ok where "checkLine c s f r = Some ok"
proof -
  have "kinds_ok c" using game_core_ok [OF assms] by (simp add: core_ok_def)
  then have "\<forall>a \<in> set (blocks c). is_block c a" "\<forall>a \<in> set (block_lines c). is_line c a" by (simp_all add: kinds_ok_def)
  then obtain ok1 ok2 where "clear_of_blocks c (l_refresh (segment_of s f)) r (blocks c) = Some ok1"
    "clear_of_lines c s f r (block_lines c) = Some ok2" using clear_of_blocks_total clear_of_lines_total by blast
  then have "checkLine c s f r = Some (ok1 \<and> ok2)" by (simp add: checkLine_def)
  then show ?thesis by (rule that)
qed

definition sees :: "GameCore \<Rightarrow> fl \<Rightarrow> Point \<Rightarrow> Point \<Rightarrow> bool" where
  "sees c r s f \<longleftrightarrow> checkLine c s f r = Some True"

lemma findNodes_sees:
  assumes "game m c" and "linked g"
  shows "\<exists>res. findNodes c p reach r g = Some res \<and> (\<forall>i \<in> set res. i < length (graph_nodes g) \<and> sees c r p (place g i))"
proof -
  let ?ok = "\<lambda>i. i < length (graph_nodes g) \<and> sees c r p (place g i)"
  have node: "node_id v < length (graph_nodes g) \<and> place g (node_id v) = node_pos v" if "v \<in> set (graph_nodes g)" for v
    using that assms(2) by (auto simp: in_set_conv_nth place_def linked_def)
  have "\<exists>res. for_each (visible_node c p reach r) (graph_nodes g) [] = Some res \<and> (\<forall>i \<in> set res. ?ok i)"
  proof (rule for_each_total)
    fix v res assume v: "v \<in> set (graph_nodes g)" and res: "\<forall>i \<in> set res. ?ok i"
    obtain ok where "checkLine c p (node_pos v) r = Some ok" using checkLine_total [OF assms(1)] .
    then show "\<exists>res'. visible_node c p reach r v res = Some res' \<and> (\<forall>i \<in> set res'. ?ok i)"
      using node [OF v] res by (auto simp: visible_node_def sees_def)
  qed simp
  then obtain res where res: "for_each (visible_node c p reach r) (graph_nodes g) [] = Some res" "\<forall>i \<in> set res. ?ok i" by blast
  let ?P = "\<lambda>(mind, i). flt mind (f_of_int 100000) \<longrightarrow> ?ok i"
  have "\<exists>x. for_each (nearest_node c p r) (graph_nodes g) (f_of_int 100000, 0) = Some x \<and> ?P x"
  proof (rule for_each_total)
    have "f_of_int 100000 = Fin 100000" by code_simp
    then show "?P (f_of_int 100000, 0)" by simp
  next
    fix v x assume v: "v \<in> set (graph_nodes g)" and x: "?P x"
    obtain ok where "checkLine c p (node_pos v) r = Some ok" using checkLine_total [OF assms(1)] .
    then show "\<exists>x'. nearest_node c p r v x = Some x' \<and> ?P x'"
      using node [OF v] x by (cases x) (auto simp: nearest_node_def sees_def Let_def)
  qed
  then obtain mind i where "for_each (nearest_node c p r) (graph_nodes g) (f_of_int 100000, 0) = Some (mind, i)"
    "flt mind (f_of_int 100000) \<longrightarrow> ?ok i" by auto
  then show ?thesis using res by (cases "res = []") (auto simp: findNodes_def)
qed

section \<open>The best pair\<close>

text \<open>Lengths are not negative, so that a pair without a path is never better than the initial value: a pair that
  was chosen has an entry below \<open>1000000\<close>, and if none was, \<open>besti\<close> and \<open>bestj\<close> are still equal.\<close>

definition pair_ok :: "MapGraph \<Rightarrow> nat list \<Rightarrow> nat list \<Rightarrow> fl \<times> nat \<times> nat \<Rightarrow> bool" where
  "pair_ok g ss ff = (\<lambda>(d, i, j). (d = far_away \<and> i = j) \<or>
     (flt d far_away \<and> i \<in> set ss \<and> j \<in> set ff \<and> flt (pathDistance (cell g i j)) far_away))"

lemma better_pair_ok:
  assumes t: "sized n g" and e: "is_length (pathDistance (cell g i j))"
    and ij: "i < n" "j < n" "i \<in> set ss" "j \<in> set ff" and p: "pair_ok g ss ff x"
  shows "\<exists>x'. better_pair g s f i j x = Some x' \<and> pair_ok g ss ff x'"
proof -
  have n: "length (graph_nodes g) = n" using t by (simp add: sized_def)
  let ?l = "fadd (fadd (Fin 0) (p_length (p_sub s (place g i)))) (p_length (p_sub f (place g j)))"
  let ?d = "fadd ?l (pathDistance (cell g i j))"
  obtain d i0 j0 where x: "x = (d, i0, j0)" by (cases x)
  have run: "better_pair g s f i j x = Some (if flt ?d d then (?d, i, j) else x)"
    using entry_cell [OF t ij(1,2)] ij(1,2) n x by (simp add: better_pair_def node_at_def place_def Let_def)
  have "flt d far_away \<or> d = far_away" using p x by (auto simp: pair_ok_def)
  then have d: "flt ?d far_away" if "flt ?d d" using that flt_trans by blast
  have l: "is_length ?l" by (intro is_length_fadd) (simp_all add: p_length_def is_length_fsqrt)
  have "flt (pathDistance (cell g i j)) far_away" if "flt ?d d"
    by (rule fadd_below [OF l e d [OF that]]) (use d [OF that] in \<open>auto simp: far_away_Fin\<close>)
  then show ?thesis using run p d ij by (auto simp: pair_ok_def)
qed

lemma best_pair:
  assumes t: "sized n g" and e: "\<And>i j. i < n \<Longrightarrow> j < n \<Longrightarrow> is_length (pathDistance (cell g i j))"
    and "set ss \<subseteq> {..<n}" and "set ff \<subseteq> {..<n}"
  obtains d i j where "for_each (\<lambda>i. for_each (better_pair g s f i) ff) ss (far_away, 0, 0) = Some (d, i, j)"
    and "pair_ok g ss ff (d, i, j)"
proof -
  have "\<exists>x. for_each (\<lambda>i. for_each (better_pair g s f i) ff) ss (far_away, 0, 0) = Some x \<and> pair_ok g ss ff x"
  proof (rule for_each_total)
    show "pair_ok g ss ff (far_away, 0, 0)" by (simp add: pair_ok_def)
  next
    fix i x assume i: "i \<in> set ss" and x: "pair_ok g ss ff x"
    show "\<exists>x'. for_each (better_pair g s f i) ff x = Some x' \<and> pair_ok g ss ff x'"
    proof (rule for_each_total [where P = "pair_ok g ss ff"])
      fix j y assume "j \<in> set ff" "pair_ok g ss ff y"
      then show "\<exists>x'. better_pair g s f i j y = Some x' \<and> pair_ok g ss ff x'"
        using better_pair_ok [OF t e] i assms(3,4) by blast
    qed (rule x)
  qed
  then show ?thesis using that by auto
qed

section \<open>The edges of \<open>createEdges\<close>\<close>

text \<open>A graph on given points: the nodes are numbered by their places and the edges are checked segments.\<close>

definition edge_made :: "GameCore \<Rightarrow> fl \<Rightarrow> Point list \<Rightarrow> nat \<Rightarrow> Edge \<Rightarrow> bool" where
  "edge_made c r pts i e \<longleftrightarrow> edge_v e < length pts \<and> edge_l e = segment_of (pts ! i) (pts ! edge_v e)
     \<and> sees c r (pts ! i) (pts ! edge_v e)"

definition made :: "GameCore \<Rightarrow> fl \<Rightarrow> Point list \<Rightarrow> MapGraph \<Rightarrow> bool" where
  "made c r pts g \<longleftrightarrow> length (graph_nodes g) = length pts
     \<and> (\<forall>i < length pts. node_id (graph_nodes g ! i) = i \<and> node_pos (graph_nodes g ! i) = pts ! i
          \<and> (\<forall>e \<in> set (neighbors (graph_nodes g ! i)). edge_made c r pts i e))"

lemma made_pushed: "made c r pts (fold pushNode pts new_MapGraph)"
proof (induction pts rule: rev_induct)
  case (snoc p pts)
  let ?g = "fold pushNode pts new_MapGraph"
  have n: "length (graph_nodes ?g) = length pts" using snoc.IH by (simp add: made_def)
  have edge: "edge_made c r (pts @ [p]) i e" if "edge_made c r pts i e" "i < length pts" for i e
    using that by (simp add: edge_made_def nth_append)
  have none: "neighbors v = []" if "v \<in> set (graph_nodes (fold pushNode ps new_MapGraph))" for v ps
    using that by (induction ps rule: rev_induct) (auto simp: new_MapGraph_def pushNode_def)
  show ?case using snoc.IH n edge unfolding made_def
    by (auto simp: pushNode_def nth_append less_Suc_eq)
qed (simp add: made_def new_MapGraph_def)

lemma made_link:
  assumes g: "game m c" and h: "made c r pts h" and ij: "i < length pts" "j < length pts"
  shows "\<exists>h'. link_nodes c reach r i j h = Some h' \<and> made c r pts h'"
proof -
  let ?u = "graph_nodes h ! i" and ?e = "\<lparr>edge_v = j, edge_l = segment_of (pts ! i) (pts ! j), minBlockDistance = None\<rparr>"
  have n: "length (graph_nodes h) = length pts" and pos: "node_pos ?u = pts ! i" "node_pos (graph_nodes h ! j) = pts ! j"
    using h ij by (simp_all add: made_def)
  obtain ok where ok: "checkLine c (pts ! i) (pts ! j) r = Some ok" using checkLine_total [OF g] .
  have "made c r pts (put_node i (?u\<lparr>neighbors := neighbors ?u @ [?e]\<rparr>) h)" if ok
  proof -
    have "edge_made c r pts i ?e" using ok that ij by (simp add: edge_made_def sees_def)
    then show ?thesis using h ij(1) by (auto simp: made_def put_node_def nth_list_update)
  qed
  then show ?thesis using h ok ij n pos by (auto simp: link_nodes_def node_at_def)
qed

lemma createEdges_made:
  assumes "game m c" and "made c r pts g"
  shows "\<exists>g'. createEdges c reach r g = Some g' \<and> made c r pts g'"
proof -
  have n: "length (graph_nodes g) = length pts" using assms(2) by (simp add: made_def)
  show ?thesis unfolding createEdges_def Let_def n
  proof (rule for_each_total [where P = "made c r pts"])
    fix i h assume i: "i \<in> set [0..<length pts]" and h: "made c r pts h"
    show "\<exists>h'. for_each (link_nodes c reach r i) [0..<length pts] h = Some h' \<and> made c r pts h'"
      by (rule for_each_total [where P = "made c r pts"]) (use made_link [OF assms(1)] i h in auto)
  qed (rule assms(2))
qed

text \<open>The length of an edge is a number when the sum of two coordinates does not overflow.\<close>

definition on_map :: "int \<Rightarrow> Point \<Rightarrow> bool" where
  "on_map k p \<longleftrightarrow> fits k (px p) \<and> fits k (py p)"

lemma on_map_add: "on_map k p \<Longrightarrow> on_map k q \<Longrightarrow> - 149 \<le> k \<Longrightarrow> k < 127 \<Longrightarrow> on_map (k + 1) (p_add p q)"
  and on_map_sub: "on_map k p \<Longrightarrow> on_map k q \<Longrightarrow> - 149 \<le> k \<Longrightarrow> k < 127 \<Longrightarrow> on_map (k + 1) (p_sub p q)"
  by (simp_all add: on_map_def p_add_def p_sub_def pt_def fits_fadd fits_fsub)

lemma on_map_half: "on_map (k + 1) p \<Longrightarrow> - 149 \<le> k \<Longrightarrow> k < 128 \<Longrightarrow> on_map k (p_div p (Fin 2))"
  by (simp add: on_map_def p_div_def pt_def fits_half)

lemma on_map_mid:
  assumes "on_map k p" and "on_map k q" and "- 149 \<le> k" and "k < 127"
  shows "on_map (k + 1) (p_sub p (p_div (p_add p q) (Fin 2)))" and "on_map (k + 1) (p_sub q (p_div (p_add p q) (Fin 2)))"
  using assms by (auto intro!: on_map_sub on_map_half on_map_add)

lemma segment_h_d: "h_d (segment_of p q) = fdiv (p_length (p_sub (p_sub q (p_div (p_add p q) (Fin 2)))
    (p_sub p (p_div (p_add p q) (Fin 2))))) (Fin 2)"
  by (simp add: segment_of_def make_segment_def l_refresh_def l_length_def Let_def)

lemma edge_is_length:
  assumes "on_map 126 p" and "on_map 126 q"
  shows "is_length (fmul (h_d (segment_of p q)) (Fin 2))" and "fmul (h_d (segment_of p q)) (Fin 2) \<noteq> NaN"
proof -
  define a where "a = p_sub p (p_div (p_add p q) (Fin 2))"
  define b where "b = p_sub q (p_div (p_add p q) (Fin 2))"
  have ab: "on_map 127 a" "on_map 127 b" using on_map_mid [OF assms] by (simp_all add: a_def b_def)
  have sub: "fsub x y \<noteq> NaN" if "fits 127 x" "fits 127 y" for x y
    using that by (elim fitsE) (auto simp: fsub_def fadd_def round32_def round_fmt_def Let_def)
  have sq: "is_length (fmul x x) \<and> fmul x x \<noteq> NaN" if "x \<noteq> NaN" for x
  proof (cases x)
    case (Fin y)
    then show ?thesis using is_length_round32 [of "y * y"] by (auto simp: fmul_def round32_def round_fmt_def Let_def)
  qed (use that in \<open>simp_all add: fmul_def inf_of_def\<close>)
  have "px (p_sub b a) \<noteq> NaN" "py (p_sub b a) \<noteq> NaN" using ab sub by (simp_all add: p_sub_def pt_def on_map_def)
  then have l: "is_length (lengthSquared (p_sub b a))" "lengthSquared (p_sub b a) \<noteq> NaN"
    using sq by (simp_all add: lengthSquared_def is_length_fadd fadd_not_NaN)
  have r: "fsqrt x \<noteq> NaN" if "is_length x" "x \<noteq> NaN" for x
    using that by (elim is_length_cases) (auto simp: fsqrt_def round32_def round_fmt_def Let_def)
  have h: "fdiv x (Fin 2) \<noteq> NaN" and d: "fmul x (Fin 2) \<noteq> NaN" if "x \<noteq> NaN" for x
    using that by (cases x; simp add: fdiv_def fmul_def inf_of_def round32_def round_fmt_def Let_def)+
  show "is_length (fmul (h_d (segment_of p q)) (Fin 2))"
    unfolding segment_h_d p_length_def by (intro is_length_fmul is_length_fdiv is_length_fsqrt) simp_all
  show "fmul (h_d (segment_of p q)) (Fin 2) \<noteq> NaN"
    unfolding segment_h_d p_length_def a_def [symmetric] b_def [symmetric] by (intro h d r l)
qed

lemma made_linked:
  assumes "made c r pts g" and "\<forall>p \<in> set pts. on_map 126 p"
  shows "linked g"
proof -
  have "is_length (edge_length e) \<and> edge_length e \<noteq> NaN" if "edge_made c r pts i e" "i < length pts" for i e
    using that edge_is_length assms(2) by (simp add: edge_made_def edge_length_def)
  then show ?thesis using assms(1) by (auto simp: linked_def made_def edge_made_def)
qed

text \<open>On a board whose coordinates are at most \<open>65536\<close> no edge is as long as "no path".\<close>

lemma edge_on_board:
  assumes "on_map 16 p" and "on_map 16 q"
  shows "edge_ok (fmul (h_d (segment_of p q)) (Fin 2))"
proof -
  let ?v = "p_sub (p_sub q (p_div (p_add p q) (Fin 2))) (p_sub p (p_div (p_add p q) (Fin 2)))"
  have "on_map (16 + 1 + 1) ?v" by (rule on_map_sub [OF on_map_mid(2,1) [OF assms]]) simp_all
  then have v: "fits 18 (px ?v)" "fits 18 (py ?v)" by (simp_all add: on_map_def)
  have "fits (18 + 18 + 1) (lengthSquared ?v)" unfolding lengthSquared_def
    using v by (intro fits_fadd fits_square) simp_all
  then obtain x where x: "lengthSquared ?v = Fin x" "fits (19 + 19) (Fin x)" using fits_mono [of 37 _ 38] by (auto elim: fitsE)
  have sq: "is_length (fmul y y)" if "fits 18 y" for y
    using that is_length_round32 by (elim fitsE) (auto simp: fmul_def)
  have "is_length (lengthSquared ?v)" unfolding lengthSquared_def using v sq by (intro is_length_fadd) simp_all
  then have "0 \<le> x" using x(1) by (simp add: is_length_def)
  then have "fits (18 + 1) (p_length ?v)" using fits_fsqrt [OF x(2)] x(1) by (simp add: p_length_def)
  then have "fits (18 + 1) (fmul (h_d (segment_of p q)) (Fin 2))" unfolding segment_h_d by (intro fits_double fits_half) simp_all
  then obtain y where y: "fmul (h_d (segment_of p q)) (Fin 2) = Fin y" "\<bar>y\<bar> \<le> pow2 19" by (auto elim: fitsE)
  have "is_length (fmul (h_d (segment_of p q)) (Fin 2))"
    unfolding segment_h_d p_length_def by (intro is_length_fmul is_length_fdiv is_length_fsqrt) simp_all
  then show ?thesis using y by (simp add: is_length_def pow2_def)
qed

lemma made_graph_ok:
  assumes "made c r pts g" and "\<forall>p \<in> set pts. on_map 16 p"
  shows "graph_ok g"
proof -
  have "edge_ok (edge_length e)" if "edge_made c r pts i e" "i < length pts" for i e
    using that edge_on_board assms(2) by (simp add: edge_made_def edge_length_def)
  then show ?thesis using assms(1) by (auto simp: graph_ok_def made_def edge_made_def)
qed

text \<open>Every leg of a path has been checked against the obstacles.\<close>

fun clear_legs :: "GameCore \<Rightarrow> fl \<Rightarrow> Point list \<Rightarrow> bool" where
  "clear_legs c r (p # q # ps) \<longleftrightarrow> sees c r p q \<and> clear_legs c r (q # ps)"
| "clear_legs c r ps \<longleftrightarrow> True"

lemma clear_legs_prefix: "clear_legs c r (ps @ qs) \<Longrightarrow> clear_legs c r ps"
  by (induction c r ps rule: clear_legs.induct) auto

lemma made_clear:
  assumes "made c r pts g" and "set q \<subseteq> {..<length pts}" and "successively (\<lambda>a b. (a, b) \<in> edge_set g) q"
  shows "clear_legs c r (map (place g) q)"
  using assms(2,3)
proof (induction q rule: induct_list012)
  case (3 i j q)
  then have "i < length pts" "(i, j) \<in> edge_set g" by simp_all
  then have "sees c r (place g i) (place g j)"
    using assms(1) by (auto simp: edge_set_def made_def edge_made_def place_def)
  then show ?case using 3 by simp
qed simp_all

section \<open>The properties\<close>

text \<open>C8. \<open>belMan\<close> never fails, and its matrix holds shortest paths up to rounding. In every graph of \<open>n\<close> nodes
  whose edges are at most \<open>1000000\<close> long (the length the code uses for "no path"), every entry is at most
  \<open>(1 + 2 ^ -24) ^ n\<close> times the length of any walk along edges, and either it is the initial \<open>1000000\<close> without a
  next node, or \<open>nextV\<close> is the first step of a walk that is at most \<open>1 / (1 - 2 ^ -24) ^ n\<close> times as long as the
  entry says.\<close>

theorem shortest_paths:
  assumes "graph_ok g" and "n = length (graph_nodes g)"
  shows "\<exists>g'. belMan g = Some g' \<and> (\<forall>i < n. \<forall>j < n. \<exists>v x. entry g' i j = Some \<lparr>nextV = v, pathDistance = Fin x\<rparr>
    \<and> x \<le> 1000000
    \<and> (\<forall>p l. walk_length (edges_of g) (i # p @ [j]) = Some l \<longrightarrow> x \<le> (1 + 1 / 2 ^ 24) ^ n * l)
    \<and> (v = None \<and> x = 1000000 \<or>
       (\<exists>p l. v = Some (hd (p @ [j])) \<and> walk_length (edges_of g) (i # p @ [j]) = Some l \<and> (1 - 1 / 2 ^ 24) ^ n * l \<le> x)))"
  by (rule belMan_distances [OF assms(1) assms(2) [symmetric], unfolded ulp_def is_walk_def]) blast

lemma path_shape:
  assumes c: "game m c" and g: "linked g"
  obtains g' ps d where "belMan g = Some g'" and "findPath c s f reach r g' = Some (ps, d)"
    and "ps = [s, f] \<or> (\<exists>q j. set q \<subseteq> {..<length (graph_nodes g)} \<and> j < length (graph_nodes g)
           \<and> successively (\<lambda>a b. (a, b) \<in> edge_set g) (q @ [j]) \<and> sees c r s (place g (hd (q @ [j])))
           \<and> ps = s # map (place g) q @ [f])"
proof -
  define n where "n = length (graph_nodes g)"
  obtain g' where g': "belMan g = Some g'" "graph_nodes g' = graph_nodes g" "sized n g'"
    "\<And>i j. i < n \<Longrightarrow> j < n \<Longrightarrow> is_length (pathDistance (cell g' i j))"
    "\<And>i j. i < n \<Longrightarrow> j < n \<Longrightarrow> i = j \<or> flt (pathDistance (cell g' i j)) far_away \<Longrightarrow>
      \<exists>q. follow g' i j = Some (map (place g) q) \<and> hd (q @ [j]) = i \<and> set q \<subseteq> {..<n}
        \<and> successively (\<lambda>a b. (a, b) \<in> edge_set g) (q @ [j])"
    using belMan_follow [OF g n_def [symmetric]] by metis
  have ok: "linked g'" "place g' = place g" using g g'(2) by (auto simp: linked_def place_def)
  obtain ss where ss: "findNodes c s reach r g' = Some ss" "\<forall>i \<in> set ss. i < n \<and> sees c r s (place g i)"
    using findNodes_sees [OF c ok(1), of s reach r] ok(2) g'(2) by (auto simp: n_def)
  obtain ff where ff: "findNodes c f reach r g' = Some ff" "\<forall>i \<in> set ff. i < n \<and> sees c r f (place g i)"
    using findNodes_sees [OF c ok(1), of f reach r] ok(2) g'(2) by (auto simp: n_def)
  obtain d i j where dij: "for_each (\<lambda>i. for_each (better_pair g' s f i) ff) ss (far_away, 0, 0) = Some (d, i, j)"
    "pair_ok g' ss ff (d, i, j)" using best_pair [OF g'(3,4), of ss ff s f] ss(2) ff(2) by blast
  show ?thesis
  proof (cases "i = j")
    case True
    then have "findPath c s f reach r g' = Some ([s, f], d)"
      using ss(1) ff(1) dij(1) by (simp add: findPath_def follow.simps)
    then show ?thesis using that g'(1) by blast
  next
    case False
    then have ij: "i < n" "j < n" "flt (pathDistance (cell g' i j)) far_away" "sees c r s (place g i)"
      using dij(2) ss(2) ff(2) by (auto simp: pair_ok_def)
    obtain q where q: "follow g' i j = Some (map (place g) q)" "hd (q @ [j]) = i" "set q \<subseteq> {..<n}"
      "successively (\<lambda>a b. (a, b) \<in> edge_set g) (q @ [j])" using g'(5) [OF ij(1,2)] ij(3) by blast
    then have "findPath c s f reach r g' = Some (s # map (place g) q @ [f], d)"
      using ss(1) ff(1) dij(1) by (simp add: findPath_def)
    then show ?thesis using that [OF g'(1)] q ij(2,4) by (metis n_def)
  qed
qed

text \<open>C9. For any points whose coordinates are floats up to \<open>2 ^ 126\<close> in size, in any game the server can reach and
  for any start, target and radii: \<open>createEdges\<close> links the points, \<open>belMan\<close> fills the matrix and \<open>findPath\<close> returns.
  Whatever the sums of lengths are rounded to, its loop over \<open>nextV\<close> ends and reads no entry that was never set.
  The path leads from the start over some of the points to the target, and every leg but the last keeps clear of
  blocks and lines.\<close>

theorem path_found:
  assumes "game m c" and "\<forall>p \<in> set pts. on_map 126 p"
  shows "\<exists>g g' ps d. createEdges c reach0 r (fold pushNode pts new_MapGraph) = Some g \<and> belMan g = Some g'
    \<and> findPath c s f reach r g' = Some (s # ps @ [f], d) \<and> set ps \<subseteq> set pts \<and> clear_legs c r (s # ps)"
proof -
  obtain g where g: "createEdges c reach0 r (fold pushNode pts new_MapGraph) = Some g" "made c r pts g"
    using createEdges_made [OF assms(1) made_pushed] by blast
  have n: "length (graph_nodes g) = length pts" "\<And>i. i < length pts \<Longrightarrow> place g i = pts ! i"
    using g(2) by (simp_all add: made_def place_def)
  obtain g' ps d where p: "belMan g = Some g'" "findPath c s f reach r g' = Some (ps, d)"
    "ps = [s, f] \<or> (\<exists>q j. set q \<subseteq> {..<length pts} \<and> j < length pts
           \<and> successively (\<lambda>a b. (a, b) \<in> edge_set g) (q @ [j]) \<and> sees c r s (place g (hd (q @ [j])))
           \<and> ps = s # map (place g) q @ [f])"
    using path_shape [OF assms(1) made_linked [OF g(2) assms(2)], of s f reach r] n(1) by metis
  show ?thesis
  proof (cases "ps = [s, f]")
    case True
    then show ?thesis using g(1) p(1,2) by (intro exI [of _ g] exI [of _ g'] exI [of _ "[]"] exI [of _ d]) simp
  next
    case False
    then obtain q j where q: "set q \<subseteq> {..<length pts}" "j < length pts" "successively (\<lambda>a b. (a, b) \<in> edge_set g) (q @ [j])"
      "sees c r s (place g (hd (q @ [j])))" "ps = s # map (place g) q @ [f]" using p(3) by blast
    have "clear_legs c r (map (place g) (q @ [j]))" using q by (intro made_clear [OF g(2)]) simp_all
    then have "clear_legs c r (s # map (place g) (q @ [j]))" using q(4) by (cases q) simp_all
    then have "clear_legs c r (s # map (place g) q)" using clear_legs_prefix [of c r "s # map (place g) q" "[place g j]"] by simp
    moreover have "set (map (place g) q) \<subseteq> set pts" using q(1) n(2) by auto
    ultimately show ?thesis using g(1) p(1,2) q(5)
      by (intro exI [of _ g] exI [of _ g'] exI [of _ "map (place g) q"] exI [of _ d]) simp
  qed
qed

section \<open>An example\<close>

text \<open>Two nodes at a corner around a block: from \<open>here\<close> only \<open>node_a\<close> is close, and only \<open>node_b\<close> sees \<open>there\<close>.\<close>

lemma l_refresh_idem: "l_refresh (l_refresh l) = l_refresh l"
  by (simp add: l_refresh_def Let_def l_length_def)

lemma l_refresh_segment [simp]: "l_refresh (segment_of s f) = segment_of s f"
  by (simp add: segment_of_def make_segment_def Let_def l_refresh_idem)

definition one_block :: GameCore where
  "one_block = new_GameCore\<lparr>objects := [0 \<mapsto> BlockObj (new_BoardObject new_GameCore\<lparr>pos := pt (Fin 1000) (Fin 1000), radius := Fin 200\<rparr>)],
     next_obj := 1, blocks := [0]\<rparr>"

definition segment_at :: "Point \<Rightarrow> Point \<Rightarrow> Point \<Rightarrow> Point \<Rightarrow> fl \<Rightarrow> SegmentLine" where
  "segment_at p s f d h = \<lparr>l_pos = p, l_start = s, l_finish = f, mozdavaj = pt (px d) (neg (py d)), direction = d,
     amud = pt (py d) (neg (px d)), h_d = h\<rparr>"

lemma one_block_check:
  assumes "segment_of p q = l" and "get_distance l (pt (Fin 1000) (Fin 1000)) = Fin d" and "d < 300 \<or> 320 \<le> d"
  shows "checkLine one_block p q (Fin 100) = Some (300 \<le> d)"
proof -
  have "fadd (Fin 100) (Fin 200) = Fin 300" "fadd (Fin 300) (Fin 20) = Fin 320" by code_simp+
  then show ?thesis using assms
    by (auto simp: checkLine_def one_block_def new_GameCore_def block_at_def fgt_def not_less Let_def)
qed

definition node_a :: Point where
  "node_a = pt (Fin 1000) (Fin 600)"

definition node_b :: Point where
  "node_b = pt (Fin 1400) (Fin 600)"

definition here :: Point where
  "here = pt (Fin 1000) (Fin 500)"

definition there :: Point where
  "there = pt (Fin 1400) (Fin 1400)"


lemma small_literal: "dlit (1 / 100000) = Fin (5902958103587057 / 590295810358705651712)"
proof -
  have "log2_floor (1 / 100000) = - 17" by code_simp
  moreover have "\<lfloor>18446744073709551616 / 3125 :: rat\<rfloor> = 5902958103587056" by (rule floor_unique) simp_all
  ultimately show ?thesis by (simp add: dlit_def round64_def round_fmt_def pow2_def round_even_def Let_def)
qed

lemma normalize_parts:
  assumes "p_length v = Fin l" and "1 \<le> l" and "fdiv (px v) (Fin l) = a" and "fdiv (py v) (Fin l) = b"
  shows "normalize v = pt a b"
  using assms by (simp add: normalize_def p_length_def small_literal Let_def)

lemma segment_by_parts:
  assumes "p_div (p_add s f) (Fin 2) = m" and "p_sub s m = a" and "p_sub f m = b" and "p_sub b a = v"
    and "p_length v = Fin l" and "1 \<le> l" and "fdiv (px v) (Fin l) = x" and "fdiv (py v) (Fin l) = y" and "fdiv (Fin l) (Fin 2) = h"
  shows "segment_of s f = segment_at m a b (pt x y) h"
  using assms normalize_parts [OF assms(5-8)]
  by (simp add: segment_of_def make_segment_def l_refresh_def l_length_def segment_at_def Let_def)

lemma corner_segment1: "segment_of node_a node_b
  = segment_at (pt (Fin 1200) (Fin 600)) (pt (Fin (- 200)) (Fin 0)) (pt (Fin 200) (Fin 0)) (pt (Fin 1) (Fin 0)) (Fin 200)"
  by (rule segment_by_parts [where v = "pt (Fin 400) (Fin 0)" and l = "400"]) (code_simp)+

lemma corner_segment2: "segment_of node_b node_a
  = segment_at (pt (Fin 1200) (Fin 600)) (pt (Fin 200) (Fin 0)) (pt (Fin (- 200)) (Fin 0)) (pt (Fin (- 1)) (Fin 0)) (Fin 200)"
  by (rule segment_by_parts [where v = "pt (Fin (- 400)) (Fin 0)" and l = "400"]) (code_simp)+

lemma corner_segment3: "segment_of here node_a
  = segment_at (pt (Fin 1000) (Fin 550)) (pt (Fin 0) (Fin (- 50))) (pt (Fin 0) (Fin 50)) (pt (Fin 0) (Fin 1)) (Fin 50)"
  by (rule segment_by_parts [where v = "pt (Fin 0) (Fin 100)" and l = "100"]) (code_simp)+

lemma corner_segment4: "segment_of there node_b
  = segment_at (pt (Fin 1400) (Fin 1000)) (pt (Fin 0) (Fin 400)) (pt (Fin 0) (Fin (- 400))) (pt (Fin 0) (Fin (- 1))) (Fin 400)"
  by (rule segment_by_parts [where v = "pt (Fin 0) (Fin (- 800))" and l = "800"]) (code_simp)+

lemma corner_segment5: "segment_of there node_a
  = segment_at (pt (Fin 1200) (Fin 1000)) (pt (Fin 200) (Fin 400)) (pt (Fin (- 200)) (Fin (- 400))) (pt (Fin (-(7502999 / 16777216))) (Fin (-(7502999 / 8388608)))) (Fin (14654295 / 32768))"
  by (rule segment_by_parts [where v = "pt (Fin (- 400)) (Fin (- 800))" and l = "14654295 / 16384"]) (code_simp)+

lemma corner_segment6: "segment_of node_a there
  = segment_at (pt (Fin 1200) (Fin 1000)) (pt (Fin (- 200)) (Fin (- 400))) (pt (Fin 200) (Fin 400)) (pt (Fin (7502999 / 16777216)) (Fin (7502999 / 8388608))) (Fin (14654295 / 32768))"
  by (rule segment_by_parts [where v = "pt (Fin 400) (Fin 800)" and l = "14654295 / 16384"]) (code_simp)+

lemma corner_distance1: "get_distance (segment_of node_a node_b) (pt (Fin 1000) (Fin 1000)) = Fin 400"
  unfolding corner_segment1 by code_simp

lemma corner_distance2: "get_distance (segment_of node_b node_a) (pt (Fin 1000) (Fin 1000)) = Fin 400"
  unfolding corner_segment2 by code_simp

lemma corner_distance3: "get_distance (segment_of here node_a) (pt (Fin 1000) (Fin 1000)) = Fin 400"
  unfolding corner_segment3 by code_simp

lemma corner_distance4: "get_distance (segment_of there node_b) (pt (Fin 1000) (Fin 1000)) = Fin 400"
  unfolding corner_segment4 by code_simp

lemma corner_distance5: "get_distance (segment_of there node_a) (pt (Fin 1000) (Fin 1000)) = Fin (2930859 / 16384)"
  unfolding corner_segment5 by code_simp

lemma corner_distance6: "get_distance (segment_of node_a there) (pt (Fin 1000) (Fin 1000)) = Fin (2930859 / 16384)"
  unfolding corner_segment6 by code_simp


lemmas corner_checks = one_block_check [OF refl corner_distance1] one_block_check [OF refl corner_distance2] one_block_check [OF refl corner_distance3]
  one_block_check [OF refl corner_distance4] one_block_check [OF refl corner_distance5] one_block_check [OF refl corner_distance6]

lemma corner_distances: "p_length (p_sub node_a node_b) = Fin 400" "p_length (p_sub node_b node_a) = Fin 400" "p_length (p_sub here node_a) = Fin 100"
  "flt (p_length (p_sub here node_b)) (Fin 300) = False" "flt (p_length (p_sub there node_a)) (Fin 300) = False" "p_length (p_sub there node_b) = Fin 800"
  by code_simp+

definition corner_nodes :: MapGraph where
  "corner_nodes = pushNode node_b (pushNode node_a new_MapGraph)"

definition corner :: MapGraph where
  "corner = \<lparr>graph_nodes = [
     \<lparr>node_id = 0, node_pos = node_a, neighbors = [\<lparr>edge_v = 1, edge_l = segment_of node_a node_b, minBlockDistance = None\<rparr>]\<rparr>,
     \<lparr>node_id = 1, node_pos = node_b, neighbors = [\<lparr>edge_v = 0, edge_l = segment_of node_b node_a, minBlockDistance = None\<rparr>]\<rparr>], belman = []\<rparr>"

lemma corner_linked: "createEdges one_block (Fin 500) (Fin 100) corner_nodes = Some corner"
  by (simp add: createEdges_def Let_def upt_rec corner_nodes_def pushNode_def new_MapGraph_def link_nodes_def node_at_def corner_distances corner_checks put_node_def corner_def)

definition corner_matrix :: "shortPath list" where
  "corner_matrix = [\<lparr>nextV = Some 1, pathDistance = Fin 800\<rparr>, \<lparr>nextV = Some 1, pathDistance = Fin 400\<rparr>,
     \<lparr>nextV = Some 0, pathDistance = Fin 400\<rparr>, \<lparr>nextV = Some 0, pathDistance = Fin 800\<rparr>]"

lemma corner_sums: "fadd (Fin 400) (Fin 400) = Fin 800" "fadd (Fin 400) (Fin 800) = Fin 1200" "fadd (Fin 800) (Fin 400) = Fin 1200"
  "fadd (Fin 800) (Fin 800) = Fin 1600" "fadd (Fin 400) (Fin 1000000) = Fin 1000400" "fadd (Fin 1000000) (Fin 400) = Fin 1000400"
  "fadd (Fin 800) (Fin 1000000) = Fin 1000800" "fadd (Fin 1000000) (Fin 800) = Fin 1000800"
  "fadd (Fin 1000000) (Fin 1000000) = Fin 2000000" "fadd (Fin 0) (Fin 100) = Fin 100" "fadd (Fin 100) (Fin 800) = Fin 900"
  "fadd (Fin 900) (Fin 400) = Fin 1300" "far_away = Fin 1000000" "f_of_int 100000 = Fin 100000"
  by code_simp+

lemma corner_lengths: "edge_length \<lparr>edge_v = v, edge_l = segment_of node_a node_b, minBlockDistance = None\<rparr> = Fin 400"
  "edge_length \<lparr>edge_v = v, edge_l = segment_of node_b node_a, minBlockDistance = None\<rparr> = Fin 400"
proof -
  have "fmul (Fin 200) (Fin 2) = Fin 400" by code_simp
  then show "edge_length \<lparr>edge_v = v, edge_l = segment_of node_a node_b, minBlockDistance = None\<rparr> = Fin 400"
    "edge_length \<lparr>edge_v = v, edge_l = segment_of node_b node_a, minBlockDistance = None\<rparr> = Fin 400"
    by (simp_all add: edge_length_def corner_segment1 corner_segment2 segment_at_def)
qed

lemma corner_graph_ok: "graph_ok corner"
  by (auto simp: graph_ok_def corner_def corner_lengths less_Suc_eq)

lemma corner_belMan: "belMan corner = Some (corner\<lparr>belman := corner_matrix\<rparr>)"
  by (simp add: belMan_def Let_def corner_def set_edges_def put_entry_def corner_lengths relax_all_def relax_def entry_def
      upt_rec corner_sums fgt_def corner_matrix_def numeral_eq_Suc)

lemma corner_path: "findPath one_block here there (Fin 300) (Fin 100) (corner\<lparr>belman := corner_matrix\<rparr>)
    = Some ([here, node_a, there], Fin 1300)"
  by (simp add: findPath_def findNodes_def visible_node_def nearest_node_def corner_def corner_distances corner_checks corner_sums better_pair_def
      node_at_def entry_def corner_matrix_def Let_def follow.simps numeral_eq_Suc)

lemma corner_nodes_two: "2 = length (graph_nodes corner)"
  by (simp add: corner_def)

theorem shortest_paths_witness:
  "\<exists>v x. entry (corner\<lparr>belman := corner_matrix\<rparr>) 0 1 = Some \<lparr>nextV = v, pathDistance = Fin x\<rparr> \<and> x \<le> 1000000
     \<and> (\<forall>p l. walk_length (edges_of corner) (0 # p @ [1]) = Some l \<longrightarrow> x \<le> (1 + 1 / 2 ^ 24) ^ 2 * l)"
proof -
  have "\<exists>v x. entry (corner\<lparr>belman := corner_matrix\<rparr>) i j = Some \<lparr>nextV = v, pathDistance = Fin x\<rparr> \<and> x \<le> 1000000
     \<and> (\<forall>p l. walk_length (edges_of corner) (i # p @ [j]) = Some l \<longrightarrow> x \<le> (1 + 1 / 2 ^ 24) ^ 2 * l)" if "i < 2" "j < 2" for i j
    using shortest_paths [OF corner_graph_ok corner_nodes_two] that unfolding corner_belMan by blast
  from this [of 0 1] show ?thesis by simp
qed

definition empty_field :: GameCore where
  "empty_field = new_GameCore\<lparr>server := True, start_time := 0, milisecond_per_step := 20\<rparr>"

theorem path_found_witness:
  "\<exists>g g' ps d. createEdges empty_field (Fin 500) (Fin 100) (fold pushNode [node_a, node_b] new_MapGraph) = Some g
     \<and> belMan g = Some g' \<and> findPath empty_field here there (Fin 300) (Fin 100) g' = Some (here # ps @ [there], d)
     \<and> set ps \<subseteq> set [node_a, node_b] \<and> clear_legs empty_field (Fin 100) (here # ps)"
proof (rule path_found)
  show "game no_trig empty_field" unfolding empty_field_def by (rule game.start)
  show "\<forall>p \<in> set [node_a, node_b]. on_map 126 p" by (simp add: on_map_def node_a_def node_b_def pt_def pow2_def)
qed

text \<open>The last node of a path is left out: the path around a corner leads from the node before it straight
  to the target, through the block, although the leg from the node left out is clear.\<close>

theorem path_cuts_corner:
  "\<exists>g g' d. createEdges one_block (Fin 500) (Fin 100) corner_nodes = Some g \<and> belMan g = Some g'
     \<and> findPath one_block here there (Fin 300) (Fin 100) g' = Some ([here, node_a, there], d)
     \<and> \<not> sees one_block (Fin 100) node_a there \<and> sees one_block (Fin 100) node_a node_b \<and> sees one_block (Fin 100) there node_b"
  using corner_linked corner_belMan corner_path by (simp add: sees_def corner_checks)

end
