(* ===== verification/SharedMemory.thy ===== *)
theory SharedMemory
  imports DB
begin

text \<open>
  The maps in shared memory of \<open>Engine/SharedMemoryLoger\<close>. Each is a static pointer that stays null when the
  segment cannot be opened. The three classes have the same operations; the log also formats its entries.
\<close>

section \<open>The maps\<close>

type_synonym 'v shared = "(int, 'v) stdmap option"

definition shared_update :: "int \<Rightarrow> 'v \<Rightarrow> 'v shared \<Rightarrow> 'v shared" where
  "shared_update i v = map_option (set_key i v)"

definition shared_remove :: "int \<Rightarrow> 'v shared \<Rightarrow> 'v shared" where
  "shared_remove i = map_option (erase_key i)"

definition shared_clear :: "'v shared \<Rightarrow> 'v shared" where
  "shared_clear = map_option (\<lambda>m. [])"

section \<open>The log\<close>

record LogParametr =
  log_id :: int
  log_pid :: int
  log_line_number :: int
  log_func :: "byte list"
  log_file :: "byte list"
  log_data :: "byte list"

definition log_arrays :: "LogParametr \<Rightarrow> bool" where
  "log_arrays p \<longleftrightarrow> length (log_func p) = 64 \<and> length (log_file p) = 64 \<and> length (log_data p) = 256"

text \<open>A new entry of the map is value-initialised.\<close>

definition zero_log :: LogParametr where
  "zero_log = \<lparr>log_id = 0, log_pid = 0, log_line_number = 0, log_func = replicate 64 0, log_file = replicate 64 0,
     log_data = replicate 256 0\<rparr>"

definition log_entry :: "int \<Rightarrow> int \<Rightarrow> byte list \<Rightarrow> LogParametr shared \<Rightarrow> LogParametr shared option" where
  "log_entry pid i msg mem = (case mem of None \<Rightarrow> Some None
   | Some m \<Rightarrow> do {
       let (m, p) = index_key zero_log m i;
       d \<leftarrow> c_strcpy msg (log_data p);
       Some (Some (set_key i (p\<lparr>log_pid := pid, log_data := d\<rparr>) m)) })"

text \<open>The local \<open>l\<close> starts with what the stack holds; the map is used unchecked.\<close>

definition log_line :: "int \<Rightarrow> LogParametr \<Rightarrow> byte list \<Rightarrow> byte list \<Rightarrow> int \<Rightarrow> byte list \<Rightarrow> LogParametr shared \<Rightarrow> LogParametr shared option" where
  "log_line pid l file func line msg mem = do {
     let l = l\<lparr>log_id := 0, log_pid := pid, log_line_number := line\<rparr>;
     d \<leftarrow> c_strcpy msg (log_data l);
     fi \<leftarrow> c_strcpy file (log_file l);
     fu \<leftarrow> c_strcpy func (log_func l);
     m \<leftarrow> mem;
     Some (Some (set_key 0 (l\<lparr>log_data := d, log_file := fi, log_func := fu\<rparr>) m)) }"

section \<open>Lemmas\<close>

lemma shared_lookup:
  "ordered m \<Longrightarrow> map_option (\<lambda>m. find_key m j) (shared_update i v (Some m)) = Some (if j = i then Some v else find_key m j)"
  by (simp add: shared_update_def find_key_set_key)

text \<open>Writing a line returns exactly if the map is there and all three texts fit; only the last line stays.\<close>

lemma log_line_returns:
  assumes "log_arrays l"
  shows "log_line pid l file func line msg mem \<noteq> None \<longleftrightarrow>
    mem \<noteq> None \<and> length (c_str file) < 64 \<and> length (c_str func) < 64 \<and> length (c_str msg) < 256"
proof -
  have "c_strcpy s d \<noteq> None \<longleftrightarrow> length (c_str s) < length d" for s d
    by (auto simp: c_strcpy_def Let_def)
  then have "c_strcpy s d = None \<longleftrightarrow> \<not> length (c_str s) < length d" for s d by blast
  then show ?thesis using assms by (auto simp: log_line_def log_arrays_def Let_def bind_eq_None_conv)
qed

lemma log_entry_returns:
  assumes "\<forall>m p. mem = Some m \<longrightarrow> find_key m i = Some p \<longrightarrow> log_arrays p"
  shows "log_entry pid i msg mem \<noteq> None \<longleftrightarrow> mem = None \<or> length (c_str msg) < 256"
proof (cases mem)
  case (Some m)
  have "log_arrays (snd (index_key zero_log m i))"
    using assms Some by (auto simp: index_key_def log_arrays_def zero_log_def split: option.split)
  then show ?thesis using Some by (auto simp: log_entry_def log_arrays_def c_strcpy_def Let_def split: prod.splits)
qed (simp add: log_entry_def)

end
