(* ===== verification/Spec2Isabelle.thy ===== *)
theory Spec2Isabelle
  imports Ranking AsyncMap Messages DB ClientEvents Protocol Front HttpParse Url PathSearch SharedMemory
begin

text \<open>
  A verification development for the game server of tank.io.

  \<^bold>\<open>The program.\<close> Clients talk to \<open>MainServer\<close> (\<open>Classes/MainServer\<close>), which extends \<open>BaseServer\<close>
  (\<open>Engine/BaseServer\<close>), by datagrams and TCP connections; \<open>BaseServer\<close> finds the user of a message,
  answers it with an acknowledgement, drops messages it has seen, and resends its own messages from a
  queue of jobs until they are acknowledged. \<open>MainServer\<close> hands a message to the room of the user
  (\<open>Classes/Room\<close>), which runs one game (\<open>Classes/GameCore\<close>) against the clock and sends the changed
  objects to its users, or to the user database (\<open>DB/DBAccess\<close>), whose ranking is the tree of
  \<open>base/rbtree\<close>. An HTTP front end (\<open>http/\<close>) registers users through the same job queue.

  \<^bold>\<open>Theories and code.\<close>
  \<^item> \<open>Prelude\<close>: machine integers as \<open>int\<close> with the wrap-around written out, pointers that may be
    null, loops over containers (\<open>for_each\<close>). \<open>StdMap\<close>: \<open>std::map\<close> as sorted association lists.
  \<^item> \<open>RBTree\<close>: the pointer program of \<open>base/rbtree.h\<close> and \<open>rbtree.inl\<close> over an explicit store of
    nodes; \<open>RBTree_Shape\<close>, \<open>RBTree_Insert\<close>, \<open>RBTree_Order\<close>, \<open>RBTree_Query\<close>, \<open>RBTree_Iter\<close>: when a
    store holds a tree, insertion as a refinement of insertion into trees, order, queries, iterators.
    \<open>RBTree_Remove\<close>, \<open>RBTree_Removed\<close>: the removal functions and the destructor, and what \<open>RB_DELETE\<close>
    does to a balanced tree. \<open>Ranking\<close>: the tree at the order \<open>ScoreIndex::operator<\<close> of \<open>DB/DBAccess.cpp\<close>.
  \<^item> \<open>AsyncMap\<close>: \<open>base/asyncmap.h\<close>, the ring buffer, the job queue and the locked map.
  \<^item> \<open>Bytes\<close>, \<open>Messages\<close>: packed structs as layouts over byte buffers; \<open>base_message/BaseMessage.h\<close>,
    \<open>game_message/Messages.h\<close>, \<open>societalgaming.h\<close>.
  \<^item> \<open>DB\<close>: \<open>DB/DBAccess\<close> with the users as a map and the ranking as a pointer tree.
  \<^item> \<open>Float32\<close>, \<open>FloatBits\<close>, \<open>Geometry\<close>: IEEE floats and their 32 bits, \<open>cocos2d_server/CocoBase.inl\<close>, \<open>MathShapeUtils\<close>.
  \<^item> \<open>GameObjects\<close>, \<open>GameStep\<close>, \<open>GameData\<close>: the classes of \<open>Classes/GameCore\<close> as records (inheritance
    is record extension), one step of \<open>GameCore::update\<close>, the states sent to clients. The record
    \<open>GameCore\<close> keeps the store of objects and the id maps of the class, together with
    \<open>last_step_events\<close> of the view handler. \<open>GameInv\<close>, \<open>GameRun\<close>: the invariant of a game and the
    games a server reaches. \<open>ClientSync\<close>, \<open>ClientEvents\<close>: \<open>set_data\<close> and \<open>BoardObjectEvent\<close>, by which a core
    follows the states a server sends.
  \<^item> \<open>PathFinding\<close>: the graph \<open>Ai/tools/MapGraph\<close> and the AI that patrols along its paths.
    \<open>Rounding\<close>: the operations on floats as rounded rational operations, monotone and with an error
    of at most one part in \<open>2 ^ 24\<close>. \<open>ShortestPaths\<close>: the phases of \<open>belMan\<close> on any lengths, and why \<open>follow\<close>
    ends; \<open>ShortestWalks\<close>: its entries against the walks of the graph; \<open>PathSearch\<close>: the graphs
    \<open>createEdges\<close> makes and the paths \<open>findPath\<close> returns.
  \<^item> \<open>Engine\<close>: ports, out-boxes, resend jobs, message ids and the shared memory maps of
    \<open>Engine/BaseServer\<close>; \<open>SharedMemory\<close>: the other maps of \<open>Engine/SharedMemoryLoger\<close>. \<open>Room\<close>: \<open>Classes/Room\<close>. \<open>MainServer\<close>:
    \<open>Classes/MainServer\<close>, a record that extends \<open>Engine\<close>. \<open>Receive\<close>: \<open>udp_recive\<close>, \<open>tcp_recive\<close> and
    the login and registration jobs of \<open>Engine/BaseServer.cpp\<close>.
  \<^item> \<open>Identity\<close>, \<open>Protocol\<close>: what the handlers leave alone, who may talk to the server, and that a
    message is handled once. \<open>Lobby\<close>: rooms, leagues and joining. \<open>Served\<close>,
    \<open>Turns\<close>: the states a server reaches by all its inputs, turns and jobs in any order, and their rooms.
  \<^item> \<open>Http\<close>, \<open>HttpParse\<close>: \<open>http/request_parser\<close>, \<open>reply\<close>, \<open>request_handler\<close>, one read of a
    \<open>connection\<close>, \<open>connection_manager\<close>; the language the parser accepts. \<open>Url\<close>: \<open>url_decode\<close>
    and the table of mime types. \<open>Front\<close>: the program as \<open>server_delegator.cpp\<close> puts it together, the two HTTP
    handlers, the life of a connection in \<open>http/server.cpp\<close> and \<open>connection.cpp\<close>, \<open>base_message/jsonutils\<close>.

  \<^bold>\<open>Errors.\<close> A null dereference, an access out of bounds, a signed overflow the code can reach, a
  failed conversion of a float and an exception are \<open>None\<close>. A theorem that an operation returns is a
  theorem that it avoids all of them.

  \<^bold>\<open>Interfaces.\<close> What one part needs of another is a locale, interpreted on the code's model:
  \<open>ordered_map\<close> (maps), \<open>fifo\<close> (both queues), \<open>cells\<close> (fields of a struct), \<open>strict_order\<close> and
  \<open>ranked_set\<close> (the tree), \<open>registry\<close> (the ports of the users), \<open>char_loop\<close> and \<open>number_reader\<close> (the
  states of the request parser that collect characters).

  \<^bold>\<open>What is shown.\<close>
  \<^item> Ranking: insertion never fails and keeps the sorted set and the counts; rank and index are
    inverse; the height is logarithmic; \<open>my_delete\<close> loses elements or crashes;
    \<open>RB_DELETE\<close> removes one value and keeps links and sizes right, or never returns.
  \<^item> Containers: the ring buffer is a queue for one producer and one consumer in any interleaving.
  \<^item> Wire format: fields are read back as written; type codes; the bound of a copied action.
  \<^item> Database: registration followed by login; what loading tables leaves unusable; the top list.
  \<^item> Game: the invariant of the id maps over all reachable games, death and removal, targets. A state
    sent by one core and applied by another arrives bit for bit; late states are not caught up with.
  \<^item> Path finding: the matrix holds the lengths of shortest walks up to the rounding of at most \<open>n\<close> sums,
    for all float lengths up to the 1000000 the code uses for "no path" (\<open>graph_ok\<close>); on the graphs the code
    makes, the search ends however the sums round, and every leg of the path but the last is clear of
    obstacles.
  \<^item> Room: it is created with ten bots and its core is a reachable game; it catches up with the clock in exactly
    the missing steps; a client gets exactly the states it has not acknowledged, as long as no removed object
    is left (then the copy is undefined) and the states fit a datagram; an action is taken once, answered to
    the sender and told to every other user.
  \<^item> Server: in every reachable state all rooms are stored and listed under their ids and play games
    that satisfy the invariant; a turn removes exactly the finished rooms and brings the others to the clock.
  \<^item> Protocol: message ids are distinct; resending and acknowledgement; a wrong cookie is rejected and
    changes nothing; a datagram is handled once; a registered user can be taken over; joining always
    leads into a room of the league.
  \<^item> HTTP: the parser accepts exactly the requests of a grammar and builds exactly the request they
    describe; its state is well typed at every character. A registration over HTTP is answered once, when
    its job has run, with an id and a password that log in: the handler queues the job, and \<open>handle_request\<close>
    tells the connection not to answer yet.

  \<^bold>\<open>Loops and fuel.\<close> Loops over containers are structural. \<open>recursive_insertion\<close> and
  \<open>recursive_search\<close> descend one level per unit of fuel, and the loops over a tree get one more than the
  number of addresses ever used, which bounds any path; the theorems about the ranking show that it is
  enough. \<open>run_inputs\<close> erases one action per turn, so the number of actions is enough. \<open>catch_up\<close>, the loop of
  \<open>Room::update\<close>, is a partial function whose termination is the theorem \<open>room_catches_up\<close>, and so is \<open>follow\<close>, the
  loop of \<open>findPath\<close>, whose termination is \<open>path_found\<close>. Square roots are found by a search whose bound
  suffices by \<open>isqrt_root\<close>.

  \<^bold>\<open>Parameters.\<close> The trigonometric functions of the C library (\<open>libm\<close>, and for the graph
  \<open>libm_double\<close>), the values of \<open>rand\<close>
  (\<open>rands\<close>), the contents of uninitialised memory (\<open>junk\<close>), the clock, what the SQL statements answer, and
  the texts rapidjson reads and writes (\<open>json\<close>). No law about them is assumed.

  \<^bold>\<open>Not modelled.\<close> Sockets, output to the log, the JSON library itself, opening the database and the shared
  memory, and the sample programs. Threads: each handler, job and turn is one step. The ring buffer is
  modelled step by step, but the io, room and database threads share users, ports and rooms without one
  common lock, so that handlers do not interleave is an assumption about the program, not a
  consequence of its locks.

  \<^bold>\<open>Where the model is coarser than the machine.\<close> Floats are values: the two zeros are one value and all NaNs are
  one value, also where the code copies bits (\<open>float_bits\<close>). The index \<open>by_index\<close> takes is an
  integer, which leaves out the overflow at the smallest \<open>int\<close>. The members of a new port that have no
  initialiser all hold the same arbitrary value.
  The sets of blocks and lines, ordered by address in the code, are lists in order of creation.
\<close>

end
